(* ===== verification/Sen_Prelude.thy ===== *)
theory Sen_Prelude
  imports Main "HOL-Library.Word"
begin

text \<open>
  What the component theories share: the names of the C++ integer types, the result type of
  code that may throw, sequencing of such code, the loop that advances an index over a text, and
  the generic list and word facts the component proofs use. The collections \<open>sen_simps\<close>
  (equations a component wants its clients to rewrite with) and \<open>sen_intros\<close> are filled by the
  components.
\<close>

named_theorems sen_simps
named_theorems sen_intros

section \<open>Machine integers\<close>

type_synonym u8 = "8 word"
type_synonym u16 = "16 word"
type_synonym u32 = "32 word"
type_synonym u64 = "64 word"

text \<open>
  A signed C++ integer is kept as the word of its two's complement representation and read with
  \<open>sint\<close>; the types below only say which reading the source uses.
\<close>

type_synonym i16 = "16 word"
type_synonym i32 = "32 word"
type_synonym i64 = "64 word"

section \<open>Code that may throw\<close>

definition rbind :: "'e + 'a \<Rightarrow> ('a \<Rightarrow> 'e + 'b) \<Rightarrow> 'e + 'b" where
  "rbind r f = (case r of Inl e \<Rightarrow> Inl e | Inr x \<Rightarrow> f x)"

lemma rbind_simps [simp]:
  "rbind (Inl e) f = Inl e"
  "rbind (Inr x) f = f x"
  by (simp_all add: rbind_def)

lemma rbind_Inr_conv:
  "rbind r f = Inr y \<longleftrightarrow> (\<exists>x. r = Inr x \<and> f x = Inr y)"
  by (cases r) auto

lemma rbind_Inl_conv:
  "rbind r f = Inl e \<longleftrightarrow> r = Inl e \<or> (\<exists>x. r = Inr x \<and> f x = Inl e)"
  by (cases r) auto

lemma rbind_assoc: "rbind (rbind r f) g = rbind r (\<lambda>x. rbind (f x) g)"
  by (cases r) auto

text \<open>Walks down a chain of tests without splitting on their conditions.\<close>

lemma if_eqE:
  "(if b then x else y) = z \<Longrightarrow> (x = z \<Longrightarrow> P) \<Longrightarrow> (y = z \<Longrightarrow> P) \<Longrightarrow> P"
  by (cases b) auto

lemma rbind_cong [fundef_cong]:
  "r = r' \<Longrightarrow> (\<And>x. r' = Inr x \<Longrightarrow> f x = f' x) \<Longrightarrow> rbind r f = rbind r' f'"
  by (cases r') auto

section \<open>Checks that throw\<close>

text \<open>
  \<open>throwIf b e\<close> is a guard, \<open>forEach f xs\<close> a loop whose body may throw, and \<open>forPairs f xs\<close> the two
  nested loops that compare every element with every other one.
\<close>

definition throwIf :: "bool \<Rightarrow> 'e \<Rightarrow> 'e + unit" where
  "throwIf b e = (if b then Inl e else Inr ())"

lemma throwIf_simps [simp]:
  "throwIf b e = Inr u \<longleftrightarrow> \<not> b"
  "throwIf b e = Inl e' \<longleftrightarrow> b \<and> e' = e"
  "throwIf True e = Inl e"
  "throwIf False e = Inr ()"
  by (auto simp: throwIf_def)

fun forEach :: "('a \<Rightarrow> 'e + unit) \<Rightarrow> 'a list \<Rightarrow> 'e + unit" where
  "forEach f [] = Inr ()"
| "forEach f (x # xs) = rbind (f x) (\<lambda>_. forEach f xs)"

lemma forEach_ok [simp]: "forEach f xs = Inr u \<longleftrightarrow> (\<forall>x \<in> set xs. f x = Inr ())"
  by (induction xs) (auto simp: rbind_Inr_conv)

definition forPairs :: "('a \<Rightarrow> 'a \<Rightarrow> 'e + unit) \<Rightarrow> 'a list \<Rightarrow> 'e + unit" where
  "forPairs f xs =
     forEach (\<lambda>i. forEach (\<lambda>j. if j = i then Inr () else f (xs ! i) (xs ! j)) [0..<length xs]) [0..<length xs]"

lemma forPairs_ok:
  "forPairs f xs = Inr u \<longleftrightarrow> (\<forall>i < length xs. \<forall>j < length xs. i \<noteq> j \<longrightarrow> f (xs ! i) (xs ! j) = Inr ())"
  by (auto simp: forPairs_def)

lemma distinct_by_pairs:
  "(\<forall>i < length xs. \<forall>j < length xs. i \<noteq> j \<longrightarrow> g (xs ! j) \<noteq> g (xs ! i)) \<longleftrightarrow> distinct (map g xs)"
  by (auto simp: distinct_conv_nth)

section \<open>Scanning a text by index\<close>

text \<open>
  \<open>skipWhile P xs i\<close> is the loop \<^verbatim>\<open>while (i < size && P(text[i])) ++i;\<close> as a function of the
  start index.
\<close>

function skipWhile :: "('a \<Rightarrow> bool) \<Rightarrow> 'a list \<Rightarrow> nat \<Rightarrow> nat" where
  "skipWhile P xs i = (if i < length xs \<and> P (xs ! i) then skipWhile P xs (Suc i) else i)"
  by pat_completeness auto
termination
  by (relation "measure (\<lambda>(P, xs, i). length xs - i)") auto

declare skipWhile.simps [simp del]

lemma skipWhile_takeWhile:
  "skipWhile P xs i = i + length (takeWhile P (drop i xs))"
proof (induction P xs i rule: skipWhile.induct)
  case (1 P xs i)
  show ?case
  proof (cases "i < length xs \<and> P (xs ! i)")
    case True
    then have "drop i xs = xs ! i # drop (Suc i) xs"
      by (simp add: Cons_nth_drop_Suc)
    with True 1 show ?thesis
      by (simp add: skipWhile.simps [of P xs i])
  next
    case False
    then have "takeWhile P (drop i xs) = []"
      by (cases "i < length xs") (auto simp flip: Cons_nth_drop_Suc)
    with False show ?thesis
      by (auto simp add: skipWhile.simps [of P xs i])
  qed
qed

lemma skipWhile_ge: "i \<le> skipWhile P xs i"
  by (simp add: skipWhile_takeWhile)

lemma skipWhile_le: "i \<le> length xs \<Longrightarrow> skipWhile P xs i \<le> length xs"
  using length_takeWhile_le [of P "drop i xs"] by (simp add: skipWhile_takeWhile)

lemma skipWhile_stop: "skipWhile P xs i < length xs \<Longrightarrow> \<not> P (xs ! skipWhile P xs i)"
proof (induction P xs i rule: skipWhile.induct)
  case (1 P xs i)
  show ?case
  proof (cases "i < length xs \<and> P (xs ! i)")
    case True
    with 1 show ?thesis by (simp add: skipWhile.simps [of P xs i])
  next
    case False
    with 1 show ?thesis by (simp add: skipWhile.simps [of P xs i])
  qed
qed

lemma skipWhile_all: "i \<le> j \<Longrightarrow> j < skipWhile P xs i \<Longrightarrow> P (xs ! j)"
proof (induction P xs i rule: skipWhile.induct)
  case (1 P xs i)
  show ?case
  proof (cases "i < length xs \<and> P (xs ! i)")
    case True
    with 1 show ?thesis by (cases "i = j") (auto simp: skipWhile.simps [of P xs i])
  next
    case False
    with "1.prems" show ?thesis by (simp add: skipWhile.simps [of P xs i])
  qed
qed

section \<open>Lists\<close>

text \<open>\<open>slice xs i n\<close> is \<^verbatim>\<open>text.substr(i, n)\<close> for \<open>i \<le> length xs\<close>.\<close>

definition slice :: "'a list \<Rightarrow> nat \<Rightarrow> nat \<Rightarrow> 'a list" where
  "slice xs i n = take n (drop i xs)"

lemma drop_nth_Cons: "drop i xs = y # ys \<Longrightarrow> i < length xs \<and> xs ! i = y \<and> drop (Suc i) xs = ys"
  by (metis Cons_nth_drop_Suc drop_eq_Nil2 leI list.distinct(1) list.inject)

lemma last_nth_less: "xs \<noteq> [] \<Longrightarrow> length xs - 1 < length xs"
  by simp

end
