(* ===== verification/Memory_Pool.thy ===== *)
theory Memory_Pool
  imports Sen_Prelude
begin

text \<open>
  The pool of fixed-size memory blocks (\<^verbatim>\<open>FixedMemoryBlockPool\<close> in \<^verbatim>\<open>core/base/memory_block.h\<close>): buckets of blocks,
  and a list of the free ones threaded through the blocks themselves. A block is named by its bucket and
  its place in it. The link shares the memory of the block with the bytes of its user (a union), so a
  user that writes to a block leaves an arbitrary link behind. The mutex every operation takes makes them
  atomic and is not modelled further.
\<close>

section \<open>State and operations\<close>

type_synonym block = "nat \<times> nat"

record Pool =
  blocksPerBucket :: nat
  buckets :: nat
  firstBlock :: "block option"
  nextBlock :: "block \<Rightarrow> block option"

text \<open>The loop of \<^verbatim>\<open>resize\<close> that links the blocks of the new bucket.\<close>

fun linkBlocks :: "nat \<Rightarrow> nat list \<Rightarrow> (block \<Rightarrow> block option) \<Rightarrow> block \<Rightarrow> block option" where
  "linkBlocks k [] nx = nx"
| "linkBlocks k (i # is) nx = linkBlocks k is (nx((k, i) := Some (k, Suc i)))"

text \<open>\<open>None\<close> is a failed \<^verbatim>\<open>SEN_ENSURE\<close> or \<^verbatim>\<open>SEN_ASSERT\<close>.\<close>

definition resize :: "Pool \<Rightarrow> Pool option" where
  "resize P =
     (let k = buckets P;
          nx = linkBlocks k [0..<blocksPerBucket P - 2] (\<lambda>b. if fst b = k then None else nextBlock P b)
      in if nx (k, blocksPerBucket P - 1) \<noteq> None then None
         else Some (P\<lparr>nextBlock := nx, firstBlock := Some (k, 0), buckets := Suc k\<rparr>))"

definition poolMake :: "nat \<Rightarrow> Pool option" where
  "poolMake n =
     (if n < 2 then None
      else resize \<lparr>blocksPerBucket = n, buckets = 0, firstBlock = None, nextBlock = (\<lambda>_. None)\<rparr>)"

definition doAlloc :: "Pool \<Rightarrow> (block \<times> Pool) option" where
  "doAlloc P =
     Option.bind (if firstBlock P = None then resize P else Some P) (\<lambda>Q.
       map_option (\<lambda>b. (b, Q\<lparr>firstBlock := nextBlock Q b\<rparr>)) (firstBlock Q))"

definition doFree :: "block \<Rightarrow> Pool \<Rightarrow> Pool" where
  "doFree b P = P\<lparr>nextBlock := (nextBlock P)(b := firstBlock P), firstBlock := Some b\<rparr>"

text \<open>
  The histories of a pool, with the set of the blocks in use: a block is freed by the one who uses it, and
  only the user of a block writes to it.
\<close>

inductive poolRun :: "nat \<Rightarrow> Pool \<Rightarrow> block set \<Rightarrow> bool" for n where
  make: "poolMake n = Some P \<Longrightarrow> poolRun n P {}"
| alloc: "poolRun n P U \<Longrightarrow> doAlloc P = Some (b, P') \<Longrightarrow> poolRun n P' (insert b U)"
| free: "poolRun n P U \<Longrightarrow> b \<in> U \<Longrightarrow> poolRun n (doFree b P) (U - {b})"
| scribble: "poolRun n P U \<Longrightarrow> b \<in> U \<Longrightarrow> poolRun n (P\<lparr>nextBlock := (nextBlock P)(b := v)\<rparr>) U"

section \<open>The list of free blocks\<close>

fun isChain :: "(block \<Rightarrow> block option) \<Rightarrow> block option \<Rightarrow> block list \<Rightarrow> bool" where
  "isChain nx f [] \<longleftrightarrow> f = None"
| "isChain nx f (b # bs) \<longleftrightarrow> f = Some b \<and> isChain nx (nx b) bs"

lemma isChain_upd [simp]: "b \<notin> set bs \<Longrightarrow> isChain (nx(b := v)) f bs \<longleftrightarrow> isChain nx f bs"
  by (induction bs arbitrary: f) auto

lemma linkBlocks_apply:
  "linkBlocks k is nx b = (if fst b = k \<and> snd b \<in> set is then Some (k, Suc (snd b)) else nx b)"
  by (induction "is" arbitrary: nx) (auto simp: prod_eq_iff)

lemma isChain_bucket:
  assumes "\<And>j. j < m \<Longrightarrow> nx (k, j) = (if Suc j < m then Some (k, Suc j) else None)" "i < m"
  shows "isChain nx (Some (k, i)) (map (Pair k) [i..<m])"
  using assms(2)
proof (induction "m - i" arbitrary: i)
  case (Suc d)
  then show ?case
    using assms(1) [of i] by (cases "Suc i < m") (auto simp: upt_rec [of i])
qed simp

text \<open>
  The blocks that are handed out: all of a bucket but the last one, which no link leads to.
\<close>

definition usable :: "Pool \<Rightarrow> block set" where
  "usable P = {..<buckets P} \<times> {..<blocksPerBucket P - 1}"

definition poolOk :: "nat \<Rightarrow> Pool \<Rightarrow> block set \<Rightarrow> bool" where
  "poolOk n P U \<longleftrightarrow>
     2 \<le> n \<and> blocksPerBucket P = n \<and>
     (\<exists>bs. isChain (nextBlock P) (firstBlock P) bs \<and> distinct bs \<and> set bs \<inter> U = {} \<and> set bs \<union> U = usable P)"

lemma poolOkI:
  assumes "2 \<le> n" "blocksPerBucket P = n" "isChain (nextBlock P) (firstBlock P) bs" "distinct bs"
    "set bs \<inter> U = {}" "set bs \<union> U = usable P"
  shows "poolOk n P U"
  unfolding poolOk_def using assms by blast

lemma poolOkE:
  assumes "poolOk n P U"
  obtains bs where "2 \<le> n" "blocksPerBucket P = n" "isChain (nextBlock P) (firstBlock P) bs" "distinct bs"
    "set bs \<inter> U = {}" "set bs \<union> U = usable P"
  using assms unfolding poolOk_def by blast

lemma usable_upd [simp]: "usable (P\<lparr>firstBlock := f\<rparr>) = usable P" "usable (P\<lparr>nextBlock := nx\<rparr>) = usable P"
  by (simp_all add: usable_def)

lemma resize_some:
  assumes "2 \<le> blocksPerBucket P"
  obtains Q where "resize P = Some Q" "blocksPerBucket Q = blocksPerBucket P" "firstBlock Q = Some (buckets P, 0)"
    "isChain (nextBlock Q) (firstBlock Q) (map (Pair (buckets P)) [0..<blocksPerBucket P - 1])"
    "usable Q = usable P \<union> Pair (buckets P) ` {..<blocksPerBucket P - 1}"
proof -
  let ?k = "buckets P" and ?n = "blocksPerBucket P"
  define nx where "nx = linkBlocks ?k [0..<?n - 2] (\<lambda>b. if fst b = ?k then None else nextBlock P b)"
  let ?Q = "P\<lparr>nextBlock := nx, firstBlock := Some (?k, 0), buckets := Suc ?k\<rparr>"
  have nx: "nx (?k, j) = (if Suc j < ?n - 1 then Some (?k, Suc j) else None)" for j
    using assms by (auto simp: nx_def linkBlocks_apply)
  have "resize P = Some ?Q"
    using nx [of "?n - 1"] unfolding resize_def nx_def [symmetric] Let_def by simp
  moreover have "isChain nx (Some (?k, 0)) (map (Pair ?k) [0..<?n - 1])"
    by (rule isChain_bucket) (use nx assms in auto)
  moreover have "usable ?Q = usable P \<union> Pair ?k ` {..<?n - 1}"
    by (auto simp: usable_def less_Suc_eq)
  ultimately show thesis by (intro that [of ?Q]) simp_all
qed

lemma poolOk_take:
  assumes "poolOk n P U" "firstBlock P = Some b"
  shows "poolOk n (P\<lparr>firstBlock := nextBlock P b\<rparr>) (insert b U) \<and> b \<in> usable P - U"
proof -
  from assms(1) obtain bs where bs: "2 \<le> n" "blocksPerBucket P = n" "isChain (nextBlock P) (firstBlock P) bs"
    "distinct bs" "set bs \<inter> U = {}" "set bs \<union> U = usable P" by (rule poolOkE)
  obtain cs where cs: "bs = b # cs" using bs(3) assms(2) by (cases bs) auto
  have "poolOk n (P\<lparr>firstBlock := nextBlock P b\<rparr>) (insert b U)"
    by (rule poolOkI [where bs = cs]) (use bs assms(2) in \<open>auto simp: cs\<close>)
  moreover have "b \<in> usable P - U" using bs unfolding cs by auto
  ultimately show ?thesis by blast
qed

text \<open>A pool that is used up grows; one that is not does not.\<close>

lemma poolOk_grow:
  assumes "poolOk n P U" "firstBlock P = None"
  obtains Q where "resize P = Some Q" "poolOk n Q U" "firstBlock Q \<noteq> None" "usable P = U"
proof -
  from assms(1) obtain bs where n: "2 \<le> n" "blocksPerBucket P = n" and "isChain (nextBlock P) (firstBlock P) bs"
    and "set bs \<union> U = usable P" by (rule poolOkE)
  then have U: "U = usable P" using assms(2) by (cases bs) auto
  obtain Q where Q: "resize P = Some Q" "blocksPerBucket Q = blocksPerBucket P"
      "firstBlock Q = Some (buckets P, 0)"
      "isChain (nextBlock Q) (firstBlock Q) (map (Pair (buckets P)) [0..<n - 1])"
      "usable Q = usable P \<union> Pair (buckets P) ` {..<n - 1}"
    using resize_some [of P] n by metis
  let ?bs = "map (Pair (buckets P)) [0..<n - 1]"
  have "distinct ?bs" "set ?bs \<union> U = usable Q"
    using Q(5) U by (auto simp: distinct_map inj_on_def)
  moreover have "set ?bs \<inter> U = {}" unfolding U by (auto simp: usable_def)
  ultimately have "poolOk n Q U" using Q n by (intro poolOkI [of n Q ?bs]) simp_all
  with Q U show thesis by (intro that [of Q]) auto
qed

lemma poolOk_alloc:
  assumes "poolOk n P U"
  obtains b P' where "doAlloc P = Some (b, P')" "poolOk n P' (insert b U)" "b \<notin> U" "b \<in> usable P'"
    "buckets P' = (if U = usable P then Suc (buckets P) else buckets P)"
proof (cases "firstBlock P")
  case None
  obtain Q where Q: "resize P = Some Q" "poolOk n Q U" "firstBlock Q \<noteq> None" "usable P = U"
    by (rule poolOk_grow [OF assms None])
  then obtain b where b: "firstBlock Q = Some b" by auto
  have "buckets Q = Suc (buckets P)" using Q(1) by (auto simp: resize_def Let_def split: if_splits)
  then show thesis
    using None Q b poolOk_take [OF Q(2) b]
    by (intro that [of b "Q\<lparr>firstBlock := nextBlock Q b\<rparr>"]) (simp_all add: doAlloc_def)
next
  case (Some b)
  from poolOk_take [OF assms this] show thesis
    using Some by (intro that [of b "P\<lparr>firstBlock := nextBlock P b\<rparr>"]) (auto simp: doAlloc_def)
qed

lemma poolOk_free:
  assumes "poolOk n P U" "b \<in> U" shows "poolOk n (doFree b P) (U - {b})"
proof -
  from assms(1) obtain bs where bs: "2 \<le> n" "blocksPerBucket P = n" "isChain (nextBlock P) (firstBlock P) bs"
    "distinct bs" "set bs \<inter> U = {}" "set bs \<union> U = usable P" by (rule poolOkE)
  have "isChain ((nextBlock P)(b := firstBlock P)) (firstBlock P) bs"
    using bs(3,5) assms(2) by (subst isChain_upd) auto
  then show ?thesis
    by (intro poolOkI [of n _ "b # bs"]) (use bs assms(2) in \<open>auto simp: doFree_def usable_def\<close>)
qed

lemma poolOk_write:
  assumes "poolOk n P U" "b \<in> U" shows "poolOk n (P\<lparr>nextBlock := (nextBlock P)(b := v)\<rparr>) U"
proof -
  from assms(1) obtain bs where bs: "2 \<le> n" "blocksPerBucket P = n" "isChain (nextBlock P) (firstBlock P) bs"
    "distinct bs" "set bs \<inter> U = {}" "set bs \<union> U = usable P" by (rule poolOkE)
  have "isChain ((nextBlock P)(b := v)) (firstBlock P) bs"
    using bs(3,5) assms(2) by (subst isChain_upd) auto
  then show ?thesis by (intro poolOkI [of n _ bs]) (use bs in simp_all)
qed

lemma poolOk_make: "2 \<le> n \<Longrightarrow> \<exists>P. poolMake n = Some P \<and> poolOk n P {}"
  by (rule resize_some [of "\<lparr>blocksPerBucket = n, buckets = 0, firstBlock = None, nextBlock = (\<lambda>_. None)\<rparr>"])
    (auto simp: poolMake_def poolOk_def usable_def distinct_map inj_on_def intro!: exI [of _ "map (Pair 0) [0..<n - 1]"])

lemma poolRun_ok: "poolRun n P U \<Longrightarrow> poolOk n P U"
proof (induction rule: poolRun.induct)
  case (make P)
  then have "2 \<le> n" by (auto simp: poolMake_def split: if_splits)
  then show ?case using poolOk_make make by fastforce
next
  case (alloc P U b P')
  show ?case by (rule poolOk_alloc [OF alloc.IH]) (use alloc.hyps(2) in simp)
qed (simp_all add: poolOk_free poolOk_write)

section \<open>Properties\<close>

text \<open>
  C31. After any history of allocations, releases and writes to the blocks in use, an allocation succeeds and
  gives a block that is not in use and that lies in a bucket of the pool, whatever the users left in the
  memory of their blocks. The pool takes a new bucket exactly when every block but the last one of each
  bucket is in use: the last block of a bucket is never handed out.
\<close>

theorem pool_allocation:
  assumes "poolRun n P U"
  shows "\<exists>b P'. doAlloc P = Some (b, P') \<and> b \<notin> U \<and> fst b < buckets P' \<and> snd b < n - 1 \<and>
     buckets P' = (if U = {..<buckets P} \<times> {..<n - 1} then Suc (buckets P) else buckets P)"
proof -
  have ok: "poolOk n P U" by (rule poolRun_ok [OF assms])
  obtain b P' where b: "doAlloc P = Some (b, P')" "poolOk n P' (insert b U)" "b \<notin> U" "b \<in> usable P'"
    "buckets P' = (if U = usable P then Suc (buckets P) else buckets P)" by (rule poolOk_alloc [OF ok])
  moreover have "blocksPerBucket P' = n" "blocksPerBucket P = n" using b(2) ok by (auto simp: poolOk_def)
  ultimately show ?thesis by (auto simp: usable_def mem_Times_iff)
qed

text \<open>Two blocks to a bucket, of which one is in use: a second bucket is taken.\<close>

definition examplePool :: Pool where
  "examplePool = snd (the (doAlloc (the (poolMake 2))))"

lemma examplePool_run: "poolRun 2 examplePool {(0, 0)}"
proof -
  have "poolMake 2 = Some (the (poolMake 2))" "doAlloc (the (poolMake 2)) = Some ((0, 0), examplePool)"
    by (simp_all add: examplePool_def poolMake_def resize_def doAlloc_def Let_def)
  from poolRun.alloc [OF poolRun.make [OF this(1)] this(2)] show ?thesis by simp
qed

theorem pool_allocation_witness: "\<exists>P'. doAlloc examplePool = Some ((1, 0), P') \<and> buckets P' = 2"
proof -
  have "buckets examplePool = 1"
    by (simp add: examplePool_def poolMake_def resize_def doAlloc_def Let_def)
  moreover have "{..<Suc 0} \<times> {..<Suc 0} = {(0 :: nat, 0 :: nat)}" by auto
  ultimately show ?thesis
    using pool_allocation [OF examplePool_run]
    by (auto simp: numeral_2_eq_2 less_Suc_eq mem_Times_iff) 
qed

end
