(* ===== verification/Bus_Containers.thy ===== *)
theory Bus_Containers
  imports Sen_Prelude
begin

text \<open>
  The containers of the bus (\<^verbatim>\<open>libs/kernel/src/bus/containers.h\<close>): \<^verbatim>\<open>List\<close>, a linked list with an index of
  its nodes, \<^verbatim>\<open>BiMap\<close>, two maps kept inverse to each other, and \<^verbatim>\<open>BiMultiMap\<close>, two maps of lists kept
  converse to each other. A hash map is a partial function; \<^verbatim>\<open>operator[]\<close>, which inserts a default value for
  an absent key, is written out. What a list promises is the contract \<open>ordered_set\<close>.
\<close>

section \<open>List\<close>

text \<open>
  A node of \<^verbatim>\<open>std::list\<close> has an identity, which the iterators of \<^verbatim>\<open>iteratorsMap_\<close> refer to. \<open>freshNode\<close> is
  larger than every identity in use.
\<close>

record 'a List =
  nodes :: "(nat \<times> 'a) list"
  iteratorsMap :: "'a \<rightharpoonup> nat"
  freshNode :: nat

definition emptyList :: "'a List" where
  "emptyList = \<lparr>nodes = [], iteratorsMap = Map.empty, freshNode = 0\<rparr>"

definition listContains :: "'a \<Rightarrow> 'a List \<Rightarrow> bool" where
  "listContains v l \<longleftrightarrow> iteratorsMap l v \<noteq> None"

definition listEmpty :: "'a List \<Rightarrow> bool" where
  "listEmpty l \<longleftrightarrow> nodes l = []"

definition listSize :: "'a List \<Rightarrow> nat" where
  "listSize l = length (nodes l)"

definition listAdd :: "'a \<Rightarrow> 'a List \<Rightarrow> 'a List" where
  "listAdd v l =
     (if listContains v l then l
      else \<lparr>nodes = nodes l @ [(freshNode l, v)], iteratorsMap = (iteratorsMap l)(v \<mapsto> freshNode l),
            freshNode = Suc (freshNode l)\<rparr>)"

definition listRemove :: "'a \<Rightarrow> 'a List \<Rightarrow> 'a List" where
  "listRemove v l =
     (case iteratorsMap l v of
        None \<Rightarrow> l
      | Some n \<Rightarrow> l\<lparr>nodes := filter (\<lambda>(m, _). m \<noteq> n) (nodes l),
                   iteratorsMap := (iteratorsMap l)(v := None)\<rparr>)"

definition listClear :: "'a List \<Rightarrow> 'a List" where
  "listClear l = l\<lparr>nodes := [], iteratorsMap := Map.empty\<rparr>"

text \<open>The elements in the order an iteration visits them.\<close>

definition elems :: "'a List \<Rightarrow> 'a list" where
  "elems l = map snd (nodes l)"

definition listOk :: "'a List \<Rightarrow> bool" where
  "listOk l \<longleftrightarrow>
     distinct (map fst (nodes l)) \<and> (\<forall>(n, v) \<in> set (nodes l). n < freshNode l) \<and>
     (\<forall>v n. iteratorsMap l v = Some n \<longleftrightarrow> (n, v) \<in> set (nodes l))"

section \<open>What a list promises\<close>

locale ordered_set =
  fixes ok :: "'s \<Rightarrow> bool" and elements :: "'s \<Rightarrow> 'a list" and none :: 's
    and member :: "'a \<Rightarrow> 's \<Rightarrow> bool" and isEmpty :: "'s \<Rightarrow> bool"
    and insert :: "'a \<Rightarrow> 's \<Rightarrow> 's" and delete :: "'a \<Rightarrow> 's \<Rightarrow> 's"
  assumes ok_none: "ok none" and elements_none: "elements none = []"
    and distinct_elements: "ok s \<Longrightarrow> distinct (elements s)"
    and member_iff: "ok s \<Longrightarrow> member v s \<longleftrightarrow> v \<in> set (elements s)"
    and isEmpty_iff: "isEmpty s \<longleftrightarrow> elements s = []"
    and ok_insert: "ok s \<Longrightarrow> ok (insert v s)"
    and elements_insert: "ok s \<Longrightarrow>
      elements (insert v s) = (if v \<in> set (elements s) then elements s else elements s @ [v])"
    and ok_delete: "ok s \<Longrightarrow> ok (delete v s)"
    and elements_delete: "ok s \<Longrightarrow> elements (delete v s) = removeAll v (elements s)"
begin

lemma set_insert: "ok s \<Longrightarrow> set (elements (insert v s)) = Set.insert v (set (elements s))"
  by (auto simp: elements_insert)

lemma set_delete: "ok s \<Longrightarrow> set (elements (delete v s)) = set (elements s) - {v}"
  by (simp add: elements_delete)

lemma isEmpty_set: "isEmpty s \<longleftrightarrow> set (elements s) = {}"
  by (simp add: isEmpty_iff)

lemma not_isEmpty_insert: "ok s \<Longrightarrow> \<not> isEmpty (insert v s)"
  by (simp add: isEmpty_set set_insert)

lemma insert_present: "ok s \<Longrightarrow> member v s \<Longrightarrow> elements (insert v s) = elements s"
  by (simp add: elements_insert member_iff)

lemma delete_insert:
  "ok s \<Longrightarrow> \<not> member v s \<Longrightarrow> elements (delete v (insert v s)) = elements s"
  by (simp add: elements_delete ok_insert elements_insert member_iff)

end

section \<open>The list keeps the promise\<close>

lemma listOk_nodes:
  assumes "listOk l" "(n, v) \<in> set (nodes l)" "(m, v) \<in> set (nodes l)" shows "n = m"
  using assms unfolding listOk_def by (metis option.inject)

lemma elems_iff: "listOk l \<Longrightarrow> v \<in> set (elems l) \<longleftrightarrow> listContains v l"
  by (force simp: listOk_def elems_def listContains_def)

lemma distinct_elems:
  assumes "listOk l" shows "distinct (elems l)"
proof -
  have "inj_on snd (set (nodes l))"
    by (rule inj_onI) (auto dest: listOk_nodes [OF assms])
  moreover have "distinct (nodes l)" using assms by (auto simp: listOk_def distinct_map)
  ultimately show ?thesis by (simp add: elems_def distinct_map)
qed

lemma listOk_add: "listOk l \<Longrightarrow> listOk (listAdd v l)"
  by (force simp: listOk_def listAdd_def listContains_def)

lemma elems_add: "listOk l \<Longrightarrow>
    elems (listAdd v l) = (if v \<in> set (elems l) then elems l else elems l @ [v])"
  by (simp add: elems_iff) (simp add: listAdd_def elems_def)

lemma node_iff:
  assumes "listOk l" "iteratorsMap l v = Some n" "(m, w) \<in> set (nodes l)"
  shows "m = n \<longleftrightarrow> w = v"
proof -
  have "(n, v) \<in> set (nodes l)" "distinct (map fst (nodes l))"
    using assms(1,2) by (auto simp: listOk_def)
  then show ?thesis
    using assms(3) eq_key_imp_eq_value [of "nodes l" n v w] listOk_nodes [OF assms(1), of m w n] by blast
qed

lemma listOk_remove:
  assumes "listOk l" shows "listOk (listRemove v l)"
proof (cases "iteratorsMap l v")
  case None
  then show ?thesis using assms by (simp add: listRemove_def)
next
  case (Some n)
  note same = node_iff [OF assms Some]
  let ?l = "listRemove v l"
  have nodes: "nodes ?l = filter (\<lambda>(m, _). m \<noteq> n) (nodes l)"
      "iteratorsMap ?l = (iteratorsMap l)(v := None)" "freshNode ?l = freshNode l"
    using Some by (simp_all add: listRemove_def)
  have "iteratorsMap ?l w = Some m \<longleftrightarrow> (m, w) \<in> set (nodes ?l)" for m w
    using assms same [of m w] by (auto simp: listOk_def nodes)
  then show ?thesis
    using assms by (auto simp: listOk_def nodes(1,3) distinct_map_filter)
qed

lemma elems_remove:
  assumes "listOk l" shows "elems (listRemove v l) = removeAll v (elems l)"
proof (cases "iteratorsMap l v")
  case None
  then have "v \<notin> set (elems l)" using elems_iff [OF assms] by (simp add: listContains_def)
  then show ?thesis using None by (simp add: listRemove_def)
next
  case (Some n)
  note same = node_iff [OF assms Some]
  have "filter (\<lambda>(m, _). m \<noteq> n) (nodes l) = filter (\<lambda>p. v \<noteq> snd p) (nodes l)"
  proof (rule filter_cong [OF refl])
    fix p assume "p \<in> set (nodes l)"
    with same [of "fst p" "snd p"] show "(case p of (m, _) \<Rightarrow> m \<noteq> n) \<longleftrightarrow> v \<noteq> snd p"
      by (auto simp: case_prod_beta)
  qed
  then show ?thesis
    using Some by (simp add: listRemove_def elems_def removeAll_filter_not_eq filter_map o_def)
qed

interpretation bus_list: ordered_set listOk elems emptyList listContains listEmpty listAdd listRemove
proof
  fix l :: "'a List" and v :: 'a
  show "listOk emptyList" by (simp add: listOk_def emptyList_def)
  show "elems emptyList = []" by (simp add: elems_def emptyList_def)
  show "listEmpty l \<longleftrightarrow> elems l = []" by (simp add: listEmpty_def elems_def)
  assume ok: "listOk l"
  show "distinct (elems l)" by (rule distinct_elems [OF ok])
  show "listContains v l \<longleftrightarrow> v \<in> set (elems l)" by (simp add: elems_iff [OF ok])
  show "listOk (listAdd v l)" by (rule listOk_add [OF ok])
  show "elems (listAdd v l) = (if v \<in> set (elems l) then elems l else elems l @ [v])"
    by (rule elems_add [OF ok])
  show "listOk (listRemove v l)" by (rule listOk_remove [OF ok])
  show "elems (listRemove v l) = removeAll v (elems l)" by (rule elems_remove [OF ok])
qed

lemma listOk_clear: "listOk l \<Longrightarrow> listOk (listClear l) \<and> elems (listClear l) = []"
  by (simp add: listOk_def listClear_def elems_def)

section \<open>BiMap\<close>

record ('x, 'y) BiMap =
  xToYMap :: "'x \<rightharpoonup> 'y"
  yToXMap :: "'y \<rightharpoonup> 'x"

definition bimapAdd :: "'x \<Rightarrow> 'y \<Rightarrow> ('x, 'y) BiMap \<Rightarrow> ('x, 'y) BiMap" where
  "bimapAdd x y m =
     (if xToYMap m x \<noteq> None \<or> yToXMap m y \<noteq> None then m
      else \<lparr>xToYMap = (xToYMap m)(x \<mapsto> y), yToXMap = (yToXMap m)(y \<mapsto> x)\<rparr>)"

text \<open>
  \<^verbatim>\<open>yToXMap_.erase(xToYMap_[xElement])\<close>: for an absent element the subscript inserts the default value \<open>dy\<close>
  and the entry of \<open>dy\<close> is erased.
\<close>

definition bimapRemoveX :: "'y \<Rightarrow> 'x \<Rightarrow> ('x, 'y) BiMap \<Rightarrow> ('x, 'y) BiMap" where
  "bimapRemoveX dy x m =
     (let y = (case xToYMap m x of None \<Rightarrow> dy | Some y \<Rightarrow> y)
      in \<lparr>xToYMap = (xToYMap m)(x := None), yToXMap = (yToXMap m)(y := None)\<rparr>)"

definition bimapRemoveY :: "'x \<Rightarrow> 'y \<Rightarrow> ('x, 'y) BiMap \<Rightarrow> ('x, 'y) BiMap" where
  "bimapRemoveY dx y m =
     (let x = (case yToXMap m y of None \<Rightarrow> dx | Some x \<Rightarrow> x)
      in \<lparr>xToYMap = (xToYMap m)(x := None), yToXMap = (yToXMap m)(y := None)\<rparr>)"

definition bimapOk :: "('x, 'y) BiMap \<Rightarrow> bool" where
  "bimapOk m \<longleftrightarrow> (\<forall>x y. xToYMap m x = Some y \<longleftrightarrow> yToXMap m y = Some x)"

lemma bimapOk_add: "bimapOk m \<Longrightarrow> bimapOk (bimapAdd x y m)"
  by (auto simp: bimapOk_def bimapAdd_def split: if_splits)

lemma bimapOk_removeX:
  assumes "bimapOk m" "xToYMap m x = Some y"
  shows "bimapOk (bimapRemoveX dy x m)"
    and "xToYMap (bimapRemoveX dy x m) = (xToYMap m)(x := None)"
    and "yToXMap (bimapRemoveX dy x m) = (yToXMap m)(y := None)"
proof -
  have eq: "bimapRemoveX dy x m = \<lparr>xToYMap = (xToYMap m)(x := None), yToXMap = (yToXMap m)(y := None)\<rparr>"
    using assms(2) by (simp add: bimapRemoveX_def)
  have "((xToYMap m)(x := None)) a = Some b \<longleftrightarrow> ((yToXMap m)(y := None)) b = Some a" for a b
    using assms unfolding bimapOk_def by (cases "a = x"; cases "b = y") (simp_all, (metis option.inject)+)
  then show "bimapOk (bimapRemoveX dy x m)" unfolding bimapOk_def eq by simp
qed (use assms in \<open>simp_all add: bimapRemoveX_def\<close>)

lemma bimapOk_removeY:
  assumes "bimapOk m" "yToXMap m y = Some x"
  shows "bimapOk (bimapRemoveY dx y m)"
    and "xToYMap (bimapRemoveY dx y m) = (xToYMap m)(x := None)"
    and "yToXMap (bimapRemoveY dx y m) = (yToXMap m)(y := None)"
proof -
  have eq: "bimapRemoveY dx y m = \<lparr>xToYMap = (xToYMap m)(x := None), yToXMap = (yToXMap m)(y := None)\<rparr>"
    using assms(2) by (simp add: bimapRemoveY_def)
  have "((xToYMap m)(x := None)) a = Some b \<longleftrightarrow> ((yToXMap m)(y := None)) b = Some a" for a b
    using assms unfolding bimapOk_def by (cases "a = x"; cases "b = y") (simp_all, (metis option.inject)+)
  then show "bimapOk (bimapRemoveY dx y m)" unfolding bimapOk_def eq by simp
qed (use assms in \<open>simp_all add: bimapRemoveY_def\<close>)

text \<open>
  Removing an absent element keeps the two maps inverse exactly when the default value of the other
  type is not mapped either.
\<close>

lemma bimap_removeX_absent:
  assumes "bimapOk m" "xToYMap m x = None"
  shows "bimapOk (bimapRemoveX dy x m) \<longleftrightarrow> yToXMap m dy = None"
proof (cases "yToXMap m dy")
  case None
  then have "bimapRemoveX dy x m = m"
    using assms(2) by (simp add: bimapRemoveX_def fun_upd_idem)
  then show ?thesis using assms(1) None by simp
next
  case (Some z)
  then have "xToYMap m z = Some dy" using assms(1) by (simp add: bimapOk_def)
  moreover have "z \<noteq> x" using calculation assms(2) by auto
  ultimately show ?thesis
    using Some assms(2) by (auto simp: bimapOk_def bimapRemoveX_def intro!: exI [of _ z] exI [of _ dy])
qed

section \<open>BiMultiMap\<close>

record ('x, 'y) BiMultiMap =
  xToYListMap :: "'x \<rightharpoonup> 'y List"
  yToXListMap :: "'y \<rightharpoonup> 'x List"
  xOrphans :: "'x list"
  yOrphans :: "'y list"

definition emptyBiMultiMap :: "('x, 'y) BiMultiMap" where
  "emptyBiMultiMap =
     \<lparr>xToYListMap = Map.empty, yToXListMap = Map.empty, xOrphans = [], yOrphans = []\<rparr>"

text \<open>\<^verbatim>\<open>map[key]\<close>: the list of the key, a new one if there is none.\<close>

definition listAt :: "('k \<rightharpoonup> 'v List) \<Rightarrow> 'k \<Rightarrow> 'v List" where
  "listAt m k = (case m k of None \<Rightarrow> emptyList | Some l \<Rightarrow> l)"

definition clearOrphans :: "('x, 'y) BiMultiMap \<Rightarrow> ('x, 'y) BiMultiMap" where
  "clearOrphans m = m\<lparr>xOrphans := [], yOrphans := []\<rparr>"

definition mmAdd :: "'x \<Rightarrow> 'y \<Rightarrow> ('x, 'y) BiMultiMap \<Rightarrow> ('x, 'y) BiMultiMap" where
  "mmAdd x y m =
     m\<lparr>xToYListMap := (xToYListMap m)(x \<mapsto> listAdd y (listAt (xToYListMap m) x)),
       yToXListMap := (yToXListMap m)(y \<mapsto> listAdd x (listAt (yToXListMap m) y))\<rparr>"

text \<open>
  \<^verbatim>\<open>map[key].remove(value)\<close> and, when the list is empty then, \<^verbatim>\<open>map.erase(key)\<close>; the flag says whether the
  key was erased.
\<close>

definition dropFrom :: "'k \<Rightarrow> 'v \<Rightarrow> ('k \<rightharpoonup> 'v List) \<Rightarrow> bool \<times> ('k \<rightharpoonup> 'v List)" where
  "dropFrom k v m =
     (let l = listRemove v (listAt m k)
      in if listEmpty l then (True, m(k := None)) else (False, m(k \<mapsto> l)))"

definition mmRemove :: "'x \<Rightarrow> 'y \<Rightarrow> ('x, 'y) BiMultiMap \<Rightarrow> ('x, 'y) BiMultiMap" where
  "mmRemove x y m =
     (if xToYListMap m x = None \<or> yToXListMap m y = None then clearOrphans m
      else let (xGone, xs) = dropFrom x y (xToYListMap m);
               (yGone, ys) = dropFrom y x (yToXListMap m)
           in m\<lparr>xToYListMap := xs, yToXListMap := ys,
                xOrphans := (if xGone then [x] else []), yOrphans := (if yGone then [y] else [])\<rparr>)"

text \<open>The loop over the values of the removed key: drop the key from the list of each value.\<close>

fun dropAll :: "'v \<Rightarrow> 'k list \<Rightarrow> ('k \<rightharpoonup> 'v List) \<Rightarrow> 'k list \<Rightarrow> ('k \<rightharpoonup> 'v List) \<times> 'k list" where
  "dropAll v [] m orphans = (m, orphans)"
| "dropAll v (k # ks) m orphans =
     (let (gone, m') = dropFrom k v m in dropAll v ks m' (if gone then orphans @ [k] else orphans))"

definition mmRemoveX :: "'x \<Rightarrow> ('x, 'y) BiMultiMap \<Rightarrow> ('x, 'y) BiMultiMap" where
  "mmRemoveX x m =
     (case xToYListMap m x of
        None \<Rightarrow> m
      | Some l \<Rightarrow>
          (let (ys, gone) = dropAll x (elems l) (yToXListMap m) []
           in m\<lparr>xToYListMap := (xToYListMap m)(x := None), yToXListMap := ys,
                xOrphans := [x], yOrphans := gone\<rparr>))"

definition mmRemoveY :: "'y \<Rightarrow> ('x, 'y) BiMultiMap \<Rightarrow> ('x, 'y) BiMultiMap" where
  "mmRemoveY y m =
     (case yToXListMap m y of
        None \<Rightarrow> m
      | Some l \<Rightarrow>
          (let (xs, gone) = dropAll y (elems l) (xToYListMap m) []
           in m\<lparr>xToYListMap := xs, yToXListMap := (yToXListMap m)(y := None),
                xOrphans := gone, yOrphans := [y]\<rparr>))"

definition mmClear :: "('x, 'y) BiMultiMap \<Rightarrow> ('x, 'y) BiMultiMap" where
  "mmClear m = m\<lparr>xToYListMap := Map.empty, yToXListMap := Map.empty\<rparr>"

definition containsX :: "'x \<Rightarrow> ('x, 'y) BiMultiMap \<Rightarrow> bool" where
  "containsX x m \<longleftrightarrow> xToYListMap m x \<noteq> None"

definition containsY :: "'y \<Rightarrow> ('x, 'y) BiMultiMap \<Rightarrow> bool" where
  "containsY y m \<longleftrightarrow> yToXListMap m y \<noteq> None"

text \<open>The elements \<^verbatim>\<open>forEach(element, fun)\<close> calls the function with.\<close>

definition forEachX :: "'x \<Rightarrow> ('x, 'y) BiMultiMap \<Rightarrow> 'y list" where
  "forEachX x m = (if containsX x m then elems (listAt (xToYListMap m) x) else [])"

definition forEachY :: "'y \<Rightarrow> ('x, 'y) BiMultiMap \<Rightarrow> 'x list" where
  "forEachY y m = (if containsY y m then elems (listAt (yToXListMap m) y) else [])"

section \<open>A BiMultiMap is a relation\<close>

text \<open>The pairs of a map of lists; the maps hold good, non-empty lists only.\<close>

definition pairsOf :: "('k \<rightharpoonup> 'v List) \<Rightarrow> ('k \<times> 'v) set" where
  "pairsOf m = {(k, v). \<exists>l. m k = Some l \<and> v \<in> set (elems l)}"

definition listsOk :: "('k \<rightharpoonup> 'v List) \<Rightarrow> bool" where
  "listsOk m \<longleftrightarrow> (\<forall>k l. m k = Some l \<longrightarrow> listOk l \<and> elems l \<noteq> [])"

definition mmOk :: "('x, 'y) BiMultiMap \<Rightarrow> bool" where
  "mmOk m \<longleftrightarrow>
     listsOk (xToYListMap m) \<and> listsOk (yToXListMap m) \<and>
     pairsOf (yToXListMap m) = (pairsOf (xToYListMap m))\<inverse>"

lemma listsOkD: "listsOk m \<Longrightarrow> m k = Some l \<Longrightarrow> listOk l \<and> elems l \<noteq> []"
  by (simp add: listsOk_def)

lemma listOk_at: "listsOk m \<Longrightarrow> listOk (listAt m k)"
  by (auto simp: listAt_def bus_list.ok_none split: option.splits dest: listsOkD)

lemma elems_at: "set (elems (listAt m k)) = {v. (k, v) \<in> pairsOf m}"
  by (auto simp: listAt_def pairsOf_def bus_list.elements_none split: option.splits)

lemma dom_pairsOf: "listsOk m \<Longrightarrow> m k = None \<longleftrightarrow> k \<notin> Domain (pairsOf m)"
  by (cases "m k") (auto simp: pairsOf_def dest: listsOkD intro: hd_in_set)

lemma lists_update:
  assumes "listsOk m" "listOk l" "elems l \<noteq> []"
  shows "listsOk (m(k \<mapsto> l)) \<and>
     pairsOf (m(k \<mapsto> l)) = pairsOf m - {k} \<times> UNIV \<union> {k} \<times> set (elems l)"
  using assms by (auto simp: listsOk_def pairsOf_def split: if_splits)

lemma lists_erase:
  "listsOk m \<Longrightarrow> listsOk (m(k := None)) \<and> pairsOf (m(k := None)) = pairsOf m - {k} \<times> UNIV"
  by (auto simp: listsOk_def pairsOf_def split: if_splits)

lemma lists_add:
  assumes "listsOk m"
  shows "listsOk (m(k \<mapsto> listAdd v (listAt m k))) \<and>
     pairsOf (m(k \<mapsto> listAdd v (listAt m k))) = Set.insert (k, v) (pairsOf m)"
proof -
  note ok = listOk_at [OF assms, of k]
  have "elems (listAdd v (listAt m k)) \<noteq> []"
    using bus_list.not_isEmpty_insert [OF ok] by (simp add: bus_list.isEmpty_iff)
  from lists_update [OF assms listOk_add [OF ok] this, of k] show ?thesis
    by (auto simp: bus_list.set_insert [OF ok] elems_at)
qed

text \<open>Dropping a pair: the key is erased exactly when it has no other value.\<close>

lemma dropFrom_pairs:
  assumes "listsOk m" "dropFrom k v m = (gone, m')"
  shows "listsOk m' \<and> pairsOf m' = pairsOf m - {(k, v)} \<and> (gone \<longleftrightarrow> k \<notin> Domain (pairsOf m'))"
proof -
  note ok = listOk_at [OF assms(1), of k]
  let ?l = "listRemove v (listAt m k)"
  have set: "set (elems ?l) = {w. (k, w) \<in> pairsOf m} - {v}"
    by (simp add: bus_list.set_delete [OF ok] elems_at)
  show ?thesis
  proof (cases "listEmpty ?l")
    case True
    then have "{w. (k, w) \<in> pairsOf m} \<subseteq> {v}" using set by (auto simp: bus_list.isEmpty_set)
    moreover have "gone" "m' = m(k := None)" using assms(2) True by (auto simp: dropFrom_def)
    ultimately show ?thesis using lists_erase [OF assms(1), of k] by auto
  next
    case False
    then have ne: "elems ?l \<noteq> []" by (simp add: bus_list.isEmpty_iff)
    have m': "\<not> gone" "m' = m(k \<mapsto> ?l)" using assms(2) False by (auto simp: dropFrom_def)
    obtain w where "w \<in> set (elems ?l)" using ne by (auto intro: hd_in_set)
    then show ?thesis
      using lists_update [OF assms(1) listOk_remove [OF ok] ne, of k] m' set by auto
  qed
qed

lemma dropAll_pairs:
  assumes "listsOk m" "distinct ks" "dropAll v ks m orphans = (m', orphans')"
  shows "listsOk m' \<and> pairsOf m' = pairsOf m - set ks \<times> {v} \<and>
     orphans' = orphans @ filter (\<lambda>k. k \<notin> Domain (pairsOf m')) ks"
  using assms
proof (induction ks arbitrary: m orphans)
  case Nil
  then show ?case by simp
next
  case (Cons k ks)
  obtain gone m1 where m1: "dropFrom k v m = (gone, m1)" by fastforce
  note d = dropFrom_pairs [OF Cons.prems(1) m1]
  have rest: "dropAll v ks m1 (if gone then orphans @ [k] else orphans) = (m', orphans')"
    using Cons.prems(3) m1 by simp
  have "listsOk m1" "distinct ks" using d Cons.prems(2) by auto
  note IH = Cons.IH [OF this rest]
  have "k \<in> Domain (pairsOf m') \<longleftrightarrow> k \<in> Domain (pairsOf m1)"
    using IH Cons.prems(2) by auto
  then show ?case using IH d by auto
qed

text \<open>The relation the container holds.\<close>

definition mmPairs :: "('x, 'y) BiMultiMap \<Rightarrow> ('x \<times> 'y) set" where
  "mmPairs m = pairsOf (xToYListMap m)"

lemma pairsOf_y: "mmOk m \<Longrightarrow> pairsOf (yToXListMap m) = (mmPairs m)\<inverse>"
  by (simp add: mmOk_def mmPairs_def)

lemma mmOk_empty: "mmOk emptyBiMultiMap \<and> mmPairs emptyBiMultiMap = {}"
  by (auto simp: mmOk_def mmPairs_def emptyBiMultiMap_def listsOk_def pairsOf_def)

lemma mmOk_add:
  assumes "mmOk m"
  shows "mmOk (mmAdd x y m) \<and> mmPairs (mmAdd x y m) = Set.insert (x, y) (mmPairs m)"
proof -
  have "listsOk (xToYListMap m)" "listsOk (yToXListMap m)" using assms by (auto simp: mmOk_def)
  from lists_add [OF this(1), of x y] lists_add [OF this(2), of y x] pairsOf_y [OF assms]
  show ?thesis by (auto simp: mmOk_def mmPairs_def mmAdd_def)
qed

definition orphansExact :: "('x, 'y) BiMultiMap \<Rightarrow> ('x, 'y) BiMultiMap \<Rightarrow> bool" where
  "orphansExact m m' \<longleftrightarrow>
     set (xOrphans m') = Domain (mmPairs m) - Domain (mmPairs m') \<and>
     set (yOrphans m') = Range (mmPairs m) - Range (mmPairs m') \<and>
     distinct (xOrphans m') \<and> distinct (yOrphans m')"

lemma mmRemove_pairs:
  assumes "mmOk m"
  shows "mmOk (mmRemove x y m) \<and> mmPairs (mmRemove x y m) = mmPairs m - {(x, y)} \<and>
     orphansExact m (mmRemove x y m)"
proof (cases "xToYListMap m x = None \<or> yToXListMap m y = None")
  case True
  have "listsOk (xToYListMap m)" "listsOk (yToXListMap m)" using assms by (auto simp: mmOk_def)
  with True have "(x, y) \<notin> mmPairs m"
    using dom_pairsOf [of "xToYListMap m" x] dom_pairsOf [of "yToXListMap m" y] pairsOf_y [OF assms]
    by (auto simp: mmPairs_def)
  then show ?thesis
    using True assms by (auto simp: mmRemove_def clearOrphans_def mmOk_def mmPairs_def orphansExact_def)
next
  case False
  have ok: "listsOk (xToYListMap m)" "listsOk (yToXListMap m)" using assms by (auto simp: mmOk_def)
  obtain xg xs where xs: "dropFrom x y (xToYListMap m) = (xg, xs)" by fastforce
  obtain yg ys where ys: "dropFrom y x (yToXListMap m) = (yg, ys)" by fastforce
  note dx = dropFrom_pairs [OF ok(1) xs] and dy = dropFrom_pairs [OF ok(2) ys]
  have eq: "mmRemove x y m = m\<lparr>xToYListMap := xs, yToXListMap := ys,
      xOrphans := (if xg then [x] else []), yOrphans := (if yg then [y] else [])\<rparr>"
    using False unfolding mmRemove_def xs ys by (simp only: if_False Let_def prod.case)
  have dom: "x \<in> Domain (mmPairs m)" "y \<in> Range (mmPairs m)"
    using False dom_pairsOf [OF ok(1), of x] dom_pairsOf [OF ok(2), of y] pairsOf_y [OF assms]
    by (auto simp: mmPairs_def)
  have conv: "pairsOf ys = (pairsOf xs)\<inverse>" and pairs: "pairsOf xs = mmPairs m - {(x, y)}"
    using dx dy pairsOf_y [OF assms] by (auto simp: mmPairs_def)
  have gone: "xg \<longleftrightarrow> x \<notin> Domain (mmPairs m - {(x, y)})" "yg \<longleftrightarrow> y \<notin> Range (mmPairs m - {(x, y)})"
    using dx dy conv pairs by simp_all
  have fields: "mmPairs (mmRemove x y m) = mmPairs m - {(x, y)}"
      "xOrphans (mmRemove x y m) = (if xg then [x] else [])"
      "yOrphans (mmRemove x y m) = (if yg then [y] else [])"
    using pairs unfolding eq by (simp_all add: mmPairs_def)
  have "Domain (mmPairs m) - Domain (mmPairs m - {(x, y)}) = (if xg then {x} else {})"
    unfolding gone using dom(1) by auto
  moreover have "Range (mmPairs m) - Range (mmPairs m - {(x, y)}) = (if yg then {y} else {})"
    unfolding gone using dom(2) by auto
  ultimately have "orphansExact m (mmRemove x y m)"
    unfolding orphansExact_def fields by (cases xg; cases yg) simp_all
  moreover have "mmOk (mmRemove x y m)"
    using dx dy conv unfolding eq by (simp add: mmOk_def)
  ultimately show ?thesis using fields(1) by blast
qed

lemma mmRemoveX_pairs:
  assumes "mmOk m"
  shows "mmOk (mmRemoveX x m) \<and> mmPairs (mmRemoveX x m) = mmPairs m - {x} \<times> UNIV"
    and "x \<in> Domain (mmPairs m) \<Longrightarrow> orphansExact m (mmRemoveX x m)"
proof -
  have ok: "listsOk (xToYListMap m)" "listsOk (yToXListMap m)" using assms by (auto simp: mmOk_def)
  have "(mmOk (mmRemoveX x m) \<and> mmPairs (mmRemoveX x m) = mmPairs m - {x} \<times> UNIV) \<and>
      (x \<in> Domain (mmPairs m) \<longrightarrow> orphansExact m (mmRemoveX x m))"
  proof (cases "xToYListMap m x")
    case None
    then have "x \<notin> Domain (mmPairs m)" using dom_pairsOf [OF ok(1)] by (simp add: mmPairs_def)
    then show ?thesis using None assms by (auto simp: mmRemoveX_def)
  next
    case (Some l)
    note l = listsOkD [OF ok(1) Some]
    have set: "set (elems l) = {y. (x, y) \<in> mmPairs m}"
      using elems_at [of "xToYListMap m" x] Some by (simp add: listAt_def mmPairs_def)
    obtain ys gone where ys: "dropAll x (elems l) (yToXListMap m) [] = (ys, gone)" by fastforce
    note d = dropAll_pairs [OF ok(2) distinct_elems [OF conjunct1 [OF l]] ys]
    note e = lists_erase [OF ok(1), of x]
    have eq: "mmRemoveX x m = m\<lparr>xToYListMap := (xToYListMap m)(x := None), yToXListMap := ys,
        xOrphans := [x], yOrphans := gone\<rparr>"
      using Some by (simp add: mmRemoveX_def ys)
    have conv: "pairsOf ys = (pairsOf ((xToYListMap m)(x := None)))\<inverse>"
      using d e set pairsOf_y [OF assms] by (auto simp: mmPairs_def)
    have gone: "set gone = {y. (x, y) \<in> mmPairs m} - Range (mmPairs m - {x} \<times> UNIV)"
      using d conv e set by (auto simp: mmPairs_def)
    have distinct: "distinct gone" using d distinct_elems [OF conjunct1 [OF l]] by simp
    have dom: "x \<in> Domain (mmPairs m)"
      using dom_pairsOf [OF ok(1), of x] Some by (simp add: mmPairs_def)
    have "Domain (mmPairs m) - Domain (mmPairs m - {x} \<times> UNIV) = {x}"
      and "Range (mmPairs m) - Range (mmPairs m - {x} \<times> UNIV) = set gone"
      using dom gone by auto
    then have "orphansExact m (mmRemoveX x m)"
      using distinct e unfolding orphansExact_def by (simp add: eq mmPairs_def)
    moreover have "mmOk (mmRemoveX x m) \<and> mmPairs (mmRemoveX x m) = mmPairs m - {x} \<times> UNIV"
      using d e conv by (simp add: eq mmOk_def mmPairs_def)
    ultimately show ?thesis by blast
  qed
  then show "mmOk (mmRemoveX x m) \<and> mmPairs (mmRemoveX x m) = mmPairs m - {x} \<times> UNIV"
    and "x \<in> Domain (mmPairs m) \<Longrightarrow> orphansExact m (mmRemoveX x m)" by auto
qed

text \<open>The operations on the second type are those on the first one, seen from the other side.\<close>

definition mmSwap :: "('x, 'y) BiMultiMap \<Rightarrow> ('y, 'x) BiMultiMap" where
  "mmSwap m = \<lparr>xToYListMap = yToXListMap m, yToXListMap = xToYListMap m,
     xOrphans = yOrphans m, yOrphans = xOrphans m\<rparr>"

lemma mmRemoveY_swap: "mmRemoveY y m = mmSwap (mmRemoveX y (mmSwap m))"
  by (cases m) (auto simp: mmRemoveY_def mmRemoveX_def mmSwap_def split: option.splits prod.splits)

lemma mmOk_swap: "mmOk (mmSwap m) \<longleftrightarrow> mmOk m"
  by (auto simp: mmOk_def mmSwap_def)

lemma mmPairs_swap: "mmOk m \<Longrightarrow> mmPairs (mmSwap m) = (mmPairs m)\<inverse>"
  by (simp add: mmPairs_def mmSwap_def mmOk_def)

lemma mmRemoveY_pairs:
  assumes "mmOk m"
  shows "mmOk (mmRemoveY y m) \<and> mmPairs (mmRemoveY y m) = mmPairs m - UNIV \<times> {y}"
    and "y \<in> Range (mmPairs m) \<Longrightarrow> orphansExact m (mmRemoveY y m)"
proof -
  let ?s = "mmRemoveX y (mmSwap m)"
  note ok = mmOk_swap [THEN iffD2, OF assms]
  note r = mmRemoveX_pairs [OF ok, of y]
  have pairs: "mmPairs (mmRemoveY y m) = (mmPairs ?s)\<inverse>"
    using mmPairs_swap [of ?s] r(1) by (simp add: mmRemoveY_swap)
  then show "mmOk (mmRemoveY y m) \<and> mmPairs (mmRemoveY y m) = mmPairs m - UNIV \<times> {y}"
    using r(1) mmPairs_swap [OF assms] by (auto simp: mmOk_swap mmRemoveY_swap)
  assume "y \<in> Range (mmPairs m)"
  then show "orphansExact m (mmRemoveY y m)"
    using r(2) pairs mmPairs_swap [OF assms]
    by (auto simp: orphansExact_def mmRemoveY_swap mmSwap_def)
qed

text \<open>Removing an absent element changes nothing, the orphans of the previous removal included.\<close>

lemma mmRemoveX_absent: "mmOk m \<Longrightarrow> x \<notin> Domain (mmPairs m) \<Longrightarrow> mmRemoveX x m = m"
  using dom_pairsOf [of "xToYListMap m" x] by (simp add: mmOk_def mmPairs_def mmRemoveX_def)

lemma forEachX_pairs: "mmOk m \<Longrightarrow> set (forEachX x m) = {y. (x, y) \<in> mmPairs m} \<and> distinct (forEachX x m)"
  using elems_at [of "xToYListMap m" x] listOk_at [of "xToYListMap m" x]
  by (auto simp: forEachX_def containsX_def mmPairs_def mmOk_def pairsOf_def intro: distinct_elems)

lemma forEachY_pairs: "mmOk m \<Longrightarrow> set (forEachY y m) = {x. (x, y) \<in> mmPairs m} \<and> distinct (forEachY y m)"
  using forEachX_pairs [of "mmSwap m" y] mmOk_swap [of m] mmPairs_swap [of m]
  by (auto simp: forEachX_def forEachY_def containsX_def containsY_def mmSwap_def split: if_splits)

section \<open>Histories\<close>

text \<open>
  A map built by any sequence of operations is good, and holds the pairs the same sequence of
  operations on relations gives.
\<close>

datatype ('x, 'y) mm_op = AddPair 'x 'y | RemovePair 'x 'y | RemoveX 'x | RemoveY 'y | ClearAll | ClearOrphans

fun mmApply :: "('x, 'y) mm_op \<Rightarrow> ('x, 'y) BiMultiMap \<Rightarrow> ('x, 'y) BiMultiMap" where
  "mmApply (AddPair x y) m = mmAdd x y m"
| "mmApply (RemovePair x y) m = mmRemove x y m"
| "mmApply (RemoveX x) m = mmRemoveX x m"
| "mmApply (RemoveY y) m = mmRemoveY y m"
| "mmApply ClearAll m = mmClear m"
| "mmApply ClearOrphans m = clearOrphans m"

fun relApply :: "('x, 'y) mm_op \<Rightarrow> ('x \<times> 'y) set \<Rightarrow> ('x \<times> 'y) set" where
  "relApply (AddPair x y) r = Set.insert (x, y) r"
| "relApply (RemovePair x y) r = r - {(x, y)}"
| "relApply (RemoveX x) r = r - {x} \<times> UNIV"
| "relApply (RemoveY y) r = r - UNIV \<times> {y}"
| "relApply ClearAll r = {}"
| "relApply ClearOrphans r = r"

lemma mmApply_refines:
  assumes "mmOk m"
  shows "mmOk (mmApply op m) \<and> mmPairs (mmApply op m) = relApply op (mmPairs m)"
proof (cases op)
  case ClearAll
  then show ?thesis by (auto simp: mmClear_def mmOk_def mmPairs_def listsOk_def pairsOf_def)
next
  case ClearOrphans
  then show ?thesis using assms by (simp add: clearOrphans_def mmOk_def mmPairs_def)
qed (simp_all add: mmOk_add mmRemove_pairs mmRemoveX_pairs(1) mmRemoveY_pairs(1) assms)

lemma mmApply_history:
  "mmOk m \<Longrightarrow> mmOk (fold mmApply ops m) \<and> mmPairs (fold mmApply ops m) = fold relApply ops (mmPairs m)"
  by (induction ops arbitrary: m) (simp_all add: mmApply_refines)

section \<open>Properties\<close>

text \<open>
  C36. A \<^verbatim>\<open>BiMultiMap\<close> after any sequence of additions and removals holds the pairs the same operations give on
  a relation, and its two maps stay converse to each other.
\<close>

theorem bimultimap_refines_relation:
  "mmOk (fold mmApply ops emptyBiMultiMap) \<and>
   mmPairs (fold mmApply ops emptyBiMultiMap) = fold relApply ops {}"
  by (simp add: mmApply_history mmOk_empty)

text \<open>
  The orphans a removal returns are exactly the elements that were in the container before and are not
  in it afterwards, each once: for the removal of a pair, of an element of the first type that is
  present, and of an element of the second type that is present.
\<close>

theorem bimultimap_orphans:
  assumes "mmOk m"
  shows "orphansExact m (mmRemove x y m) \<and>
     (containsX x m \<longrightarrow> orphansExact m (mmRemoveX x m)) \<and>
     (containsY y m \<longrightarrow> orphansExact m (mmRemoveY y m))"
proof -
  have "containsX x m \<longleftrightarrow> x \<in> Domain (mmPairs m)"
    using dom_pairsOf [of "xToYListMap m" x] assms by (simp add: containsX_def mmOk_def mmPairs_def)
  moreover have "containsY y m \<longleftrightarrow> y \<in> Range (mmPairs m)"
    using dom_pairsOf [of "yToXListMap m" y] assms pairsOf_y [OF assms]
    by (auto simp: containsY_def mmOk_def)
  ultimately show ?thesis
    using mmRemove_pairs [OF assms] mmRemoveX_pairs(2) [OF assms] mmRemoveY_pairs(2) [OF assms] by blast
qed

theorem bimultimap_orphans_witness:
  "orphansExact (mmAdd 1 True emptyBiMultiMap) (mmRemoveX (1 :: nat) (mmAdd 1 True emptyBiMultiMap))"
proof -
  have "mmOk (mmAdd (1 :: nat) True emptyBiMultiMap)" by (simp add: mmOk_add mmOk_empty)
  moreover have "containsX 1 (mmAdd (1 :: nat) True emptyBiMultiMap)"
    by (simp add: containsX_def mmAdd_def)
  ultimately show ?thesis
    using bimultimap_orphans [of "mmAdd (1 :: nat) True emptyBiMultiMap" 1 True] by blast
qed

text \<open>
  Removing an element that is absent leaves a \<^verbatim>\<open>BiMultiMap\<close> as it was, the orphans included: the orphans it
  returns are those of the previous removal.
\<close>

theorem bimultimap_absent_removal:
  assumes "mmOk m" "\<not> containsX x m"
  shows "mmRemoveX x m = m"
  using assms mmRemoveX_absent [OF assms(1)] by (simp add: containsX_def mmRemoveX_def)

theorem bimultimap_absent_removal_witness:
  "xOrphans (mmRemoveX (2 :: nat) (mmRemoveX 1 (mmAdd 1 True emptyBiMultiMap))) = [1]"
proof -
  let ?m = "mmRemoveX (1 :: nat) (mmAdd 1 True emptyBiMultiMap)"
  have "mmOk ?m" by (simp add: mmRemoveX_pairs(1) mmOk_add mmOk_empty)
  moreover have "\<not> containsX 2 ?m" "xOrphans ?m = [1]"
    by (simp_all add: containsX_def mmRemoveX_def mmAdd_def emptyBiMultiMap_def Let_def split: prod.splits)
  ultimately show ?thesis using bimultimap_absent_removal [of ?m 2] by simp
qed

text \<open>
  The two maps of a \<^verbatim>\<open>BiMap\<close> stay inverse to each other under additions and under the removal of an element
  that is present. The removal of an absent element keeps them inverse exactly if the default value of
  the other type is not in the container.
\<close>

theorem bimap_inverse:
  assumes "bimapOk m"
  shows "bimapOk (bimapAdd x y m) \<and>
     (xToYMap m x \<noteq> None \<longrightarrow> bimapOk (bimapRemoveX dy x m)) \<and>
     (yToXMap m y \<noteq> None \<longrightarrow> bimapOk (bimapRemoveY dx y m)) \<and>
     (xToYMap m x = None \<longrightarrow> (bimapOk (bimapRemoveX dy x m) \<longleftrightarrow> yToXMap m dy = None))"
  using bimapOk_add [OF assms] bimapOk_removeX(1) [OF assms] bimapOk_removeY(1) [OF assms]
    bimap_removeX_absent [OF assms] by auto

theorem bimap_inverse_witness:
  "\<not> bimapOk (bimapRemoveX (0 :: nat) (7 :: nat) \<lparr>xToYMap = [5 \<mapsto> 0], yToXMap = [0 \<mapsto> 5]\<rparr>)"
proof -
  have "bimapOk \<lparr>xToYMap = [5 \<mapsto> 0 :: nat], yToXMap = [0 \<mapsto> 5 :: nat]\<rparr>"
    by (auto simp: bimapOk_def)
  then show ?thesis
    using bimap_inverse [of "\<lparr>xToYMap = [5 \<mapsto> 0 :: nat], yToXMap = [0 \<mapsto> 5 :: nat]\<rparr>" 7 0 0 0] by simp
qed

end
