(* ===== verification/Remote_Interests.thy ===== *)
theory Remote_Interests
  imports Bus_Containers
begin

text \<open>
  Who is sent what (kernel/src/bus/remote_interest_handler.h): the remote participants, their interests and the
  objects each interest selects, as three relations kept in BiMultiMaps.  A remote participant and an object
  update are values of types of their own.  The mutex makes every operation atomic.
\<close>

section \<open>The handler\<close>

record ('r, 'u) RemoteInterestsHandler =
  remotesUpdates :: "('r, 'u) BiMultiMap"
  remotesInterests :: "('r, u32) BiMultiMap"
  interestsUpdates :: "(u32, 'u) BiMultiMap"

definition newHandler :: "('r, 'u) RemoteInterestsHandler" where
  "newHandler = \<lparr>remotesUpdates = emptyBiMultiMap, remotesInterests = emptyBiMultiMap,
     interestsUpdates = emptyBiMultiMap\<rparr>"

definition remoteHasInterestInUpdate :: "'r \<Rightarrow> 'u \<Rightarrow> ('r, 'u) RemoteInterestsHandler \<Rightarrow> bool" where
  "remoteHasInterestInUpdate r u H =
    (case (xToYListMap (remotesInterests H) r, yToXListMap (interestsUpdates H) u) of
       (Some remoteInterests, Some updateInterests) \<Rightarrow>
         list_ex (\<lambda>i. listContains i updateInterests) (elems remoteInterests)
     | _ \<Rightarrow> False)"

definition handlerAddSubscriber ::
  "u32 \<Rightarrow> 'r \<Rightarrow> bool \<Rightarrow> ('r, 'u) RemoteInterestsHandler \<Rightarrow> ('r, 'u) RemoteInterestsHandler" where
  "handlerAddSubscriber i r newInterest H =
    (let H = H\<lparr>remotesInterests := mmAdd r i (remotesInterests H)\<rparr>
     in if newInterest then H
        else H\<lparr>remotesUpdates := fold (mmAdd r) (forEachX i (interestsUpdates H)) (remotesUpdates H)\<rparr>)"

text \<open>The loop over the updates of the interest that is given up.\<close>

definition dropUninteresting ::
  "'r \<Rightarrow> 'u \<Rightarrow> ('r, 'u) RemoteInterestsHandler \<Rightarrow> ('r, 'u) RemoteInterestsHandler" where
  "dropUninteresting r u H =
    (if remoteHasInterestInUpdate r u H then H else H\<lparr>remotesUpdates := mmRemove r u (remotesUpdates H)\<rparr>)"

definition handlerRemoveSubscriber ::
  "u32 \<Rightarrow> 'r \<Rightarrow> ('r, 'u) RemoteInterestsHandler \<Rightarrow> u32 list \<times> ('r, 'u) RemoteInterestsHandler" where
  "handlerRemoveSubscriber i r H =
    (let H = H\<lparr>remotesInterests := mmRemove r i (remotesInterests H)\<rparr>;
         orphanInterests = yOrphans (remotesInterests H)
     in (orphanInterests,
         if xOrphans (remotesInterests H) \<noteq> [] then H\<lparr>remotesUpdates := mmRemoveX r (remotesUpdates H)\<rparr>
         else case xToYListMap (interestsUpdates H) i of
            None \<Rightarrow> H
          | Some updates \<Rightarrow> fold (dropUninteresting r) (elems updates) H))"

definition handlerRemoveRemote ::
  "'r \<Rightarrow> ('r, 'u) RemoteInterestsHandler \<Rightarrow> u32 list \<times> ('r, 'u) RemoteInterestsHandler" where
  "handlerRemoveRemote r H =
    (let H = H\<lparr>remotesInterests := mmRemoveX r (remotesInterests H)\<rparr>
     in (yOrphans (remotesInterests H), H\<lparr>remotesUpdates := mmRemoveX r (remotesUpdates H)\<rparr>))"

definition handlerAddObject ::
  "u32 \<Rightarrow> 'u \<Rightarrow> ('r, 'u) RemoteInterestsHandler \<Rightarrow> ('r, 'u) RemoteInterestsHandler" where
  "handlerAddObject i u H =
     H\<lparr>interestsUpdates := mmAdd i u (interestsUpdates H),
       remotesUpdates := fold (\<lambda>r. mmAdd r u) (forEachY i (remotesInterests H)) (remotesUpdates H)\<rparr>"

definition handlerRemoveObject ::
  "'u \<Rightarrow> ('r, 'u) RemoteInterestsHandler \<Rightarrow> ('r, 'u) RemoteInterestsHandler" where
  "handlerRemoveObject u H =
     H\<lparr>interestsUpdates := mmRemoveY u (interestsUpdates H), remotesUpdates := mmRemoveY u (remotesUpdates H)\<rparr>"

definition handlerRemoveInterest ::
  "u32 \<Rightarrow> ('r, 'u) RemoteInterestsHandler \<Rightarrow> 'u list \<times> ('r, 'u) RemoteInterestsHandler" where
  "handlerRemoveInterest i H =
    (let m = mmRemoveX i (clearOrphans (interestsUpdates H))
     in (yOrphans m, H\<lparr>interestsUpdates := m\<rparr>))"

definition handlerRemoveRejected ::
  "'r \<Rightarrow> 'u \<Rightarrow> ('r, 'u) RemoteInterestsHandler \<Rightarrow> ('r, 'u) RemoteInterestsHandler" where
  "handlerRemoveRejected r u H = H\<lparr>remotesUpdates := mmRemove r u (remotesUpdates H)\<rparr>"

definition hasAnyInterest :: "'u \<Rightarrow> ('r, 'u) RemoteInterestsHandler \<Rightarrow> bool" where
  "hasAnyInterest u H \<longleftrightarrow> containsY u (interestsUpdates H)"

text \<open>\<open>order\<close> gives the keys of a hash map in the order in which it is walked.\<close>

type_synonym 'r key_order = "(u32 \<rightharpoonup> 'r List) \<Rightarrow> u32 list"

definition walksAll :: "'r key_order \<Rightarrow> bool" where
  "walksAll order \<longleftrightarrow> (\<forall>m. set (order m) = dom m)"

definition getFirstRemoteParticipant :: "'r key_order \<Rightarrow> ('r, 'u) RemoteInterestsHandler \<Rightarrow> 'r option" where
  "getFirstRemoteParticipant order H =
    (case find (\<lambda>i. elems (listAt (yToXListMap (remotesInterests H)) i) \<noteq> [])
        (order (yToXListMap (remotesInterests H))) of
       None \<Rightarrow> None
     | Some i \<Rightarrow> Some (hd (elems (listAt (yToXListMap (remotesInterests H)) i))))"

definition handlerRemoveObjectByInterest ::
  "'u \<Rightarrow> u32 \<Rightarrow> ('r, 'u) RemoteInterestsHandler \<Rightarrow> bool \<times> ('r, 'u) RemoteInterestsHandler" where
  "handlerRemoveObjectByInterest u i H =
    (let H = H\<lparr>interestsUpdates := mmRemove i u (interestsUpdates H)\<rparr>;
         remotesToRemove = filter (\<lambda>r. \<not> remoteHasInterestInUpdate r u H) (forEachY u (remotesUpdates H));
         H = H\<lparr>remotesUpdates := fold (\<lambda>r. mmRemove r u) remotesToRemove (remotesUpdates H)\<rparr>
     in (\<not> containsY u (interestsUpdates H), H))"

definition handlerClear :: "('r, 'u) RemoteInterestsHandler \<Rightarrow> ('r, 'u) RemoteInterestsHandler" where
  "handlerClear H = \<lparr>remotesUpdates = mmClear (remotesUpdates H), remotesInterests = mmClear (remotesInterests H),
     interestsUpdates = mmClear (interestsUpdates H)\<rparr>"

section \<open>The relations of the handler\<close>

definition handlerOk :: "('r, 'u) RemoteInterestsHandler \<Rightarrow> bool" where
  "handlerOk H \<longleftrightarrow> mmOk (remotesUpdates H) \<and> mmOk (remotesInterests H) \<and> mmOk (interestsUpdates H)"

abbreviation sends :: "('r, 'u) RemoteInterestsHandler \<Rightarrow> ('r \<times> 'u) set" where
  "sends H \<equiv> mmPairs (remotesUpdates H)"

abbreviation subscribed :: "('r, 'u) RemoteInterestsHandler \<Rightarrow> ('r \<times> u32) set" where
  "subscribed H \<equiv> mmPairs (remotesInterests H)"

abbreviation selects :: "('r, 'u) RemoteInterestsHandler \<Rightarrow> (u32 \<times> 'u) set" where
  "selects H \<equiv> mmPairs (interestsUpdates H)"

text \<open>What a remote participant should be sent: the updates its interests select.\<close>

definition wanted :: "('r, 'u) RemoteInterestsHandler \<Rightarrow> ('r \<times> 'u) set" where
  "wanted H = subscribed H O selects H"

text \<open>\<open>becomes H H' s i w\<close>: good relations, with the given contents.\<close>

definition becomes ::
  "('r, 'u) RemoteInterestsHandler \<Rightarrow> ('r \<times> 'u) set \<Rightarrow> ('r \<times> u32) set \<Rightarrow> (u32 \<times> 'u) set \<Rightarrow> bool" where
  "becomes H s r i \<longleftrightarrow> handlerOk H \<and> sends H = s \<and> subscribed H = r \<and> selects H = i"

lemma listed_x: "mmOk m \<Longrightarrow> xToYListMap m x = Some l \<Longrightarrow> listOk l \<and> set (elems l) = {y. (x, y) \<in> mmPairs m}"
  using elems_at [of "xToYListMap m" x] by (auto simp: mmOk_def listAt_def mmPairs_def dest: listsOkD)

lemma listed_y: "mmOk m \<Longrightarrow> yToXListMap m y = Some l \<Longrightarrow> listOk l \<and> set (elems l) = {x. (x, y) \<in> mmPairs m}"
  using elems_at [of "yToXListMap m" y] pairsOf_y [of m] by (auto simp: mmOk_def listAt_def dest: listsOkD)

lemma unlisted_x: "mmOk m \<Longrightarrow> xToYListMap m x = None \<longleftrightarrow> x \<notin> Domain (mmPairs m)"
  using dom_pairsOf [of "xToYListMap m" x] by (simp add: mmOk_def mmPairs_def)

lemma unlisted_y: "mmOk m \<Longrightarrow> yToXListMap m y = None \<longleftrightarrow> y \<notin> Range (mmPairs m)"
  using dom_pairsOf [of "yToXListMap m" y] pairsOf_y [of m] by (auto simp: mmOk_def)

lemma containsY_pairs: "mmOk m \<Longrightarrow> containsY y m \<longleftrightarrow> y \<in> Range (mmPairs m)"
  by (simp add: containsY_def unlisted_y)

lemma hasInterest_wanted:
  assumes "handlerOk H" shows "remoteHasInterestInUpdate r u H \<longleftrightarrow> (r, u) \<in> wanted H"
proof -
  have ok: "mmOk (remotesInterests H)" "mmOk (interestsUpdates H)" using assms by (auto simp: handlerOk_def)
  show ?thesis
  proof (cases "xToYListMap (remotesInterests H) r")
    case None
    then show ?thesis using unlisted_x [OF ok(1), of r] by (auto simp: remoteHasInterestInUpdate_def wanted_def)
  next
    case (Some ks)
    note listed = listed_x [OF ok(1) Some]
    show ?thesis
    proof (cases "yToXListMap (interestsUpdates H) u")
      case None
      then show ?thesis using Some unlisted_y [OF ok(2), of u]
        by (auto simp: remoteHasInterestInUpdate_def wanted_def)
    next
      case (Some js)
      note listed' = listed_y [OF ok(2) Some]
      have "list_ex (\<lambda>i. listContains i js) (elems ks) \<longleftrightarrow> (\<exists>i. (r, i) \<in> subscribed H \<and> (i, u) \<in> selects H)"
        using listed listed' by (auto simp: list_ex_iff elems_iff [symmetric])
      then show ?thesis
        using Some \<open>xToYListMap (remotesInterests H) r = Some ks\<close>
        by (auto simp: remoteHasInterestInUpdate_def wanted_def)
    qed
  qed
qed

lemma fold_add_x: "mmOk m \<Longrightarrow> mmOk (fold (mmAdd r) us m) \<and> mmPairs (fold (mmAdd r) us m) = mmPairs m \<union> {r} \<times> set us"
  by (induction us arbitrary: m) (auto simp: mmOk_add)

lemma fold_add_y:
  "mmOk m \<Longrightarrow> mmOk (fold (\<lambda>r. mmAdd r u) rs m) \<and> mmPairs (fold (\<lambda>r. mmAdd r u) rs m) = mmPairs m \<union> set rs \<times> {u}"
  by (induction rs arbitrary: m) (auto simp: mmOk_add)

lemma fold_remove_y:
  "mmOk m \<Longrightarrow>
   mmOk (fold (\<lambda>r. mmRemove r u) rs m) \<and> mmPairs (fold (\<lambda>r. mmRemove r u) rs m) = mmPairs m - set rs \<times> {u}"
  by (induction rs arbitrary: m) (auto simp: mmRemove_pairs)

lemma newHandler_becomes: "becomes newHandler {} {} {}"
  by (simp add: becomes_def handlerOk_def newHandler_def mmOk_empty)

lemma addSubscriber_becomes:
  assumes "handlerOk H"
  shows "becomes (handlerAddSubscriber i r new H)
     (sends H \<union> (if new then {} else {r} \<times> selects H `` {i})) (insert (r, i) (subscribed H)) (selects H)"
  using assms fold_add_x [of "remotesUpdates H" r "forEachX i (interestsUpdates H)"]
    forEachX_pairs [of "interestsUpdates H" i]
  by (auto simp: handlerAddSubscriber_def becomes_def handlerOk_def mmOk_add Let_def)

lemma drop_becomes:
  assumes "handlerOk H"
  shows "becomes (fold (dropUninteresting r) us H) (sends H - ({r} \<times> set us - wanted H)) (subscribed H) (selects H)"
  using assms
proof (induction us arbitrary: H)
  case (Cons u us)
  have one: "becomes (dropUninteresting r u H) (sends H - ({(r, u)} - wanted H)) (subscribed H) (selects H)"
    using Cons.prems hasInterest_wanted [OF Cons.prems, of r u] mmRemove_pairs [of "remotesUpdates H" r u]
    by (auto simp: dropUninteresting_def becomes_def handlerOk_def)
  then have "wanted (dropUninteresting r u H) = wanted H" by (simp add: wanted_def becomes_def)
  with one Cons.IH [of "dropUninteresting r u H"] show ?case by (auto simp: becomes_def)
qed (simp add: becomes_def)

lemma removeSubscriber_becomes:
  assumes "handlerOk H" "handlerRemoveSubscriber i r H = (orphans, H')"
  defines "W \<equiv> (subscribed H - {(r, i)}) O selects H"
  shows "becomes H' (sends H -
       (if (r, i) \<in> subscribed H \<and> subscribed H `` {r} \<subseteq> {i} then {r} \<times> UNIV else {r} \<times> selects H `` {i} - W))
     (subscribed H - {(r, i)}) (selects H)"
proof -
  let ?m = "mmRemove r i (remotesInterests H)"
  let ?H = "H\<lparr>remotesInterests := ?m\<rparr>"
  have ok: "mmOk (remotesUpdates H)" "mmOk (remotesInterests H)" "mmOk (interestsUpdates H)"
    using assms(1) by (auto simp: handlerOk_def)
  note m = mmRemove_pairs [OF ok(2), of r i]
  have okH: "handlerOk ?H" using m ok by (simp add: handlerOk_def)
  have "set (xOrphans ?m) = Domain (subscribed H) - Domain (subscribed H - {(r, i)})"
    using m by (simp add: orphansExact_def)
  then have orphan: "xOrphans ?m \<noteq> [] \<longleftrightarrow> (r, i) \<in> subscribed H \<and> subscribed H `` {r} \<subseteq> {i}"
    unfolding set_empty [symmetric] by auto
  show ?thesis
  proof (cases "(r, i) \<in> subscribed H \<and> subscribed H `` {r} \<subseteq> {i}")
    case True
    then have "xOrphans ?m \<noteq> []" using orphan by blast
    then have "H' = ?H\<lparr>remotesUpdates := mmRemoveX r (remotesUpdates H)\<rparr>"
      using assms(2) by (simp add: handlerRemoveSubscriber_def Let_def)
    then show ?thesis
      using True m mmRemoveX_pairs(1) [OF ok(1), of r] ok by (auto simp: becomes_def handlerOk_def)
  next
    case False
    then have "xOrphans ?m = []" using orphan by blast
    then have H': "H' = (case xToYListMap (interestsUpdates H) i of None \<Rightarrow> ?H
        | Some updates \<Rightarrow> fold (dropUninteresting r) (elems updates) ?H)"
      using assms(2) by (simp add: handlerRemoveSubscriber_def Let_def)
    have W: "wanted ?H = W" using m by (simp add: wanted_def W_def)
    show ?thesis
    proof (cases "xToYListMap (interestsUpdates H) i")
      case None
      then have "selects H `` {i} = {}" using unlisted_x [OF ok(3), of i] by auto
      then show ?thesis unfolding if_not_P [OF False] using None H' okH m by (simp add: becomes_def)
    next
      case (Some us)
      then have "set (elems us) = selects H `` {i}" using listed_x [OF ok(3) Some] by auto
      then show ?thesis unfolding if_not_P [OF False]
        using Some H' m drop_becomes [OF okH, of r "elems us"] W by (simp add: becomes_def)
    qed
  qed
qed

lemma removeRemote_becomes:
  assumes "handlerOk H" "handlerRemoveRemote r H = (orphans, H')"
  shows "becomes H' (sends H - {r} \<times> UNIV) (subscribed H - {r} \<times> UNIV) (selects H)"
    and "r \<in> Domain (subscribed H) \<Longrightarrow>
      set orphans = Range (subscribed H) - Range (subscribed H - {r} \<times> UNIV) \<and> distinct orphans"
proof -
  have ok: "mmOk (remotesUpdates H)" "mmOk (remotesInterests H)" "mmOk (interestsUpdates H)"
    using assms(1) by (auto simp: handlerOk_def)
  note m = mmRemoveX_pairs [OF ok(2), of r] and m' = mmRemoveX_pairs(1) [OF ok(1), of r]
  show "becomes H' (sends H - {r} \<times> UNIV) (subscribed H - {r} \<times> UNIV) (selects H)"
    using assms(2) m(1) m' ok(3) by (auto simp: handlerRemoveRemote_def becomes_def handlerOk_def Let_def)
  assume "r \<in> Domain (subscribed H)"
  then show "set orphans = Range (subscribed H) - Range (subscribed H - {r} \<times> UNIV) \<and> distinct orphans"
    using assms(2) m by (auto simp: handlerRemoveRemote_def orphansExact_def Let_def)
qed

lemma addObject_becomes:
  assumes "handlerOk H"
  shows "becomes (handlerAddObject i u H) (sends H \<union> ((subscribed H)\<inverse> `` {i}) \<times> {u}) (subscribed H)
     (insert (i, u) (selects H))"
proof -
  have "set (forEachY i (remotesInterests H)) = (subscribed H)\<inverse> `` {i}"
    using assms forEachY_pairs [of "remotesInterests H" i] by (auto simp: handlerOk_def)
  then show ?thesis
    using assms fold_add_y [of "remotesUpdates H" u "forEachY i (remotesInterests H)"]
    by (simp add: handlerAddObject_def becomes_def handlerOk_def mmOk_add)
qed

lemma removeObject_becomes:
  "handlerOk H \<Longrightarrow>
   becomes (handlerRemoveObject u H) (sends H - UNIV \<times> {u}) (subscribed H) (selects H - UNIV \<times> {u})"
  by (simp add: handlerRemoveObject_def becomes_def handlerOk_def mmRemoveY_pairs(1))

lemma removeInterest_becomes:
  assumes "handlerOk H" "handlerRemoveInterest i H = (orphans, H')"
  shows "becomes H' (sends H) (subscribed H) (selects H - {i} \<times> UNIV)"
    and "set orphans = Range (selects H) - Range (selects H - {i} \<times> UNIV)"
proof -
  let ?m = "clearOrphans (interestsUpdates H)"
  have ok: "mmOk ?m" "mmPairs ?m = selects H" "yOrphans ?m = []"
    using assms(1) by (simp_all add: handlerOk_def mmOk_def mmPairs_def clearOrphans_def)
  note m = mmRemoveX_pairs [OF ok(1), of i]
  have "H' = H\<lparr>interestsUpdates := mmRemoveX i ?m\<rparr>"
    using assms(2) by (simp add: handlerRemoveInterest_def Let_def)
  then show "becomes H' (sends H) (subscribed H) (selects H - {i} \<times> UNIV)"
    using assms(1) m(1) ok(2) by (simp add: becomes_def handlerOk_def)
  show "set orphans = Range (selects H) - Range (selects H - {i} \<times> UNIV)"
  proof (cases "i \<in> Domain (mmPairs ?m)")
    case True
    note exact = m(2) [OF True]
    from assms(2) have "orphans = yOrphans (mmRemoveX i ?m)" by (simp add: handlerRemoveInterest_def Let_def)
    then show ?thesis using exact m(1) ok(2) unfolding orphansExact_def by simp
  next
    case False
    have "mmRemoveX i ?m = ?m" by (rule mmRemoveX_absent [OF ok(1) False])
    moreover have "selects H - {i} \<times> UNIV = selects H" using False ok(2) by blast
    ultimately show ?thesis using assms(2) ok(3) by (simp add: handlerRemoveInterest_def Let_def)
  qed
qed

lemma removeRejected_becomes:
  "handlerOk H \<Longrightarrow> becomes (handlerRemoveRejected r u H) (sends H - {(r, u)}) (subscribed H) (selects H)"
  by (simp add: handlerRemoveRejected_def becomes_def handlerOk_def mmRemove_pairs)

lemma removeObjectByInterest_becomes:
  assumes "handlerOk H" "handlerRemoveObjectByInterest u i H = (gone, H')"
  shows "becomes H' (sends H - (UNIV \<times> {u} - subscribed H O (selects H - {(i, u)}))) (subscribed H)
      (selects H - {(i, u)})"
    and "gone \<longleftrightarrow> u \<notin> Range (selects H - {(i, u)})"
proof -
  let ?H = "H\<lparr>interestsUpdates := mmRemove i u (interestsUpdates H)\<rparr>"
  let ?rs = "filter (\<lambda>r. \<not> remoteHasInterestInUpdate r u ?H) (forEachY u (remotesUpdates H))"
  have ok: "mmOk (remotesUpdates H)" "mmOk (remotesInterests H)" "mmOk (interestsUpdates H)"
    using assms(1) by (auto simp: handlerOk_def)
  note m = mmRemove_pairs [OF ok(3), of i u]
  have okH: "handlerOk ?H" using m ok by (simp add: handlerOk_def)
  have wanted: "wanted ?H = subscribed H O (selects H - {(i, u)})" using m by (simp add: wanted_def)
  have H': "H' = ?H\<lparr>remotesUpdates := fold (\<lambda>r. mmRemove r u) ?rs (remotesUpdates H)\<rparr>"
      "gone \<longleftrightarrow> \<not> containsY u (mmRemove i u (interestsUpdates H))"
    using assms(2) by (auto simp: handlerRemoveObjectByInterest_def Let_def)
  have "set ?rs \<times> {u} = sends H \<inter> (UNIV \<times> {u} - wanted ?H)"
    using forEachY_pairs [OF ok(1), of u] hasInterest_wanted [OF okH] by auto
  then have "sends H - set ?rs \<times> {u} = sends H - (UNIV \<times> {u} - wanted ?H)" by blast
  then show "becomes H' (sends H - (UNIV \<times> {u} - subscribed H O (selects H - {(i, u)}))) (subscribed H)
      (selects H - {(i, u)})"
    using fold_remove_y [OF ok(1), of u ?rs] m ok wanted unfolding H'(1) becomes_def handlerOk_def by simp
  show "gone \<longleftrightarrow> u \<notin> Range (selects H - {(i, u)})"
    unfolding H'(2) using m containsY_pairs [of "mmRemove i u (interestsUpdates H)" u] by simp
qed

lemma mmClear_pairs: "mmOk m \<Longrightarrow> mmOk (mmClear m) \<and> mmPairs (mmClear m) = {}"
  using mmApply_refines [of m ClearAll] by simp

lemma clear_becomes: "handlerOk H \<Longrightarrow> becomes (handlerClear H) {} {} {}"
  by (simp add: handlerClear_def becomes_def handlerOk_def mmClear_pairs)

lemmas handler_becomes = addSubscriber_becomes removeSubscriber_becomes removeRemote_becomes(1) addObject_becomes
  removeObject_becomes removeInterest_becomes(1) removeRejected_becomes removeObjectByInterest_becomes(1)
  clear_becomes

text \<open>
  The histories of a handler, without the two operations that make it depart from what is wanted: an interest
  that is taken away as a whole, and an object a remote participant rejects.  An interest is announced as new
  only when it selects nothing yet.
\<close>

inductive handlerRun :: "('r, 'u) RemoteInterestsHandler \<Rightarrow> bool" where
  start: "handlerRun newHandler"
| subscribe: "handlerRun H \<Longrightarrow> new \<longrightarrow> \<not> containsX i (interestsUpdates H) \<Longrightarrow>
    handlerRun (handlerAddSubscriber i r new H)"
| unsubscribe: "handlerRun H \<Longrightarrow> handlerRun (snd (handlerRemoveSubscriber i r H))"
| leave: "handlerRun H \<Longrightarrow> handlerRun (snd (handlerRemoveRemote r H))"
| add: "handlerRun H \<Longrightarrow> handlerRun (handlerAddObject i u H)"
| remove: "handlerRun H \<Longrightarrow> handlerRun (handlerRemoveObject u H)"
| unselect: "handlerRun H \<Longrightarrow> handlerRun (snd (handlerRemoveObjectByInterest u i H))"
| clear: "handlerRun H \<Longrightarrow> handlerRun (handlerClear H)"

lemma unsubscribe_rel:
  "S O I - (if (r, i) \<in> S \<and> S `` {r} \<subseteq> {i} then {r} \<times> UNIV else {r} \<times> I `` {i} - (S - {(r, i)}) O I) =
   (S - {(r, i)}) O I"
proof (cases "(r, i) \<in> S \<and> S `` {r} \<subseteq> {i}")
  case True
  then have "S O I - {r} \<times> UNIV = (S - {(r, i)}) O I" by blast
  then show ?thesis using True by simp
next
  case False
  have "(S - {(r, i)}) O I \<subseteq> S O I" "S O I - (S - {(r, i)}) O I \<subseteq> {r} \<times> I `` {i}" by blast+
  then have "S O I - ({r} \<times> I `` {i} - (S - {(r, i)}) O I) = (S - {(r, i)}) O I" by blast
  then show ?thesis unfolding if_not_P [OF False] .
qed

lemma handlerRun_exact: "handlerRun H \<Longrightarrow> handlerOk H \<and> sends H = wanted H"
proof (induction rule: handlerRun.induct)
  case start
  then show ?case using newHandler_becomes by (auto simp: becomes_def wanted_def)
next
  case (subscribe H new i r)
  then have "new \<longrightarrow> selects H `` {i} = {}"
    using unlisted_x [of "interestsUpdates H" i] by (auto simp: containsX_def handlerOk_def)
  then show ?case
    using addSubscriber_becomes [of H i r new] subscribe.IH by (auto simp: becomes_def wanted_def)
next
  case (unsubscribe H i r)
  obtain os H' where H': "handlerRemoveSubscriber i r H = (os, H')" by fastforce
  let ?S = "subscribed H" and ?W = "(subscribed H - {(r, i)}) O selects H"
  have "?S O selects H - (if (r, i) \<in> ?S \<and> ?S `` {r} \<subseteq> {i} then {r} \<times> UNIV else {r} \<times> selects H `` {i} - ?W) = ?W"
    by (rule unsubscribe_rel)
  then show ?case
    using removeSubscriber_becomes [OF conjunct1 [OF unsubscribe.IH] H'] unsubscribe.IH H'
    by (simp add: becomes_def wanted_def)
next
  case (leave H r)
  obtain os H' where H': "handlerRemoveRemote r H = (os, H')" by fastforce
  then show ?case
    using removeRemote_becomes(1) [OF conjunct1 [OF leave.IH] H'] leave.IH by (auto simp: becomes_def wanted_def)
next
  case (add H i u)
  then show ?case using addObject_becomes [of H i u] by (auto simp: becomes_def wanted_def)
next
  case (remove H u)
  then show ?case using removeObject_becomes [of H u] by (auto simp: becomes_def wanted_def)
next
  case (unselect H u i)
  obtain g H' where H': "handlerRemoveObjectByInterest u i H = (g, H')" by fastforce
  then show ?case
    using removeObjectByInterest_becomes(1) [OF conjunct1 [OF unselect.IH] H'] unselect.IH
    by (auto simp: becomes_def wanted_def)
next
  case (clear H)
  then show ?case using clear_becomes [of H] by (auto simp: becomes_def wanted_def)
qed

section \<open>Properties\<close>


text \<open>Two interests of one participant select an object; it gives up one of them.\<close>

definition exampleHandler :: "(nat, nat) RemoteInterestsHandler" where
  "exampleHandler = snd (handlerRemoveSubscriber 1 7 (handlerAddObject 2 5 (handlerAddObject 1 5
     (handlerAddSubscriber 2 7 True (handlerAddSubscriber 1 7 True newHandler)))))"

lemma exampleHandler_run: "handlerRun exampleHandler"
  unfolding exampleHandler_def
  by (intro handlerRun.intros)
    (simp_all add: containsX_def handlerAddSubscriber_def newHandler_def emptyBiMultiMap_def)


end
