(* ===== verification/Remote_Updates.thy ===== *)
theory Remote_Updates
  imports Remote_Interests
begin

text \<open>
  The manager of the remote subscribers of a participant (kernel/src/bus/remote_interest_manager.cpp): a filter
  of objects (theory Object_Filter) that is told about its subscribers and about the objects each interest gains
  and loses, keeps an ObjectUpdate for each of these objects, and sends the updates out.

  An ObjectUpdate is named by its node in the list of the manager.  \<open>faulted\<close> records that an update was used that
  is no longer in the list, or that an iterator was used that points nowhere: the behaviour of the code is
  undefined from there on.  The mutexes make the operations atomic.  The contents of an update (the changed
  properties of the object, written by generated code) are not modelled, nor is the log.
\<close>

section \<open>The manager\<close>

text \<open>
  \<open>interestToCounter\<close> is the state of InterestsHandler.  \<open>objectUpdates\<close> are the nodes of the list with the
  identifier of the object of each; the pointer 0 is null.
\<close>

record 'r RemoteInterestsManager =
  handler :: "('r, nat) RemoteInterestsHandler"
  updatesObjectIds :: "(nat, u32) BiMap"
  interestToCounter :: "u32 \<rightharpoonup> u32"
  objectUpdates :: "(nat \<times> u32) list"
  objectIdToUpdateItr :: "u32 \<rightharpoonup> nat"
  updateRemovalsPending :: "u32 list"
  aRemoteParticipant :: "'r option"
  freshUpdate :: nat
  faulted :: bool

definition newManager :: "'r RemoteInterestsManager" where
  "newManager = \<lparr>handler = newHandler, updatesObjectIds = \<lparr>xToYMap = Map.empty, yToXMap = Map.empty\<rparr>,
     interestToCounter = Map.empty, objectUpdates = [], objectIdToUpdateItr = Map.empty,
     updateRemovalsPending = [], aRemoteParticipant = None, freshUpdate = 1, faulted = False\<rparr>"

text \<open>The use of an update through a pointer or an iterator.\<close>

definition useUpdate :: "nat \<Rightarrow> 'r RemoteInterestsManager \<Rightarrow> 'r RemoteInterestsManager" where
  "useUpdate u M = M\<lparr>faulted := faulted M \<or> u \<notin> fst ` set (objectUpdates M)\<rparr>"

definition removeObjectUpdatesByInterest ::
  "u32 \<Rightarrow> u32 \<Rightarrow> 'r RemoteInterestsManager \<Rightarrow> 'r RemoteInterestsManager" where
  "removeObjectUpdatesByInterest oid i M =
    (case objectIdToUpdateItr M oid of
       None \<Rightarrow> M
     | Some u \<Rightarrow>
         (let M = useUpdate u M;
              (gone, H) = handlerRemoveObjectByInterest u i (handler M)
          in M\<lparr>handler := H,
               updateRemovalsPending := updateRemovalsPending M @ (if gone then [oid] else [])\<rparr>))"

text \<open>
  The callback for an interest nobody is interested in any more.  \<open>alive\<close> tells whether the weak reference of an
  update to its object can be locked.
\<close>

definition orphanUpdate ::
  "(u32 \<Rightarrow> bool) \<Rightarrow> u32 \<Rightarrow> nat \<Rightarrow> 'r RemoteInterestsManager \<Rightarrow> 'r RemoteInterestsManager" where
  "orphanUpdate alive i u M =
    (case map_of (objectUpdates M) u of
       None \<Rightarrow> useUpdate u M
     | Some oid \<Rightarrow> if alive oid then removeObjectUpdatesByInterest oid i (useUpdate u M) else useUpdate u M)"

definition onInterestRemoved ::
  "(u32 \<Rightarrow> bool) \<Rightarrow> u32 \<Rightarrow> 'r RemoteInterestsManager \<Rightarrow> 'r RemoteInterestsManager" where
  "onInterestRemoved alive i M =
    (let (orphanUpdates, H) = handlerRemoveInterest i (handler M)
     in fold (orphanUpdate alive i) orphanUpdates (M\<lparr>handler := H\<rparr>))"

definition addInterest :: "u32 \<Rightarrow> (u32 \<rightharpoonup> u32) \<Rightarrow> bool \<times> (u32 \<rightharpoonup> u32)" where
  "addInterest i m = (m i = None, m(i \<mapsto> (case m i of None \<Rightarrow> 0 | Some n \<Rightarrow> n) + 1))"

definition removeInterest ::
  "(u32 \<Rightarrow> bool) \<Rightarrow> u32 \<Rightarrow> 'r RemoteInterestsManager \<Rightarrow> 'r RemoteInterestsManager" where
  "removeInterest alive i M =
    (case interestToCounter M i of
       None \<Rightarrow> M
     | Some n \<Rightarrow>
         if n \<noteq> 1 then M\<lparr>interestToCounter := (interestToCounter M)(i \<mapsto> n - 1)\<rparr>
         else onInterestRemoved alive i (M\<lparr>interestToCounter := (interestToCounter M)(i := None)\<rparr>))"

text \<open>A listener is a remote participant (\<open>Some\<close>) or another one (\<open>None\<close>), as isRemoteParticipant tells.\<close>

definition subscriberAdded ::
  "u32 \<Rightarrow> 'r option \<Rightarrow> 'r RemoteInterestsManager \<Rightarrow> 'r RemoteInterestsManager" where
  "subscriberAdded i l M =
    (let (isANewInterest, counters) = addInterest i (interestToCounter M);
         M = M\<lparr>interestToCounter := counters\<rparr>
     in case l of
          None \<Rightarrow> M
        | Some remote \<Rightarrow> M\<lparr>aRemoteParticipant := Some remote,
            handler := handlerAddSubscriber i remote isANewInterest (handler M)\<rparr>)"

definition updateRemoteReference ::
  "'r key_order \<Rightarrow> 'r \<Rightarrow> 'r RemoteInterestsManager \<Rightarrow> 'r RemoteInterestsManager" where
  "updateRemoteReference order remote M =
    (if aRemoteParticipant M = Some remote
     then M\<lparr>aRemoteParticipant := getFirstRemoteParticipant order (handler M)\<rparr> else M)"

definition subscriberRemoved ::
  "(u32 \<Rightarrow> bool) \<Rightarrow> 'r key_order \<Rightarrow> u32 \<Rightarrow> 'r option \<Rightarrow> 'r RemoteInterestsManager
     \<Rightarrow> 'r RemoteInterestsManager" where
  "subscriberRemoved alive order i l M =
    (let M = removeInterest alive i M
     in case l of
          None \<Rightarrow> M
        | Some remote \<Rightarrow>
            (let M = M\<lparr>handler := snd (handlerRemoveSubscriber i remote (handler M))\<rparr>
             in updateRemoteReference order remote M))"

definition remoteRemoved ::
  "(u32 \<Rightarrow> bool) \<Rightarrow> 'r key_order \<Rightarrow> 'r option \<Rightarrow> 'r RemoteInterestsManager \<Rightarrow> 'r RemoteInterestsManager" where
  "remoteRemoved alive order l M =
    (case l of
       None \<Rightarrow> M
     | Some remote \<Rightarrow>
         (let (interests, H) = handlerRemoveRemote remote (handler M);
              M = fold (removeInterest alive) interests (M\<lparr>handler := H\<rparr>)
          in updateRemoteReference order remote M))"

text \<open>An addition is the identifier of the native object it stands for, if it stands for one.\<close>

definition addUpdate :: "u32 \<Rightarrow> u32 \<Rightarrow> 'r RemoteInterestsManager \<Rightarrow> 'r RemoteInterestsManager" where
  "addUpdate i oid M =
    (let (u, M) =
       (case objectIdToUpdateItr M oid of
          None \<Rightarrow>
            (freshUpdate M,
             M\<lparr>objectUpdates := objectUpdates M @ [(freshUpdate M, oid)],
               updatesObjectIds := bimapAdd (freshUpdate M) oid (updatesObjectIds M),
               objectIdToUpdateItr := (objectIdToUpdateItr M)(oid \<mapsto> freshUpdate M),
               freshUpdate := Suc (freshUpdate M)\<rparr>)
        | Some u \<Rightarrow> (u, useUpdate u M))
     in M\<lparr>handler := handlerAddObject i u (handler M)\<rparr>)"

definition updatesAdded ::
  "u32 \<Rightarrow> u32 option list \<Rightarrow> 'r RemoteInterestsManager \<Rightarrow> 'r RemoteInterestsManager" where
  "updatesAdded i additions M = fold (addUpdate i) (List.map_filter id additions) M"

definition updatesRemoved :: "u32 \<Rightarrow> u32 list \<Rightarrow> 'r RemoteInterestsManager \<Rightarrow> 'r RemoteInterestsManager" where
  "updatesRemoved i removals M = fold (\<lambda>oid. removeObjectUpdatesByInterest oid i) removals M"

text \<open>\<^verbatim>\<open>objectIdToUpdateItr_[objectId]\<close> of an unknown object is an iterator that points nowhere.\<close>

definition markObjectAsRejected ::
  "u32 \<Rightarrow> 'r option \<Rightarrow> 'r RemoteInterestsManager \<Rightarrow> 'r RemoteInterestsManager" where
  "markObjectAsRejected oid l M =
    (case l of
       None \<Rightarrow> M
     | Some remote \<Rightarrow>
         (case objectIdToUpdateItr M oid of
            None \<Rightarrow> M\<lparr>faulted := True\<rparr>
          | Some u \<Rightarrow>
              (let M = useUpdate u M in M\<lparr>handler := handlerRemoveRejected remote u (handler M)\<rparr>)))"

definition applyUpdateRemoval :: "u32 \<Rightarrow> 'r RemoteInterestsManager \<Rightarrow> 'r RemoteInterestsManager" where
  "applyUpdateRemoval oid M =
    (case objectIdToUpdateItr M oid of
       None \<Rightarrow> M
     | Some u \<Rightarrow>
         (let M = useUpdate u M
          in if hasAnyInterest u (handler M) then M
             else M\<lparr>objectUpdates := filter (\<lambda>(n, _). n \<noteq> u) (objectUpdates M),
                    updatesObjectIds := bimapRemoveY 0 oid (updatesObjectIds M),
                    objectIdToUpdateItr := (objectIdToUpdateItr M)(oid := None)\<rparr>))"

definition applyPendingUpdateRemovals :: "'r RemoteInterestsManager \<Rightarrow> 'r RemoteInterestsManager" where
  "applyPendingUpdateRemovals M =
     (fold applyUpdateRemoval (updateRemovalsPending M) M)\<lparr>updateRemovalsPending := []\<rparr>"

text \<open>The first of the participants of each process.\<close>

fun firstPerProcess :: "('r \<Rightarrow> u32) \<Rightarrow> 'r list \<Rightarrow> u32 set \<Rightarrow> 'r list" where
  "firstPerProcess proc [] used = []"
| "firstPerProcess proc (r # rs) used =
    (if proc r \<in> used then firstPerProcess proc rs used
     else r # firstPerProcess proc rs (insert (proc r) used))"

text \<open>
  The updates that go out, each with the participant it is sent through; \<open>order\<close> lists the updates in the order of
  the hash map.  Nothing is sent for an object that is gone.
\<close>

definition sendUpdate ::
  "('r \<Rightarrow> u32) \<Rightarrow> (u32 \<Rightarrow> bool) \<Rightarrow> nat \<Rightarrow> 'r RemoteInterestsManager \<Rightarrow> ('r \<times> u32) list" where
  "sendUpdate proc alive u M =
    (case map_of (objectUpdates M) u of
       None \<Rightarrow> []
     | Some oid \<Rightarrow>
         if alive oid
         then map (\<lambda>r. (r, oid)) (firstPerProcess proc (forEachY u (remotesUpdates (handler M))) {}) else [])"

definition sendObjectUpdates ::
  "('r \<Rightarrow> u32) \<Rightarrow> (u32 \<Rightarrow> bool) \<Rightarrow> ((nat \<rightharpoonup> 'r List) \<Rightarrow> nat list) \<Rightarrow> 'r RemoteInterestsManager
     \<Rightarrow> ('r \<times> u32) list \<times> 'r RemoteInterestsManager" where
  "sendObjectUpdates proc alive order M =
    (let M = applyPendingUpdateRemovals M
     in if aRemoteParticipant M = None then ([], M)
        else
          (let updates = order (yToXListMap (remotesUpdates (handler M)))
           in (concat (map (\<lambda>u. sendUpdate proc alive u M) updates), fold useUpdate updates M)))"

section \<open>Invariants of the manager\<close>

text \<open>The three tables of updates agree, and what the handler refers to is in them.\<close>

definition tablesOk :: "'r RemoteInterestsManager \<Rightarrow> bool" where
  "tablesOk M \<longleftrightarrow>
     distinct (map fst (objectUpdates M)) \<and> (\<forall>(u, _) \<in> set (objectUpdates M). u < freshUpdate M) \<and>
     (\<forall>u oid. (u, oid) \<in> set (objectUpdates M) \<longleftrightarrow> objectIdToUpdateItr M oid = Some u) \<and>
     (\<forall>u oid. (u, oid) \<in> set (objectUpdates M) \<longleftrightarrow> xToYMap (updatesObjectIds M) u = Some oid) \<and>
     (\<forall>u oid. (u, oid) \<in> set (objectUpdates M) \<longleftrightarrow> yToXMap (updatesObjectIds M) oid = Some u)"

definition updatesOf :: "'r RemoteInterestsManager \<Rightarrow> nat set" where
  "updatesOf M = fst ` set (objectUpdates M)"

definition coreOk :: "'r RemoteInterestsManager \<Rightarrow> bool" where
  "coreOk M \<longleftrightarrow> tablesOk M \<and> handlerOk (handler M) \<and> \<not> faulted M \<and>
     Range (selects (handler M)) \<union> Range (sends (handler M)) \<subseteq> updatesOf M"

text \<open>The handler of \<open>M'\<close> has the given contents, and the tables are those of \<open>M\<close>.\<close>

definition moves ::
  "'r RemoteInterestsManager \<Rightarrow> 'r RemoteInterestsManager \<Rightarrow> ('r \<times> nat) set \<Rightarrow> ('r \<times> u32) set
     \<Rightarrow> (u32 \<times> nat) set \<Rightarrow> bool" where
  "moves M M' s r i \<longleftrightarrow> becomes (handler M') s r i \<and> objectUpdates M' = objectUpdates M \<and>
     updatesObjectIds M' = updatesObjectIds M \<and> objectIdToUpdateItr M' = objectIdToUpdateItr M \<and>
     freshUpdate M' = freshUpdate M \<and> faulted M' = faulted M \<and>
     interestToCounter M' = interestToCounter M \<and> aRemoteParticipant M' = aRemoteParticipant M"

lemma tablesOk_upd [simp]:
  "tablesOk (M\<lparr>interestToCounter := m\<rparr>) = tablesOk M" "tablesOk (M\<lparr>aRemoteParticipant := r\<rparr>) = tablesOk M"
  "tablesOk (M\<lparr>handler := H\<rparr>) = tablesOk M" "tablesOk (M\<lparr>updateRemovalsPending := p\<rparr>) = tablesOk M"
  by (simp_all add: tablesOk_def)

lemma updatesOf_upd [simp]:
  "updatesOf (M\<lparr>interestToCounter := m\<rparr>) = updatesOf M" "updatesOf (M\<lparr>aRemoteParticipant := r\<rparr>) = updatesOf M"
  "updatesOf (M\<lparr>handler := H\<rparr>) = updatesOf M" "updatesOf (M\<lparr>updateRemovalsPending := p\<rparr>) = updatesOf M"
  by (simp_all add: updatesOf_def)

lemma moves_core:
  assumes "moves M M' s r i" "coreOk M" "Range i \<union> Range s \<subseteq> updatesOf M" shows "coreOk M'"
proof -
  have "tablesOk M' \<longleftrightarrow> tablesOk M" unfolding tablesOk_def using assms(1) by (simp add: moves_def)
  then show ?thesis using assms by (simp add: moves_def becomes_def coreOk_def updatesOf_def)
qed

lemma moves_refl: "coreOk M \<Longrightarrow> moves M M (sends (handler M)) (subscribed (handler M)) (selects (handler M))"
  by (simp add: moves_def becomes_def coreOk_def)

lemma useUpdate_ok: "u \<in> updatesOf M \<Longrightarrow> useUpdate u M = M"
  by (simp add: useUpdate_def updatesOf_def)

lemma tables_node: "tablesOk M \<Longrightarrow> objectIdToUpdateItr M oid = Some u \<longleftrightarrow> (u, oid) \<in> set (objectUpdates M)"
  unfolding tablesOk_def by blast

lemma tables_lookup: "tablesOk M \<Longrightarrow> objectIdToUpdateItr M oid = Some u \<longleftrightarrow> map_of (objectUpdates M) u = Some oid"
  using tables_node [of M oid u] map_of_eq_Some_iff [of "objectUpdates M" u oid] by (simp add: tablesOk_def)

lemma tables_updates: "tablesOk M \<Longrightarrow> objectIdToUpdateItr M oid = Some u \<Longrightarrow> u \<in> updatesOf M"
  unfolding updatesOf_def tables_node by force

lemma removeUpdate_moves:
  assumes "coreOk M"
  shows "case objectIdToUpdateItr M oid of
      None \<Rightarrow> removeObjectUpdatesByInterest oid i M = M
    | Some u \<Rightarrow> moves M (removeObjectUpdatesByInterest oid i M)
        (sends (handler M) - (UNIV \<times> {u} - subscribed (handler M) O (selects (handler M) - {(i, u)})))
        (subscribed (handler M)) (selects (handler M) - {(i, u)})"
proof (cases "objectIdToUpdateItr M oid")
  case None
  then show ?thesis by (simp add: removeObjectUpdatesByInterest_def)
next
  case (Some u)
  have core: "tablesOk M" "handlerOk (handler M)" using assms by (auto simp: coreOk_def)
  obtain g H where H: "handlerRemoveObjectByInterest u i (handler M) = (g, H)" by fastforce
  have "removeObjectUpdatesByInterest oid i M = M\<lparr>handler := H,
      updateRemovalsPending := updateRemovalsPending M @ (if g then [oid] else [])\<rparr>"
    using Some H useUpdate_ok [OF tables_updates [OF core(1) Some]]
    by (simp add: removeObjectUpdatesByInterest_def)
  then show ?thesis
    using Some removeObjectByInterest_becomes(1) [OF core(2) H] by (simp add: moves_def)
qed

text \<open>
  The updates a removed interest leaves without any interest are taken from everyone, if their objects can
  still be asked for their identifiers.
\<close>

definition reachable :: "(u32 \<Rightarrow> bool) \<Rightarrow> 'r RemoteInterestsManager \<Rightarrow> nat set" where
  "reachable alive M = {u. \<exists>oid. map_of (objectUpdates M) u = Some oid \<and> alive oid}"

lemma orphanUpdates_moves:
  assumes "coreOk M" "set us \<subseteq> updatesOf M" "set us \<inter> Range (selects (handler M)) = {}"
  shows "moves M (fold (orphanUpdate alive i) us M)
     (sends (handler M) - UNIV \<times> (set us \<inter> reachable alive M)) (subscribed (handler M)) (selects (handler M))"
  using assms
proof (induction us arbitrary: M)
  case Nil
  then show ?case using moves_refl by simp
next
  case (Cons u us)
  let ?M = "orphanUpdate alive i u M" and ?s = "sends (handler M)" and ?i = "selects (handler M)"
  obtain oid where oid: "map_of (objectUpdates M) u = Some oid"
    using Cons.prems(2) by (auto simp: updatesOf_def dest: map_of_SomeD)
      (metis map_of_eq_None_iff not_None_eq image_eqI fst_conv)
  then have itr: "objectIdToUpdateItr M oid = Some u"
    using Cons.prems(1) tables_lookup by (auto simp: coreOk_def)
  have use: "useUpdate u M = M" by (rule useUpdate_ok) (use Cons.prems(2) in simp)
  have none: "?i - {(i, u)} = ?i" "UNIV \<times> {u} - subscribed (handler M) O ?i = UNIV \<times> {u}"
    using Cons.prems(3) by auto
  have step: "moves M ?M (?s - UNIV \<times> ({u} \<inter> reachable alive M)) (subscribed (handler M)) ?i"
  proof (cases "alive oid")
    case True
    then show ?thesis
      using removeUpdate_moves [OF Cons.prems(1), of oid i] itr oid use none
      by (simp add: orphanUpdate_def reachable_def)
  next
    case False
    then show ?thesis
      using moves_refl [OF Cons.prems(1)] oid use by (simp add: orphanUpdate_def reachable_def)
  qed
  have core: "coreOk ?M"
    by (rule moves_core [OF step Cons.prems(1)]) (use Cons.prems(1) in \<open>auto simp: coreOk_def\<close>)
  have same: "updatesOf ?M = updatesOf M" "reachable alive ?M = reachable alive M" "selects (handler ?M) = ?i"
    using step by (auto simp: moves_def becomes_def updatesOf_def reachable_def)
  have "moves ?M (fold (orphanUpdate alive i) us ?M)
     (sends (handler ?M) - UNIV \<times> (set us \<inter> reachable alive M)) (subscribed (handler ?M)) ?i"
    using Cons.IH [OF core] Cons.prems(2,3) unfolding same by simp
  moreover have "?s - UNIV \<times> ({u} \<inter> reachable alive M) - UNIV \<times> (set us \<inter> reachable alive M) =
      ?s - UNIV \<times> (set (u # us) \<inter> reachable alive M)" by auto
  ultimately show ?case using step by (simp add: moves_def becomes_def)
qed

lemma onInterestRemoved_moves:
  fixes i :: u32
  assumes "coreOk M"
  defines "i' \<equiv> selects (handler M) - {i} \<times> UNIV"
  shows "moves M (onInterestRemoved alive i M)
     (sends (handler M) - UNIV \<times> ((Range (selects (handler M)) - Range i') \<inter> reachable alive M))
     (subscribed (handler M)) i'"
proof -
  have ok: "handlerOk (handler M)" using assms(1) by (simp add: coreOk_def)
  obtain us H where H: "handlerRemoveInterest i (handler M) = (us, H)" by fastforce
  let ?M = "M\<lparr>handler := H\<rparr>"
  note b = removeInterest_becomes [OF ok H, folded i'_def]
  have step: "moves M ?M (sends (handler M)) (subscribed (handler M)) i'"
    using b(1) by (simp add: moves_def)
  have core: "coreOk ?M"
    by (rule moves_core [OF step assms(1)]) (use assms(1) in \<open>auto simp: coreOk_def i'_def\<close>)
  have "set us \<subseteq> updatesOf ?M" using assms(1) b(2) by (auto simp: coreOk_def updatesOf_def)
  moreover have "set us \<inter> Range (selects (handler ?M)) = {}" using b by (auto simp: becomes_def)
  ultimately have "moves ?M (fold (orphanUpdate alive i) us ?M)
     (sends (handler ?M) - UNIV \<times> (set us \<inter> reachable alive ?M)) (subscribed (handler ?M)) (selects (handler ?M))"
    by (rule orphanUpdates_moves [OF core])
  moreover have "onInterestRemoved alive i M = fold (orphanUpdate alive i) us ?M"
    by (simp add: onInterestRemoved_def H)
  moreover have "reachable alive ?M = reachable alive M" by (simp add: reachable_def)
  ultimately show ?thesis using step b by (simp add: moves_def becomes_def)
qed

text \<open>
  What every operation keeps, as long as objects live until they are taken from the manager: the updates that
  are sent are selected by some interest, an interest that selects something is registered, and (\<open>complete\<close>)
  everyone gets what its interests select.  Apart from it, the remembered participant is one of those that are
  subscribed.
\<close>

definition managerOk :: "bool \<Rightarrow> 'r RemoteInterestsManager \<Rightarrow> bool" where
  "managerOk complete M \<longleftrightarrow> coreOk M \<and> Range (sends (handler M)) \<subseteq> Range (selects (handler M)) \<and>
     Domain (selects (handler M)) \<subseteq> dom (interestToCounter M) \<and>
     (complete \<longrightarrow> wanted (handler M) \<subseteq> sends (handler M))"

definition referenceOk :: "'r RemoteInterestsManager \<Rightarrow> bool" where
  "referenceOk M \<longleftrightarrow>
     (case aRemoteParticipant M of
        None \<Rightarrow> subscribed (handler M) = {}
      | Some r \<Rightarrow> r \<in> Domain (subscribed (handler M)))"

abbreviation everAlive :: "u32 \<Rightarrow> bool" where
  "everAlive \<equiv> \<lambda>_. True"

lemma reachable_all: "reachable everAlive M = updatesOf M"
proof -
  have "u \<in> updatesOf M \<longleftrightarrow> map_of (objectUpdates M) u \<noteq> None" for u
    by (simp add: updatesOf_def map_of_eq_None_iff)
  then show ?thesis by (auto simp: reachable_def)
qed

lemma managerOk_new: "managerOk c newManager \<and> referenceOk newManager"
  by (simp add: newHandler_becomes [unfolded becomes_def] managerOk_def referenceOk_def coreOk_def tablesOk_def
      newManager_def wanted_def)

lemma managerOk_moves:
  assumes "managerOk c M" "moves M M' s r i" "Range i \<subseteq> updatesOf M" "Range s \<subseteq> Range i"
    "Domain i \<subseteq> dom (interestToCounter M)" "c \<longrightarrow> r O i \<subseteq> s"
  shows "managerOk c M'"
proof -
  have "coreOk M'" by (rule moves_core [OF assms(2)]) (use assms in \<open>auto simp: managerOk_def\<close>)
  then show ?thesis using assms by (simp add: managerOk_def moves_def becomes_def wanted_def)
qed

lemma managerOk_counters:
  "managerOk c M \<Longrightarrow> Domain (selects (handler M)) \<subseteq> dom m \<Longrightarrow> managerOk c (M\<lparr>interestToCounter := m\<rparr>)"
  by (simp add: managerOk_def coreOk_def)

text \<open>Interests come and go.\<close>

lemma onInterestRemoved_ok:
  assumes "managerOk c M"
  shows "managerOk c (onInterestRemoved everAlive i M) \<and>
     selects (handler (onInterestRemoved everAlive i M)) = selects (handler M) - {i} \<times> UNIV \<and>
     subscribed (handler (onInterestRemoved everAlive i M)) = subscribed (handler M) \<and>
     aRemoteParticipant (onInterestRemoved everAlive i M) = aRemoteParticipant M \<and>
     interestToCounter (onInterestRemoved everAlive i M) = interestToCounter M"
proof -
  let ?s = "sends (handler M)" and ?i = "selects (handler M)" and ?i' = "selects (handler M) - {i} \<times> UNIV"
  have core: "coreOk M" using assms by (simp add: managerOk_def)
  note step = onInterestRemoved_moves [OF core, of everAlive i, unfolded reachable_all]
  have "managerOk c (onInterestRemoved everAlive i M)"
  proof (rule managerOk_moves [OF assms step])
    show "Range ?i' \<subseteq> updatesOf M" using core by (auto simp: coreOk_def)
    show "Range (?s - UNIV \<times> ((Range ?i - Range ?i') \<inter> updatesOf M)) \<subseteq> Range ?i'"
      using assms core unfolding managerOk_def coreOk_def by blast
    show "Domain ?i' \<subseteq> dom (interestToCounter M)" using assms unfolding managerOk_def by blast
    show "c \<longrightarrow> subscribed (handler M) O ?i' \<subseteq> ?s - UNIV \<times> ((Range ?i - Range ?i') \<inter> updatesOf M)"
      using assms unfolding managerOk_def wanted_def by blast
  qed
  then show ?thesis using step by (simp add: moves_def becomes_def)
qed

text \<open>The counters play no part in the callback.\<close>

lemma onInterestRemoved_counters:
  "onInterestRemoved alive i (M\<lparr>interestToCounter := m\<rparr>) = (onInterestRemoved alive i M)\<lparr>interestToCounter := m\<rparr>"
proof -
  have one: "orphanUpdate alive i u (N\<lparr>interestToCounter := m\<rparr>) = (orphanUpdate alive i u N)\<lparr>interestToCounter := m\<rparr>"
    for u and N :: "'a RemoteInterestsManager"
    by (simp add: orphanUpdate_def removeObjectUpdatesByInterest_def useUpdate_def Let_def split: option.splits prod.splits)
  have "fold (orphanUpdate alive i) us (N\<lparr>interestToCounter := m\<rparr>) =
      (fold (orphanUpdate alive i) us N)\<lparr>interestToCounter := m\<rparr>" for us and N :: "'a RemoteInterestsManager"
    by (induction us arbitrary: N) (simp_all add: one)
  moreover obtain us H where "handlerRemoveInterest i (handler M) = (us, H)" by fastforce
  moreover have "fold (orphanUpdate alive i) us (M\<lparr>interestToCounter := m, handler := H\<rparr>) =
      fold (orphanUpdate alive i) us (M\<lparr>handler := H, interestToCounter := m\<rparr>)" by (rule arg_cong) simp
  ultimately show ?thesis by (simp add: onInterestRemoved_def)
qed

lemma removeInterest_ok:
  assumes "managerOk c M"
  shows "managerOk c (removeInterest everAlive i M) \<and>
     subscribed (handler (removeInterest everAlive i M)) = subscribed (handler M) \<and>
     aRemoteParticipant (removeInterest everAlive i M) = aRemoteParticipant M"
proof (cases "interestToCounter M i")
  case None
  then show ?thesis using assms by (simp add: removeInterest_def)
next
  case (Some n)
  show ?thesis
  proof (cases "n = 1")
    case False
    have "managerOk c (M\<lparr>interestToCounter := (interestToCounter M)(i \<mapsto> n - 1)\<rparr>)"
      by (rule managerOk_counters [OF assms]) (use assms in \<open>auto simp: managerOk_def\<close>)
    then show ?thesis using Some False by (simp add: removeInterest_def)
  next
    case True
    let ?m = "(interestToCounter M)(i := None)"
    have eq: "onInterestRemoved everAlive i (M\<lparr>interestToCounter := ?m\<rparr>) =
        (onInterestRemoved everAlive i M)\<lparr>interestToCounter := ?m\<rparr>" (is "?l = ?r")
      by (rule onInterestRemoved_counters)
    note ok = onInterestRemoved_ok [OF assms, of i]
    have "managerOk c ?r"
      by (rule managerOk_counters [OF conjunct1 [OF ok]]) (use ok assms in \<open>auto simp: managerOk_def\<close>)
    then show ?thesis using Some True eq ok by (simp add: removeInterest_def)
  qed
qed

lemma removeInterests_ok:
  "managerOk c M \<Longrightarrow> managerOk c (fold (removeInterest everAlive) os M) \<and>
     subscribed (handler (fold (removeInterest everAlive) os M)) = subscribed (handler M) \<and>
     aRemoteParticipant (fold (removeInterest everAlive) os M) = aRemoteParticipant M"
  by (induction os arbitrary: M) (simp_all add: removeInterest_ok)

lemma getFirstRemote_ok:
  assumes "handlerOk H" "walksAll order"
  shows "case getFirstRemoteParticipant order H of None \<Rightarrow> subscribed H = {} | Some r \<Rightarrow> r \<in> Domain (subscribed H)"
proof -
  let ?m = "yToXListMap (remotesInterests H)"
  have ok: "mmOk (remotesInterests H)" using assms(1) by (simp add: handlerOk_def)
  have keys: "set (order ?m) = Range (subscribed H)"
  proof -
    have "i \<in> set (order ?m) \<longleftrightarrow> i \<in> Range (subscribed H)" for i
      using assms(2) unlisted_y [OF ok, of i] by (simp add: walksAll_def domIff)
    then show ?thesis by blast
  qed
  have elems: "set (elems (listAt ?m i)) = {r. (r, i) \<in> subscribed H}" for i
    using elems_at [of ?m i] pairsOf_y [OF ok] by auto
  show ?thesis
  proof (cases "find (\<lambda>i. elems (listAt ?m i) \<noteq> []) (order ?m)")
    case None
    then have "set (elems (listAt ?m i)) = {}" if "i \<in> Range (subscribed H)" for i
      using that keys by (auto simp: find_None_iff)
    then have "(r, i) \<notin> subscribed H" for r i using elems [of i] by (cases "i \<in> Range (subscribed H)") auto
    then have "subscribed H = {}" by auto
    then show ?thesis using None by (simp add: getFirstRemoteParticipant_def)
  next
    case (Some i)
    then have "elems (listAt ?m i) \<noteq> []" by (auto simp: find_Some_iff)
    then have "hd (elems (listAt ?m i)) \<in> set (elems (listAt ?m i))" by (rule hd_in_set)
    then show ?thesis using Some unfolding elems by (auto simp: getFirstRemoteParticipant_def)
  qed
qed

lemma updateRemoteReference_ok:
  assumes "managerOk c M" "walksAll order"
    "case aRemoteParticipant M of None \<Rightarrow> subscribed (handler M) = {}
      | Some r' \<Rightarrow> r' = r \<or> r' \<in> Domain (subscribed (handler M))"
  shows "managerOk c (updateRemoteReference order r M) \<and> referenceOk (updateRemoteReference order r M)"
proof -
  have "handlerOk (handler M)" using assms(1) by (simp add: managerOk_def coreOk_def)
  from getFirstRemote_ok [OF this assms(2)] show ?thesis
    using assms(1,3)
    by (auto simp: updateRemoteReference_def referenceOk_def managerOk_def coreOk_def split: option.splits)
qed

text \<open>Subscribers come and go.\<close>

lemma subscriberAdded_ok:
  assumes "managerOk c M" "referenceOk M"
  shows "managerOk c (subscriberAdded i l M) \<and> referenceOk (subscriberAdded i l M)"
proof -
  let ?s = "sends (handler M)" and ?r = "subscribed (handler M)" and ?i = "selects (handler M)"
  let ?m = "snd (addInterest i (interestToCounter M))" and ?new = "interestToCounter M i = None"
  have M: "managerOk c (M\<lparr>interestToCounter := ?m\<rparr>)"
    by (rule managerOk_counters [OF assms(1)]) (use assms(1) in \<open>auto simp: managerOk_def addInterest_def\<close>)
  show ?thesis
  proof (cases l)
    case None
    then show ?thesis
      using M assms(2) by (auto simp: subscriberAdded_def addInterest_def referenceOk_def split: option.splits)
  next
    case (Some r)
    let ?H = "handlerAddSubscriber i r ?new (handler M)"
    have eq: "subscriberAdded i l M =
        M\<lparr>interestToCounter := ?m, aRemoteParticipant := Some r, handler := ?H\<rparr>"
      using Some by (simp add: subscriberAdded_def addInterest_def)
    have ok: "handlerOk (handler M)" "Range ?i \<subseteq> updatesOf M" "Range ?s \<subseteq> Range ?i"
        "Domain ?i \<subseteq> dom (interestToCounter M)" "c \<longrightarrow> ?r O ?i \<subseteq> ?s"
      using assms(1) by (auto simp: managerOk_def coreOk_def wanted_def)
    note b = addSubscriber_becomes [OF ok(1), of i r ?new]
    have "?new \<longrightarrow> ?i `` {i} = {}" using ok(4) by auto
    then have b': "becomes ?H (?s \<union> {r} \<times> ?i `` {i}) (insert (r, i) ?r) ?i" using b by (simp split: if_splits)
    have "Range (?s \<union> {r} \<times> ?i `` {i}) \<subseteq> Range ?i" "c \<longrightarrow> insert (r, i) ?r O ?i \<subseteq> ?s \<union> {r} \<times> ?i `` {i}"
      using ok(3,5) by blast+
    then show ?thesis
      using M b' ok(2) unfolding eq
      by (auto simp: managerOk_def coreOk_def becomes_def referenceOk_def wanted_def)
  qed
qed

lemma subscriberRemoved_ok:
  assumes "managerOk c M" "referenceOk M" "walksAll order"
  shows "managerOk c (subscriberRemoved everAlive order i l M) \<and>
     referenceOk (subscriberRemoved everAlive order i l M)"
proof -
  let ?M = "removeInterest everAlive i M"
  let ?s = "sends (handler ?M)" and ?r = "subscribed (handler ?M)" and ?i = "selects (handler ?M)"
  note M = removeInterest_ok [OF assms(1), of i]
  show ?thesis
  proof (cases l)
    case None
    then show ?thesis using M assms(2) by (auto simp: subscriberRemoved_def referenceOk_def split: option.splits)
  next
    case (Some r)
    obtain os H where H: "handlerRemoveSubscriber i r (handler ?M) = (os, H)" by fastforce
    have eq: "subscriberRemoved everAlive order i l M = updateRemoteReference order r (?M\<lparr>handler := H\<rparr>)"
      using Some H by (simp add: subscriberRemoved_def Let_def)
    have ok: "handlerOk (handler ?M)" "Range ?i \<subseteq> updatesOf ?M" "Range ?s \<subseteq> Range ?i" "c \<longrightarrow> ?r O ?i \<subseteq> ?s"
      using M unfolding managerOk_def coreOk_def wanted_def by blast+
    let ?W = "(?r - {(r, i)}) O ?i"
    let ?X = "if (r, i) \<in> ?r \<and> ?r `` {r} \<subseteq> {i} then {r} \<times> UNIV else {r} \<times> ?i `` {i} - ?W"
    note b = removeSubscriber_becomes [OF ok(1) H]
    have "?r O ?i - ?X = ?W" by (rule unsubscribe_rel)
    then have "c \<longrightarrow> ?W \<subseteq> ?s - ?X" using ok(4) by blast
    moreover have "Range (?s - ?X) \<subseteq> Range ?i" using ok(3) by blast
    ultimately have "managerOk c (?M\<lparr>handler := H\<rparr>)"
      using M b ok(2) by (simp add: managerOk_def coreOk_def becomes_def wanted_def)
    then show ?thesis
      unfolding eq
      by (rule updateRemoteReference_ok [OF _ assms(3)])
        (use b M assms(2) in \<open>auto simp: becomes_def referenceOk_def split: option.splits\<close>)
  qed
qed

lemma remoteRemoved_ok:
  assumes "managerOk c M" "referenceOk M" "walksAll order"
  shows "managerOk c (remoteRemoved everAlive order l M) \<and> referenceOk (remoteRemoved everAlive order l M)"
proof (cases l)
  case None
  then show ?thesis using assms by (simp add: remoteRemoved_def)
next
  case (Some r)
  let ?s = "sends (handler M)" and ?r = "subscribed (handler M)" and ?i = "selects (handler M)"
  obtain os H where H: "handlerRemoveRemote r (handler M) = (os, H)" by fastforce
  let ?M = "M\<lparr>handler := H\<rparr>"
  have eq: "remoteRemoved everAlive order l M = updateRemoteReference order r (fold (removeInterest everAlive) os ?M)"
    using Some H by (simp add: remoteRemoved_def)
  have ok: "handlerOk (handler M)" "Range ?i \<subseteq> updatesOf M" "Range ?s \<subseteq> Range ?i" "c \<longrightarrow> ?r O ?i \<subseteq> ?s"
    using assms(1) by (auto simp: managerOk_def coreOk_def wanted_def)
  note b = removeRemote_becomes(1) [OF ok(1) H]
  have "c \<longrightarrow> (?r - {r} \<times> UNIV) O ?i \<subseteq> ?s - {r} \<times> UNIV" "Range (?s - {r} \<times> UNIV) \<subseteq> Range ?i"
    using ok(3,4) by blast+
  then have "managerOk c ?M"
    using assms(1) b ok(2) by (simp add: managerOk_def coreOk_def becomes_def wanted_def)
  note M = removeInterests_ok [OF this, of os]
  show ?thesis
    unfolding eq
    by (rule updateRemoteReference_ok [OF conjunct1 [OF M] assms(3)])
      (use b M assms(2) in \<open>auto simp: becomes_def referenceOk_def split: option.splits\<close>)
qed

text \<open>Objects come and go.\<close>

lemma addUpdate_tables:
  assumes "tablesOk M"
  shows "tablesOk (addUpdate i oid M) \<and> updatesOf M \<subseteq> updatesOf (addUpdate i oid M) \<and>
     (\<exists>u. objectIdToUpdateItr (addUpdate i oid M) oid = Some u \<and>
       handler (addUpdate i oid M) = handlerAddObject i u (handler M)) \<and>
     faulted (addUpdate i oid M) = faulted M \<and> interestToCounter (addUpdate i oid M) = interestToCounter M \<and>
     aRemoteParticipant (addUpdate i oid M) = aRemoteParticipant M"
proof (cases "objectIdToUpdateItr M oid")
  case (Some u)
  then show ?thesis
    using assms useUpdate_ok [OF tables_updates [OF assms Some]] by (simp add: addUpdate_def)
next
  case None
  let ?u = "freshUpdate M"
  let ?M = "M\<lparr>objectUpdates := objectUpdates M @ [(?u, oid)],
      updatesObjectIds := bimapAdd ?u oid (updatesObjectIds M),
      objectIdToUpdateItr := (objectIdToUpdateItr M)(oid \<mapsto> ?u), freshUpdate := Suc ?u\<rparr>"
  have t: "distinct (map fst (objectUpdates M))" "\<And>u o'. (u, o') \<in> set (objectUpdates M) \<Longrightarrow> u < ?u"
      "\<And>u o'. objectIdToUpdateItr M o' = Some u \<longleftrightarrow> (u, o') \<in> set (objectUpdates M)"
      "\<And>u o'. xToYMap (updatesObjectIds M) u = Some o' \<longleftrightarrow> (u, o') \<in> set (objectUpdates M)"
      "\<And>u o'. yToXMap (updatesObjectIds M) o' = Some u \<longleftrightarrow> (u, o') \<in> set (objectUpdates M)"
    using assms unfolding tablesOk_def by fast+
  have fresh: "xToYMap (updatesObjectIds M) ?u = None" "yToXMap (updatesObjectIds M) oid = None"
    using t(2) [of ?u] t(4) [of ?u] t(3,5) [of oid] None by (auto simp: not_Some_eq [symmetric] simp del: not_Some_eq)
  have new: "(u, oid) \<notin> set (objectUpdates M)" "(?u, o') \<notin> set (objectUpdates M)" for u o'
    using t(2) [of ?u o'] t(3) [where o' = oid] None by auto
  have "tablesOk ?M"
    using t(1,2) fresh new
    by (auto simp: tablesOk_def bimapAdd_def t(3,4,5) less_SucI split: if_splits)
  then show ?thesis using None by (auto simp: addUpdate_def updatesOf_def)
qed

lemma addUpdate_ok:
  assumes "managerOk c M" "referenceOk M" "interestToCounter M i \<noteq> None"
  shows "managerOk c (addUpdate i oid M) \<and> referenceOk (addUpdate i oid M) \<and>
     interestToCounter (addUpdate i oid M) = interestToCounter M"
proof -
  let ?s = "sends (handler M)" and ?r = "subscribed (handler M)" and ?i = "selects (handler M)"
  have ok: "tablesOk M" "handlerOk (handler M)" "Range ?i \<subseteq> updatesOf M" "Range ?s \<subseteq> Range ?i"
      "Domain ?i \<subseteq> dom (interestToCounter M)" "c \<longrightarrow> ?r O ?i \<subseteq> ?s" "\<not> faulted M"
    using assms(1) by (auto simp: managerOk_def coreOk_def wanted_def)
  note t = addUpdate_tables [OF ok(1), of i oid]
  then obtain u where u: "objectIdToUpdateItr (addUpdate i oid M) oid = Some u"
      "handler (addUpdate i oid M) = handlerAddObject i u (handler M)" by blast
  note b = addObject_becomes [OF ok(2), of i u, folded u(2)]
  have "u \<in> updatesOf (addUpdate i oid M)" by (rule tables_updates [OF _ u(1)]) (use t in blast)
  then have all: "Range (insert (i, u) ?i) \<subseteq> updatesOf (addUpdate i oid M)" using t ok(3) by auto
  moreover have sub: "Range (?s \<union> (?r\<inverse> `` {i}) \<times> {u}) \<subseteq> Range (insert (i, u) ?i)" using ok(4) by auto
  moreover note subset_trans [OF sub all]
  moreover have "c \<longrightarrow> ?r O insert (i, u) ?i \<subseteq> ?s \<union> (?r\<inverse> `` {i}) \<times> {u}" using ok(6) by auto
  moreover have "Domain (insert (i, u) ?i) \<subseteq> dom (interestToCounter M)" using ok(5) assms(3) by auto
  ultimately have "managerOk c (addUpdate i oid M)"
    using t b ok(7) by (simp add: managerOk_def coreOk_def becomes_def wanted_def)
  moreover have "referenceOk (addUpdate i oid M)"
    using t b assms(2) by (auto simp: referenceOk_def becomes_def split: option.splits)
  ultimately show ?thesis using t by blast
qed

lemma updatesAdded_ok:
  assumes "managerOk c M" "referenceOk M" "interestToCounter M i \<noteq> None"
  shows "managerOk c (updatesAdded i additions M) \<and> referenceOk (updatesAdded i additions M)"
proof -
  have "managerOk c (fold (addUpdate i) oids M) \<and> referenceOk (fold (addUpdate i) oids M)" for oids
    using assms by (induction oids arbitrary: M) (simp_all add: addUpdate_ok)
  then show ?thesis by (simp add: updatesAdded_def)
qed

lemma removeUpdate_ok:
  assumes "managerOk c M" "referenceOk M"
  shows "managerOk c (removeObjectUpdatesByInterest oid i M) \<and>
     referenceOk (removeObjectUpdatesByInterest oid i M)"
proof (cases "objectIdToUpdateItr M oid")
  case None
  then show ?thesis using assms by (simp add: removeObjectUpdatesByInterest_def)
next
  case (Some u)
  let ?s = "sends (handler M)" and ?r = "subscribed (handler M)" and ?i = "selects (handler M)"
  let ?i' = "?i - {(i, u)}" and ?M = "removeObjectUpdatesByInterest oid i M"
  have ok: "coreOk M" "Range ?i \<subseteq> updatesOf M" "Range ?s \<subseteq> Range ?i"
      "Domain ?i \<subseteq> dom (interestToCounter M)" "c \<longrightarrow> ?r O ?i \<subseteq> ?s"
    using assms(1) by (auto simp: managerOk_def coreOk_def wanted_def)
  have step: "moves M ?M (?s - (UNIV \<times> {u} - ?r O ?i')) ?r ?i'"
    using removeUpdate_moves [OF ok(1), of oid i] Some by simp
  have "managerOk c ?M"
  proof (rule managerOk_moves [OF assms(1) step])
    show "Range ?i' \<subseteq> updatesOf M" "Domain ?i' \<subseteq> dom (interestToCounter M)" using ok(2,4) by blast+
    show "Range (?s - (UNIV \<times> {u} - ?r O ?i')) \<subseteq> Range ?i'"
    proof
      fix v assume "v \<in> Range (?s - (UNIV \<times> {u} - ?r O ?i'))"
      then obtain a where a: "(a, v) \<in> ?s" "v = u \<longrightarrow> (a, v) \<in> ?r O ?i'" by blast
      show "v \<in> Range ?i'"
      proof (cases "v = u")
        case True
        then show ?thesis using a(2) by blast
      next
        case False
        then show ?thesis using a(1) ok(3) by blast
      qed
    qed
    show "c \<longrightarrow> ?r O ?i' \<subseteq> ?s - (UNIV \<times> {u} - ?r O ?i')" using ok(5) by blast
  qed
  then show ?thesis using step assms(2) by (auto simp: moves_def becomes_def referenceOk_def split: option.splits)
qed

lemma updatesRemoved_ok:
  "managerOk c M \<Longrightarrow> referenceOk M \<Longrightarrow>
   managerOk c (updatesRemoved i removals M) \<and> referenceOk (updatesRemoved i removals M)"
  unfolding updatesRemoved_def by (induction removals arbitrary: M) (simp_all add: removeUpdate_ok)

lemma markObjectAsRejected_ok:
  assumes "managerOk False M" "referenceOk M" "objectIdToUpdateItr M oid \<noteq> None"
  shows "managerOk False (markObjectAsRejected oid l M) \<and> referenceOk (markObjectAsRejected oid l M)"
proof (cases l)
  case None
  then show ?thesis using assms by (simp add: markObjectAsRejected_def)
next
  case (Some r)
  obtain u where u: "objectIdToUpdateItr M oid = Some u" using assms(3) by auto
  have ok: "tablesOk M" "handlerOk (handler M)" using assms(1) by (auto simp: managerOk_def coreOk_def)
  have eq: "markObjectAsRejected oid l M = M\<lparr>handler := handlerRemoveRejected r u (handler M)\<rparr>"
    using Some u useUpdate_ok [OF tables_updates [OF ok(1) u]] by (simp add: markObjectAsRejected_def)
  note b = removeRejected_becomes [OF ok(2), of r u]
  have "Range (sends (handler M) - {(r, u)}) \<subseteq> Range (sends (handler M))" by blast
  then have "managerOk False (markObjectAsRejected oid l M)"
    using b assms(1) unfolding eq by (simp add: managerOk_def coreOk_def becomes_def) (meson subset_trans)
  moreover have "referenceOk (markObjectAsRejected oid l M)"
    using b assms(2) unfolding eq by (simp add: referenceOk_def becomes_def split: option.splits)
  ultimately show ?thesis by blast
qed

text \<open>A recorded removal takes the update of its object away unless an interest selects it.\<close>

lemma applyUpdateRemoval_tables:
  fixes oid :: u32
  assumes "tablesOk M" "handlerOk (handler M)"
  defines "M' \<equiv> applyUpdateRemoval oid M"
  shows "tablesOk M' \<and> handler M' = handler M \<and> aRemoteParticipant M' = aRemoteParticipant M \<and>
     interestToCounter M' = interestToCounter M \<and> faulted M' = faulted M \<and>
     updateRemovalsPending M' = updateRemovalsPending M \<and>
     (\<forall>o' u. objectIdToUpdateItr M' o' = Some u \<longleftrightarrow>
        objectIdToUpdateItr M o' = Some u \<and> (o' = oid \<longrightarrow> u \<in> Range (selects (handler M)))) \<and>
     updatesOf M' =
       updatesOf M - {u. objectIdToUpdateItr M oid = Some u \<and> u \<notin> Range (selects (handler M))}"
proof (cases "objectIdToUpdateItr M oid")
  case None
  then show ?thesis using assms by (auto simp: applyUpdateRemoval_def)
next
  case (Some u)
  have use: "useUpdate u M = M" by (rule useUpdate_ok [OF tables_updates [OF assms(1) Some]])
  have has: "hasAnyInterest u (handler M) \<longleftrightarrow> u \<in> Range (selects (handler M))"
    using assms(2) by (simp add: hasAnyInterest_def handlerOk_def containsY_pairs)
  show ?thesis
  proof (cases "u \<in> Range (selects (handler M))")
    case True
    then show ?thesis using assms(1) Some use has by (auto simp: M'_def applyUpdateRemoval_def)
  next
    case False
    let ?M = "M\<lparr>objectUpdates := filter (\<lambda>(n, _). n \<noteq> u) (objectUpdates M),
        updatesObjectIds := bimapRemoveY 0 oid (updatesObjectIds M),
        objectIdToUpdateItr := (objectIdToUpdateItr M)(oid := None)\<rparr>"
    have eq: "M' = ?M"
      using Some use has False by (simp add: M'_def applyUpdateRemoval_def)
    have t: "distinct (map fst (objectUpdates M))" "\<And>n o'. (n, o') \<in> set (objectUpdates M) \<Longrightarrow> n < freshUpdate M"
        "\<And>n o'. objectIdToUpdateItr M o' = Some n \<longleftrightarrow> (n, o') \<in> set (objectUpdates M)"
        "\<And>n o'. xToYMap (updatesObjectIds M) n = Some o' \<longleftrightarrow> (n, o') \<in> set (objectUpdates M)"
        "\<And>n o'. yToXMap (updatesObjectIds M) o' = Some n \<longleftrightarrow> (n, o') \<in> set (objectUpdates M)"
      using assms(1) unfolding tablesOk_def by fast+
    have node: "(u, oid) \<in> set (objectUpdates M)" using Some t(3) by blast
    have only: "n = u \<longleftrightarrow> o' = oid" if "(n, o') \<in> set (objectUpdates M)" for n o'
      using that node t(3) [of oid] eq_key_imp_eq_value [OF t(1)] by (metis option.inject)
    have bimap: "updatesObjectIds ?M = \<lparr>xToYMap = (xToYMap (updatesObjectIds M))(u := None),
        yToXMap = (yToXMap (updatesObjectIds M))(oid := None)\<rparr>"
      using node t(5) [of oid u] by (simp add: bimapRemoveY_def)
    have "tablesOk ?M"
      unfolding tablesOk_def bimap using t(1,2) only
      by (auto simp: t(3,4,5) distinct_map_filter)
    moreover have "updatesOf ?M = updatesOf M - {u}" by (auto simp: updatesOf_def image_iff)
    ultimately show ?thesis unfolding eq using Some False by auto
  qed
qed

lemma applyUpdateRemoval_ok:
  assumes "managerOk c M" shows "managerOk c (applyUpdateRemoval oid M)"
proof -
  have ok: "tablesOk M" "handlerOk (handler M)" "\<not> faulted M" "Range (selects (handler M)) \<subseteq> updatesOf M"
      "Range (sends (handler M)) \<subseteq> Range (selects (handler M))"
      "Domain (selects (handler M)) \<subseteq> dom (interestToCounter M)" "c \<longrightarrow> wanted (handler M) \<subseteq> sends (handler M)"
    using assms by (auto simp: managerOk_def coreOk_def)
  note a = applyUpdateRemoval_tables [OF ok(1,2), of oid]
  then have "Range (selects (handler M)) \<subseteq> updatesOf (applyUpdateRemoval oid M)" using ok(4) by auto
  then show ?thesis using a ok by (simp add: managerOk_def coreOk_def)
qed

lemma applyRemovals_tables:
  fixes oids :: "u32 list"
  assumes "tablesOk M" "handlerOk (handler M)"
  defines "M' \<equiv> fold applyUpdateRemoval oids M"
  shows "tablesOk M' \<and> handler M' = handler M \<and> aRemoteParticipant M' = aRemoteParticipant M \<and>
     (\<forall>oid u. objectIdToUpdateItr M' oid = Some u \<longleftrightarrow>
        objectIdToUpdateItr M oid = Some u \<and> (oid \<in> set oids \<longrightarrow> u \<in> Range (selects (handler M))))"
  using assms(1,2) unfolding M'_def
proof (induction oids arbitrary: M)
  case (Cons oid oids)
  have a: "tablesOk (applyUpdateRemoval oid M)" "handler (applyUpdateRemoval oid M) = handler M"
      "aRemoteParticipant (applyUpdateRemoval oid M) = aRemoteParticipant M"
      "\<And>o' u. objectIdToUpdateItr (applyUpdateRemoval oid M) o' = Some u \<longleftrightarrow>
        objectIdToUpdateItr M o' = Some u \<and> (o' = oid \<longrightarrow> u \<in> Range (selects (handler M)))"
    using applyUpdateRemoval_tables [OF Cons.prems, of oid] by simp_all
  show ?case using Cons.IH [of "applyUpdateRemoval oid M"] Cons.prems(2) a by auto
qed simp

lemma managerOk_pending [simp]: "managerOk c (M\<lparr>updateRemovalsPending := p\<rparr>) = managerOk c M"
  by (simp add: managerOk_def coreOk_def)

lemma referenceOk_cong:
  "aRemoteParticipant M' = aRemoteParticipant M \<Longrightarrow> handler M' = handler M \<Longrightarrow> referenceOk M' = referenceOk M"
  by (simp add: referenceOk_def split: option.split)

lemma applyPending_ok:
  assumes "managerOk c M" "referenceOk M"
  defines "M' \<equiv> applyPendingUpdateRemovals M"
  shows "managerOk c M' \<and> referenceOk M' \<and> handler M' = handler M \<and>
     (\<forall>oid u. u \<in> Range (selects (handler M)) \<longrightarrow>
        objectIdToUpdateItr M' oid = Some u \<longleftrightarrow> objectIdToUpdateItr M oid = Some u)"
proof -
  let ?N = "fold applyUpdateRemoval (updateRemovalsPending M) M"
  have "managerOk c (fold applyUpdateRemoval oids N)" if "managerOk c N" for oids and N :: "'a RemoteInterestsManager"
    using that by (induction oids arbitrary: N) (simp_all add: applyUpdateRemoval_ok)
  from this [OF assms(1)] have "managerOk c M'" by (simp add: M'_def applyPendingUpdateRemovals_def)
  have "tablesOk M" "handlerOk (handler M)" using assms(1) by (auto simp: managerOk_def coreOk_def)
  note w = applyRemovals_tables [OF this, of "updateRemovalsPending M"]
  have "aRemoteParticipant M' = aRemoteParticipant M" "handler M' = handler M"
    using w by (simp_all add: M'_def applyPendingUpdateRemovals_def)
  then show ?thesis
    using w assms(2) \<open>managerOk c M'\<close> referenceOk_cong [of M' M]
    by (simp add: M'_def applyPendingUpdateRemovals_def)
qed

lemma fold_useUpdate: "set us \<subseteq> updatesOf M \<Longrightarrow> fold useUpdate us M = M"
  by (induction us) (simp_all add: useUpdate_ok)

definition walksUpdates :: "((nat \<rightharpoonup> 'r List) \<Rightarrow> nat list) \<Rightarrow> 'r RemoteInterestsManager \<Rightarrow> bool" where
  "walksUpdates order M \<longleftrightarrow>
     (let m = yToXListMap (remotesUpdates (handler M)) in set (order m) = dom m \<and> distinct (order m))"

lemma listed_updates: "mmOk m \<Longrightarrow> dom (yToXListMap m) = Range (mmPairs m)"
  by (rule set_eqI) (simp add: domIff unlisted_y)

lemma walksUpdates_set:
  assumes "handlerOk (handler M)" "walksUpdates order M"
  shows "set (order (yToXListMap (remotesUpdates (handler M)))) = Range (sends (handler M))"
  using assms listed_updates [of "remotesUpdates (handler M)"] by (simp add: walksUpdates_def handlerOk_def Let_def)

lemma sendObjectUpdates_ok:
  assumes "managerOk c M" "referenceOk M" "walksUpdates order M"
  shows "managerOk c (snd (sendObjectUpdates proc alive order M)) \<and>
     referenceOk (snd (sendObjectUpdates proc alive order M))"
proof -
  note a = applyPending_ok [OF assms(1,2)]
  let ?M = "applyPendingUpdateRemovals M"
  let ?us = "order (yToXListMap (remotesUpdates (handler ?M)))"
  have "set ?us = Range (sends (handler ?M))"
    by (rule walksUpdates_set) (use a assms(3) in \<open>auto simp: managerOk_def coreOk_def walksUpdates_def\<close>)
  moreover have "Range (sends (handler ?M)) \<subseteq> updatesOf ?M"
    using conjunct1 [OF a] by (simp add: managerOk_def coreOk_def)
  ultimately have "fold useUpdate ?us ?M = ?M" by (intro fold_useUpdate) simp
  then show ?thesis using a by (simp add: sendObjectUpdates_def Let_def)
qed

section \<open>Histories\<close>

text \<open>
  What can happen to a manager while the objects live until they are taken from it.  Objects are added to an
  interest only while somebody subscribes to it, which the filter keeps.  With \<open>complete\<close> no participant rejects
  an object.
\<close>

inductive managerRun :: "'r key_order \<Rightarrow> bool \<Rightarrow> 'r RemoteInterestsManager \<Rightarrow> bool" for order complete where
  start: "managerRun order complete newManager"
| subscribe: "managerRun order complete M \<Longrightarrow> managerRun order complete (subscriberAdded i l M)"
| unsubscribe: "managerRun order complete M \<Longrightarrow>
    managerRun order complete (subscriberRemoved everAlive order i l M)"
| leave: "managerRun order complete M \<Longrightarrow> managerRun order complete (remoteRemoved everAlive order l M)"
| add: "managerRun order complete M \<Longrightarrow> interestToCounter M i \<noteq> None \<Longrightarrow>
    managerRun order complete (updatesAdded i additions M)"
| remove: "managerRun order complete M \<Longrightarrow> managerRun order complete (updatesRemoved i removals M)"
| reject: "managerRun order complete M \<Longrightarrow> \<not> complete \<Longrightarrow> objectIdToUpdateItr M oid \<noteq> None \<Longrightarrow>
    managerRun order complete (markObjectAsRejected oid l M)"
| send: "managerRun order complete M \<Longrightarrow> walksUpdates updates M \<Longrightarrow>
    managerRun order complete (snd (sendObjectUpdates proc everAlive updates M))"

lemma managerRun_ok:
  "managerRun order complete M \<Longrightarrow> walksAll order \<Longrightarrow> managerOk complete M \<and> referenceOk M"
proof (induction rule: managerRun.induct)
  case (reject M oid l)
  then show ?case using markObjectAsRejected_ok by (cases complete) auto
qed (simp_all add: managerOk_new subscriberAdded_ok [of complete] subscriberRemoved_ok [of complete]
    remoteRemoved_ok [of complete] updatesAdded_ok [of complete] updatesRemoved_ok [of complete]
    sendObjectUpdates_ok [of complete])

text \<open>One participant of each process gets through.\<close>

lemma firstPerProcess_covers:
  "r \<in> set rs \<Longrightarrow> proc r \<notin> used \<Longrightarrow> \<exists>r' \<in> set (firstPerProcess proc rs used). proc r' = proc r"
proof (induction rs arbitrary: used)
  case (Cons a rs)
  then show ?case using Cons.IH [of "insert (proc a) used"] Cons.IH [of used] by (cases "proc a = proc r") auto
qed simp

lemma firstPerProcess_distinct:
  "distinct (map proc (firstPerProcess proc rs used)) \<and> proc ` set (firstPerProcess proc rs used) \<inter> used = {} \<and>
   set (firstPerProcess proc rs used) \<subseteq> set rs"
  by (induction rs arbitrary: used) auto

text \<open>Within a pass, a process is sent an update once.\<close>

lemma sendUpdate_distinct:
  "distinct (map (\<lambda>(r, oid). (proc r, oid)) (sendUpdate proc alive u M))"
  "x \<in> set (map (\<lambda>(r, oid). (proc r, oid)) (sendUpdate proc alive u M)) \<Longrightarrow>
   map_of (objectUpdates M) u = Some (snd x)"
  using firstPerProcess_distinct [of proc "forEachY u (remotesUpdates (handler M))" "{}"]
  by (auto simp: sendUpdate_def distinct_map inj_on_def split: option.splits if_splits)

lemma sentUpdates_distinct:
  assumes "tablesOk M" "distinct us"
  shows "distinct (map (\<lambda>(r, oid). (proc r, oid)) (concat (map (\<lambda>u. sendUpdate proc alive u M) us)))"
  using assms(2)
proof (induction us)
  case (Cons u us)
  let ?f = "\<lambda>u. map (\<lambda>(r, oid). (proc r, oid)) (sendUpdate proc alive u M)"
  have "x \<notin> set (?f v)" if "x \<in> set (?f u)" "v \<in> set us" for x v
  proof
    assume "x \<in> set (?f v)"
    then have "objectIdToUpdateItr M (snd x) = Some v" "objectIdToUpdateItr M (snd x) = Some u"
      using that(1) tables_lookup [OF assms(1)] sendUpdate_distinct(2) by blast+
    then show False using that(2) Cons.prems by simp
  qed
  then have "set (?f u) \<inter> (\<Union>v \<in> set us. set (?f v)) = {}" by blast
  then show ?case using Cons sendUpdate_distinct(1) [of proc alive u M] by (simp add: map_concat image_UN)
qed simp

section \<open>The last subscriber of an interest leaves it\<close>

lemma removeUpdate_pending:
  "set (updateRemovalsPending M) \<subseteq> set (updateRemovalsPending (removeObjectUpdatesByInterest oid i M))"
  by (auto simp: removeObjectUpdatesByInterest_def useUpdate_def Let_def split: option.splits prod.splits)

lemma orphanUpdates_pending:
  "set (updateRemovalsPending M) \<subseteq> set (updateRemovalsPending (fold (orphanUpdate alive i) us M))"
proof (induction us arbitrary: M)
  case (Cons u us)
  have "set (updateRemovalsPending M) \<subseteq> set (updateRemovalsPending (orphanUpdate alive i u M))"
    using removeUpdate_pending [of "useUpdate u M"] by (auto simp: orphanUpdate_def useUpdate_def split: option.splits)
  then show ?case using Cons.IH [of "orphanUpdate alive i u M"] by simp
qed simp

lemma onInterestRemoved_pending:
  "set (updateRemovalsPending M) \<subseteq> set (updateRemovalsPending (onInterestRemoved alive i M))"
proof -
  obtain us H where "handlerRemoveInterest i (handler M) = (us, H)" by fastforce
  then show ?thesis
    using orphanUpdates_pending [of "M\<lparr>handler := H\<rparr>" alive i us] by (simp add: onInterestRemoved_def)
qed

lemma useUpdate_faults: "u \<in> set us \<Longrightarrow> u \<notin> updatesOf M \<Longrightarrow> faulted (fold useUpdate us M)"
proof (induction us arbitrary: M)
  case (Cons v us)
  have keep: "faulted N \<Longrightarrow> faulted (fold useUpdate us N)" for N :: "'a RemoteInterestsManager"
    by (induction us arbitrary: N) (simp_all add: useUpdate_def)
  show ?case
  proof (cases "u = v")
    case True
    then have "faulted (useUpdate v M)" using Cons.prems(2) by (simp add: useUpdate_def updatesOf_def)
    then show ?thesis using keep by simp
  next
    case False
    moreover have "updatesOf (useUpdate v M) = updatesOf M" by (simp add: useUpdate_def updatesOf_def)
    ultimately show ?thesis using Cons by simp
  qed
qed simp

text \<open>It keeps another interest, and so its links, but for the updates that are taken from everyone.\<close>

lemma lastUnsubscribe:
  fixes M :: "'r RemoteInterestsManager" and order :: "'r key_order" and alive :: "u32 \<Rightarrow> bool"
  assumes "coreOk M" "interestToCounter M i = Some 1" "(r, k) \<in> subscribed (handler M)" "k \<noteq> i"
  defines "M' \<equiv> subscriberRemoved alive order i (Some r) M" and "i' \<equiv> selects (handler M) - {i} \<times> UNIV"
  shows "becomes (handler M')
      (sends (handler M) - UNIV \<times> ((Range (selects (handler M)) - Range i') \<inter> reachable alive M))
      (subscribed (handler M) - {(r, i)}) i'"
    and "tablesOk M'" "objectIdToUpdateItr M' = objectIdToUpdateItr M"
    and "set (updateRemovalsPending M) \<subseteq> set (updateRemovalsPending M')"
    and "aRemoteParticipant M' =
      (if aRemoteParticipant M = Some r then getFirstRemoteParticipant order (handler M') else aRemoteParticipant M)"
proof -
  let ?N = "onInterestRemoved alive i M" and ?r = "subscribed (handler M)"
  note step = onInterestRemoved_moves [OF assms(1), of alive i, folded i'_def]
  have N: "handlerOk (handler ?N)" "subscribed (handler ?N) = ?r" "selects (handler ?N) = i'"
      "sends (handler ?N) = sends (handler M) - UNIV \<times> ((Range (selects (handler M)) - Range i') \<inter> reachable alive M)"
      "aRemoteParticipant ?N = aRemoteParticipant M" "objectIdToUpdateItr ?N = objectIdToUpdateItr M"
    using step by (simp_all add: moves_def becomes_def)
  have "tablesOk ?N \<longleftrightarrow> tablesOk M" unfolding tablesOk_def using step by (simp add: moves_def)
  then have tables: "tablesOk ?N" using assms(1) by (simp add: coreOk_def)
  obtain os H where H: "handlerRemoveSubscriber i r (handler ?N) = (os, H)" by fastforce
  have "\<not> ((r, i) \<in> ?r \<and> ?r `` {r} \<subseteq> {i})" "i' `` {i} = {}" using assms(3,4) by (auto simp: i'_def)
  with removeSubscriber_becomes [OF N(1) H, unfolded N(2,3)]
  have b: "becomes H (sends (handler ?N)) (?r - {(r, i)}) i'" by simp
  let ?L = "?N\<lparr>handler := H, interestToCounter := (interestToCounter M)(i := None)\<rparr>"
  have "M' = updateRemoteReference order r
      (?N\<lparr>interestToCounter := (interestToCounter M)(i := None), handler := H\<rparr>)"
    using assms(2) H by (simp add: M'_def subscriberRemoved_def removeInterest_def onInterestRemoved_counters Let_def)
  also have "\<dots> = updateRemoteReference order r ?L" by (rule arg_cong) simp
  finally have M': "M' = updateRemoteReference order r ?L" .
  have "handler M' = H" by (simp add: M' updateRemoteReference_def)
  then show "becomes (handler M')
      (sends (handler M) - UNIV \<times> ((Range (selects (handler M)) - Range i') \<inter> reachable alive M))
      (subscribed (handler M) - {(r, i)}) i'"
    using b N(4) by simp
  show "tablesOk M'" "objectIdToUpdateItr M' = objectIdToUpdateItr M"
      "set (updateRemovalsPending M) \<subseteq> set (updateRemovalsPending M')"
    using tables N(6) onInterestRemoved_pending [of M alive i] by (simp_all add: M' updateRemoteReference_def)
  show "aRemoteParticipant M' =
      (if aRemoteParticipant M = Some r then getFirstRemoteParticipant order (handler M') else aRemoteParticipant M)"
    using N(5) by (simp add: M' updateRemoteReference_def)
qed

section \<open>An example\<close>

text \<open>
  Participant 1 has the interests 10 and 20, participant 2 has the interest 30; the interests 10 and 30 select
  the object 5.  All interests are walked in one order.
\<close>

definition someOrder :: "nat key_order" where
  "someOrder m = filter (\<lambda>i. m i \<noteq> None) (map word_of_nat (upt 0 (2 ^ LENGTH(32))))"

lemma all_words: "set (map word_of_nat (upt 0 (2 ^ LENGTH('a)))) = (UNIV :: 'a :: len word set)"
proof -
  have "w \<in> word_of_nat ` {0..<2 ^ LENGTH('a)}" for w :: "'a word"
    by (rule image_eqI [of _ _ "unat w"]) (simp_all add: unsigned_less)
  then show ?thesis by (auto simp: set_map)
qed

lemma someOrder_walks: "walksAll someOrder"
  unfolding walksAll_def someOrder_def set_filter all_words dom_def by simp

definition exampleSubscribed :: "nat RemoteInterestsManager" where
  "exampleSubscribed =
     subscriberAdded 30 (Some 2) (subscriberAdded 20 (Some 1) (subscriberAdded 10 (Some 1) newManager))"

definition exampleManager :: "nat RemoteInterestsManager" where
  "exampleManager = updatesAdded 30 [Some 5] (updatesAdded 10 [Some 5] exampleSubscribed)"

lemmas evaluate_manager = subscriberAdded_def newManager_def addInterest_def updatesAdded_def addUpdate_def
  bimapAdd_def List.map_filter_def useUpdate_def

lemmas evaluate_handler = newHandler_becomes [unfolded becomes_def] addSubscriber_becomes [unfolded becomes_def]
  addObject_becomes [unfolded becomes_def]

lemma exampleManager_run: "managerRun order c exampleManager"
  unfolding exampleManager_def exampleSubscribed_def
  by (intro managerRun.intros) (simp_all add: evaluate_manager)

lemma exampleManager_state:
  "subscribed (handler exampleManager) = {(1, 10), (1, 20), (2, 30)}"
  "selects (handler exampleManager) = {(10, 1), (30, 1)}"
  "sends (handler exampleManager) = {(1, 1), (2, 1)}"
  "interestToCounter exampleManager = [10 \<mapsto> 1, 20 \<mapsto> 1, 30 \<mapsto> 1]"
  "objectIdToUpdateItr exampleManager = [5 \<mapsto> 1]" "objectUpdates exampleManager = [(1, 5)]"
  by (auto simp: exampleManager_def exampleSubscribed_def evaluate_manager evaluate_handler)

section \<open>Properties\<close>

text \<open>
  C11. While objects live until they are taken from it, a manager never uses an update that is gone: whatever its
  subscribers, objects and rejections, every update that is to be sent is in its list.  And it remembers a remote
  participant, through which it sends, exactly while one is subscribed.
\<close>

theorem updates_never_dangle:
  assumes "managerRun order complete M" "walksAll order"
  shows "\<not> faulted M \<and> Range (sends (handler M)) \<subseteq> updatesOf M \<and>
     (aRemoteParticipant M = None \<longleftrightarrow> subscribed (handler M) = {})"
proof -
  from managerRun_ok [OF assms] have "managerOk complete M" "referenceOk M" by auto
  then show ?thesis by (auto simp: managerOk_def coreOk_def referenceOk_def split: option.splits)
qed

theorem updates_never_dangle_witness: "\<not> faulted exampleManager \<and> aRemoteParticipant exampleManager \<noteq> None"
  using updates_never_dangle [OF exampleManager_run someOrder_walks] by (simp add: exampleManager_state)

text \<open>
  C10. Who is interested gets the updates: if no participant rejected an object, then for every interest of a remote
  participant and every object it selects, the update of the object is sent to the process of the participant, and
  no process is sent the same update twice.
\<close>

theorem interested_processes_are_sent:
  assumes "managerRun order True M" "walksAll order" "walksUpdates updates M"
    and "(r, i) \<in> subscribed (handler M)" "(i, u) \<in> selects (handler M)"
    and "objectIdToUpdateItr M oid = Some u" "alive oid"
  shows "(\<exists>r'. proc r' = proc r \<and> (r', oid) \<in> set (fst (sendObjectUpdates proc alive updates M))) \<and>
     distinct (map (\<lambda>(r', oid). (proc r', oid)) (fst (sendObjectUpdates proc alive updates M)))"
proof -
  from managerRun_ok [OF assms(1,2)] have M: "managerOk True M" "referenceOk M" by auto
  let ?N = "applyPendingUpdateRemovals M"
  let ?us = "updates (yToXListMap (remotesUpdates (handler ?N)))"
  note a = applyPending_ok [OF M]
  have N: "handler ?N = handler M" "managerOk True ?N" "referenceOk ?N"
      "objectIdToUpdateItr ?N oid = Some u" using a assms(5,6) by auto
  have tables: "tablesOk ?N" "handlerOk (handler ?N)" using N(2) by (auto simp: managerOk_def coreOk_def)
  have "aRemoteParticipant ?N \<noteq> None" using N(1,3) assms(4) by (cases "aRemoteParticipant ?N") (auto simp: referenceOk_def)
  then have out: "fst (sendObjectUpdates proc alive updates M) = concat (map (\<lambda>u. sendUpdate proc alive u ?N) ?us)"
    by (auto simp: sendObjectUpdates_def Let_def)
  have "(r, u) \<in> sends (handler M)" using M(1) assms(4,5) by (auto simp: managerOk_def wanted_def)
  moreover have "set ?us = Range (sends (handler M))"
    using walksUpdates_set [OF tables(2)] assms(3) by (simp add: walksUpdates_def N(1))
  ultimately have u: "u \<in> set ?us" "distinct ?us" "r \<in> set (forEachY u (remotesUpdates (handler ?N)))"
    using assms(3) forEachY_pairs [of "remotesUpdates (handler ?N)" u] tables(2) N(1)
    by (auto simp: walksUpdates_def handlerOk_def Let_def)
  obtain r' where "r' \<in> set (firstPerProcess proc (forEachY u (remotesUpdates (handler ?N))) {})" "proc r' = proc r"
    using firstPerProcess_covers [OF u(3)] by blast
  then have "(r', oid) \<in> set (sendUpdate proc alive u ?N)"
    using tables_lookup [OF tables(1)] N(4) assms(7) by (auto simp: sendUpdate_def)
  then show ?thesis
    unfolding out using u(1) \<open>proc r' = proc r\<close> sentUpdates_distinct [OF tables(1) u(2)] by auto
qed

theorem interested_processes_are_sent_witness:
  "\<exists>r'. (r', 5) \<in> set (fst (sendObjectUpdates (\<lambda>r. word_of_nat r) everAlive (\<lambda>_. [1]) exampleManager)) \<and>
     (word_of_nat r' :: u32) = 2"
proof -
  have "walksUpdates (\<lambda>_. [1]) exampleManager"
    using exampleManager_state(3) managerRun_ok [OF exampleManager_run [of someOrder True] someOrder_walks]
      listed_updates [of "remotesUpdates (handler exampleManager)"]
    by (auto simp: walksUpdates_def managerOk_def coreOk_def handlerOk_def)
  from interested_processes_are_sent [OF exampleManager_run someOrder_walks this, of 2 30 1 5 everAlive
      "\<lambda>r. word_of_nat r"] show ?thesis by (auto simp: exampleManager_state)
qed

text \<open>
  C32. When the last subscriber of an interest leaves it, and has another interest, it goes on being sent the objects
  the interest selected that an interest of somebody else selects too, although none of its own interests selects
  them.
\<close>

theorem stale_updates_after_unsubscribe:
  assumes "managerRun order complete M" "walksAll order"
    and "interestToCounter M i = Some 1" "(r, i) \<in> subscribed (handler M)" "(r, k) \<in> subscribed (handler M)" "k \<noteq> i"
    and "(r, u) \<in> sends (handler M)" "(i, u) \<in> selects (handler M)" "(j, u) \<in> selects (handler M)" "j \<noteq> i"
    and "\<And>l. (r, l) \<in> subscribed (handler M) \<Longrightarrow> (l, u) \<in> selects (handler M) \<Longrightarrow> l = i"
  defines "M' \<equiv> subscriberRemoved everAlive order i (Some r) M"
  shows "(r, u) \<in> sends (handler M') \<and> (r, u) \<notin> wanted (handler M')"
proof -
  have "managerOk complete M" using managerRun_ok [OF assms(1,2)] by blast
  then have "coreOk M" by (simp add: managerOk_def)
  from lastUnsubscribe(1) [OF this assms(3,5,6), of everAlive order, folded M'_def] show ?thesis
    using assms(7,9,10,11) by (auto simp: becomes_def wanted_def)
qed

theorem stale_updates_after_unsubscribe_witness:
  "(1, 1) \<in> sends (handler (subscriberRemoved everAlive someOrder 10 (Some 1) exampleManager)) \<and>
   (1, 1) \<notin> wanted (handler (subscriberRemoved everAlive someOrder 10 (Some 1) exampleManager))"
  by (rule stale_updates_after_unsubscribe [OF exampleManager_run [of someOrder True] someOrder_walks,
      where k = 20 and j = 30]) (auto simp: exampleManager_state)

text \<open>
  C33. A freed update is used: when the last subscriber of an interest leaves it and has another one, an update that
  only this interest selects, whose object is gone and which is recorded for removal, is used after it was taken out
  of the list, in the next pass.
\<close>

theorem freed_update_is_used:
  assumes "managerRun order complete M" "walksAll order"
    and "interestToCounter M i = Some 1" "(r, i) \<in> subscribed (handler M)" "(r, k) \<in> subscribed (handler M)" "k \<noteq> i"
    and "(r, u) \<in> sends (handler M)" "\<And>j. (j, u) \<in> selects (handler M) \<longleftrightarrow> j = i"
    and "objectIdToUpdateItr M oid = Some u" "\<not> alive oid" "oid \<in> set (updateRemovalsPending M)"
  defines "M' \<equiv> subscriberRemoved alive order i (Some r) M"
  assumes "walksUpdates updates M'"
  shows "faulted (snd (sendObjectUpdates proc alive updates M'))"
proof -
  from managerRun_ok [OF assms(1,2)] have M: "managerOk complete M" "referenceOk M" by auto
  have core: "coreOk M" using M by (simp add: managerOk_def)
  note leave = lastUnsubscribe [OF core assms(3,5,6), of alive order, folded M'_def]
  let ?H = "handler M'" and ?i' = "selects (handler M) - {i} \<times> UNIV"
  have okH: "handlerOk ?H" "selects ?H = ?i'" "subscribed ?H = subscribed (handler M) - {(r, i)}"
    using leave(1) by (simp_all add: becomes_def)
  have "u \<notin> reachable alive M"
    using core assms(9,10) tables_lookup [of M oid u] by (auto simp: coreOk_def reachable_def)
  then have sent: "(r, u) \<in> sends ?H" using leave(1) assms(7) by (auto simp: becomes_def)
  have "(r, k) \<in> subscribed ?H" using okH(3) assms(5,6) by simp
  then have ref: "aRemoteParticipant M' \<noteq> None"
    using getFirstRemote_ok [OF okH(1) assms(2)] leave(5) M(2) assms(4)
    by (auto simp: referenceOk_def split: option.splits)
  let ?P = "applyPendingUpdateRemovals M'"
  note ap = applyRemovals_tables [OF leave(2) okH(1), of "updateRemovalsPending M'"]
  then have P: "handler ?P = ?H" "aRemoteParticipant ?P \<noteq> None"
    using ref by (simp_all add: applyPendingUpdateRemovals_def)
  have "u \<notin> updatesOf ?P"
  proof
    assume "u \<in> updatesOf ?P"
    then obtain o' where "objectIdToUpdateItr ?P o' = Some u"
      using ap tables_node [of "fold applyUpdateRemoval (updateRemovalsPending M') M'"]
      by (auto simp: updatesOf_def applyPendingUpdateRemovals_def)
    then have o': "objectIdToUpdateItr M' o' = Some u" "o' \<in> set (updateRemovalsPending M') \<longrightarrow> u \<in> Range ?i'"
      using ap okH(2) by (auto simp: applyPendingUpdateRemovals_def)
    then have "o' = oid" using leave(3) assms(9) tables_lookup [OF leave(2)] by (metis option.inject)
    then show False using o'(2) leave(4) assms(8,11) by auto
  qed
  moreover have "u \<in> set (updates (yToXListMap (remotesUpdates (handler ?P))))"
    using walksUpdates_set [OF okH(1) assms(13)] sent unfolding P(1) by auto
  ultimately show ?thesis using P(2) useUpdate_faults by (auto simp: sendObjectUpdates_def Let_def)
qed

text \<open>
  Participant 1 has the interests 10 and 20; interest 10 selected the object 5, lost it and selects it again, before
  the next pass.
\<close>

definition exampleRelinked :: "nat RemoteInterestsManager" where
  "exampleRelinked = updatesAdded 10 [Some 5] (updatesRemoved 10 [5] (updatesAdded 10 [Some 5]
     (subscriberAdded 20 (Some 1) (subscriberAdded 10 (Some 1) newManager))))"

lemma exampleRelinked_state:
  "managerRun order c exampleRelinked"
  "handlerOk (handler exampleRelinked)" "subscribed (handler exampleRelinked) = {(1, 10), (1, 20)}"
  "selects (handler exampleRelinked) = {(10, 1)}" "sends (handler exampleRelinked) = {(1, 1)}"
  "interestToCounter exampleRelinked = [10 \<mapsto> 1, 20 \<mapsto> 1]" "objectIdToUpdateItr exampleRelinked = [5 \<mapsto> 1]"
  "updateRemovalsPending exampleRelinked = [5]"
proof -
  let ?A = "updatesAdded 10 [Some 5] (subscriberAdded 20 (Some 1) (subscriberAdded 10 (Some 1) newManager))
    :: nat RemoteInterestsManager"
  have A: "handlerOk (handler ?A)" "subscribed (handler ?A) = {(1, 10), (1, 20)}" "selects (handler ?A) = {(10, 1)}"
      "sends (handler ?A) = {(1, 1)}" "objectIdToUpdateItr ?A = [5 \<mapsto> 1]" "objectUpdates ?A = [(1, 5)]"
      "updateRemovalsPending ?A = []" "interestToCounter ?A = [10 \<mapsto> 1, 20 \<mapsto> 1]" "\<not> faulted ?A"
    by (auto simp: evaluate_manager evaluate_handler)
  obtain g H where H: "handlerRemoveObjectByInterest 1 10 (handler ?A) = (g, H)" by fastforce
  note b = removeObjectByInterest_becomes [OF A(1) H, unfolded A(2,3,4)]
  have "g" using b(2) by simp
  then have R: "updatesRemoved 10 [5] ?A = ?A\<lparr>handler := H, updateRemovalsPending := [5]\<rparr>"
    using A H by (simp add: updatesRemoved_def removeObjectUpdatesByInterest_def useUpdate_def)
  have eq: "exampleRelinked = ?A\<lparr>handler := handlerAddObject 10 1 H, updateRemovalsPending := [5]\<rparr>"
    unfolding exampleRelinked_def R using A(5,6,9)
    by (simp add: updatesAdded_def [of _ "[Some 5]" "_\<lparr>updateRemovalsPending := _\<rparr>"] List.map_filter_def addUpdate_def useUpdate_def)
  have H': "becomes H {} {(1, 10), (1, 20)} {}" using b(1) by (simp add: becomes_def)
  show "handlerOk (handler exampleRelinked)" "subscribed (handler exampleRelinked) = {(1, 10), (1, 20)}"
    "selects (handler exampleRelinked) = {(10, 1)}" "sends (handler exampleRelinked) = {(1, 1)}"
    "interestToCounter exampleRelinked = [10 \<mapsto> 1, 20 \<mapsto> 1]" "objectIdToUpdateItr exampleRelinked = [5 \<mapsto> 1]"
    "updateRemovalsPending exampleRelinked = [5]"
    using H' A by (auto simp: eq becomes_def addObject_becomes [unfolded becomes_def])
  show "managerRun order c exampleRelinked"
    unfolding exampleRelinked_def
    by (intro managerRun.intros) (use A R in \<open>simp_all add: evaluate_manager\<close>)
qed

theorem freed_update_is_used_witness:
  "faulted (snd (sendObjectUpdates (\<lambda>_. 0) (\<lambda>_. False) (\<lambda>_. [1])
     (subscriberRemoved (\<lambda>_. False) someOrder 10 (Some 1) exampleRelinked)))"
proof -
  note x = exampleRelinked_state
  have "coreOk exampleRelinked"
    using managerRun_ok [OF x(1) [of someOrder True] someOrder_walks] by (simp add: managerOk_def)
  note l = lastUnsubscribe(1) [OF this, of 10 1 20 "\<lambda>_. False" someOrder]
  let ?M = "subscriberRemoved (\<lambda>_. False) someOrder 10 (Some 1) exampleRelinked"
  have none: "reachable (\<lambda>_. False) exampleRelinked = {}" by (simp add: reachable_def)
  have "handlerOk (handler ?M)" "sends (handler ?M) = {(1, 1)}"
    using l unfolding x(3,4,5,6) none becomes_def by simp_all
  then have dom: "dom (yToXListMap (remotesUpdates (handler ?M))) = {1}"
    using listed_updates [of "remotesUpdates (handler ?M)"] by (simp add: handlerOk_def)
  have "walksUpdates (\<lambda>_. [1]) ?M" unfolding walksUpdates_def Let_def dom by simp
  from freed_update_is_used [OF x(1) [of someOrder True] someOrder_walks, where i = 10 and r = 1 and k = 20 and u = 1
      and oid = 5, OF _ _ _ _ _ _ _ _ _ this]
  show ?thesis unfolding x(3,4,5,6,7,8) by simp
qed

end
