(* ===== verification/Ieee_Float.thy ===== *)
theory Ieee_Float
  imports Sen_Prelude
begin

text \<open>
  The part of the C++ language the query machine computes with and HOL-Library does not have: the
  arithmetic of \<^verbatim>\<open>float32_t\<close> and \<^verbatim>\<open>float64_t\<close> (IEEE 754 binary32 and binary64, rounding to nearest,
  ties to even). A floating-point value is the word of its bits. A format is given by its precision
  \<open>p\<close> (24 or 53) and the width \<open>w\<close> of its exponent field (8 or 11); a finite value is a sign, a
  magnitude \<open>m\<close> (an integer that is not negative) and an exponent \<open>e\<close>, read as \<open>m * 2 ^ e\<close>. Every operation computes the exact rational
  result and rounds it once. Every definition computes.
\<close>

section \<open>Formats\<close>

datatype fpval =
    FNaN
  | FInf bool
  | FFin bool int int

definition fp_emin :: "nat \<Rightarrow> nat \<Rightarrow> int" where
  "fp_emin p w = 3 - 2 ^ (w - 1) - int p"

text \<open>The bits of plus infinity: every bit of the exponent field set, none of the fraction.\<close>

definition fp_inf_bits :: "nat \<Rightarrow> nat \<Rightarrow> int" where
  "fp_inf_bits p w = (2 ^ w - 1) * 2 ^ (p - 1)"

definition fp_decode :: "nat \<Rightarrow> nat \<Rightarrow> int \<Rightarrow> fpval" where
  "fp_decode p w n =
     (let s = (2 ^ (p + w - 1) \<le> n);
          a = n mod 2 ^ (p + w - 1);
          ex = a div 2 ^ (p - 1);
          fr = a mod 2 ^ (p - 1)
      in if ex = 2 ^ w - 1 then (if fr = 0 then FInf s else FNaN)
         else if ex = 0 then FFin s fr (fp_emin p w)
         else FFin s (2 ^ (p - 1) + fr) (ex - 1 + fp_emin p w))"

section \<open>Rounding\<close>

function nbits :: "int \<Rightarrow> int" where
  "nbits n = (if n \<le> 0 then 0 else 1 + nbits (n div 2))"
  by pat_completeness auto
termination
  by (relation "measure nat") auto

declare nbits.simps [simp del]

definition round_half_even :: "int \<Rightarrow> int \<Rightarrow> int" where
  "round_half_even a b =
     (let q = a div b; r = a mod b
      in if 2 * r < b then q else if b < 2 * r then q + 1 else q + q mod 2)"

text \<open>\<open>scaled n d e\<close> is the fraction \<open>n / d / 2 ^ e\<close> as numerator and denominator.\<close>

definition scaled :: "int \<Rightarrow> int \<Rightarrow> int \<Rightarrow> int \<times> int" where
  "scaled n d e = (if 0 \<le> e then (n, d * 2 ^ nat e) else (n * 2 ^ nat (- e), d))"

text \<open>
  The exponent of the last place of \<open>n / d\<close>: the one that leaves \<open>p\<close> bits before the point, but
  never below the smallest exponent of the format.
\<close>

definition fp_exponent :: "nat \<Rightarrow> nat \<Rightarrow> int \<Rightarrow> int \<Rightarrow> int" where
  "fp_exponent p w n d =
     (let e = nbits n - nbits d - int p;
          (a, b) = scaled n d e;
          e' = (if 2 ^ p * b \<le> a then e + 1 else e)
      in max e' (fp_emin p w))"

text \<open>
  Rounds the positive fraction \<open>n / d\<close>. The exponent counts the binades above the subnormals, so
  adding the rounded magnitude to it carries into the exponent field by itself.
\<close>

definition fp_round_abs :: "nat \<Rightarrow> nat \<Rightarrow> int \<Rightarrow> int \<Rightarrow> int" where
  "fp_round_abs p w n d =
     (if n = 0 then 0
      else let e = fp_exponent p w n d;
               (a, b) = scaled n d e;
               bits = (e - fp_emin p w) * 2 ^ (p - 1) + round_half_even a b
           in min bits (fp_inf_bits p w))"

definition fp_sign_bit :: "nat \<Rightarrow> nat \<Rightarrow> bool \<Rightarrow> int" where
  "fp_sign_bit p w s = (if s then 2 ^ (p + w - 1) else 0)"

definition fp_round :: "nat \<Rightarrow> nat \<Rightarrow> bool \<Rightarrow> int \<Rightarrow> int \<Rightarrow> int" where
  "fp_round p w s n d = fp_sign_bit p w s + fp_round_abs p w n d"

text \<open>The quiet NaN an operation without a meaningful result returns.\<close>

definition fp_nan :: "nat \<Rightarrow> nat \<Rightarrow> int" where
  "fp_nan p w = fp_inf_bits p w + 2 ^ (p - 2)"

definition fp_inf :: "nat \<Rightarrow> nat \<Rightarrow> bool \<Rightarrow> int" where
  "fp_inf p w s = fp_sign_bit p w s + fp_inf_bits p w"

text \<open>Rounds \<open>m * 2 ^ e\<close> for an integer \<open>m\<close>; \<open>z\<close> is the sign of a zero result.\<close>

definition fp_round_int :: "nat \<Rightarrow> nat \<Rightarrow> bool \<Rightarrow> int \<Rightarrow> int \<Rightarrow> int" where
  "fp_round_int p w z m e =
     (let s = (if m = 0 then z else m < 0);
          n = abs m
      in if 0 \<le> e then fp_round p w s (n * 2 ^ nat e) 1
         else fp_round p w s n (2 ^ nat (- e)))"

section \<open>Arithmetic\<close>

definition fp_signed :: "bool \<Rightarrow> int \<Rightarrow> int" where
  "fp_signed s m = (if s then - m else m)"

fun fp_neg :: "fpval \<Rightarrow> fpval" where
  "fp_neg FNaN = FNaN"
| "fp_neg (FInf s) = FInf (\<not> s)"
| "fp_neg (FFin s m e) = FFin (\<not> s) m e"

fun fp_add :: "nat \<Rightarrow> nat \<Rightarrow> fpval \<Rightarrow> fpval \<Rightarrow> int" where
  "fp_add p w FNaN y = fp_nan p w"
| "fp_add p w x FNaN = fp_nan p w"
| "fp_add p w (FInf s) (FInf t) = (if s = t then fp_inf p w s else fp_nan p w)"
| "fp_add p w (FInf s) (FFin _ _ _) = fp_inf p w s"
| "fp_add p w (FFin _ _ _) (FInf t) = fp_inf p w t"
| "fp_add p w (FFin s m e) (FFin t n f) =
     (let g = min e f
      in fp_round_int p w (s \<and> t)
           (fp_signed s m * 2 ^ nat (e - g) + fp_signed t n * 2 ^ nat (f - g)) g)"

fun fp_mul :: "nat \<Rightarrow> nat \<Rightarrow> fpval \<Rightarrow> fpval \<Rightarrow> int" where
  "fp_mul p w FNaN y = fp_nan p w"
| "fp_mul p w x FNaN = fp_nan p w"
| "fp_mul p w (FInf s) (FInf t) = fp_inf p w (s \<noteq> t)"
| "fp_mul p w (FInf s) (FFin t n _) = (if n = 0 then fp_nan p w else fp_inf p w (s \<noteq> t))"
| "fp_mul p w (FFin s m _) (FInf t) = (if m = 0 then fp_nan p w else fp_inf p w (s \<noteq> t))"
| "fp_mul p w (FFin s m e) (FFin t n f) =
     fp_round_int p w (s \<noteq> t) (fp_signed s m * fp_signed t n) (e + f)"

fun fp_div :: "nat \<Rightarrow> nat \<Rightarrow> fpval \<Rightarrow> fpval \<Rightarrow> int" where
  "fp_div p w FNaN y = fp_nan p w"
| "fp_div p w x FNaN = fp_nan p w"
| "fp_div p w (FInf s) (FInf t) = fp_nan p w"
| "fp_div p w (FInf s) (FFin t _ _) = fp_inf p w (s \<noteq> t)"
| "fp_div p w (FFin s _ _) (FInf t) = fp_sign_bit p w (s \<noteq> t)"
| "fp_div p w (FFin s m e) (FFin t n f) =
     (if n = 0 then (if m = 0 then fp_nan p w else fp_inf p w (s \<noteq> t))
      else if f \<le> e then fp_round p w (s \<noteq> t) (m * 2 ^ nat (e - f)) n
      else fp_round p w (s \<noteq> t) m (n * 2 ^ nat (f - e)))"

section \<open>Comparison\<close>

fun fp_less :: "fpval \<Rightarrow> fpval \<Rightarrow> bool" where
  "fp_less FNaN y = False"
| "fp_less x FNaN = False"
| "fp_less (FInf s) (FInf t) = (s \<and> \<not> t)"
| "fp_less (FInf s) (FFin _ _ _) = s"
| "fp_less (FFin _ _ _) (FInf t) = (\<not> t)"
| "fp_less (FFin s m e) (FFin t n f) =
     (let g = min e f
      in fp_signed s m * 2 ^ nat (e - g) < fp_signed t n * 2 ^ nat (f - g))"

fun fp_eq :: "fpval \<Rightarrow> fpval \<Rightarrow> bool" where
  "fp_eq FNaN y = False"
| "fp_eq x FNaN = False"
| "fp_eq (FInf s) (FInf t) = (s = t)"
| "fp_eq (FInf s) (FFin _ _ _) = False"
| "fp_eq (FFin _ _ _) (FInf t) = False"
| "fp_eq (FFin s m e) (FFin t n f) =
     (let g = min e f
      in fp_signed s m * 2 ^ nat (e - g) = fp_signed t n * 2 ^ nat (f - g))"

section \<open>The two C++ types\<close>

type_synonym float32 = "32 word"
type_synonym float64 = "64 word"

definition f32_dec :: "float32 \<Rightarrow> fpval" where
  "f32_dec x = fp_decode 24 8 (uint x)"

definition f64_dec :: "float64 \<Rightarrow> fpval" where
  "f64_dec x = fp_decode 53 11 (uint x)"

definition f32_of_int :: "int \<Rightarrow> float32" where
  "f32_of_int i = of_int (fp_round_int 24 8 False i 0)"

definition f64_of_int :: "int \<Rightarrow> float64" where
  "f64_of_int i = of_int (fp_round_int 53 11 False i 0)"

text \<open>Widening is exact: every binary32 value is a binary64 value.\<close>

definition f64_of_f32 :: "float32 \<Rightarrow> float64" where
  "f64_of_f32 x =
     (case f32_dec x of
        FNaN \<Rightarrow> of_int (fp_nan 53 11)
      | FInf s \<Rightarrow> of_int (fp_inf 53 11 s)
      | FFin s m e \<Rightarrow> of_int (fp_round_int 53 11 s (fp_signed s m) e))"

definition f32_uminus :: "float32 \<Rightarrow> float32" where
  "f32_uminus x = xor x (push_bit 31 1)"

definition f64_uminus :: "float64 \<Rightarrow> float64" where
  "f64_uminus x = xor x (push_bit 63 1)"

section \<open>Decimal text\<close>

definition decimalDigit :: "char \<Rightarrow> bool" where
  "decimalDigit c \<longleftrightarrow> (48 :: nat) \<le> of_char c \<and> of_char c \<le> (57 :: nat)"

definition digits_value :: "string \<Rightarrow> int" where
  "digits_value cs = foldl (\<lambda>v c. 10 * v + (of_char c - 48)) 0 cs"

text \<open>
  \<open>f64_of_fraction n d\<close> is the double nearest to \<open>n / d\<close>. There is none (the C library's \<^verbatim>\<open>ERANGE\<close>)
  when the value rounds to infinity, or is below the normal range and not exact.
\<close>

definition f64_of_fraction :: "int \<Rightarrow> int \<Rightarrow> float64 option" where
  "f64_of_fraction n d =
     (let bits = fp_round_abs 53 11 n d;
          tiny = (bits < 2 ^ 52);
          exact = (snd (scaled n d (fp_emin 53 11)) dvd fst (scaled n d (fp_emin 53 11)))
      in if bits = fp_inf_bits 53 11 \<or> (tiny \<and> \<not> exact) then None else Some (of_int bits))"

text \<open>
  \<^verbatim>\<open>std::stod\<close> on a text of digits, points and blanks: it reads the longest prefix made of digits, a
  point and digits, and ignores the rest. \<open>None\<close> is one of its exceptions, \<^verbatim>\<open>std::invalid_argument\<close> for
  a text that does not start with a number and \<^verbatim>\<open>std::out_of_range\<close>.
\<close>

definition stod_decimal :: "string \<Rightarrow> float64 option" where
  "stod_decimal cs =
     (let ip = takeWhile decimalDigit cs;
          rest = drop (length ip) cs;
          fr = (case rest of c # ds \<Rightarrow> if c = CHR ''.'' then takeWhile decimalDigit ds else [] | [] \<Rightarrow> [])
      in if ip = [] \<and> fr = [] then None
         else f64_of_fraction (digits_value (ip @ fr)) (10 ^ length fr))"

text \<open>\<^verbatim>\<open>std::stod\<close> of such a text with a sign in front, the form of a number token's lexeme.\<close>

definition stod_signed :: "string \<Rightarrow> float64 option" where
  "stod_signed cs =
     (case cs of
        [] \<Rightarrow> stod_decimal []
      | c # ds \<Rightarrow> if c = CHR ''-'' then map_option f64_uminus (stod_decimal ds) else stod_decimal cs)"

section \<open>Facts\<close>

lemma fp_less_irrefl: "\<not> fp_less x x"
  by (cases x) (auto simp: Let_def)

lemma fp_less_asym: "fp_less x y \<Longrightarrow> \<not> fp_less y x"
  by (cases x; cases y) (auto simp: Let_def min.commute)

lemma fp_eq_sym: "fp_eq x y = fp_eq y x"
  by (cases x; cases y) (auto simp: Let_def min.commute)

lemma fp_trichotomy:
  "x \<noteq> FNaN \<Longrightarrow> y \<noteq> FNaN \<Longrightarrow> fp_less x y \<or> fp_eq x y \<or> fp_less y x"
  by (cases x; cases y) (auto simp: Let_def min.commute)

lemma fp_eq_not_less: "fp_eq x y \<Longrightarrow> \<not> fp_less x y"
  by (cases x; cases y) (auto simp: Let_def)

lemma fp_round_abs_le_inf: "fp_round_abs p w n d \<le> fp_inf_bits p w"
  by (auto simp: fp_round_abs_def fp_inf_bits_def Let_def split: prod.splits)

text \<open>Every integer below \<open>2 ^ 63\<close> is in the range of the conversion from text.\<close>

lemma nbits_bounds: "0 < n \<Longrightarrow> 0 < nbits n \<and> n < 2 ^ nat (nbits n)"
proof (induction n rule: nbits.induct)
  case (1 n)
  show ?case
  proof (cases "n div 2 = 0")
    case True
    with "1.prems" have "n = 1" by presburger
    then show ?thesis by (simp add: nbits.simps)
  next
    case False
    with "1.prems" have IH: "0 < nbits (n div 2)" "n div 2 < 2 ^ nat (nbits (n div 2))"
      using "1.IH" by auto
    have "nbits n = 1 + nbits (n div 2)" using "1.prems" by (simp add: nbits.simps [of n])
    moreover have "n < 2 * 2 ^ nat (nbits (n div 2))" using IH(2) by linarith
    ultimately show ?thesis using IH(1) by (simp add: nat_add_distrib)
  qed
qed

lemma nbits_le: "n < 2 ^ k \<Longrightarrow> nbits n \<le> int k"
proof (induction k arbitrary: n)
  case 0
  then show ?case by (simp add: nbits.simps)
next
  case (Suc k)
  have "n div 2 < 2 ^ k" using Suc.prems by simp
  then have "nbits (n div 2) \<le> int k" by (rule Suc.IH)
  then show ?case by (simp add: nbits.simps [of n])
qed

lemma round_half_even_le: "0 < b \<Longrightarrow> a < c * b \<Longrightarrow> round_half_even a b \<le> c"
proof -
  assume "0 < b" "a < c * b"
  have "a div b < c"
  proof (rule ccontr)
    assume "\<not> a div b < c"
    then have "c * b \<le> a div b * b" using \<open>0 < b\<close> by simp
    also have "\<dots> \<le> a"
      using pos_mod_sign [OF \<open>0 < b\<close>, of a] div_mult_mod_eq [of a b] by linarith
    finally show False using \<open>a < c * b\<close> by simp
  qed
  moreover have "round_half_even a b \<le> a div b + 1"
    by (auto simp: round_half_even_def Let_def)
  ultimately show ?thesis by simp
qed

lemma round_half_even_nonneg: "0 \<le> a \<Longrightarrow> 0 < b \<Longrightarrow> 0 \<le> round_half_even a b"
  by (auto simp: round_half_even_def Let_def pos_imp_zdiv_nonneg_iff)

lemma scaled_bound:
  assumes "0 < n" "e = nbits n - k" "0 \<le> k" "scaled n 1 e' = (a, b)" "e \<le> e'"
  shows "0 < b \<and> 0 \<le> a \<and> a < 2 ^ nat k * b"
proof -
  note nb = nbits_bounds [OF assms(1)]
  have k: "nbits n \<le> k + e'" using assms by simp
  show ?thesis
  proof (cases "0 \<le> e'")
    case True
    then have "(2::int) ^ nat k * 2 ^ nat e' = 2 ^ nat (k + e')"
      using assms(3) by (simp add: nat_add_distrib power_add)
    moreover have "(2::int) ^ nat (nbits n) \<le> 2 ^ nat (k + e')"
      using k by (intro power_increasing) auto
    ultimately have "n < 2 ^ nat k * 2 ^ nat e'" using nb by linarith
    then show ?thesis using True assms(1,4) by (auto simp: scaled_def)
  next
    case False
    show ?thesis
    proof (cases "0 \<le> k + e'")
      case True
      have "n * 2 ^ nat (- e') < 2 ^ nat (nbits n) * 2 ^ nat (- e')" using nb by simp
      also have "\<dots> \<le> 2 ^ nat (k + e') * (2::int) ^ nat (- e')"
        using k by (intro mult_right_mono power_increasing) auto
      also have "\<dots> = 2 ^ nat k"
        using False True by (simp flip: power_add nat_add_distrib)
      finally show ?thesis using False assms(1,4) by (auto simp: scaled_def)
    next
      case False
      with k nb have False by linarith
      then show ?thesis ..
    qed
  qed
qed

lemma f64_of_fraction_int:
  assumes "0 \<le> n" "n < 2 ^ 63"
  shows "f64_of_fraction n 1 \<noteq> None"
proof (cases "n = 0")
  case True
  then show ?thesis
    by (simp add: f64_of_fraction_def fp_round_abs_def fp_inf_bits_def scaled_def fp_emin_def Let_def)
next
  case False
  with assms have n: "0 < n" by simp
  define e where "e = nbits n - 54"
  obtain a0 b0 where s0: "scaled n 1 e = (a0, b0)" by fastforce
  define e' where "e' = (if 2 ^ 53 * b0 \<le> a0 then e + 1 else e)"
  obtain a b where s: "scaled n 1 e' = (a, b)" by fastforce
  have eb: "- 53 \<le> e" "e \<le> 9" using nbits_bounds [OF n] nbits_le [OF assms(2)] by (auto simp: e_def)
  have nb1: "nbits 1 = 1" by (simp add: nbits.simps)
  have "fp_exponent 53 11 n 1 = e'"
    using eb by (auto simp: fp_exponent_def Let_def nb1 e_def [symmetric] s0 e'_def fp_emin_def
        split: prod.splits)
  then have abs: "fp_round_abs 53 11 n 1 =
      min ((e' + 1074) * 2 ^ 52 + round_half_even a b) (fp_inf_bits 53 11)"
    using n by (simp add: fp_round_abs_def s fp_emin_def)
  have ab: "0 < b" "0 \<le> a" "a < 2 ^ nat 54 * b"
    using scaled_bound [OF n e_def _ s] by (auto simp: e'_def)
  have "0 \<le> round_half_even a b" "round_half_even a b \<le> 2 ^ 54"
    using round_half_even_nonneg [OF ab(2,1)] round_half_even_le [OF ab(1,3)] by simp_all
  moreover have "- 53 \<le> e'" "e' \<le> 10" using eb by (auto simp: e'_def)
  ultimately show ?thesis
    by (auto simp: f64_of_fraction_def abs fp_inf_bits_def Let_def)
qed

lemma digits_value_nonneg: "list_all decimalDigit cs \<Longrightarrow> 0 \<le> digits_value cs"
proof -
  have "0 \<le> v \<Longrightarrow> list_all decimalDigit cs \<Longrightarrow> 0 \<le> foldl (\<lambda>v c. 10 * v + (of_char c - 48)) v cs"
    for v :: int
  proof (induction cs arbitrary: v)
    case (Cons c cs)
    have "(of_char c :: int) = int (of_char c)" by (simp only: of_nat_of_char)
    then have "48 \<le> (of_char c :: int)" using Cons.prems(2) by (simp add: decimalDigit_def)
    then show ?case using Cons by simp
  qed simp
  then show "list_all decimalDigit cs \<Longrightarrow> ?thesis" by (simp add: digits_value_def)
qed

text \<open>A text that starts with a digit and has no point is a double when it is an \<^verbatim>\<open>int64_t\<close>.\<close>

lemma stod_decimal_integer:
  assumes "takeWhile decimalDigit cs \<noteq> []" "CHR ''.'' \<notin> set cs"
    "digits_value (takeWhile decimalDigit cs) < 2 ^ 63"
  shows "stod_decimal cs \<noteq> None"
proof -
  let ?ip = "takeWhile decimalDigit cs"
  have "CHR ''.'' \<notin> set (drop (length ?ip) cs)"
    using assms(2) by (meson in_set_dropD)
  then have "stod_decimal cs = f64_of_fraction (digits_value ?ip) 1"
    using assms(1) by (auto simp: stod_decimal_def Let_def split: list.splits)
  moreover have "0 \<le> digits_value ?ip"
    by (rule digits_value_nonneg) (auto simp: list_all_iff dest: set_takeWhileD)
  ultimately show ?thesis using f64_of_fraction_int assms(3) by simp
qed

end
