(* ===== verification/Hash32.thy ===== *)
theory Hash32
  imports Ieee_Float
begin

text \<open>
  The hash functions of base/hash32.h and base/hash32.cpp: the FNV-1a hash of integers, floating
  point numbers and strings, the mixing step of hashCombine, and the table driven CRC-32 that gives
  an interest its identifier.  The lemmas at the end relate the table driven checksum to the bit by
  bit division it is computed from.
\<close>

unbundle bit_operations_syntax

section \<open>FNV-1a and hashCombine\<close>

definition hashSeed :: u32 where
  "hashSeed = 23835769"

definition propertyHashSeed :: u32 where
  "propertyHashSeed = 19830715"

definition methodHashSeed :: u32 where
  "methodHashSeed = 93580253"

definition eventHashSeed :: u32 where
  "eventHashSeed = 12125807"

definition nonPresentTypeHash :: u32 where
  "nonPresentTypeHash = 18121997"

definition fnv1aOffsetBasis :: u32 where
  "fnv1aOffsetBasis = 0x811c9dc5"

definition fnv1aPrime :: u32 where
  "fnv1aPrime = 0x01000193"

definition fnvStep :: "u32 \<Rightarrow> u8 \<Rightarrow> u32" where
  "fnvStep hash byte = (hash XOR ucast byte) * fnv1aPrime"

definition fnv1a :: "u8 list \<Rightarrow> u32" where
  "fnv1a bytes = foldl fnvStep fnv1aOffsetBasis bytes"

text \<open>Bytes of an unsigned integer of \<open>n\<close> bytes, the most significant one first.\<close>

fun bytesOf :: "nat \<Rightarrow> 'a :: len word \<Rightarrow> u8 list" where
  "bytesOf 0 u = []"
| "bytesOf (Suc n) u = ucast (drop_bit (8 * n) u) # bytesOf n u"

definition hashU8 :: "u8 \<Rightarrow> u32" where
  "hashU8 value = fnv1a (bytesOf 1 value)"

definition hashU32 :: "u32 \<Rightarrow> u32" where
  "hashU32 value = fnv1a (bytesOf 4 value)"

definition hashU64 :: "u64 \<Rightarrow> u32" where
  "hashU64 value = fnv1a (bytesOf 8 value)"

definition hashBool :: "bool \<Rightarrow> u32" where
  "hashBool value = hashU8 (if value then 1 else 0)"

definition hashFloat64 :: "float64 \<Rightarrow> u32" where
  "hashFloat64 value = hashU64 value"

definition charByte :: "char \<Rightarrow> u8" where
  "charByte c = of_char c"

definition hashString :: "string \<Rightarrow> u32" where
  "hashString s = fnv1a (map charByte s)"

definition hashCombineImpl :: "u32 \<Rightarrow> u32 \<Rightarrow> u32" where
  "hashCombineImpl seed h = seed XOR (h + 0x9e3779b9 + push_bit 6 seed + drop_bit 2 seed)"

text \<open>The arguments of a call of hashCombine are given by their own hashes.\<close>

definition hashCombine :: "u32 \<Rightarrow> u32 list \<Rightarrow> u32" where
  "hashCombine seed hs = foldl hashCombineImpl seed hs"

section \<open>CRC-32\<close>

definition reversedPoly :: u32 where
  "reversedPoly = 0xedb88320"

definition crcBit :: "u32 \<Rightarrow> u32" where
  "crcBit checksum = drop_bit 1 checksum XOR (if checksum AND 1 \<noteq> 0 then reversedPoly else 0)"

definition byteChecksum :: "u32 \<Rightarrow> u32" where
  "byteChecksum n = (crcBit ^^ 8) n"

definition generateCrc32LookupTable :: "u32 list" where
  "generateCrc32LookupTable = map (\<lambda>n. byteChecksum (of_nat n)) [0..<256]"

definition crcStep :: "u32 \<Rightarrow> u8 \<Rightarrow> u32" where
  "crcStep checksum byte =
     generateCrc32LookupTable ! unat ((checksum XOR scast byte) AND 0xff) XOR drop_bit 8 checksum"

definition crc32 :: "string \<Rightarrow> u32" where
  "crc32 s = NOT (foldl crcStep (NOT 0) (map charByte s))"

text \<open>The checksum as the remainder computed bit by bit, without a table.\<close>

definition crcReferenceStep :: "u32 \<Rightarrow> u8 \<Rightarrow> u32" where
  "crcReferenceStep checksum byte = (crcBit ^^ 8) (checksum XOR ucast byte)"

definition crc32Reference :: "string \<Rightarrow> u32" where
  "crc32Reference s = NOT (foldl crcReferenceStep (NOT 0) (map charByte s))"

lemma and_one_bit: "(a :: 'a :: len word) AND 1 \<noteq> 0 \<longleftrightarrow> bit a 0"
  by (simp add: and_one_eq bit_0 odd_iff_mod_2_eq_one)

lemma crcBit_bit: "crcBit a = drop_bit 1 a XOR (if bit a 0 then reversedPoly else 0)"
  by (simp only: crcBit_def and_one_bit)

lemma crcBit_xor: "crcBit (a XOR b) = crcBit a XOR crcBit b"
  by (rule bit_word_eqI) (auto simp: crcBit_bit bit_xor_iff drop_bit_xor)

lemma crcBits_xor: "(crcBit ^^ n) (a XOR b) = (crcBit ^^ n) a XOR (crcBit ^^ n) b"
  by (induction n) (simp_all add: crcBit_xor)

lemma crcBit_even: "\<not> bit a 0 \<Longrightarrow> crcBit a = drop_bit 1 a"
  by (simp add: crcBit_bit)

lemma crcBits_shift:
  assumes "\<And>i. i < n \<Longrightarrow> \<not> bit a i"
  shows "(crcBit ^^ n) a = drop_bit n a"
  using assms
proof (induction n)
  case (Suc n)
  then have "(crcBit ^^ n) a = drop_bit n a" "\<not> bit a n"
    by simp_all
  then show ?case
    by (simp add: crcBit_even bit_drop_bit_eq)
qed simp

lemma masked_split: "a = (a AND m) XOR (a AND NOT m)" for a m :: "'a :: len word"
  by (rule bit_word_eqI) (auto simp: bit_xor_iff bit_and_iff bit_not_iff)

lemma low_byte_mask: "(0xff :: u32) = mask 8"
  by (simp add: mask_eq_exp_minus_1)

lemma byte_table: "generateCrc32LookupTable ! unat (a AND 0xff) = byteChecksum (a AND 0xff)"
proof -
  have "a AND 0xff < 2 ^ 8"
    by (simp only: low_byte_mask) (rule and_mask_less', simp)
  then have "unat (a AND 0xff) < 256"
    by (simp add: word_less_nat_alt)
  then show ?thesis
    by (simp add: generateCrc32LookupTable_def)
qed

lemma crcBits_byte: "(crcBit ^^ 8) a = byteChecksum (a AND 0xff) XOR drop_bit 8 a"
proof -
  have "(crcBit ^^ 8) (a AND NOT 0xff) = drop_bit 8 (a AND NOT 0xff)"
    by (rule crcBits_shift) (simp add: low_byte_mask bit_and_iff bit_not_iff bit_mask_iff)
  also have "\<dots> = drop_bit 8 a"
    by (rule bit_word_eqI) (auto simp: low_byte_mask bit_drop_bit_eq bit_and_iff bit_not_iff bit_mask_iff
        dest: bit_imp_le_length)
  finally show ?thesis
    using crcBits_xor [of 8 "a AND 0xff" "a AND NOT 0xff"]
    by (simp only: byteChecksum_def masked_split [symmetric])
qed

lemma sign_extension_low: "(scast byte :: u32) AND 0xff = ucast byte" for byte :: u8
  by (rule bit_word_eqI)
     (auto simp: low_byte_mask bit_and_iff bit_mask_iff bit_signed_iff bit_unsigned_iff min_def
       not_le less_Suc_eq_le eval_nat_numeral le_less dest: bit_imp_le_length)

lemma ucast_low: "(ucast byte :: u32) AND 0xff = ucast byte" for byte :: u8
  by (rule bit_word_eqI)
     (auto simp: low_byte_mask bit_and_iff bit_mask_iff bit_unsigned_iff dest: bit_imp_le_length)

lemma ucast_high: "drop_bit 8 (ucast byte :: u32) = 0" for byte :: u8
  by (rule bit_word_eqI) (auto simp: bit_drop_bit_eq bit_unsigned_iff dest: bit_imp_le_length)

lemma and_xor_right: "(a XOR b) AND m = (a AND m) XOR (b AND m)" for a b m :: u32
  by (rule bit_word_eqI) (auto simp: bit_xor_iff bit_and_iff)

lemma crcStep_reference: "crcStep checksum byte = crcReferenceStep checksum byte"
proof -
  have low: "(checksum XOR scast byte) AND 0xff = (checksum XOR ucast byte) AND 0xff"
    by (simp only: and_xor_right sign_extension_low ucast_low)
  have high: "drop_bit 8 (checksum XOR ucast byte) = drop_bit 8 checksum"
    by (simp add: drop_bit_xor ucast_high)
  show ?thesis
    unfolding crcStep_def crcReferenceStep_def byte_table low crcBits_byte high ..
qed

lemma eight_times: "(f ^^ 8) x = f (f (f (f (f (f (f (f x)))))))"
  by (simp add: eval_nat_numeral)

text \<open>
  C39.  The table driven checksum of crc32 is the CRC-32 remainder computed bit by bit with the
  reflected polynomial, for every string and whatever the sign of its characters; the second part is
  the check value of the CRC-32 standard.
\<close>

theorem crc32_table_correct:
  "crc32 s = crc32Reference s \<and> crc32 ''123456789'' = 0xcbf43926"
proof
  show "crc32 s = crc32Reference s"
    unfolding crc32_def crc32Reference_def
    by (rule arg_cong [where f = NOT], rule foldl_cong) (simp_all add: crcStep_reference)
next
  have "crc32 ''123456789'' = crc32Reference ''123456789''"
    unfolding crc32_def crc32Reference_def
    by (rule arg_cong [where f = NOT], rule foldl_cong) (simp_all add: crcStep_reference)
  also have "\<dots> = 0xcbf43926"
    by (simp add: crc32Reference_def crcReferenceStep_def charByte_def crcBit_def reversedPoly_def eight_times)
  finally show "crc32 ''123456789'' = 0xcbf43926" .
qed

end
