(* ===== verification/Meta_Types.thy ===== *)
theory Meta_Types
  imports Hash32
begin

text \<open>
  The meta types of libs/core/include/sen/core/meta: the built-in types, the user defined types
  with the specification structs they are made from, the members of classes, the equality
  operators, the hashes and the boundedness flag.

  A handle compares the types it points to, and the types compare addresses first; so every user
  defined type carries the address of its object.  Duration and TimeStamp are quantities with an
  equality of their own.
\<close>

section \<open>Data\<close>

datatype NativeKind =
    VoidType | BoolType | UInt8Type | Int16Type | UInt16Type | Int32Type | UInt32Type | Int64Type
  | UInt64Type | Float32Type | Float64Type | StringType

datatype TransportMode = Unicast | Multicast | Confirmed
datatype Constness = Constant | NonConstant

text \<open>How a method relates to a property; the pointer to the property is left out.\<close>

datatype PropertyRelation = NonPropertyRelated | PropertyGetter | PropertySetter
datatype PropertyCategory = StaticRO | StaticRW | DynamicRW | DynamicRO

datatype UnitSpec = UnitSpec (unit_category: u32) (unit_name: string) (unit_namePlural: string)
  (unit_abbreviation: string) (unit_f: float64) (unit_x: float64) (unit_y: float64)

datatype Unit = Unit (unitAddress: nat) (unitSpec: UnitSpec)

datatype Enumerator = Enumerator (enum_name: string) (enum_key: u32) (enum_description: string)

datatype QuantityKind = PlainQuantity | DurationQuantity | TimestampQuantity

datatype 'ty StructField = StructField (field_name: string) (field_description: string) (field_type: 'ty)

datatype 'ty VariantField = VariantField (variant_key: u32) (variant_description: string) (variant_type: 'ty)

datatype 'ty Arg = Arg (arg_name: string) (arg_description: string) (arg_type: 'ty)

datatype 'ty CallableSpec = CallableSpec (callable_name: string) (callable_description: string)
  (callable_args: "'ty Arg list") (callable_transport: TransportMode)

datatype 'ty MethodSpec = MethodSpec (method_callable: "'ty CallableSpec") (method_constness: Constness)
  (method_returnType: 'ty) (method_relation: PropertyRelation) (method_deferred: bool) (method_localOnly: bool)

datatype 'ty EventSpec = EventSpec (event_callable: "'ty CallableSpec")

datatype 'ty PropertySpec = PropertySpec (prop_name: string) (prop_description: string)
  (prop_category: PropertyCategory) (prop_type: 'ty) (prop_transport: TransportMode)
  (prop_tags: "string list") (prop_checkedSet: bool)

text \<open>The names every specification of a user defined type starts with.\<close>

datatype TypeNames = TypeNames (tn_name: string) (tn_qualifiedName: string) (tn_description: string)

datatype 'ty ClassSpec = ClassSpec (class_names: TypeNames) (class_properties: "'ty PropertySpec list")
  (class_methods: "'ty MethodSpec list") (class_events: "'ty EventSpec list")
  (class_constructor: "'ty MethodSpec option") (class_parents: "'ty list") (class_isInterface: bool)
  (class_isAbstract: bool)

text \<open>
  The numeric type of a quantity and the storage type of an enumeration are built-in types.  The
  parent of a struct is itself a struct and the parents of a class are classes, by the types of
  their handles; the theorems that need it state it.
\<close>

datatype Type =
    NativeType NativeKind
  | EnumType nat TypeNames "Enumerator list" NativeKind
  | QuantityType nat QuantityKind TypeNames NativeKind "Unit option" "float64 option" "float64 option"
  | SequenceType nat TypeNames Type "u64 option" bool
  | AliasType nat TypeNames Type
  | OptionalType nat TypeNames Type
  | VariantType nat TypeNames "Type VariantField list"
  | StructType nat TypeNames "Type StructField list" "Type option"
  | ClassType nat "Type ClassSpec"

section \<open>Equality\<close>

text \<open>
  The operators compare the mentioned types with their own \<open>equals\<close>; in the operators below the
  left specification carries, in the place of a type, the equality of that type.
\<close>

type_synonym matcher = "Type \<Rightarrow> bool"

definition fieldEq :: "matcher StructField \<Rightarrow> Type StructField \<Rightarrow> bool" where
  "fieldEq l r \<longleftrightarrow> field_name l = field_name r \<and> field_description l = field_description r
     \<and> field_type l (field_type r)"

definition variantFieldEq :: "matcher VariantField \<Rightarrow> Type VariantField \<Rightarrow> bool" where
  "variantFieldEq l r \<longleftrightarrow> variant_key l = variant_key r \<and> variant_description l = variant_description r
     \<and> variant_type l (variant_type r)"

definition argEq :: "matcher Arg \<Rightarrow> Type Arg \<Rightarrow> bool" where
  "argEq l r \<longleftrightarrow> arg_name l = arg_name r \<and> arg_description l = arg_description r
     \<and> arg_type l (arg_type r)"

definition callableEq :: "matcher CallableSpec \<Rightarrow> Type CallableSpec \<Rightarrow> bool" where
  "callableEq l r \<longleftrightarrow> callable_transport l = callable_transport r \<and> callable_name l = callable_name r
     \<and> callable_description l = callable_description r
     \<and> list_all2 argEq (callable_args l) (callable_args r)"

definition methodEq :: "matcher MethodSpec \<Rightarrow> Type MethodSpec \<Rightarrow> bool" where
  "methodEq l r \<longleftrightarrow> callableEq (method_callable l) (method_callable r)
     \<and> method_constness l = method_constness r \<and> method_deferred l = method_deferred r
     \<and> method_returnType l (method_returnType r)"

definition eventEq :: "matcher EventSpec \<Rightarrow> Type EventSpec \<Rightarrow> bool" where
  "eventEq l r \<longleftrightarrow> callableEq (event_callable l) (event_callable r)"

definition propertyEq :: "matcher PropertySpec \<Rightarrow> Type PropertySpec \<Rightarrow> bool" where
  "propertyEq l r \<longleftrightarrow> prop_name l = prop_name r \<and> prop_description l = prop_description r
     \<and> prop_category l = prop_category r \<and> prop_transport l = prop_transport r
     \<and> prop_tags l = prop_tags r \<and> prop_checkedSet l = prop_checkedSet r
     \<and> prop_type l (prop_type r)"

definition classEq :: "matcher ClassSpec \<Rightarrow> Type ClassSpec \<Rightarrow> bool" where
  "classEq l r \<longleftrightarrow> class_names l = class_names r \<and> class_isInterface l = class_isInterface r
     \<and> list_all2 propertyEq (class_properties l) (class_properties r)
     \<and> list_all2 methodEq (class_methods l) (class_methods r)
     \<and> list_all2 eventEq (class_events l) (class_events r)
     \<and> rel_option methodEq (class_constructor l) (class_constructor r)
     \<and> list_all2 (\<lambda>p q. p q) (class_parents l) (class_parents r)"

text \<open>Comparison of two optional doubles: the IEEE comparison of the values when both are there.\<close>

definition boundEq :: "float64 option \<Rightarrow> float64 option \<Rightarrow> bool" where
  "boundEq l r = rel_option (\<lambda>x y. fp_eq (f64_dec x) (f64_dec y)) l r"

text \<open>
  The units are compared by address.  When the left quantity has no unit, the operator compares the
  optional pointer of the right one with a null pointer; an empty optional is not equal to a value,
  and the pointers are never null.
\<close>

definition unitEq :: "Unit option \<Rightarrow> Unit option \<Rightarrow> bool" where
  "unitEq l r = (case l of
     Some u \<Rightarrow> (case r of Some v \<Rightarrow> unitAddress u = unitAddress v | None \<Rightarrow> False)
   | None \<Rightarrow> False)"

primrec equals :: "Type \<Rightarrow> Type \<Rightarrow> bool" where
  "equals (NativeType k) = (\<lambda>t. case t of NativeType k' \<Rightarrow> k = k' | _ \<Rightarrow> False)"
| "equals (EnumType a n es st) = (\<lambda>t. case t of
     EnumType b n' es' st' \<Rightarrow> a = b \<or> n = n' \<and> es = es' \<and> st = st' | _ \<Rightarrow> False)"
| "equals (QuantityType a k n e u mn mx) = (\<lambda>t. case t of
     QuantityType b k' n' e' u' mn' mx' \<Rightarrow>
       (case k of
          PlainQuantity \<Rightarrow> a = b \<or> tn_description n = tn_description n' \<and> unitEq u u' \<and> e = e'
                           \<and> boundEq mx mx' \<and> boundEq mn mn'
        | DurationQuantity \<Rightarrow> k' = DurationQuantity
        | TimestampQuantity \<Rightarrow> k' = TimestampQuantity)
   | _ \<Rightarrow> False)"
| "equals (SequenceType a n e mx fx) = (\<lambda>t. case t of
     SequenceType b n' e' mx' fx' \<Rightarrow> a = b \<or> n = n' \<and> mx = mx' \<and> fx = fx' \<and> equals e e' | _ \<Rightarrow> False)"
| "equals (AliasType a n e) = (\<lambda>t. case t of
     AliasType b n' e' \<Rightarrow> a = b \<or> n = n' \<and> equals e e' | _ \<Rightarrow> False)"
| "equals (OptionalType a n e) = (\<lambda>t. case t of
     OptionalType b n' e' \<Rightarrow> a = b \<or> n = n' \<and> equals e e' | _ \<Rightarrow> False)"
| "equals (VariantType a n fs) = (\<lambda>t. case t of
     VariantType b n' fs' \<Rightarrow> a = b
       \<or> n = n' \<and> list_all2 variantFieldEq (map (map_VariantField equals) fs) fs'
   | _ \<Rightarrow> False)"
| "equals (StructType a n fs p) = (\<lambda>t. case t of
     StructType b n' fs' p' \<Rightarrow> a = b
       \<or> n = n' \<and> list_all2 fieldEq (map (map_StructField equals) fs) fs'
          \<and> rel_option (\<lambda>q q'. q q') (map_option equals p) p'
   | _ \<Rightarrow> False)"
| "equals (ClassType a c) = (\<lambda>t. case t of
     ClassType b c' \<Rightarrow> a = b \<or> classEq (map_ClassSpec equals c) c' | _ \<Rightarrow> False)"

section \<open>Hashes\<close>

text \<open>In the hash functions a specification carries the hashes of the types it mentions.\<close>

definition nativeName :: "NativeKind \<Rightarrow> string" where
  "nativeName k = (case k of
     VoidType \<Rightarrow> ''void'' | BoolType \<Rightarrow> ''bool'' | UInt8Type \<Rightarrow> ''u8'' | Int16Type \<Rightarrow> ''i16''
   | UInt16Type \<Rightarrow> ''u16'' | Int32Type \<Rightarrow> ''i32'' | UInt32Type \<Rightarrow> ''u32'' | Int64Type \<Rightarrow> ''i64''
   | UInt64Type \<Rightarrow> ''u64'' | Float32Type \<Rightarrow> ''f32'' | Float64Type \<Rightarrow> ''f64'' | StringType \<Rightarrow> ''string'')"

definition nativeHash :: "NativeKind \<Rightarrow> u32" where
  "nativeHash k = hashCombine hashSeed [hashString (nativeName k)]"

definition transportByte :: "TransportMode \<Rightarrow> u8" where
  "transportByte t = (case t of Unicast \<Rightarrow> 0 | Multicast \<Rightarrow> 1 | Confirmed \<Rightarrow> 2)"

definition constnessValue :: "Constness \<Rightarrow> u32" where
  "constnessValue c = (case c of Constant \<Rightarrow> 0 | NonConstant \<Rightarrow> 1)"

definition categoryValue :: "PropertyCategory \<Rightarrow> u32" where
  "categoryValue c = (case c of StaticRO \<Rightarrow> 0 | StaticRW \<Rightarrow> 1 | DynamicRW \<Rightarrow> 2 | DynamicRO \<Rightarrow> 3)"

definition unitHash :: "UnitSpec \<Rightarrow> u32" where
  "unitHash u = hashCombine hashSeed
     [hashU32 (unit_category u), hashString (unit_name u), hashString (unit_namePlural u),
      hashString (unit_abbreviation u), hashFloat64 (unit_f u), hashFloat64 (unit_x u), hashFloat64 (unit_y u)]"

definition namesHash :: "TypeNames \<Rightarrow> u32 list" where
  "namesHash n = [hashString (tn_name n), hashString (tn_qualifiedName n)]"

definition enumeratorHash :: "Enumerator \<Rightarrow> u32" where
  "enumeratorHash e = hashCombine hashSeed [hashString (enum_name e), hashU32 (enum_key e)]"

definition fieldHash :: "u32 StructField \<Rightarrow> u32" where
  "fieldHash f = hashCombine hashSeed [hashString (field_name f), hashU32 (field_type f)]"

definition variantFieldHash :: "u32 VariantField \<Rightarrow> u32" where
  "variantFieldHash f = hashCombine hashSeed [hashU32 (variant_key f), hashU32 (variant_type f)]"

definition argHash :: "u32 Arg \<Rightarrow> u32" where
  "argHash a = hashCombine hashSeed [hashString (arg_name a), hashU32 (arg_type a)]"

definition callableHash :: "u32 CallableSpec \<Rightarrow> u32" where
  "callableHash c =
     hashCombine (hashCombine hashSeed [hashString (callable_name c), hashU8 (transportByte (callable_transport c))])
       (map argHash (callable_args c))"

definition methodHash :: "u32 MethodSpec \<Rightarrow> u32" where
  "methodHash m = hashCombine hashSeed
     [callableHash (method_callable m), hashU32 (constnessValue (method_constness m)),
      hashU32 (method_returnType m)]"

definition eventHash :: "u32 EventSpec \<Rightarrow> u32" where
  "eventHash e = hashCombine hashSeed [callableHash (event_callable e)]"

definition propertyHash :: "u32 PropertySpec \<Rightarrow> u32" where
  "propertyHash p =
     hashCombine
       (hashCombine hashSeed
          [hashString (prop_name p), hashU32 (categoryValue (prop_category p)),
           hashU8 (transportByte (prop_transport p)), hashU32 (prop_type p)])
       (map hashString (prop_tags p))"

definition classHash :: "u32 ClassSpec \<Rightarrow> u32" where
  "classHash c =
    (let r1 = hashCombine hashSeed (namesHash (class_names c));
         r2 = hashCombine r1 (map propertyHash (class_properties c));
         r3 = hashCombine r2 (map methodHash (class_methods c));
         r4 = hashCombine r3 (map eventHash (class_events c));
         r5 = hashCombine r4 [hashU32 (case class_constructor c of Some m \<Rightarrow> methodHash m
                                       | None \<Rightarrow> nonPresentTypeHash)]
     in hashCombine r5 (map hashU32 (class_parents c)))"

definition optionalHash :: "u32 option \<Rightarrow> u32" where
  "optionalHash h = hashU32 (case h of Some x \<Rightarrow> x | None \<Rightarrow> nonPresentTypeHash)"

definition boundHash :: "float64 option \<Rightarrow> u32" where
  "boundHash b = hashFloat64 (case b of Some x \<Rightarrow> x | None \<Rightarrow> f64_of_int (uint nonPresentTypeHash))"

primrec getHash :: "Type \<Rightarrow> u32" where
  "getHash (NativeType k) = nativeHash k"
| "getHash (EnumType a n es st) =
     hashCombine (hashCombine hashSeed (namesHash n @ [hashU32 (nativeHash st)])) (map enumeratorHash es)"
| "getHash (QuantityType a k n e u mn mx) =
     hashCombine hashSeed
       (namesHash n @ [hashU32 (nativeHash e), optionalHash (map_option (unitHash \<circ> unitSpec) u),
                       boundHash mn, boundHash mx])"
| "getHash (SequenceType a n e mx fx) =
     hashCombine hashSeed
       (namesHash n @ [hashU32 (getHash e),
                       hashU64 (case mx of Some m \<Rightarrow> m | None \<Rightarrow> ucast nonPresentTypeHash), hashBool fx])"
| "getHash (AliasType a n e) = hashCombine hashSeed (namesHash n @ [hashU32 (getHash e)])"
| "getHash (OptionalType a n e) = hashCombine hashSeed (namesHash n @ [hashU32 (getHash e)])"
| "getHash (VariantType a n fs) =
     hashCombine (hashCombine hashSeed (namesHash n)) (map variantFieldHash (map (map_VariantField getHash) fs))"
| "getHash (StructType a n fs p) =
     hashCombine (hashCombine hashSeed (namesHash n @ [optionalHash (map_option getHash p)]))
       (map fieldHash (map (map_StructField getHash) fs))"
| "getHash (ClassType a c) = classHash (map_ClassSpec getHash c)"

section \<open>Bounded memory footprint\<close>

primrec isBounded :: "Type \<Rightarrow> bool" where
  "isBounded (NativeType k) = (k \<noteq> StringType)"
| "isBounded (EnumType a n es st) = True"
| "isBounded (QuantityType a k n e u mn mx) = True"
| "isBounded (SequenceType a n e mx fx) = (mx \<noteq> None)"
| "isBounded (AliasType a n e) = isBounded e"
| "isBounded (OptionalType a n e) = isBounded e"
| "isBounded (VariantType a n fs) = list_all variant_type (map (map_VariantField isBounded) fs)"
| "isBounded (StructType a n fs p) = list_all field_type (map (map_StructField isBounded) fs)"
| "isBounded (ClassType a c) = False"

section \<open>Equal types have equal hashes\<close>

text \<open>The types a type is built from, itself included.\<close>

primrec mentions :: "Type \<Rightarrow> Type set" where
  "mentions (NativeType k) = {NativeType k}"
| "mentions (EnumType a n es st) = {EnumType a n es st}"
| "mentions (QuantityType a k n e u mn mx) = {QuantityType a k n e u mn mx}"
| "mentions (SequenceType a n e mx fx) = insert (SequenceType a n e mx fx) (mentions e)"
| "mentions (AliasType a n e) = insert (AliasType a n e) (mentions e)"
| "mentions (OptionalType a n e) = insert (OptionalType a n e) (mentions e)"
| "mentions (VariantType a n fs) =
     insert (VariantType a n fs) (\<Union> (variant_type ` set (map (map_VariantField mentions) fs)))"
| "mentions (StructType a n fs p) =
     insert (StructType a n fs p)
       (\<Union> (field_type ` set (map (map_StructField mentions) fs)) \<union> \<Union> (set_option (map_option mentions p)))"
| "mentions (ClassType a c) = insert (ClassType a c) (\<Union> (set_ClassSpec (map_ClassSpec mentions c)))"

primrec addressOf :: "Type \<Rightarrow> nat option" where
  "addressOf (NativeType k) = None"
| "addressOf (EnumType a n es st) = Some a"
| "addressOf (QuantityType a k n e u mn mx) = Some a"
| "addressOf (SequenceType a n e mx fx) = Some a"
| "addressOf (AliasType a n e) = Some a"
| "addressOf (OptionalType a n e) = Some a"
| "addressOf (VariantType a n fs) = Some a"
| "addressOf (StructType a n fs p) = Some a"
| "addressOf (ClassType a c) = Some a"

text \<open>One address holds one type.\<close>

definition oneHeap :: "Type \<Rightarrow> Type \<Rightarrow> bool" where
  "oneHeap t t' \<longleftrightarrow>
    (\<forall>x \<in> mentions t. \<forall>y \<in> mentions t'. addressOf x \<noteq> None \<and> addressOf x = addressOf y \<longrightarrow> x = y)"

definition quantityFree :: "Type \<Rightarrow> bool" where
  "quantityFree t \<longleftrightarrow> (\<forall>x \<in> mentions t. case x of QuantityType _ _ _ _ _ _ _ \<Rightarrow> False | _ \<Rightarrow> True)"

lemma mentions_self [simp, intro]: "t \<in> mentions t"
  by (cases t) simp_all

lemma oneHeap_same: "oneHeap t t' \<Longrightarrow> addressOf t = Some a \<Longrightarrow> addressOf t' = Some a \<Longrightarrow> t = t'"
  by (metis mentions_self oneHeap_def option.distinct(1))

lemma oneHeap_sub: "oneHeap t t' \<Longrightarrow> mentions x \<subseteq> mentions t \<Longrightarrow> mentions y \<subseteq> mentions t' \<Longrightarrow> oneHeap x y"
  by (auto simp: oneHeap_def)

lemma quantityFree_sub: "quantityFree t \<Longrightarrow> mentions x \<subseteq> mentions t \<Longrightarrow> quantityFree x"
  by (auto simp: quantityFree_def)

lemma list_all2_map_eq:
  assumes "list_all2 E (map f xs) ys"
    and "\<And>x y. x \<in> set xs \<Longrightarrow> y \<in> set ys \<Longrightarrow> E (f x) y \<Longrightarrow> h x = h y"
  shows "map h xs = map h ys"
  using assms by (induction xs arbitrary: ys) (auto simp: list_all2_Cons1)

definition hashAgrees :: "Type set \<Rightarrow> Type set \<Rightarrow> bool" where
  "hashAgrees X Y \<longleftrightarrow> (\<forall>x \<in> X. \<forall>y \<in> Y. equals x y \<longrightarrow> getHash x = getHash y)"

lemma hashAgreesD: "hashAgrees X Y \<Longrightarrow> x \<in> X \<Longrightarrow> y \<in> Y \<Longrightarrow> equals x y \<Longrightarrow> getHash x = getHash y"
  by (simp add: hashAgrees_def)

lemma hashAgrees_mono: "hashAgrees X Y \<Longrightarrow> X' \<subseteq> X \<Longrightarrow> Y' \<subseteq> Y \<Longrightarrow> hashAgrees X' Y'"
  by (auto simp: hashAgrees_def)

lemma argHash_agrees:
  "argEq (map_Arg equals l) r \<Longrightarrow> hashAgrees (set_Arg l) (set_Arg r) \<Longrightarrow>
   argHash (map_Arg getHash l) = argHash (map_Arg getHash r)"
  by (cases l; cases r) (auto simp: argEq_def argHash_def hashAgrees_def)

lemma fieldHash_agrees:
  "fieldEq (map_StructField equals l) r \<Longrightarrow> hashAgrees (set_StructField l) (set_StructField r) \<Longrightarrow>
   fieldHash (map_StructField getHash l) = fieldHash (map_StructField getHash r)"
  by (cases l; cases r) (auto simp: fieldEq_def fieldHash_def hashAgrees_def)

lemma variantFieldHash_agrees:
  "variantFieldEq (map_VariantField equals l) r \<Longrightarrow> hashAgrees (set_VariantField l) (set_VariantField r) \<Longrightarrow>
   variantFieldHash (map_VariantField getHash l) = variantFieldHash (map_VariantField getHash r)"
  by (cases l; cases r) (auto simp: variantFieldEq_def variantFieldHash_def hashAgrees_def)

lemma callableHash_agrees:
  assumes "callableEq (map_CallableSpec equals l) r"
    and "hashAgrees (set_CallableSpec l) (set_CallableSpec r)"
  shows "callableHash (map_CallableSpec getHash l) = callableHash (map_CallableSpec getHash r)"
proof -
  have "map (\<lambda>a. argHash (map_Arg getHash a)) (callable_args l) =
        map (\<lambda>a. argHash (map_Arg getHash a)) (callable_args r)"
    using assms
    by (intro list_all2_map_eq [where E = argEq and f = "map_Arg equals"] argHash_agrees)
       (auto simp: callableEq_def CallableSpec.map_sel intro: hashAgrees_mono CallableSpec.set_sel)
  then show ?thesis
    using assms by (simp add: callableEq_def callableHash_def CallableSpec.map_sel o_def)
qed

lemma methodHash_agrees:
  assumes "methodEq (map_MethodSpec equals l) r" and "hashAgrees (set_MethodSpec l) (set_MethodSpec r)"
  shows "methodHash (map_MethodSpec getHash l) = methodHash (map_MethodSpec getHash r)"
proof -
  have "callableHash (map_CallableSpec getHash (method_callable l)) =
        callableHash (map_CallableSpec getHash (method_callable r))"
    using assms
    by (intro callableHash_agrees)
       (auto simp: methodEq_def MethodSpec.map_sel intro: hashAgrees_mono MethodSpec.set_sel)
  moreover have "getHash (method_returnType l) = getHash (method_returnType r)"
    using assms by (auto simp: methodEq_def MethodSpec.map_sel intro: hashAgreesD MethodSpec.set_sel)
  ultimately show ?thesis
    using assms by (simp add: methodEq_def methodHash_def MethodSpec.map_sel)
qed

lemma eventHash_agrees:
  "eventEq (map_EventSpec equals l) r \<Longrightarrow> hashAgrees (set_EventSpec l) (set_EventSpec r) \<Longrightarrow>
   eventHash (map_EventSpec getHash l) = eventHash (map_EventSpec getHash r)"
  by (cases l; cases r) (simp add: eventEq_def eventHash_def callableHash_agrees)

lemma propertyHash_agrees:
  "propertyEq (map_PropertySpec equals l) r \<Longrightarrow> hashAgrees (set_PropertySpec l) (set_PropertySpec r) \<Longrightarrow>
   propertyHash (map_PropertySpec getHash l) = propertyHash (map_PropertySpec getHash r)"
  by (cases l; cases r) (auto simp: propertyEq_def propertyHash_def hashAgrees_def)

lemma classHash_agrees:
  assumes eq: "classEq (map_ClassSpec equals l) r" and ag: "hashAgrees (set_ClassSpec l) (set_ClassSpec r)"
  shows "classHash (map_ClassSpec getHash l) = classHash (map_ClassSpec getHash r)"
proof -
  note sel = classEq_def ClassSpec.map_sel
  have "map (\<lambda>p. propertyHash (map_PropertySpec getHash p)) (class_properties l) =
        map (\<lambda>p. propertyHash (map_PropertySpec getHash p)) (class_properties r)"
    using eq ag
    by (intro list_all2_map_eq [where E = propertyEq and f = "map_PropertySpec equals"] propertyHash_agrees)
       (auto simp: sel intro: hashAgrees_mono ClassSpec.set_sel)
  moreover have "map (\<lambda>p. methodHash (map_MethodSpec getHash p)) (class_methods l) =
        map (\<lambda>p. methodHash (map_MethodSpec getHash p)) (class_methods r)"
    using eq ag
    by (intro list_all2_map_eq [where E = methodEq and f = "map_MethodSpec equals"] methodHash_agrees)
       (auto simp: sel intro: hashAgrees_mono ClassSpec.set_sel)
  moreover have "map (\<lambda>p. eventHash (map_EventSpec getHash p)) (class_events l) =
        map (\<lambda>p. eventHash (map_EventSpec getHash p)) (class_events r)"
    using eq ag
    by (intro list_all2_map_eq [where E = eventEq and f = "map_EventSpec equals"] eventHash_agrees)
       (auto simp: sel intro: hashAgrees_mono ClassSpec.set_sel)
  moreover have "map (\<lambda>p. hashU32 (getHash p)) (class_parents l) = map (\<lambda>p. hashU32 (getHash p)) (class_parents r)"
    using eq ag
    by (intro list_all2_map_eq [where E = "\<lambda>p q. p q" and f = equals])
       (auto simp: sel intro!: arg_cong [where f = hashU32] intro: hashAgreesD ClassSpec.set_sel)
  moreover have "map_option (\<lambda>m. methodHash (map_MethodSpec getHash m)) (class_constructor l) =
        map_option (\<lambda>m. methodHash (map_MethodSpec getHash m)) (class_constructor r)"
    using eq ag
    by (cases "class_constructor l"; cases "class_constructor r")
       (auto simp: sel intro!: methodHash_agrees elim!: hashAgrees_mono intro: ClassSpec.set_sel)
  ultimately show ?thesis
    using eq
    by (cases "class_constructor l"; cases "class_constructor r")
       (simp_all add: sel classHash_def o_def Let_def)
qed

lemma quantityFree_not_quantity: "\<not> quantityFree (QuantityType a k n e u mn mx)"
  by (simp add: quantityFree_def)

lemma element_heap:
  "oneHeap (SequenceType a n t mx fx) (SequenceType b n' t' mx' fx') \<Longrightarrow> oneHeap t t'"
  "oneHeap (AliasType a n t) (AliasType b n' t') \<Longrightarrow> oneHeap t t'"
  "oneHeap (OptionalType a n t) (OptionalType b n' t') \<Longrightarrow> oneHeap t t'"
  "quantityFree (SequenceType a n t mx fx) \<Longrightarrow> quantityFree t"
  "quantityFree (AliasType a n t) \<Longrightarrow> quantityFree t"
  "quantityFree (OptionalType a n t) \<Longrightarrow> quantityFree t"
  by (auto elim!: oneHeap_sub quantityFree_sub)

lemma agrees_below:
  assumes "\<And>x y. x \<in> X \<Longrightarrow> equals x y \<Longrightarrow> oneHeap x y \<Longrightarrow> quantityFree x \<Longrightarrow> getHash x = getHash y"
    and "oneHeap t t'" "quantityFree t"
    and "\<And>x. x \<in> X \<Longrightarrow> mentions x \<subseteq> mentions t" "\<And>y. y \<in> Y \<Longrightarrow> mentions y \<subseteq> mentions t'"
  shows "hashAgrees X Y"
  unfolding hashAgrees_def using assms oneHeap_sub quantityFree_sub by metis

lemma equals_hash:
  "equals t t' \<Longrightarrow> oneHeap t t' \<Longrightarrow> quantityFree t \<Longrightarrow> getHash t = getHash t'"
proof (induction t arbitrary: t')
  case (ClassType a c)
  obtain b c' where t': "t' = ClassType b c'"
    using ClassType.prems(1) by (cases t') auto
  have "hashAgrees (set_ClassSpec c) (set_ClassSpec c')"
    using ClassType.IH ClassType.prems(2,3) by (rule agrees_below) (auto simp: t' ClassSpec.set_map)
  then show ?case
    using oneHeap_same [OF ClassType.prems(2)] ClassType.prems(1) classHash_agrees
    by (auto simp: t')
next
  case (StructType a n fs p)
  obtain b n' fs' p' where t': "t' = StructType b n' fs' p'"
    using StructType.prems(1) by (cases t') auto
  have fields: "hashAgrees (\<Union> (set_StructField ` set fs)) (\<Union> (set_StructField ` set fs'))"
    by (rule agrees_below [OF _ StructType.prems(2,3)])
       (use StructType.IH(1) in \<open>auto simp: t' StructField.set_map elim!: StructField.set_cases\<close>)
  have parents: "hashAgrees (set_option p) (set_option p')"
    by (rule agrees_below [OF _ StructType.prems(2,3)]) (use StructType.IH(2) in \<open>auto simp: t'\<close>)
  show ?case
  proof (cases "a = b")
    case True
    then show ?thesis
      using oneHeap_same [OF StructType.prems(2)] by (auto simp: t')
  next
    case False
    then have eq: "list_all2 fieldEq (map (map_StructField equals) fs) fs'"
        "rel_option (\<lambda>q q'. q q') (map_option equals p) p'" "n = n'"
      using StructType.prems(1) by (auto simp: t')
    have "map (\<lambda>f. fieldHash (map_StructField getHash f)) fs = map (\<lambda>f. fieldHash (map_StructField getHash f)) fs'"
      using eq(1) fields
      by (intro list_all2_map_eq [where E = fieldEq] fieldHash_agrees) (auto intro: hashAgrees_mono)
    moreover have "map_option getHash p = map_option getHash p'"
      using eq(2) parents by (cases p; cases p') (auto simp: hashAgrees_def)
    ultimately show ?thesis
      using eq(3) by (simp add: t' o_def)
  qed
next
  case (VariantType a n fs)
  obtain b n' fs' where t': "t' = VariantType b n' fs'"
    using VariantType.prems(1) by (cases t') auto
  have fields: "hashAgrees (\<Union> (set_VariantField ` set fs)) (\<Union> (set_VariantField ` set fs'))"
    by (rule agrees_below [OF _ VariantType.prems(2,3)])
       (use VariantType.IH in \<open>auto simp: t' VariantField.set_map elim!: VariantField.set_cases\<close>)
  show ?case
  proof (cases "a = b")
    case True
    then show ?thesis
      using oneHeap_same [OF VariantType.prems(2)] by (auto simp: t')
  next
    case False
    then have eq: "list_all2 variantFieldEq (map (map_VariantField equals) fs) fs'" "n = n'"
      using VariantType.prems(1) by (auto simp: t')
    have "map (\<lambda>f. variantFieldHash (map_VariantField getHash f)) fs =
          map (\<lambda>f. variantFieldHash (map_VariantField getHash f)) fs'"
      using eq(1) fields
      by (intro list_all2_map_eq [where E = variantFieldEq] variantFieldHash_agrees) (auto intro: hashAgrees_mono)
    then show ?thesis
      using eq(2) by (simp add: t' o_def)
  qed
qed (auto simp: quantityFree_not_quantity split: Type.splits dest: oneHeap_same
       intro!: arg_cong [where f = "hashCombine hashSeed"] arg_cong [where f = hashU32]
       intro: element_heap)

lemma f64_of_nonPresent: "f64_of_int 18121997 = 0x41714850d0000000"
  by code_simp

lemma bytesOf_sizes:
  "bytesOf 1 u = [ucast u]"
  "bytesOf 4 v = [ucast (drop_bit 24 v), ucast (drop_bit 16 v), ucast (drop_bit 8 v), ucast v]"
  "bytesOf 8 w = [ucast (drop_bit 56 w), ucast (drop_bit 48 w), ucast (drop_bit 40 w), ucast (drop_bit 32 w),
                  ucast (drop_bit 24 w), ucast (drop_bit 16 w), ucast (drop_bit 8 w), ucast w]"
  by (simp_all add: numeral_eq_Suc)

lemmas hash_eval = hashCombine_def hashCombineImpl_def hashString_def hashU8_def hashU32_def hashU64_def hashBool_def
  hashFloat64_def fnv1a_def fnvStep_def fnv1aOffsetBasis_def fnv1aPrime_def hashSeed_def nonPresentTypeHash_def
  charByte_def bytesOf_sizes f64_of_nonPresent namesHash_def nativeHash_def nativeName_def unitHash_def
  optionalHash_def boundHash_def

text \<open>
  C38.  Equal types that contain no quantity have the same hash, so that the hash may stand for the
  type in the registries and in isSameOrInheritsFrom.  For quantities the equality is not the
  identity of the type: it ignores the names, so two quantities with different names are equal and
  have different hashes, and a quantity without a unit is equal only to the very same object.
\<close>

theorem equal_types_hash:
  "(equals t t' \<and> oneHeap t t' \<and> quantityFree t \<longrightarrow> getHash t = getHash t')
   \<and> (\<not> equals (QuantityType 1 PlainQuantity n e None mn mx) (QuantityType 2 PlainQuantity n e None mn mx))
   \<and> (\<exists>q q'. equals q q' \<and> getHash q \<noteq> getHash q')"
proof (intro conjI)
  let ?q = "\<lambda>address name. QuantityType address PlainQuantity (TypeNames name name []) UInt8Type
               (Some (Unit 7 (UnitSpec 0 ''meter'' ''meters'' ''m'' 0x3ff0000000000000 0 0))) None None"
  have "equals (?q 1 ''R'') (?q 2 ''H'')"
    by (simp add: unitEq_def boundEq_def)
  moreover have "getHash (?q 1 ''R'') \<noteq> getHash (?q 2 ''H'')"
    by (simp add: hash_eval)
  ultimately show "\<exists>q q'. equals q q' \<and> getHash q \<noteq> getHash q'"
    by blast
qed (use equals_hash in \<open>simp_all add: unitEq_def\<close>)

theorem equal_types_hash_witness:
  "\<exists>t t'. t \<noteq> t' \<and> equals t t' \<and> oneHeap t t' \<and> quantityFree t \<and> getHash t = getHash t'"
proof -
  let ?mode = "\<lambda>a. EnumType a (TypeNames ''Mode'' ''p.Mode'' []) [Enumerator ''on'' 0 [], Enumerator ''off'' 1 []] UInt8Type"
  let ?t = "\<lambda>a. StructType a (TypeNames ''State'' ''p.State'' [])
                 [StructField ''mode'' [] (?mode (Suc a)), StructField ''level'' [] (NativeType Float32Type)] None"
  have "equals (?t 1) (?t 3)" "oneHeap (?t 1) (?t 3)" "quantityFree (?t 1)" "?t 1 \<noteq> ?t 3"
    by (simp_all add: fieldEq_def oneHeap_def quantityFree_def)
  then show ?thesis
    using equal_types_hash [of "?t 1" "?t 3"] by blast
qed

end
