(* ===== verification/Stl_Token.thy ===== *)
theory Stl_Token
  imports Ieee_Float
begin

text \<open>
  The tokens of the STL language (\<^verbatim>\<open>stl_token.h\<close>, \<^verbatim>\<open>stl_token.cpp\<close>): the token kinds, the token
  with its lexeme, literal value and place in the program, and the two conversions between a token
  and the text that names it. A literal's value is a \<^verbatim>\<open>Var\<close> (\<^verbatim>\<open>meta/var.h\<close>).
\<close>

section \<open>Values a token can carry\<close>

text \<open>
  The alternatives of \<^verbatim>\<open>Var::ValueType\<close> in the order of the source. Durations and time stamps are
  their nanosecond counts; a map is the list of its entries in key order; the payload of a keyed
  value is a pointer that may be null.
\<close>

datatype Var =
    VEmpty
  | VInt32 i32
  | VUInt32 u32
  | VInt64 i64
  | VUInt64 u64
  | VFloat32 float32
  | VFloat64 float64
  | VDuration i64
  | VTimeStamp i64
  | VUInt8 u8
  | VInt16 i16
  | VUInt16 u16
  | VBool bool
  | VString string
  | VList "Var list"
  | VMap "(string \<times> Var) list"
  | VKeyed u32 "Var option"

section \<open>Tokens\<close>

datatype (plugins only: code size) StlTokenType =
    T_leftParen
  | T_rightParen
  | T_leftBrace
  | T_rightBrace
  | T_leftBracket
  | T_rightBracket
  | T_comma
  | T_dot
  | T_minus
  | T_plus
  | T_colon
  | T_semicolon
  | T_slash
  | T_star
  | T_at
  | T_bang
  | T_bangEqual
  | T_equal
  | T_equalEqual
  | T_greater
  | T_greaterEqual
  | T_less
  | T_lessEqual
  | T_identifier
  | T_string
  | T_real
  | T_integral
  | T_keywordAbstract
  | T_keywordAnd
  | T_keywordClass
  | T_keywordInterface
  | T_keywordExtends
  | T_keywordImplements
  | T_keywordStruct
  | T_keywordVariant
  | T_keywordFalse
  | T_keywordFunction
  | T_keywordEvent
  | T_keywordVar
  | T_keywordOr
  | T_keywordNot
  | T_keywordTrue
  | T_keywordImport
  | T_keywordOptional
  | T_keywordPackage
  | T_keywordEnum
  | T_keywordSequence
  | T_keywordArray
  | T_keywordQuantity
  | T_keywordAlias
  | T_keywordSelect
  | T_keywordWhere
  | T_keywordFrom
  | T_keywordIn
  | T_keywordBetween
  | T_comment
  | T_endOfFile
  | T_unknown

text \<open>
  \<^verbatim>\<open>CodeLocation\<close>: the program text the \<^verbatim>\<open>const char*\<close> points to (no value for the null pointer) and
  an offset into it.
\<close>

record CodeLocation =
  src :: "string option"
  offset :: nat

record StlToken =
  tokenType :: StlTokenType
  lexeme :: string
  tokenValue :: Var
  codeLocation :: CodeLocation

definition defaultLocation :: CodeLocation where
  "defaultLocation = \<lparr>src = None, offset = 0\<rparr>"

text \<open>The token \<^verbatim>\<open>StlToken {}\<close>, which an optional part of a statement that is missing holds.\<close>

definition defaultToken :: StlToken where
  "defaultToken =
     \<lparr>tokenType = T_unknown, lexeme = [], tokenValue = VEmpty, codeLocation = defaultLocation\<rparr>"

section \<open>Numbers as text\<close>

function nat_digits :: "int \<Rightarrow> string" where
  "nat_digits n =
     (if n < 10 then [char_of (48 + n)] else nat_digits (n div 10) @ [char_of (48 + n mod 10)])"
  by pat_completeness auto
termination
  by (relation "measure nat") auto

declare nat_digits.simps [simp del]

text \<open>\<^verbatim>\<open>std::to_string\<close> of an integer.\<close>

definition int_to_string :: "int \<Rightarrow> string" where
  "int_to_string i = (if i < 0 then CHR ''-'' # nat_digits (- i) else nat_digits i)"

text \<open>
  \<^verbatim>\<open>std::to_string\<close> of a double is \<^verbatim>\<open>printf\<close>'s \<^verbatim>\<open>%f\<close>: the exact value rounded to six decimals.
\<close>

definition pad_left :: "nat \<Rightarrow> string \<Rightarrow> string" where
  "pad_left n cs = replicate (n - length cs) (CHR ''0'') @ cs"

definition fixed6 :: "int \<Rightarrow> int \<Rightarrow> string" where
  "fixed6 n d =
     (let q = round_half_even (n * 1000000) d
      in nat_digits (q div 1000000) @ ''.'' @ pad_left 6 (nat_digits (q mod 1000000)))"

definition f64_to_string :: "float64 \<Rightarrow> string" where
  "f64_to_string x =
     (case f64_dec x of
        FNaN \<Rightarrow> (if bit x 63 then ''-nan'' else ''nan'')
      | FInf s \<Rightarrow> (if s then ''-inf'' else ''inf'')
      | FFin s m e \<Rightarrow> (if s then ''-'' else []) @
          (if 0 \<le> e then fixed6 (m * 2 ^ nat e) 1 else fixed6 m (2 ^ nat (- e))))"

text \<open>
  \<^verbatim>\<open>getCopyAs<float64_t>\<close> and \<^verbatim>\<open>getCopyAs<int64_t>\<close> for the alternatives a token of that kind can hold:
  the value itself, or the default of the type for an empty one. No value stands for the other
  alternatives, which a scanned token of that kind never holds.
\<close>

definition getCopyAsFloat64 :: "Var \<Rightarrow> float64 option" where
  "getCopyAsFloat64 v = (case v of VFloat64 d \<Rightarrow> Some d | VEmpty \<Rightarrow> Some 0 | _ \<Rightarrow> None)"

definition getCopyAsInt64 :: "Var \<Rightarrow> int option" where
  "getCopyAsInt64 v = (case v of VInt64 i \<Rightarrow> Some (sint i) | VEmpty \<Rightarrow> Some 0 | _ \<Rightarrow> None)"

section \<open>Tokens as text\<close>

abbreviation quote :: string where
  "quote \<equiv> [CHR 39]"

definition toString :: "StlToken \<Rightarrow> string option" where
  "toString token =
     (case tokenType token of
        T_leftParen \<Rightarrow> Some ''leftParen''
      | T_rightParen \<Rightarrow> Some ''rightParen''
      | T_leftBrace \<Rightarrow> Some ''leftBrace''
      | T_rightBrace \<Rightarrow> Some ''rightBrace''
      | T_leftBracket \<Rightarrow> Some ''leftBracket''
      | T_rightBracket \<Rightarrow> Some ''rightBracket''
      | T_comma \<Rightarrow> Some ''comma''
      | T_dot \<Rightarrow> Some ''dot''
      | T_minus \<Rightarrow> Some ''minus''
      | T_plus \<Rightarrow> Some ''plus''
      | T_colon \<Rightarrow> Some ''colon''
      | T_semicolon \<Rightarrow> Some ''semicolon''
      | T_slash \<Rightarrow> Some ''slash''
      | T_star \<Rightarrow> Some ''star''
      | T_at \<Rightarrow> Some ''at''
      | T_bang \<Rightarrow> Some ''bang''
      | T_bangEqual \<Rightarrow> Some ''bangEqual''
      | T_equal \<Rightarrow> Some ''equal''
      | T_equalEqual \<Rightarrow> Some ''equalEqual''
      | T_greater \<Rightarrow> Some ''greater''
      | T_greaterEqual \<Rightarrow> Some ''greaterEqual''
      | T_less \<Rightarrow> Some ''less''
      | T_lessEqual \<Rightarrow> Some ''lessEqual''
      | T_identifier \<Rightarrow> Some (''identifier('' @ quote @ lexeme token @ quote @ '')'')
      | T_string \<Rightarrow> Some (''string('' @ quote @ lexeme token @ quote @ '')'')
      | T_real \<Rightarrow> map_option (\<lambda>d. ''real('' @ f64_to_string d @ '')'') (getCopyAsFloat64 (tokenValue token))
      | T_integral \<Rightarrow> map_option (\<lambda>i. ''integral('' @ int_to_string i @ '')'') (getCopyAsInt64 (tokenValue token))
      | T_keywordAnd \<Rightarrow> Some ''keywordAnd''
      | T_keywordAbstract \<Rightarrow> Some ''keywordAbstract''
      | T_keywordClass \<Rightarrow> Some ''keywordClass''
      | T_keywordInterface \<Rightarrow> Some ''keywordInterface''
      | T_keywordExtends \<Rightarrow> Some ''keywordExtends''
      | T_keywordImplements \<Rightarrow> Some ''keywordImplements''
      | T_keywordStruct \<Rightarrow> Some ''keywordStruct''
      | T_keywordVariant \<Rightarrow> Some ''keywordVariant''
      | T_keywordFalse \<Rightarrow> Some ''keywordFalse''
      | T_keywordFunction \<Rightarrow> Some ''keywordFunction''
      | T_keywordEvent \<Rightarrow> Some ''keywordEvent''
      | T_keywordVar \<Rightarrow> Some ''keywordVar''
      | T_keywordImport \<Rightarrow> Some ''keywordImport''
      | T_keywordOptional \<Rightarrow> Some ''keywordOptional''
      | T_keywordPackage \<Rightarrow> Some ''keywordPackage''
      | T_keywordOr \<Rightarrow> Some ''keywordOr''
      | T_keywordNot \<Rightarrow> Some ''keywordNot''
      | T_keywordTrue \<Rightarrow> Some ''keywordTrue''
      | T_keywordEnum \<Rightarrow> Some ''keywordEnum''
      | T_keywordSequence \<Rightarrow> Some ''keywordSequence''
      | T_keywordArray \<Rightarrow> Some ''keywordArray''
      | T_keywordQuantity \<Rightarrow> Some ''keywordQuantity''
      | T_keywordAlias \<Rightarrow> Some ''keywordAlias''
      | T_keywordSelect \<Rightarrow> Some ''keywordSelect''
      | T_keywordWhere \<Rightarrow> Some ''keywordWhere''
      | T_keywordFrom \<Rightarrow> Some ''keywordFrom''
      | T_keywordIn \<Rightarrow> Some ''keywordIn''
      | T_keywordBetween \<Rightarrow> Some ''keywordBetween''
      | T_comment \<Rightarrow> Some (''comment('' @ quote @ lexeme token @ quote @ '')'')
      | T_endOfFile \<Rightarrow> Some ''endOfFile''
      | _ \<Rightarrow> Some ''unknown'')"

text \<open>The overload for a bare kind names a token of that kind with nothing else set.\<close>

definition toStringType :: "StlTokenType \<Rightarrow> string option" where
  "toStringType ty = toString (defaultToken\<lparr>tokenType := ty\<rparr>)"

definition startsWith :: "string \<Rightarrow> string \<Rightarrow> bool" where
  "startsWith ref cmp = (take (length cmp) ref = cmp)"

definition fromString :: "string \<Rightarrow> StlTokenType" where
  "fromString s =
     (if s = ''leftParen'' then T_leftParen
      else if s = ''rightParen'' then T_rightParen
      else if s = ''leftBrace'' then T_leftBrace
      else if s = ''rightBrace'' then T_rightBrace
      else if s = ''leftBracket'' then T_leftBracket
      else if s = ''rightBracket'' then T_rightBracket
      else if s = ''comma'' then T_comma
      else if s = ''dot'' then T_dot
      else if s = ''minus'' then T_minus
      else if s = ''plus'' then T_plus
      else if s = ''colon'' then T_colon
      else if s = ''semicolon'' then T_semicolon
      else if s = ''slash'' then T_slash
      else if s = ''star'' then T_star
      else if s = ''at'' then T_at
      else if s = ''bang'' then T_bang
      else if s = ''bangEqual'' then T_bangEqual
      else if s = ''equal'' then T_equal
      else if s = ''equalEqual'' then T_equalEqual
      else if s = ''greater'' then T_greater
      else if s = ''greaterEqual'' then T_greaterEqual
      else if s = ''less'' then T_less
      else if s = ''lessEqual'' then T_lessEqual
      else if startsWith s ''identifier'' then T_identifier
      else if startsWith s ''string'' then T_string
      else if startsWith s ''real'' then T_real
      else if startsWith s ''integral'' then T_integral
      else if s = ''keywordAbstract'' then T_keywordAbstract
      else if s = ''keywordAnd'' then T_keywordAnd
      else if s = ''keywordClass'' then T_keywordClass
      else if s = ''keywordInterface'' then T_keywordInterface
      else if s = ''keywordExtends'' then T_keywordExtends
      else if s = ''keywordImplements'' then T_keywordImplements
      else if s = ''keywordStruct'' then T_keywordStruct
      else if s = ''keywordVariant'' then T_keywordVariant
      else if s = ''keywordFalse'' then T_keywordFalse
      else if s = ''keywordFunction'' then T_keywordFunction
      else if s = ''keywordEvent'' then T_keywordEvent
      else if s = ''keywordVar'' then T_keywordVar
      else if s = ''keywordOr'' then T_keywordOr
      else if s = ''keywordNot'' then T_keywordNot
      else if s = ''keywordTrue'' then T_keywordTrue
      else if s = ''keywordImport'' then T_keywordImport
      else if s = ''keywordOptional'' then T_keywordOptional
      else if s = ''keywordPackage'' then T_keywordPackage
      else if s = ''keywordEnum'' then T_keywordEnum
      else if s = ''keywordSequence'' then T_keywordSequence
      else if s = ''keywordArray'' then T_keywordArray
      else if s = ''keywordQuantity'' then T_keywordQuantity
      else if s = ''keywordAlias'' then T_keywordAlias
      else if s = ''keywordSelect'' then T_keywordSelect
      else if s = ''keywordWhere'' then T_keywordWhere
      else if s = ''keywordFrom'' then T_keywordFrom
      else if s = ''keywordIn'' then T_keywordIn
      else if s = ''keywordBetween'' then T_keywordBetween
      else if startsWith s ''comment'' then T_comment
      else if s = ''endOfFile'' then T_endOfFile
      else if s = ''unknown'' then T_unknown
      else T_unknown)"

section \<open>Token lists a parser can read\<close>

text \<open>
  The contract between the scanner and the parser: the list ends with the end-of-file token and no
  other token is of that kind; every token points into one program, which has no null character; the
  lexeme of a number reads as a number; a literal's value is one of the types the scanner produces.
\<close>

definition wfTokens :: "StlToken list \<Rightarrow> bool" where
  "wfTokens ts \<longleftrightarrow>
     ts \<noteq> [] \<and> tokenType (last ts) = T_endOfFile \<and>
     (\<forall>t \<in> set (butlast ts). tokenType t \<noteq> T_endOfFile)"

definition locatedIn :: "string \<Rightarrow> StlToken \<Rightarrow> bool" where
  "locatedIn prog t \<longleftrightarrow>
     src (codeLocation t) = Some prog \<and> offset (codeLocation t) \<le> length prog"

definition numericLexeme :: "StlToken \<Rightarrow> bool" where
  "numericLexeme t \<longleftrightarrow>
     (tokenType t = T_real \<or> tokenType t = T_integral \<longrightarrow> stod_signed (lexeme t) \<noteq> None)"

text \<open>The values the scanner gives its tokens.\<close>

fun plainValue :: "Var \<Rightarrow> bool" where
  "plainValue VEmpty = True"
| "plainValue (VInt64 _) = True"
| "plainValue (VFloat64 _) = True"
| "plainValue (VBool _) = True"
| "plainValue (VString _) = True"
| "plainValue _ = False"

definition readableTokens :: "string \<Rightarrow> StlToken list \<Rightarrow> bool" where
  "readableTokens prog ts \<longleftrightarrow>
     wfTokens ts \<and> CHR 0x00 \<notin> set prog \<and>
     (\<forall>t \<in> set ts. locatedIn prog t \<and> numericLexeme t \<and> plainValue (tokenValue t))"

text \<open>
  What a parser asks of a scanner: the tokens of a program without null characters can be read.
\<close>

locale token_source =
  fixes scan :: "string \<Rightarrow> 'e + StlToken list"
  assumes scan_readable: "scan prog = Inr ts \<Longrightarrow> CHR 0x00 \<notin> set prog \<Longrightarrow> readableTokens prog ts"

section \<open>Facts\<close>

lemma startsWith_append [simp]: "startsWith (xs @ ys) xs"
  by (simp add: startsWith_def)

lemma nat_digits_nonempty [simp]: "nat_digits n \<noteq> []"
  by (subst nat_digits.simps) simp

text \<open>
  Reading back the name of a token gives the kind of the token, whatever its lexeme and value.
\<close>

lemma fromString_toString:
  assumes "toString t = Some s"
  shows "fromString s = tokenType t"
proof (cases "tokenType t")
qed (use assms in \<open>simp add: toString_def, (elim exE conjE)?, hypsubst?,
       simp add: fromString_def startsWith_def\<close>)+

lemma toString_defined:
  "toString t \<noteq> None \<longleftrightarrow>
     (tokenType t = T_real \<longrightarrow> getCopyAsFloat64 (tokenValue t) \<noteq> None) \<and>
     (tokenType t = T_integral \<longrightarrow> getCopyAsInt64 (tokenValue t) \<noteq> None)"
  by (cases "tokenType t") (simp_all add: toString_def)

section \<open>Properties\<close>

text \<open>
  The name \<^verbatim>\<open>toString\<close> gives a token, whatever its lexeme and value, reads back with \<^verbatim>\<open>fromString\<close> as the
  kind of the token.
\<close>

theorem token_name_roundtrip:
  assumes "toString t = Some s"
  shows "fromString s = tokenType t"
  using assms by (rule fromString_toString)

theorem token_name_roundtrip_witness:
  "toString (defaultToken\<lparr>tokenType := T_identifier, lexeme := ''unknown''\<rparr>) =
     Some (''identifier('' @ quote @ ''unknown'' @ quote @ '')'') \<and>
   fromString (''identifier('' @ quote @ ''unknown'' @ quote @ '')'') = T_identifier"
proof -
  have "toString (defaultToken\<lparr>tokenType := T_identifier, lexeme := ''unknown''\<rparr>) =
      Some (''identifier('' @ quote @ ''unknown'' @ quote @ '')'')"
    by (simp add: toString_def)
  with token_name_roundtrip [OF this] show ?thesis by simp
qed

end
