(* ===== verification/Meta_Make.thy ===== *)
theory Meta_Make
  imports Meta_Types Stl_Token
begin

text \<open>
  The factories of the meta types: the checks of identifiers (meta/utils.h), the validation each
  \<open>make\<close> function performs on its specification, with the message it throws, and the members a
  property brings with it.  The factory of classes is in \<open>Meta_Class\<close>.
\<close>

section \<open>Identifiers\<close>

definition isLower :: "char \<Rightarrow> bool" where
  "isLower c \<longleftrightarrow> (97 :: nat) \<le> of_char c \<and> of_char c \<le> (122 :: nat)"

definition isUpper :: "char \<Rightarrow> bool" where
  "isUpper c \<longleftrightarrow> (65 :: nat) \<le> of_char c \<and> of_char c \<le> (90 :: nat)"

definition identifierChar :: "char \<Rightarrow> bool" where
  "identifierChar c \<longleftrightarrow> isLower c \<or> isUpper c \<or> decimalDigit c \<or> c = CHR ''_''"

definition checkIdentifier :: "string \<Rightarrow> bool \<Rightarrow> string + unit" where
  "checkIdentifier name isQualifiedName =
    (case name of
       [] \<Rightarrow> Inl ''identifier is empty''
     | first # _ \<Rightarrow>
         if decimalDigit first then Inl ''identifiers shall not start with digits''
         else if CHR '' '' \<in> set name then Inl ''identifiers shall not contain spaces''
         else (case find (\<lambda>c. \<not> identifierChar c) name of
                 None \<Rightarrow> Inr ()
               | Some c \<Rightarrow>
                   if \<not> isQualifiedName \<or> c \<noteq> CHR ''.''
                   then Inl (''invalid character '' @ quote @ [c] @ quote @ '' in identifier: '' @ name)
                   else Inr ()))"

definition checkMemberName :: "string \<Rightarrow> string + unit" where
  "checkMemberName name =
     rbind (checkIdentifier name False) (\<lambda>_.
       throwIf (\<not> isLower (hd name)) ''member name does not start with lower case'')"

definition checkUserTypeName :: "string \<Rightarrow> string + unit" where
  "checkUserTypeName name =
     rbind (checkIdentifier name False) (\<lambda>_.
       throwIf (isLower (hd name)) ''user-defined type name does not start with upper case'')"

definition checkTypeNames :: "TypeNames \<Rightarrow> string + unit" where
  "checkTypeNames n =
     rbind (checkUserTypeName (tn_name n)) (\<lambda>_. checkIdentifier (tn_qualifiedName n) True)"

text \<open>\<open>std::toupper\<close> in the default locale.\<close>

definition toupper :: "char \<Rightarrow> char" where
  "toupper c = (if isLower c then char_of (of_char c - (32 :: nat)) else c)"

definition capitalize :: "string \<Rightarrow> string" where
  "capitalize str = (case str of [] \<Rightarrow> [] | c # cs \<Rightarrow> toupper c # cs)"

text \<open>Names as the checks accept them.\<close>

definition identifierName :: "string \<Rightarrow> bool" where
  "identifierName n \<longleftrightarrow> n \<noteq> [] \<and> \<not> decimalDigit (hd n) \<and> list_all identifierChar n"

definition memberName :: "string \<Rightarrow> bool" where
  "memberName n \<longleftrightarrow> identifierName n \<and> isLower (hd n)"

lemma space_not_identifier: "\<not> identifierChar (CHR '' '')"
  by (simp add: identifierChar_def isLower_def isUpper_def decimalDigit_def)

lemma dot_not_identifier: "\<not> identifierChar (CHR ''.'')"
  by (simp add: identifierChar_def isLower_def isUpper_def decimalDigit_def)

lemma checkIdentifier_ok: "checkIdentifier n False = Inr u \<longleftrightarrow> identifierName n"
proof (cases n)
  case (Cons c cs)
  have "find (\<lambda>c. \<not> identifierChar c) n = None \<longleftrightarrow> list_all identifierChar n"
    by (auto simp: find_None_iff list_all_iff)
  moreover have "list_all identifierChar n \<Longrightarrow> CHR '' '' \<notin> set n"
    using space_not_identifier by (auto simp: list_all_iff)
  ultimately show ?thesis
    using Cons by (auto simp: checkIdentifier_def identifierName_def split: option.splits)
qed (simp add: checkIdentifier_def identifierName_def)

lemma checkMemberName_ok: "checkMemberName n = Inr u \<longleftrightarrow> memberName n"
  by (auto simp: checkMemberName_def memberName_def rbind_Inr_conv checkIdentifier_ok)

lemma checkUserTypeName_ok: "checkUserTypeName n = Inr u \<longleftrightarrow> identifierName n \<and> \<not> isLower (hd n)"
  by (auto simp: checkUserTypeName_def rbind_Inr_conv checkIdentifier_ok)

lemma identifierChar_toupper: "identifierChar c \<Longrightarrow> identifierChar (toupper c)"
  by (auto simp: identifierChar_def toupper_def isLower_def isUpper_def)

section \<open>Enumerations, variants, structs\<close>

text \<open>\<open>std::to_string\<close> of a key.\<close>

abbreviation keyText :: "u32 \<Rightarrow> string" where
  "keyText k \<equiv> int_to_string (uint k)"

definition checkEnumerators :: "Enumerator \<Rightarrow> Enumerator \<Rightarrow> string + unit" where
  "checkEnumerators current other =
     rbind (throwIf (enum_key other = enum_key current)
              (''enumerator '' @ enum_name current @ '' and '' @ enum_name other @ '' have the same key ''
               @ keyText (enum_key current)))
       (\<lambda>_. throwIf (enum_name other = enum_name current)
              (''enumerators with keys '' @ keyText (enum_key current) @ '' and '' @ keyText (enum_key other)
               @ '' have the same name '' @ quote @ enum_name current @ quote))"

definition enumMake :: "nat \<Rightarrow> TypeNames \<Rightarrow> Enumerator list \<Rightarrow> NativeKind \<Rightarrow> string + Type" where
  "enumMake address names enums storage =
     rbind (checkTypeNames names) (\<lambda>_.
     rbind (throwIf (enums = []) ''no enumerators'') (\<lambda>_.
     rbind (forPairs checkEnumerators enums) (\<lambda>_.
       Inr (EnumType address names enums storage))))"

definition getEnumFromKey :: "Type \<Rightarrow> u32 \<Rightarrow> Enumerator option" where
  "getEnumFromKey t key = (case t of
     EnumType a n enums st \<Rightarrow> find (\<lambda>e. enum_key e = key) enums
   | _ \<Rightarrow> None)"

definition getEnumFromName :: "Type \<Rightarrow> string \<Rightarrow> Enumerator option" where
  "getEnumFromName t name = (case t of
     EnumType a n enums st \<Rightarrow> if name = [] then None else find (\<lambda>e. enum_name e = name) enums
   | _ \<Rightarrow> None)"

primrec getName :: "Type \<Rightarrow> string" where
  "getName (NativeType k) = nativeName k"
| "getName (EnumType a n es st) = tn_name n"
| "getName (QuantityType a k n e u mn mx) = tn_name n"
| "getName (SequenceType a n e mx fx) = tn_name n"
| "getName (AliasType a n e) = tn_name n"
| "getName (OptionalType a n e) = tn_name n"
| "getName (VariantType a n fs) = tn_name n"
| "getName (StructType a n fs p) = tn_name n"
| "getName (ClassType a c) = tn_name (class_names c)"

primrec getQualifiedName :: "Type \<Rightarrow> string" where
  "getQualifiedName (NativeType k) = nativeName k"
| "getQualifiedName (EnumType a n es st) = tn_qualifiedName n"
| "getQualifiedName (QuantityType a k n e u mn mx) = tn_qualifiedName n"
| "getQualifiedName (SequenceType a n e mx fx) = tn_qualifiedName n"
| "getQualifiedName (AliasType a n e) = tn_qualifiedName n"
| "getQualifiedName (OptionalType a n e) = tn_qualifiedName n"
| "getQualifiedName (VariantType a n fs) = tn_qualifiedName n"
| "getQualifiedName (StructType a n fs p) = tn_qualifiedName n"
| "getQualifiedName (ClassType a c) = tn_qualifiedName (class_names c)"

definition checkVariantFields :: "Type VariantField \<Rightarrow> Type VariantField \<Rightarrow> string + unit" where
  "checkVariantFields current other =
     throwIf (variant_key other = variant_key current)
       (''fields of type '' @ getName (variant_type current) @ '' and '' @ getName (variant_type other)
        @ '' have the same key '' @ keyText (variant_key current))"

definition variantMake :: "nat \<Rightarrow> TypeNames \<Rightarrow> Type VariantField list \<Rightarrow> string + Type" where
  "variantMake address names fs =
     rbind (checkTypeNames names) (\<lambda>_.
     rbind (forPairs checkVariantFields fs) (\<lambda>_.
       Inr (VariantType address names fs)))"

definition getFieldFromKey :: "Type \<Rightarrow> u32 \<Rightarrow> Type VariantField option" where
  "getFieldFromKey t key = (case t of
     VariantType a n fs \<Rightarrow> find (\<lambda>f. variant_key f = key) fs
   | _ \<Rightarrow> None)"

text \<open>
  The outer loop checks the name of a field before it compares it with the others.
\<close>

definition checkLocalFields :: "Type StructField list \<Rightarrow> string + unit" where
  "checkLocalFields fs =
     forEach (\<lambda>i.
       rbind (checkMemberName (field_name (fs ! i))) (\<lambda>_.
         forEach (\<lambda>j. throwIf (j \<noteq> i \<and> field_name (fs ! j) = field_name (fs ! i))
                        (''repeated struct field name '' @ quote @ field_name (fs ! i) @ quote))
           [0..<length fs]))
       [0..<length fs]"

primrec ownFields :: "Type \<Rightarrow> Type StructField list" where
  "ownFields (NativeType k) = []"
| "ownFields (EnumType a n es st) = []"
| "ownFields (QuantityType a k n e u mn mx) = []"
| "ownFields (SequenceType a n e mx fx) = []"
| "ownFields (AliasType a n e) = []"
| "ownFields (OptionalType a n e) = []"
| "ownFields (VariantType a n fs) = []"
| "ownFields (StructType a n fs p) = fs"
| "ownFields (ClassType a c) = []"

definition checkParentFields :: "Type StructField list \<Rightarrow> Type \<Rightarrow> string + unit" where
  "checkParentFields fs parent =
     forEach (\<lambda>ours.
       forEach (\<lambda>theirs. throwIf (field_name ours = field_name theirs)
                 (''parent structure '' @ quote @ getQualifiedName parent @ quote
                  @ '' already has a field named '' @ quote @ field_name ours @ quote))
         (ownFields parent))
       fs"

text \<open>A struct followed by its ancestors, the nearest one first.\<close>

primrec structChain :: "Type \<Rightarrow> Type list" where
  "structChain (NativeType k) = []"
| "structChain (EnumType a n es st) = []"
| "structChain (QuantityType a k n e u mn mx) = []"
| "structChain (SequenceType a n e mx fx) = []"
| "structChain (AliasType a n e) = []"
| "structChain (OptionalType a n e) = []"
| "structChain (VariantType a n fs) = []"
| "structChain (StructType a n fs p) =
     StructType a n fs p # (case map_option structChain p of Some c \<Rightarrow> c | None \<Rightarrow> [])"
| "structChain (ClassType a c) = []"

definition parentChain :: "Type option \<Rightarrow> Type list" where
  "parentChain p = (case p of Some t \<Rightarrow> structChain t | None \<Rightarrow> [])"

definition structMake :: "nat \<Rightarrow> TypeNames \<Rightarrow> Type StructField list \<Rightarrow> Type option \<Rightarrow> string + Type" where
  "structMake address names fs parent =
     rbind (checkTypeNames names) (\<lambda>_.
     rbind (checkLocalFields fs) (\<lambda>_.
     rbind (forEach (checkParentFields fs) (parentChain parent)) (\<lambda>_.
       Inr (StructType address names fs parent))))"

definition getAllFields :: "Type \<Rightarrow> Type StructField list" where
  "getAllFields t = concat (map ownFields (structChain t))"

text \<open>The search in the own fields, then in the parent.\<close>

primrec fieldInChain :: "Type list \<Rightarrow> string \<Rightarrow> Type StructField option" where
  "fieldInChain [] name = None"
| "fieldInChain (t # ts) name =
     (case find (\<lambda>f. field_name f = name) (ownFields t) of Some f \<Rightarrow> Some f | None \<Rightarrow> fieldInChain ts name)"

definition getFieldFromName :: "Type \<Rightarrow> string \<Rightarrow> Type StructField option" where
  "getFieldFromName t name = (if name = [] then None else fieldInChain (structChain t) name)"

section \<open>Quantities, sequences, aliases, optionals\<close>

text \<open>\<open>std::numeric_limits\<close> of the native type of a numeric type, converted to a double.\<close>

definition nativeLimits :: "NativeKind \<Rightarrow> (float64 \<times> float64) option" where
  "nativeLimits k = (case k of
     UInt8Type \<Rightarrow> Some (f64_of_int 0, f64_of_int (2 ^ 8 - 1))
   | Int16Type \<Rightarrow> Some (f64_of_int (- (2 ^ 15)), f64_of_int (2 ^ 15 - 1))
   | UInt16Type \<Rightarrow> Some (f64_of_int 0, f64_of_int (2 ^ 16 - 1))
   | Int32Type \<Rightarrow> Some (f64_of_int (- (2 ^ 31)), f64_of_int (2 ^ 31 - 1))
   | UInt32Type \<Rightarrow> Some (f64_of_int 0, f64_of_int (2 ^ 32 - 1))
   | Int64Type \<Rightarrow> Some (f64_of_int (- (2 ^ 63)), f64_of_int (2 ^ 63 - 1))
   | UInt64Type \<Rightarrow> Some (f64_of_int 0, f64_of_int (2 ^ 64 - 1))
   | Float32Type \<Rightarrow> Some (0xc7efffffe0000000, 0x47efffffe0000000)
   | Float64Type \<Rightarrow> Some (0xffefffffffffffff, 0x7fefffffffffffff)
   | _ \<Rightarrow> None)"

definition f64_less :: "float64 \<Rightarrow> float64 \<Rightarrow> bool" where
  "f64_less x y = fp_less (f64_dec x) (f64_dec y)"

text \<open>The visitor of a type without limits does nothing.\<close>

definition minMaxCheck :: "NativeKind \<Rightarrow> float64 option \<Rightarrow> float64 option \<Rightarrow> string + unit" where
  "minMaxCheck k mn mx = (case nativeLimits k of
     None \<Rightarrow> Inr ()
   | Some (lowest, highest) \<Rightarrow>
       rbind (case mn of
                Some v \<Rightarrow> throwIf (f64_less v lowest)
                  (''minimum value ('' @ f64_to_string v @ '') cannot be represented using '' @ nativeName k)
              | None \<Rightarrow> Inr ())
         (\<lambda>_. case mx of
                Some v \<Rightarrow> throwIf (f64_less highest v)
                  (''maximum value ('' @ f64_to_string v @ '') cannot be represented using '' @ nativeName k)
              | None \<Rightarrow> Inr ()))"

definition quantityMake ::
  "nat \<Rightarrow> TypeNames \<Rightarrow> NativeKind \<Rightarrow> Unit option \<Rightarrow> float64 option \<Rightarrow> float64 option \<Rightarrow> string + Type" where
  "quantityMake address names k u mn mx =
     rbind (checkTypeNames names) (\<lambda>_.
     rbind (case (mn, mx) of
              (Some lo, Some hi) \<Rightarrow> throwIf (f64_less hi lo) ''minimum value is greater than maximum value''
            | _ \<Rightarrow> Inr ()) (\<lambda>_.
     rbind (minMaxCheck k mn mx) (\<lambda>_.
       Inr (QuantityType address PlainQuantity names k u mn mx))))"

definition sequenceMake :: "nat \<Rightarrow> TypeNames \<Rightarrow> Type \<Rightarrow> u64 option \<Rightarrow> bool \<Rightarrow> string + Type" where
  "sequenceMake address names e mx fixedSize =
     rbind (checkTypeNames names) (\<lambda>_. Inr (SequenceType address names e mx fixedSize))"

definition aliasMake :: "nat \<Rightarrow> TypeNames \<Rightarrow> Type \<Rightarrow> string + Type" where
  "aliasMake address names e = rbind (checkTypeNames names) (\<lambda>_. Inr (AliasType address names e))"

definition optionalMake :: "nat \<Rightarrow> TypeNames \<Rightarrow> Type \<Rightarrow> string + Type" where
  "optionalMake address names e = rbind (checkTypeNames names) (\<lambda>_. Inr (OptionalType address names e))"

section \<open>Members of classes\<close>

definition checkCallableArgs :: "Type Arg list \<Rightarrow> string + unit" where
  "checkCallableArgs args =
     forPairs (\<lambda>current other. throwIf (arg_name other = arg_name current)
                 (''duplicated argument name '' @ quote @ arg_name current @ quote)) args"

definition checkSpec :: "Type CallableSpec \<Rightarrow> string + unit" where
  "checkSpec spec = rbind (checkMemberName (callable_name spec)) (\<lambda>_. checkCallableArgs (callable_args spec))"

definition getArgFromName :: "Type CallableSpec \<Rightarrow> string \<Rightarrow> Type Arg option" where
  "getArgFromName spec name = find (\<lambda>a. arg_name a = name) (callable_args spec)"

definition argNameHash :: "Type Arg \<Rightarrow> u32" where
  "argNameHash a = hashCombine hashSeed [hashString (arg_name a)]"

text \<open>\<open>try_emplace\<close> keeps the first index of a name hash.\<close>

fun argIndex :: "u32 \<Rightarrow> Type Arg list \<Rightarrow> nat \<Rightarrow> nat option" where
  "argIndex h [] i = None"
| "argIndex h (a # as) i = (if argNameHash a = h then Some i else argIndex h as (Suc i))"

definition getArgIndexFromNameHash :: "Type CallableSpec \<Rightarrow> u32 \<Rightarrow> string + nat" where
  "getArgIndexFromNameHash spec h = (case argIndex h (callable_args spec) 0 of
     Some i \<Rightarrow> Inr i
   | None \<Rightarrow> Inl ''Fatal error in Callable::getArgIndexFromNameHash. Argument index not found.'')"

definition methodMake :: "Type MethodSpec \<Rightarrow> string + Type MethodSpec" where
  "methodMake spec = rbind (checkSpec (method_callable spec)) (\<lambda>_. Inr spec)"

definition methodId :: "'ty MethodSpec \<Rightarrow> u32" where
  "methodId m = hashCombine methodHashSeed [hashString (callable_name (method_callable m))]"

definition eventMake :: "Type EventSpec \<Rightarrow> string + Type EventSpec" where
  "eventMake spec = rbind (checkSpec (event_callable spec)) (\<lambda>_. Inr spec)"

definition eventId :: "'ty EventSpec \<Rightarrow> u32" where
  "eventId e = hashCombine eventHashSeed [hashString (callable_name (event_callable e))]"

definition propertyId :: "'ty PropertySpec \<Rightarrow> u32" where
  "propertyId p = hashCombine propertyHashSeed [hashString (prop_name p)]"

definition makeGetterMethodName :: "string \<Rightarrow> string" where
  "makeGetterMethodName name = ''get'' @ capitalize name"

definition makeSetterMethodName :: "string \<Rightarrow> string" where
  "makeSetterMethodName name = ''setNext'' @ capitalize name"

definition makeChangeNotificationEventName :: "string \<Rightarrow> string" where
  "makeChangeNotificationEventName name = name @ ''Changed''"

definition getterMethod :: "Type PropertySpec \<Rightarrow> Type MethodSpec" where
  "getterMethod p =
     MethodSpec
       (CallableSpec (makeGetterMethodName (prop_name p)) (''getter for property '' @ prop_name p) [] Confirmed)
       Constant (prop_type p) PropertyGetter False False"

definition setterMethod :: "Type PropertySpec \<Rightarrow> Type MethodSpec" where
  "setterMethod p =
     MethodSpec
       (CallableSpec (makeSetterMethodName (prop_name p)) (''setter for property '' @ prop_name p)
          [Arg (prop_name p) [] (prop_type p)] Confirmed)
       NonConstant (NativeType VoidType) PropertySetter False False"

definition changeEvent :: "Type PropertySpec \<Rightarrow> Type EventSpec" where
  "changeEvent p =
     EventSpec
       (CallableSpec (makeChangeNotificationEventName (prop_name p))
          (''change notification for property '' @ prop_name p) [] (prop_transport p))"

definition propertyMake :: "Type PropertySpec \<Rightarrow> string + Type PropertySpec" where
  "propertyMake spec =
     rbind (checkMemberName (prop_name spec)) (\<lambda>_.
     rbind (throwIf (prop_type spec = NativeType VoidType)
              (''error in property '' @ quote @ prop_name spec @ quote @ '' spec: '' @ ''property cannot be of void type''))
       (\<lambda>_.
     rbind (methodMake (getterMethod spec)) (\<lambda>_.
     rbind (methodMake (setterMethod spec)) (\<lambda>_.
     rbind (eventMake (changeEvent spec)) (\<lambda>_. Inr spec)))))"

section \<open>What the factories accept\<close>

definition typeNames :: "TypeNames \<Rightarrow> bool" where
  "typeNames n \<longleftrightarrow> checkTypeNames n = Inr ()"

lemma checkTypeNames_ok [simp]: "checkTypeNames n = Inr u \<longleftrightarrow> typeNames n"
  by (simp add: typeNames_def)

lemma enumMake_ok:
  "enumMake a n es st = Inr t \<longleftrightarrow>
     typeNames n \<and> es \<noteq> [] \<and> distinct (map enum_key es) \<and> distinct (map enum_name es) \<and> t = EnumType a n es st"
  by (auto simp: enumMake_def rbind_Inr_conv forPairs_ok checkEnumerators_def simp flip: distinct_by_pairs)

lemma variantMake_ok:
  "variantMake a n fs = Inr t \<longleftrightarrow> typeNames n \<and> distinct (map variant_key fs) \<and> t = VariantType a n fs"
  by (auto simp: variantMake_def rbind_Inr_conv forPairs_ok checkVariantFields_def simp flip: distinct_by_pairs)

lemma checkLocalFields_ok:
  "checkLocalFields fs = Inr u \<longleftrightarrow> list_all (\<lambda>f. memberName (field_name f)) fs \<and> distinct (map field_name fs)"
proof -
  have "checkLocalFields fs = Inr u \<longleftrightarrow>
      (\<forall>i < length fs. memberName (field_name (fs ! i))) \<and>
      (\<forall>i < length fs. \<forall>j < length fs. i \<noteq> j \<longrightarrow> field_name (fs ! j) \<noteq> field_name (fs ! i))"
    by (simp add: checkLocalFields_def rbind_Inr_conv checkMemberName_ok) (metis atLeastLessThan_iff zero_le)
  then show ?thesis
    unfolding distinct_by_pairs by (auto simp: list_all_length)
qed

lemma checkParentFields_ok:
  "checkParentFields fs p = Inr u \<longleftrightarrow> field_name ` set fs \<inter> field_name ` set (ownFields p) = {}"
  by (auto simp: checkParentFields_def)

lemma structMake_ok:
  "structMake a n fs p = Inr t \<longleftrightarrow>
     typeNames n \<and> list_all (\<lambda>f. memberName (field_name f)) fs \<and> distinct (map field_name fs)
     \<and> (\<forall>q \<in> set (parentChain p). field_name ` set fs \<inter> field_name ` set (ownFields q) = {})
     \<and> t = StructType a n fs p"
  by (auto simp: structMake_def rbind_Inr_conv checkLocalFields_ok checkParentFields_ok)

lemma checkSpec_ok:
  "checkSpec c = Inr u \<longleftrightarrow> memberName (callable_name c) \<and> distinct (map arg_name (callable_args c))"
  by (auto simp: checkSpec_def rbind_Inr_conv checkMemberName_ok checkCallableArgs_def forPairs_ok
      simp flip: distinct_by_pairs)

lemma memberName_derived:
  assumes "memberName n"
  shows "memberName (makeGetterMethodName n)" "memberName (makeSetterMethodName n)"
    "memberName (makeChangeNotificationEventName n)"
proof -
  obtain c cs where n: "n = c # cs"
    using assms by (cases n) (auto simp: memberName_def identifierName_def)
  then have "identifierChar (toupper c)" "list_all identifierChar cs" "identifierChar c"
    using assms by (auto simp: memberName_def identifierName_def intro: identifierChar_toupper)
  then show "memberName (makeGetterMethodName n)" "memberName (makeSetterMethodName n)"
      "memberName (makeChangeNotificationEventName n)"
    using assms n
    by (auto simp: memberName_def identifierName_def makeGetterMethodName_def makeSetterMethodName_def
        makeChangeNotificationEventName_def capitalize_def identifierChar_def isLower_def isUpper_def decimalDigit_def)
qed

lemma propertyMake_ok:
  "propertyMake p = Inr q \<longleftrightarrow> memberName (prop_name p) \<and> prop_type p \<noteq> NativeType VoidType \<and> q = p"
  by (auto simp: propertyMake_def rbind_Inr_conv checkMemberName_ok methodMake_def eventMake_def checkSpec_ok
      getterMethod_def setterMethod_def changeEvent_def memberName_derived)

lemma find_append: "find P (xs @ ys) = (case find P xs of Some x \<Rightarrow> Some x | None \<Rightarrow> find P ys)"
  by (induction xs) auto

lemma find_unique:
  "distinct (map g xs) \<Longrightarrow> find (\<lambda>y. g y = g x) xs = Some x \<longleftrightarrow> x \<in> set xs"
  by (induction xs) (auto simp: image_iff)

section \<open>Looking members up\<close>

text \<open>Structs that the factory built, from parents that the factory built.\<close>

inductive madeStruct :: "Type \<Rightarrow> bool" where
  root: "structMake a n fs None = Inr t \<Longrightarrow> madeStruct t"
| derived: "structMake a n fs (Some q) = Inr t \<Longrightarrow> madeStruct q \<Longrightarrow> madeStruct t"

inductive_cases madeStructE: "madeStruct t"

lemma structChain_struct:
  "structChain (StructType a n fs p) = StructType a n fs p # parentChain p"
  by (cases p) (simp_all add: parentChain_def)

lemma fieldInChain_find:
  "fieldInChain ts n = find (\<lambda>f. field_name f = n) (concat (map ownFields ts))"
  by (induction ts) (simp_all add: find_append split: option.splits)

lemma madeStruct_fields:
  "madeStruct t \<Longrightarrow>
   list_all (\<lambda>f. memberName (field_name f)) (getAllFields t) \<and> distinct (map field_name (getAllFields t))"
proof (induction rule: madeStruct.induct)
  case (root a n fs t)
  then show ?case
    by (simp add: structMake_ok getAllFields_def structChain_struct parentChain_def)
next
  case (derived a n fs q t)
  have all: "getAllFields t = fs @ getAllFields q"
    using derived.hyps(1) by (simp add: structMake_ok getAllFields_def structChain_struct parentChain_def)
  have "field_name ` set fs \<inter> field_name ` set (getAllFields q) = {}"
    using derived.hyps(1) by (fastforce simp: structMake_ok getAllFields_def parentChain_def)
  then show ?case
    using derived unfolding all by (simp add: structMake_ok)
qed

text \<open>
  In a struct that the factory built on parents that it built, the names of all the fields,
  inherited ones included, are different valid member names, and getFieldFromName finds by name
  exactly the fields that getAllFields lists: each listed field under its own name, and nothing
  under any other name.
\<close>

theorem struct_field_lookup:
  assumes "madeStruct t"
  shows "distinct (map field_name (getAllFields t))
    \<and> (f \<in> set (getAllFields t) \<longleftrightarrow> getFieldFromName t (field_name f) = Some f)
    \<and> (n \<in> field_name ` set (getAllFields t) \<longleftrightarrow> getFieldFromName t n \<noteq> None)"
proof (intro conjI)
  show d: "distinct (map field_name (getAllFields t))"
    using madeStruct_fields [OF assms] by simp
  have names: "field_name g \<noteq> []" if "g \<in> set (getAllFields t)" for g
    using madeStruct_fields [OF assms] that by (auto simp: list_all_iff memberName_def identifierName_def)
  have search: "getFieldFromName t m = (if m = [] then None else find (\<lambda>g. field_name g = m) (getAllFields t))" for m
    by (simp add: getFieldFromName_def fieldInChain_find getAllFields_def)
  show "f \<in> set (getAllFields t) \<longleftrightarrow> getFieldFromName t (field_name f) = Some f"
    using names find_unique [OF d] by (auto simp: search)
  show "n \<in> field_name ` set (getAllFields t) \<longleftrightarrow> getFieldFromName t n \<noteq> None"
    using names
    by (cases "find (\<lambda>g. field_name g = n) (getAllFields t)")
       (auto simp: search find_None_iff find_Some_iff intro!: image_eqI dest: nth_mem)
qed

text \<open>A struct with one inherited field.\<close>

definition exampleBase :: Type where
  "exampleBase = StructType 1 (TypeNames ''Base'' ''p.Base'' []) [StructField ''id'' [] (NativeType UInt32Type)] None"

definition exampleDerived :: Type where
  "exampleDerived = StructType 2 (TypeNames ''Track'' ''p.Track'' [])
     [StructField ''speed'' [] (NativeType Float32Type)] (Some exampleBase)"

lemmas name_eval = typeNames_def checkTypeNames_def checkUserTypeName_def checkIdentifier_def identifierChar_def
  isLower_def isUpper_def decimalDigit_def

lemma exampleBase_made: "madeStruct exampleBase"
  by (rule madeStruct.root [of 1 "TypeNames ''Base'' ''p.Base'' []" "[StructField ''id'' [] (NativeType UInt32Type)]"])
     (simp add: structMake_ok exampleBase_def name_eval memberName_def identifierName_def parentChain_def)

lemma exampleDerived_made: "madeStruct exampleDerived"
  by (rule madeStruct.derived [OF _ exampleBase_made, of 2 "TypeNames ''Track'' ''p.Track'' []"
      "[StructField ''speed'' [] (NativeType Float32Type)]"])
     (simp add: structMake_ok exampleBase_def exampleDerived_def name_eval memberName_def identifierName_def parentChain_def)

theorem struct_field_lookup_witness:
  "madeStruct exampleDerived
   \<and> getFieldFromName exampleDerived ''id'' = Some (StructField ''id'' [] (NativeType UInt32Type))
   \<and> getFieldFromName exampleDerived ''name'' = None"
  using struct_field_lookup [OF exampleDerived_made, of "StructField ''id'' [] (NativeType UInt32Type)" "''name''"]
    exampleDerived_made
  by (simp add: getAllFields_def exampleDerived_def exampleBase_def)

text \<open>
  An enumeration is accepted exactly when its names are valid, it is not empty and its keys and
  names are unique; and then every enumerator, and no other, is found under its key and under its
  name.
\<close>

theorem enum_lookup:
  assumes "enumMake a n es st = Inr t"
  shows "es \<noteq> [] \<and> distinct (map enum_key es) \<and> distinct (map enum_name es)
    \<and> (getEnumFromKey t (enum_key e) = Some e \<longleftrightarrow> e \<in> set es)
    \<and> (getEnumFromName t (enum_name e) = Some e \<longleftrightarrow> e \<in> set es \<and> enum_name e \<noteq> [])"
  using assms by (auto simp: enumMake_ok getEnumFromKey_def getEnumFromName_def find_unique)

theorem enum_lookup_witness:
  "\<exists>t. enumMake 1 (TypeNames ''Mode'' ''p.Mode'' []) [Enumerator ''on'' 3 [], Enumerator ''off'' 5 []] UInt8Type = Inr t
     \<and> getEnumFromKey t 5 = Some (Enumerator ''off'' 5 []) \<and> getEnumFromName t ''on'' = Some (Enumerator ''on'' 3 [])"
proof -
  let ?es = "[Enumerator ''on'' 3 [], Enumerator ''off'' 5 []]"
  obtain t where t: "enumMake 1 (TypeNames ''Mode'' ''p.Mode'' []) ?es UInt8Type = Inr t"
    by (simp add: enumMake_ok name_eval)
  then show ?thesis
    using enum_lookup [OF t, of "Enumerator ''off'' 5 []"] enum_lookup [OF t, of "Enumerator ''on'' 3 []"] by auto
qed

end
