(* ===== verification/Var_Stream.thy ===== *)
theory Var_Stream
  imports Meta_Make "HOL-Library.Sublist" "HOL-Library.List_Lexorder" "HOL-Library.Char_ord"
begin

text \<open>
  Values on binary streams (io/util.cpp, io/input_stream.h, io/output_stream.h): the visitors that read and
  write a value of a type, and the one that computes the size beforehand.  A reader is given the bytes
  from its cursor on.  The conversion of a value to another alternative of Var (the Converter of
  meta/var.cpp) is a parameter, and so is what it makes of it: the results hold for every conversion.
  The bytes a failed write leaves behind are not modelled.
\<close>

section \<open>Bytes\<close>

definition leBytes :: "nat \<Rightarrow> 'a :: len word \<Rightarrow> u8 list" where
  "leBytes n w = map (\<lambda>i. ucast (drop_bit (8 * i) w)) [0..<n]"

definition ofLe :: "u8 list \<Rightarrow> 'a :: len word" where
  "ofLe bs = foldr (\<lambda>b w. or (push_bit 8 w) (ucast b)) bs 0"

lemma length_leBytes [simp]: "length (leBytes n w) = n"
  by (simp add: leBytes_def)

lemma bit_ofLe:
  "bit (ofLe bs :: 'a :: len word) i \<longleftrightarrow>
     i < LENGTH('a) \<and> i div 8 < length bs \<and> bit (bs ! (i div 8)) (i mod 8)"
proof (induction bs arbitrary: i)
  case Nil
  then show ?case
    by (simp add: ofLe_def)
next
  case (Cons b bs)
  have step: "ofLe (b # bs) = or (push_bit 8 (ofLe bs)) (ucast b :: 'a word)"
    by (simp add: ofLe_def)
  show ?case
  proof (cases "i < 8")
    case True
    then show ?thesis
      unfolding step by (auto simp: bit_simps)
  next
    case False
    then have "i div 8 = Suc ((i - 8) div 8)" "i mod 8 = (i - 8) mod 8"
      by (simp_all add: div_if [of i] mod_if [of i])
    then show ?thesis
      unfolding step using False Cons.IH [of "i - 8"] by (auto simp: bit_simps dest: bit_imp_le_length)
  qed
qed

lemma ofLe_leBytes:
  assumes "LENGTH('a :: len) = 8 * n"
  shows "ofLe (leBytes n (w :: 'a word)) = w"
proof (rule bit_eqI)
  fix i
  assume "possible_bit TYPE('a word) i"
  then have "i < 8 * n"
    using assms by (simp add: possible_bit_def)
  then have "i div 8 < n"
    by (simp add: less_mult_imp_div_less mult.commute)
  then show "bit (ofLe (leBytes n w) :: 'a word) i \<longleftrightarrow> bit w i"
    using assms \<open>i < 8 * n\<close> by (simp add: bit_ofLe leBytes_def bit_simps)
qed

section \<open>Streams\<close>

text \<open>
  \<open>BadAccess\<close> is the exception of std::get or of an empty optional, \<open>NullAccess\<close> the use of a null pointer or
  of the end of a map, which is undefined.
\<close>

datatype stream_exn =
    Underflow
  | Unhandled string
  | MissingKey u32 string
  | BadAccess
  | NullAccess
  | NotConverted string

type_synonym reader = "u8 list \<Rightarrow> stream_exn + Var \<times> u8 list"

definition advanceBytes :: "nat \<Rightarrow> u8 list \<Rightarrow> stream_exn + u8 list \<times> u8 list" where
  "advanceBytes n bs = (if length bs < n then Inl Underflow else Inr (take n bs, drop n bs))"

definition readBasic :: "nat \<Rightarrow> u8 list \<Rightarrow> stream_exn + 'a :: len word \<times> u8 list" where
  "readBasic n bs = rbind (advanceBytes n bs) (\<lambda>(b, rest). Inr (ofLe b, rest))"

definition writeString :: "string \<Rightarrow> u8 list" where
  "writeString s =
    (let size = of_nat (length s) :: u32
     in leBytes 4 size @ (if size = 0 then [] else map charByte (take (unat size) s)))"

definition readString :: "u8 list \<Rightarrow> stream_exn + string \<times> u8 list" where
  "readString bs = rbind (readBasic 4 bs) (\<lambda>(size, rest).
     if size = (0 :: u32) then Inr ([], rest)
     else rbind (advanceBytes (unat size) rest) (\<lambda>(b, rest). Inr (map (char_of \<circ> unat) b, rest)))"

section \<open>Native values\<close>

datatype Alternative =
    ABool | AUInt8 | AInt16 | AUInt16 | AInt32 | AUInt32 | AInt64 | AUInt64 | AFloat32 | AFloat64
  | AString | ADuration | ATimeStamp

fun alternativeOf :: "Var \<Rightarrow> Alternative option" where
  "alternativeOf (VBool _) = Some ABool"
| "alternativeOf (VUInt8 _) = Some AUInt8"
| "alternativeOf (VInt16 _) = Some AInt16"
| "alternativeOf (VUInt16 _) = Some AUInt16"
| "alternativeOf (VInt32 _) = Some AInt32"
| "alternativeOf (VUInt32 _) = Some AUInt32"
| "alternativeOf (VInt64 _) = Some AInt64"
| "alternativeOf (VUInt64 _) = Some AUInt64"
| "alternativeOf (VFloat32 _) = Some AFloat32"
| "alternativeOf (VFloat64 _) = Some AFloat64"
| "alternativeOf (VString _) = Some AString"
| "alternativeOf (VDuration _) = Some ADuration"
| "alternativeOf (VTimeStamp _) = Some ATimeStamp"
| "alternativeOf _ = None"

definition holds :: "Alternative \<Rightarrow> Var \<Rightarrow> bool" where
  "holds alt v \<longleftrightarrow> alternativeOf v = Some alt"

fun defaultOf :: "Alternative \<Rightarrow> Var" where
  "defaultOf ABool = VBool False"
| "defaultOf AUInt8 = VUInt8 0"
| "defaultOf AInt16 = VInt16 0"
| "defaultOf AUInt16 = VUInt16 0"
| "defaultOf AInt32 = VInt32 0"
| "defaultOf AUInt32 = VUInt32 0"
| "defaultOf AInt64 = VInt64 0"
| "defaultOf AUInt64 = VUInt64 0"
| "defaultOf AFloat32 = VFloat32 0"
| "defaultOf AFloat64 = VFloat64 0"
| "defaultOf AString = VString []"
| "defaultOf ADuration = VDuration 0"
| "defaultOf ATimeStamp = VTimeStamp 0"

type_synonym conversion = "Alternative \<Rightarrow> Var \<Rightarrow> string + Var"

text \<open>getCopyAs: a value that is there already is copied, an empty one gives the default.\<close>

definition copyAs :: "conversion \<Rightarrow> Alternative \<Rightarrow> Var \<Rightarrow> stream_exn + Var" where
  "copyAs conv alt v =
     (if holds alt v then Inr v
      else if v = VEmpty then Inr (defaultOf alt)
      else case conv alt v of Inl m \<Rightarrow> Inl (NotConverted m) | Inr x \<Rightarrow> Inr x)"

fun writeValue :: "Var \<Rightarrow> u8 list" where
  "writeValue (VBool b) = [if b then 1 else 0]"
| "writeValue (VUInt8 x) = leBytes 1 x"
| "writeValue (VInt16 x) = leBytes 2 x"
| "writeValue (VUInt16 x) = leBytes 2 x"
| "writeValue (VInt32 x) = leBytes 4 x"
| "writeValue (VUInt32 x) = leBytes 4 x"
| "writeValue (VInt64 x) = leBytes 8 x"
| "writeValue (VUInt64 x) = leBytes 8 x"
| "writeValue (VFloat32 x) = leBytes 4 x"
| "writeValue (VFloat64 x) = leBytes 8 x"
| "writeValue (VDuration x) = leBytes 8 x"
| "writeValue (VTimeStamp x) = leBytes 8 x"
| "writeValue (VString s) = writeString s"
| "writeValue _ = []"

definition readAs :: "nat \<Rightarrow> ('a :: len word \<Rightarrow> Var) \<Rightarrow> reader" where
  "readAs n mk bs = rbind (readBasic n bs) (\<lambda>(x, rest). Inr (mk x, rest))"

fun readAlternative :: "Alternative \<Rightarrow> reader" where
  "readAlternative ABool = readAs 1 (\<lambda>x :: u8. VBool (x \<noteq> 0))"
| "readAlternative AUInt8 = readAs 1 VUInt8"
| "readAlternative AInt16 = readAs 2 VInt16"
| "readAlternative AUInt16 = readAs 2 VUInt16"
| "readAlternative AInt32 = readAs 4 VInt32"
| "readAlternative AUInt32 = readAs 4 VUInt32"
| "readAlternative AInt64 = readAs 8 VInt64"
| "readAlternative AUInt64 = readAs 8 VUInt64"
| "readAlternative AFloat32 = readAs 4 VFloat32"
| "readAlternative AFloat64 = readAs 8 VFloat64"
| "readAlternative ADuration = readAs 8 VDuration"
| "readAlternative ATimeStamp = readAs 8 VTimeStamp"
| "readAlternative AString = (\<lambda>bs. rbind (readString bs) (\<lambda>(s, rest). Inr (VString s, rest)))"

fun sizeOfValue :: "Var \<Rightarrow> u32" where
  "sizeOfValue (VBool _) = 1"
| "sizeOfValue (VUInt8 _) = 1"
| "sizeOfValue (VInt16 _) = 2"
| "sizeOfValue (VUInt16 _) = 2"
| "sizeOfValue (VInt32 _) = 4"
| "sizeOfValue (VUInt32 _) = 4"
| "sizeOfValue (VInt64 _) = 8"
| "sizeOfValue (VUInt64 _) = 8"
| "sizeOfValue (VFloat32 _) = 4"
| "sizeOfValue (VFloat64 _) = 8"
| "sizeOfValue (VDuration _) = 8"
| "sizeOfValue (VTimeStamp _) = 8"
| "sizeOfValue (VString s) = (let size = of_nat (length s) :: u32 in if size = 0 then 4 else 4 + size)"
| "sizeOfValue _ = 0"

text \<open>The alternative a native type is transported as; nothing is transported for void.\<close>

fun nativeAlternative :: "NativeKind \<Rightarrow> Alternative option" where
  "nativeAlternative VoidType = None"
| "nativeAlternative BoolType = Some ABool"
| "nativeAlternative UInt8Type = Some AUInt8"
| "nativeAlternative Int16Type = Some AInt16"
| "nativeAlternative UInt16Type = Some AUInt16"
| "nativeAlternative Int32Type = Some AInt32"
| "nativeAlternative UInt32Type = Some AUInt32"
| "nativeAlternative Int64Type = Some AInt64"
| "nativeAlternative UInt64Type = Some AUInt64"
| "nativeAlternative Float32Type = Some AFloat32"
| "nativeAlternative Float64Type = Some AFloat64"
| "nativeAlternative StringType = Some AString"

fun quantityAlternative :: "QuantityKind \<Rightarrow> NativeKind \<Rightarrow> Alternative option" where
  "quantityAlternative DurationQuantity e = Some ADuration"
| "quantityAlternative TimestampQuantity e = Some ATimeStamp"
| "quantityAlternative PlainQuantity e = nativeAlternative e"

section \<open>StreamReader\<close>

text \<open>
  A visitor is given the value it is to change, since the visit of void leaves it as
  it is.  Structs read the fields of their ancestors first, into one map; \<open>try_emplace\<close> keeps the entry
  that is there.
\<close>

fun mapEmplace :: "string \<Rightarrow> Var \<Rightarrow> (string \<times> Var) list \<Rightarrow> (string \<times> Var) list" where
  "mapEmplace k v [] = [(k, v)]"
| "mapEmplace k v ((j, u) # m) =
     (if k = j then (j, u) # m else if k < j then (k, v) # (j, u) # m else (j, u) # mapEmplace k v m)"

type_synonym visit = "Var \<Rightarrow> reader"
type_synonym fields_reader = "(string \<times> Var) list \<Rightarrow> u8 list \<Rightarrow> stream_exn + (string \<times> Var) list \<times> u8 list"

definition readNative :: "Alternative option \<Rightarrow> visit" where
  "readNative alt v bs = (case alt of None \<Rightarrow> Inr (v, bs) | Some a \<Rightarrow> readAlternative a bs)"

fun readElements :: "nat \<Rightarrow> visit \<Rightarrow> u8 list \<Rightarrow> stream_exn + Var list \<times> u8 list" where
  "readElements 0 r bs = Inr ([], bs)"
| "readElements (Suc n) r bs =
     rbind (r VEmpty bs) (\<lambda>(v, bs). rbind (readElements n r bs) (\<lambda>(vs, bs). Inr (v # vs, bs)))"

fun readFields :: "(visit \<times> fields_reader) StructField list \<Rightarrow> fields_reader" where
  "readFields [] m bs = Inr (m, bs)"
| "readFields (f # fs) m bs =
     rbind (fst (field_type f) VEmpty bs) (\<lambda>(v, bs). readFields fs (mapEmplace (field_name f) v m) bs)"

text \<open>The visit of a type and, for a struct, readStruct.\<close>

primrec readers :: "Type \<Rightarrow> visit \<times> fields_reader" where
  "readers (NativeType k) = (readNative (nativeAlternative k), \<lambda>m bs. Inr (m, bs))"
| "readers (EnumType a n es st) = (readNative (nativeAlternative st), \<lambda>m bs. Inr (m, bs))"
| "readers (QuantityType a k n e u mn mx) = (readNative (quantityAlternative k e), \<lambda>m bs. Inr (m, bs))"
| "readers (SequenceType a n e mx fx) =
    (\<lambda>v bs.
       rbind (if fx then (case mx of None \<Rightarrow> Inl BadAccess | Some s \<Rightarrow> Inr (ucast s :: u32, bs)) else readBasic 4 bs)
         (\<lambda>(size, bs). rbind (readElements (unat size) (fst (readers e)) bs) (\<lambda>(vs, bs). Inr (VList vs, bs))),
     \<lambda>m bs. Inr (m, bs))"
| "readers (AliasType a n e) = (fst (readers e), \<lambda>m bs. Inr (m, bs))"
| "readers (OptionalType a n e) =
    (\<lambda>v bs. rbind (readBasic 1 bs) (\<lambda>(present, bs).
       if present \<noteq> (0 :: u8) then fst (readers e) v bs else Inr (VEmpty, bs)),
     \<lambda>m bs. Inr (m, bs))"
| "readers (VariantType a n fs) =
    (\<lambda>v bs. rbind (readBasic 4 bs) (\<lambda>(key, bs).
       case find (\<lambda>f. variant_key f = key) (map (map_VariantField readers) fs) of
         None \<Rightarrow> Inl (MissingKey key (tn_qualifiedName n))
       | Some f \<Rightarrow> rbind (fst (variant_type f) VEmpty bs) (\<lambda>(v, bs). Inr (VKeyed key (Some v), bs))),
     \<lambda>m bs. Inr (m, bs))"
| "readers (StructType a n fs p) =
    (let readStruct = (\<lambda>m bs.
       rbind (case map_option readers p of None \<Rightarrow> Inr (m, bs) | Some up \<Rightarrow> snd up m bs) (\<lambda>(m, bs).
         readFields (map (map_StructField readers) fs) m bs))
     in (\<lambda>v bs. rbind (readStruct [] bs) (\<lambda>(m, bs). Inr (VMap m, bs)), readStruct))"
| "readers (ClassType a c) = (\<lambda>v bs. Inl (Unhandled (tn_name (class_names c))), \<lambda>m bs. Inr (m, bs))"

definition readFromStream :: "Type \<Rightarrow> visit" where
  "readFromStream t = fst (readers t)"

section \<open>StreamWriter\<close>

type_synonym var_writer = "Var \<Rightarrow> stream_exn + u8 list"
type_synonym fields_writer = "(string \<times> Var) list \<Rightarrow> stream_exn + u8 list"

definition writeNative :: "conversion \<Rightarrow> Alternative option \<Rightarrow> var_writer" where
  "writeNative conv alt v = (case alt of
     None \<Rightarrow> Inr []
   | Some a \<Rightarrow> rbind (copyAs conv a v) (\<lambda>x. Inr (writeValue x)))"

fun writeElements :: "var_writer \<Rightarrow> Var list \<Rightarrow> stream_exn + u8 list" where
  "writeElements wr [] = Inr []"
| "writeElements wr (v # vs) = rbind (wr v) (\<lambda>b. rbind (writeElements wr vs) (\<lambda>bs. Inr (b @ bs)))"

text \<open>A field the map does not have is created empty.\<close>

fun writeFields :: "(var_writer \<times> fields_writer) StructField list \<Rightarrow> fields_writer" where
  "writeFields [] m = Inr []"
| "writeFields (f # fs) m =
     rbind (fst (field_type f) (case map_of m (field_name f) of None \<Rightarrow> VEmpty | Some v \<Rightarrow> v)) (\<lambda>b.
     rbind (writeFields fs m) (\<lambda>bs. Inr (b @ bs)))"

definition writeKeyed :: "(var_writer \<times> fields_writer) VariantField list \<Rightarrow> u32 \<Rightarrow> var_writer" where
  "writeKeyed fs key v = (case find (\<lambda>f. variant_key f = key) fs of
     None \<Rightarrow> Inl NullAccess
   | Some f \<Rightarrow> rbind (fst (variant_type f) v) (\<lambda>b. Inr (leBytes 4 key @ b)))"

definition keyOf :: "conversion \<Rightarrow> Var \<Rightarrow> stream_exn + u32" where
  "keyOf conv v = rbind (copyAs conv AUInt32 v) (\<lambda>x. case x of VUInt32 k \<Rightarrow> Inr k | _ \<Rightarrow> Inl BadAccess)"

definition writeVariant :: "conversion \<Rightarrow> (var_writer \<times> fields_writer) VariantField list \<Rightarrow> var_writer" where
  "writeVariant conv fs v = (case v of
     VKeyed key (Some x) \<Rightarrow> writeKeyed fs key x
   | VKeyed key None \<Rightarrow> Inl NullAccess
   | VMap m \<Rightarrow>
       (case map_of m ''type'' of
          None \<Rightarrow> Inl NullAccess
        | Some k \<Rightarrow> rbind (keyOf conv k) (\<lambda>key.
            if find (\<lambda>f. variant_key f = key) fs = None then Inl NullAccess
            else case map_of m ''value'' of None \<Rightarrow> Inl NullAccess | Some x \<Rightarrow> writeKeyed fs key x))
   | _ \<Rightarrow> Inl BadAccess)"

definition writeSequence :: "u64 option \<Rightarrow> bool \<Rightarrow> var_writer \<Rightarrow> var_writer" where
  "writeSequence mx fx wr v = (case v of
     VList vs \<Rightarrow>
       if fx then (case mx of
          None \<Rightarrow> Inl BadAccess
        | Some s \<Rightarrow> if s = 0 then Inr [] else writeElements wr vs)
       else
         let size = of_nat (length vs) :: u32
         in if size = 0 then Inr (leBytes 4 size)
            else rbind (writeElements wr vs) (\<lambda>bs. Inr (leBytes 4 size @ bs))
   | _ \<Rightarrow> Inr (leBytes 4 (0 :: u32)))"

primrec writers :: "conversion \<Rightarrow> Type \<Rightarrow> var_writer \<times> fields_writer" where
  "writers conv (NativeType k) = (writeNative conv (nativeAlternative k), \<lambda>m. Inr [])"
| "writers conv (EnumType a n es st) = (writeNative conv (nativeAlternative st), \<lambda>m. Inr [])"
| "writers conv (QuantityType a k n e u mn mx) = (writeNative conv (quantityAlternative k e), \<lambda>m. Inr [])"
| "writers conv (SequenceType a n e mx fx) = (writeSequence mx fx (fst (writers conv e)), \<lambda>m. Inr [])"
| "writers conv (AliasType a n e) = (fst (writers conv e), \<lambda>m. Inr [])"
| "writers conv (OptionalType a n e) =
    (\<lambda>v. if v = VEmpty then Inr [0] else rbind (fst (writers conv e) v) (\<lambda>bs. Inr (1 # bs)), \<lambda>m. Inr [])"
| "writers conv (VariantType a n fs) =
    (writeVariant conv (map (map_VariantField (writers conv)) fs), \<lambda>m. Inr [])"
| "writers conv (StructType a n fs p) =
    (let writeStruct = (\<lambda>m.
       rbind (case map_option (writers conv) p of None \<Rightarrow> Inr [] | Some up \<Rightarrow> snd up m) (\<lambda>b.
       rbind (writeFields (map (map_StructField (writers conv)) fs) m) (\<lambda>bs. Inr (b @ bs))))
     in (\<lambda>v. case v of VMap m \<Rightarrow> writeStruct m | _ \<Rightarrow> Inl BadAccess, writeStruct))"
| "writers conv (ClassType a c) = (\<lambda>v. Inl (Unhandled (tn_name (class_names c))), \<lambda>m. Inr [])"

definition streamWrite :: "conversion \<Rightarrow> Type \<Rightarrow> var_writer" where
  "streamWrite conv t = fst (writers conv t)"

section \<open>SerializedSizeGetter\<close>

type_synonym sizer = "Var \<Rightarrow> stream_exn + u32"

definition sizeOfNative :: "conversion \<Rightarrow> Alternative option \<Rightarrow> sizer" where
  "sizeOfNative conv alt v = (case alt of
     None \<Rightarrow> Inr 0
   | Some a \<Rightarrow> rbind (copyAs conv a v) (\<lambda>x. Inr (sizeOfValue x)))"

fun sumSizes :: "(stream_exn + u32) list \<Rightarrow> stream_exn + u32" where
  "sumSizes [] = Inr 0"
| "sumSizes (x # xs) = rbind x (\<lambda>a. rbind (sumSizes xs) (\<lambda>b. Inr (a + b)))"

text \<open>Only the own fields of a struct are counted, and a sequence of fixed size counts the length it does not write.\<close>

primrec serializedSize :: "conversion \<Rightarrow> Type \<Rightarrow> sizer" where
  "serializedSize conv (NativeType k) = sizeOfNative conv (nativeAlternative k)"
| "serializedSize conv (EnumType a n es st) = sizeOfNative conv (nativeAlternative st)"
| "serializedSize conv (QuantityType a k n e u mn mx) = sizeOfNative conv (quantityAlternative k e)"
| "serializedSize conv (SequenceType a n e mx fx) = (\<lambda>v. case v of
     VList vs \<Rightarrow>
       if (of_nat (length vs) :: u32) = 0 then Inr 4
       else rbind (sumSizes (map (serializedSize conv e) vs)) (\<lambda>s. Inr (4 + s))
   | _ \<Rightarrow> Inl BadAccess)"
| "serializedSize conv (AliasType a n e) = serializedSize conv e"
| "serializedSize conv (OptionalType a n e) = (\<lambda>v.
     if v = VEmpty then Inr 1 else rbind (serializedSize conv e v) (\<lambda>s. Inr (1 + s)))"
| "serializedSize conv (VariantType a n fs) = (\<lambda>v. case v of
     VKeyed key (Some x) \<Rightarrow>
       (case find (\<lambda>f. variant_key f = key) (map (map_VariantField (serializedSize conv)) fs) of
          None \<Rightarrow> Inl NullAccess
        | Some f \<Rightarrow> rbind (variant_type f x) (\<lambda>s. Inr (4 + s)))
   | VKeyed key None \<Rightarrow> Inl NullAccess
   | _ \<Rightarrow> Inl BadAccess)"
| "serializedSize conv (StructType a n fs p) = (\<lambda>v. case v of
     VMap m \<Rightarrow>
       sumSizes (map (\<lambda>f. case map_of m (field_name f) of None \<Rightarrow> Inl NullAccess | Some x \<Rightarrow> field_type f x)
         (map (map_StructField (serializedSize conv)) fs))
   | _ \<Rightarrow> Inl BadAccess)"
| "serializedSize conv (ClassType a c) = (\<lambda>v. Inl (Unhandled (tn_name (class_names c))))"

section \<open>Values of a type\<close>

definition typedNative :: "Alternative option \<Rightarrow> Var \<Rightarrow> bool" where
  "typedNative alt v = (case alt of
     None \<Rightarrow> v = VEmpty
   | Some a \<Rightarrow> holds a v \<and> (case v of VString s \<Rightarrow> length s < 2 ^ 32 | _ \<Rightarrow> True))"

fun keysAscend :: "(string \<times> Var) list \<Rightarrow> bool" where
  "keysAscend [] = True"
| "keysAscend ((k, v) # m) = ((\<forall>(j, u) \<in> set m. k < j) \<and> keysAscend m)"

primrec fieldNames :: "Type \<Rightarrow> string list" where
  "fieldNames (NativeType k) = []"
| "fieldNames (EnumType a n es st) = []"
| "fieldNames (QuantityType a k n e u mn mx) = []"
| "fieldNames (SequenceType a n e mx fx) = []"
| "fieldNames (AliasType a n e) = []"
| "fieldNames (OptionalType a n e) = []"
| "fieldNames (VariantType a n fs) = []"
| "fieldNames (StructType a n fs p) =
     (case map_option fieldNames p of None \<Rightarrow> [] | Some ns \<Rightarrow> ns) @ map field_name fs"
| "fieldNames (ClassType a c) = []"

text \<open>
  The values a type has, and for a struct the maps that have a value for each field, inherited ones included.
  Lengths fit the 32 bits they are transported with.
\<close>

primrec typings :: "Type \<Rightarrow> (Var \<Rightarrow> bool) \<times> ((string \<times> Var) list \<Rightarrow> bool)" where
  "typings (NativeType k) = (typedNative (nativeAlternative k), \<lambda>m. True)"
| "typings (EnumType a n es st) = (typedNative (nativeAlternative st), \<lambda>m. True)"
| "typings (QuantityType a k n e u mn mx) = (typedNative (quantityAlternative k e), \<lambda>m. True)"
| "typings (SequenceType a n e mx fx) =
    (\<lambda>v. case v of
       VList vs \<Rightarrow> length vs < 2 ^ 32 \<and> (fx \<longrightarrow> mx = Some (of_nat (length vs))) \<and> (\<forall>x \<in> set vs. fst (typings e) x)
     | _ \<Rightarrow> False, \<lambda>m. True)"
| "typings (AliasType a n e) = (fst (typings e), \<lambda>m. True)"
| "typings (OptionalType a n e) = (\<lambda>v. v = VEmpty \<or> fst (typings e) v, \<lambda>m. True)"
| "typings (VariantType a n fs) =
    (\<lambda>v. case v of
       VKeyed key (Some x) \<Rightarrow>
         (case find (\<lambda>f. variant_key f = key) (map (map_VariantField typings) fs) of
            None \<Rightarrow> False | Some f \<Rightarrow> fst (variant_type f) x)
     | _ \<Rightarrow> False, \<lambda>m. True)"
| "typings (StructType a n fs p) =
    (let all = (\<lambda>m.
       (case map_option typings p of None \<Rightarrow> True | Some up \<Rightarrow> snd up m)
       \<and> (\<forall>f \<in> set (map (map_StructField typings) fs).
            case map_of m (field_name f) of None \<Rightarrow> False | Some x \<Rightarrow> fst (field_type f) x))
     in (\<lambda>v. case v of
           VMap m \<Rightarrow> keysAscend m \<and> fst ` set m = set (fieldNames (StructType a n fs p)) \<and> all m
         | _ \<Rightarrow> False, all))"
| "typings (ClassType a c) = (\<lambda>v. False, \<lambda>m. True)"

definition hasType :: "Type \<Rightarrow> Var \<Rightarrow> bool" where
  "hasType t v = fst (typings t) v"

text \<open>The types whose size the getter computes: no struct with a parent, no sequence of fixed size.\<close>

primrec sizedLayout :: "Type \<Rightarrow> bool" where
  "sizedLayout (NativeType k) = True"
| "sizedLayout (EnumType a n es st) = True"
| "sizedLayout (QuantityType a k n e u mn mx) = True"
| "sizedLayout (SequenceType a n e mx fx) = (\<not> fx \<and> sizedLayout e)"
| "sizedLayout (AliasType a n e) = sizedLayout e"
| "sizedLayout (OptionalType a n e) = sizedLayout e"
| "sizedLayout (VariantType a n fs) = (\<forall>f \<in> set (map (map_VariantField sizedLayout) fs). variant_type f)"
| "sizedLayout (StructType a n fs p) =
     (map_option sizedLayout p = None \<and> (\<forall>f \<in> set (map (map_StructField sizedLayout) fs). field_type f))"
| "sizedLayout (ClassType a c) = True"

text \<open>
  The types whose values can be read: no class, the sizes of sequences of fixed size given and of 32
  bits, and no field of a struct named as another or as an inherited one.
\<close>

primrec decodable :: "Type \<Rightarrow> bool" where
  "decodable (NativeType k) = True"
| "decodable (EnumType a n es st) = True"
| "decodable (QuantityType a k n e u mn mx) = True"
| "decodable (SequenceType a n e mx fx) =
     (decodable e \<and> (fx \<longrightarrow> (case mx of None \<Rightarrow> False | Some s \<Rightarrow> unat s < 2 ^ 32)))"
| "decodable (AliasType a n e) = decodable e"
| "decodable (OptionalType a n e) = decodable e"
| "decodable (VariantType a n fs) = (\<forall>f \<in> set (map (map_VariantField decodable) fs). variant_type f)"
| "decodable (StructType a n fs p) =
     ((case map_option decodable p of None \<Rightarrow> True | Some d \<Rightarrow> d)
      \<and> (\<forall>f \<in> set (map (map_StructField decodable) fs). field_type f)
      \<and> distinct (fieldNames (StructType a n fs p)))"
| "decodable (ClassType a c) = False"

section \<open>Reading back what was written\<close>

lemma advanceBytes_append: "length bs = n \<Longrightarrow> advanceBytes n (bs @ rest) = Inr (bs, rest)"
  by (simp add: advanceBytes_def)

lemma readBasic_leBytes:
  assumes "LENGTH('a :: len) = 8 * n"
  shows "readBasic n (leBytes n (w :: 'a word) @ rest) = Inr (w, rest)"
  using ofLe_leBytes [OF assms, of w] by (simp add: readBasic_def advanceBytes_append)

lemma char_roundtrip: "char_of (unat (charByte c)) = c"
proof -
  have "charByte c = of_nat (of_char c)"
    unfolding charByte_def by (rule of_nat_of_char [symmetric])
  moreover have "(of_char c :: nat) < 256"
    by simp
  ultimately have "unat (charByte c) = of_char c"
    by (simp add: unsigned_of_nat take_bit_nat_eq_self)
  then show ?thesis
    by simp
qed

lemma unat_length: "n < 2 ^ 32 \<Longrightarrow> unat (of_nat n :: u32) = n"
  by (simp add: unsigned_of_nat take_bit_nat_eq_self)

lemma length_zero: "n < 2 ^ 32 \<Longrightarrow> (of_nat n :: u32) = 0 \<longleftrightarrow> n = 0"
  using unat_length [of n] by auto

lemma readString_writeString:
  assumes "length s < 2 ^ 32"
  shows "readString (writeString s @ rest) = Inr (s, rest)"
  using assms unat_length [OF assms] length_zero [OF assms]
  by (simp add: readString_def writeString_def readBasic_leBytes Let_def advanceBytes_append o_def char_roundtrip)

lemma readAlternative_writeValue:
  assumes "typedNative (Some a) v"
  shows "readAlternative a (writeValue v @ rest) = Inr (v, rest)"
  using assms readBasic_leBytes [where 'a = 8 and n = 1, of _ rest]
  by (cases v; simp add: typedNative_def holds_def readAs_def readBasic_leBytes readString_writeString)
    (auto simp: readBasic_def advanceBytes_def ofLe_def)

lemma native_roundtrip:
  assumes "typedNative alt v"
  shows "\<exists>bs. writeNative conv alt v = Inr bs \<and> readNative alt VEmpty (bs @ rest) = Inr (v, rest)"
proof (cases alt)
  case None
  then show ?thesis
    using assms by (simp add: writeNative_def readNative_def typedNative_def)
next
  case (Some a)
  then have "writeNative conv alt v = Inr (writeValue v)"
    using assms by (simp add: writeNative_def copyAs_def typedNative_def)
  then show ?thesis
    using readAlternative_writeValue [of a v rest] Some assms by (simp add: readNative_def)
qed

lemma elements_roundtrip:
  assumes "\<And>v rest. v \<in> set vs \<Longrightarrow> \<exists>bs. wr v = Inr bs \<and> r VEmpty (bs @ rest) = Inr (v, rest)"
  shows "\<exists>bs. writeElements wr vs = Inr bs \<and> readElements (length vs) r (bs @ rest) = Inr (vs, rest)"
  using assms
proof (induction vs)
  case (Cons v vs)
  obtain bs where bs: "writeElements wr vs = Inr bs" "readElements (length vs) r (bs @ rest) = Inr (vs, rest)"
    using Cons by auto
  obtain b where "wr v = Inr b" "r VEmpty (b @ bs @ rest) = Inr (v, bs @ rest)"
    using Cons.prems [of v "bs @ rest"] by auto
  then show ?case
    using bs by simp
qed simp

text \<open>The map a reader builds: sorted, with entries of the map that was written.\<close>

definition agrees :: "(string \<times> Var) list \<Rightarrow> (string \<times> Var) list \<Rightarrow> bool" where
  "agrees m0 m \<longleftrightarrow> (\<forall>(k, v) \<in> set m0. map_of m k = Some v)"

lemma mapEmplace_keys: "fst ` set (mapEmplace k v m) = insert k (fst ` set m)"
  by (induction k v m rule: mapEmplace.induct) auto

lemma mapEmplace_set: "set (mapEmplace k v m) \<subseteq> insert (k, v) (set m)"
  by (induction k v m rule: mapEmplace.induct) auto

lemma mapEmplace_ascend: "keysAscend m \<Longrightarrow> keysAscend (mapEmplace k v m)"
proof (induction k v m rule: mapEmplace.induct)
  case (2 k v j u m)
  have m: "\<And>i w. (i, w) \<in> set m \<Longrightarrow> j < i" "keysAscend m"
    using 2(2) by auto
  consider "k = j" | "k < j" | "j < k"
    by (rule linorder_cases)
  then show ?case
  proof cases
    case 1
    then show ?thesis
      using 2(2) by simp
  next
    case less: 2
    have "k < i" if "(i, w) \<in> set m" for i w
      using less m(1) [OF that] by (rule less_trans)
    then show ?thesis
      using less 2(2) by auto
  next
    case 3
    then have "j < i" if "(i, w) \<in> set (mapEmplace k v m)" for i w
      using that mapEmplace_set [of k v m] m(1) by auto
    then show ?thesis
      using 3 2(1) m(2) by auto
  qed
qed simp

lemma mapEmplace_agrees: "agrees m0 m \<Longrightarrow> map_of m k = Some v \<Longrightarrow> agrees (mapEmplace k v m0) m"
  using mapEmplace_set [of k v m0] by (auto simp: agrees_def)

lemma keysAscend_distinct: "keysAscend m \<Longrightarrow> distinct (map fst m)"
  by (induction m rule: keysAscend.induct) auto

lemma keysAscend_sorted: "keysAscend m \<Longrightarrow> sorted (map fst m)"
  by (induction m rule: keysAscend.induct) auto

lemma agrees_eq:
  assumes "keysAscend m0" "keysAscend m" "agrees m0 m" "fst ` set m0 = fst ` set m"
  shows "m0 = m"
proof -
  have keys: "map fst m0 = map fst m"
    using assms by (intro sorted_distinct_set_unique) (auto simp: keysAscend_sorted keysAscend_distinct)
  show ?thesis
  proof (rule nth_equalityI)
    show len: "length m0 = length m"
      using keys by (rule map_eq_imp_length_eq)
    fix i
    assume i: "i < length m0"
    then have "map_of m (fst (m0 ! i)) = Some (snd (m0 ! i))"
      using assms(3) nth_mem [OF i] by (auto simp: agrees_def case_prod_unfold)
    moreover have "fst (m0 ! i) = fst (m ! i)"
      using keys i len by (metis nth_map)
    moreover have "map_of m (fst (m ! i)) = Some (snd (m ! i))"
      using keysAscend_distinct [OF assms(2)] i len by (simp add: map_of_is_SomeI)
    ultimately show "m0 ! i = m ! i"
      by (simp add: prod_eq_iff)
  qed
qed

text \<open>
  What the round trip says of a type: for its values, and for the fields of a struct when some are in the map
  already.
\<close>

definition roundTrips :: "conversion \<Rightarrow> Type \<Rightarrow> bool" where
  "roundTrips conv t \<longleftrightarrow>
     (\<forall>v rest. fst (typings t) v \<longrightarrow>
        (\<exists>bs. fst (writers conv t) v = Inr bs \<and> fst (readers t) VEmpty (bs @ rest) = Inr (v, rest)))
     \<and> (\<forall>m m0 rest. snd (typings t) m \<and> agrees m0 m \<and> keysAscend m0 \<longrightarrow>
        (\<exists>bs m1. snd (writers conv t) m = Inr bs \<and> snd (readers t) m0 (bs @ rest) = Inr (m1, rest)
           \<and> agrees m1 m \<and> keysAscend m1 \<and> fst ` set m1 = fst ` set m0 \<union> set (fieldNames t)))"

lemma roundTrips_value:
  assumes "roundTrips conv t" "fst (typings t) v"
  obtains bs where "fst (writers conv t) v = Inr bs" "fst (readers t) VEmpty (bs @ rest) = Inr (v, rest)"
  using assms unfolding roundTrips_def by blast

lemma roundTrips_fields:
  assumes "roundTrips conv t" "snd (typings t) m" "agrees m0 m" "keysAscend m0"
  obtains bs m1 where "snd (writers conv t) m = Inr bs" "snd (readers t) m0 (bs @ rest) = Inr (m1, rest)"
    "agrees m1 m" "keysAscend m1" "fst ` set m1 = fst ` set m0 \<union> set (fieldNames t)"
  using assms unfolding roundTrips_def by blast

lemma fields_roundtrip:
  assumes "\<And>f. f \<in> set fs \<Longrightarrow> roundTrips conv (field_type f)"
    "\<And>f. f \<in> set fs \<Longrightarrow> \<exists>x. map_of m (field_name f) = Some x \<and> fst (typings (field_type f)) x"
    "agrees m0 m" "keysAscend m0"
  shows "\<exists>bs m1. writeFields (map (map_StructField (writers conv)) fs) m = Inr bs
    \<and> readFields (map (map_StructField readers) fs) m0 (bs @ rest) = Inr (m1, rest)
    \<and> agrees m1 m \<and> keysAscend m1 \<and> fst ` set m1 = fst ` set m0 \<union> field_name ` set fs"
  using assms
proof (induction fs arbitrary: m0)
  case (Cons f fs)
  obtain x where x: "map_of m (field_name f) = Some x" "fst (typings (field_type f)) x"
    using Cons.prems(2) [of f] by auto
  obtain bs m1 where rest: "writeFields (map (map_StructField (writers conv)) fs) m = Inr bs"
      "readFields (map (map_StructField readers) fs) (mapEmplace (field_name f) x m0) (bs @ rest) = Inr (m1, rest)"
      "agrees m1 m" "keysAscend m1" "fst ` set m1 = fst ` set (mapEmplace (field_name f) x m0) \<union> field_name ` set fs"
    using Cons.IH [of "mapEmplace (field_name f) x m0"] Cons.prems x
    by (auto simp: mapEmplace_agrees mapEmplace_ascend)
  obtain b where b: "fst (writers conv (field_type f)) x = Inr b"
      "fst (readers (field_type f)) VEmpty (b @ bs @ rest) = Inr (x, bs @ rest)"
    using roundTrips_value [OF Cons.prems(1) x(2)] by auto
  show ?case
    using rest b x by (auto simp: StructField.map_sel mapEmplace_keys)
qed simp

lemma noFields:
  "\<lbrakk>snd (typings t) = (\<lambda>m. True); snd (writers conv t) = (\<lambda>m. Inr []); snd (readers t) = (\<lambda>m bs. Inr (m, bs));
    fieldNames t = [];
    \<And>v rest. fst (typings t) v \<Longrightarrow>
      \<exists>bs. fst (writers conv t) v = Inr bs \<and> fst (readers t) VEmpty (bs @ rest) = Inr (v, rest)\<rbrakk>
   \<Longrightarrow> roundTrips conv t"
  by (simp add: roundTrips_def)

lemma sequence_roundtrip:
  assumes "roundTrips conv e"
  shows "roundTrips conv (SequenceType a n e mx fx)"
proof (rule noFields)
  fix v rest
  assume "fst (typings (SequenceType a n e mx fx)) v"
  then obtain vs where v: "v = VList vs" "length vs < 2 ^ 32" "fx \<longrightarrow> mx = Some (of_nat (length vs))"
      "\<forall>x \<in> set vs. fst (typings e) x"
    by (auto split: Var.splits)
  obtain bs where bs: "writeElements (fst (writers conv e)) vs = Inr bs"
      "readElements (length vs) (fst (readers e)) (bs @ rest) = Inr (vs, rest)"
    using elements_roundtrip [of vs "fst (writers conv e)" "fst (readers e)" rest] v(4) roundTrips_value [OF assms]
    by blast
  have size: "unat (of_nat (length vs) :: u32) = length vs" "(of_nat (length vs) :: u32) = 0 \<longleftrightarrow> vs = []"
    using unat_length [OF v(2)] length_zero [OF v(2)] by simp_all
  have wide: "unat (of_nat (length vs) :: u64) = length vs"
    using v(2) by (simp add: unsigned_of_nat take_bit_nat_eq_self)
  have size64: "(of_nat (length vs) :: u64) = 0 \<longleftrightarrow> vs = []"
    using wide by (metis length_0_conv of_nat_0 unat_eq_zero unsigned_0)
  have narrow: "(ucast (of_nat (length vs) :: u64) :: u32) = of_nat (length vs)"
    by (metis of_nat_unat wide)
  show "\<exists>bs. fst (writers conv (SequenceType a n e mx fx)) v = Inr bs
      \<and> fst (readers (SequenceType a n e mx fx)) VEmpty (bs @ rest) = Inr (v, rest)"
    using v bs size size64 narrow
    by (cases fx; cases "vs = []") (auto simp: writeSequence_def Let_def readBasic_leBytes)
qed simp_all

lemma find_variant: "find (\<lambda>f. variant_key f = key) (map (map_VariantField g) fs) =
    map_option (map_VariantField g) (find (\<lambda>f. variant_key f = key) fs)"
  by (induction fs) (auto simp: VariantField.map_sel)

lemma variant_roundtrip:
  assumes "\<And>f. f \<in> set fs \<Longrightarrow> roundTrips conv (variant_type f)"
  shows "roundTrips conv (VariantType a n fs)"
proof (rule noFields)
  fix v rest
  assume "fst (typings (VariantType a n fs)) v"
  then obtain key x f where v: "v = VKeyed key (Some x)" "find (\<lambda>f. variant_key f = key) fs = Some f"
      "fst (typings (variant_type f)) x"
    by (auto simp: find_variant VariantField.map_sel split: Var.splits option.splits)
  then have "f \<in> set fs"
    by (auto simp: find_Some_iff)
  then obtain bs where "fst (writers conv (variant_type f)) x = Inr bs"
      "fst (readers (variant_type f)) VEmpty (bs @ rest) = Inr (x, rest)"
    using roundTrips_value [OF assms v(3)] by blast
  then show "\<exists>bs. fst (writers conv (VariantType a n fs)) v = Inr bs
      \<and> fst (readers (VariantType a n fs)) VEmpty (bs @ rest) = Inr (v, rest)"
    using v by (simp add: writeVariant_def writeKeyed_def find_variant VariantField.map_sel readBasic_leBytes)
qed simp_all

lemma struct_roundtrip:
  assumes "\<And>f. f \<in> set fs \<Longrightarrow> roundTrips conv (field_type f)" "\<And>t. p = Some t \<Longrightarrow> roundTrips conv t"
  shows "roundTrips conv (StructType a n fs p)"
proof -
  let ?t = "StructType a n fs p"
  have fields: "\<exists>bs m1. snd (writers conv ?t) m = Inr bs \<and> snd (readers ?t) m0 (bs @ rest) = Inr (m1, rest)
      \<and> agrees m1 m \<and> keysAscend m1 \<and> fst ` set m1 = fst ` set m0 \<union> set (fieldNames ?t)"
    if hyps: "snd (typings ?t) m" "agrees m0 m" "keysAscend m0" for m m0 rest
  proof -
    have own: "\<exists>x. map_of m (field_name f) = Some x \<and> fst (typings (field_type f)) x" if "f \<in> set fs" for f
      using \<open>snd (typings ?t) m\<close> that by (auto simp: StructField.map_sel Let_def split: option.splits)
    show ?thesis
    proof (cases p)
      case None
      then show ?thesis
        using fields_roundtrip [OF assms(1) own hyps(2,3), of fs rest] by (auto simp: Let_def)
    next
      case (Some t)
      then have "snd (typings t) m"
        using hyps(1) by (simp add: Let_def)
      obtain bs2 m2 where "writeFields (map (map_StructField (writers conv)) fs) m = Inr bs2" 
        using fields_roundtrip [OF assms(1) own hyps(2,3), of fs rest] by auto
      obtain bs' m1 where up: "snd (writers conv t) m = Inr bs'" "snd (readers t) m0 (bs' @ bs2 @ rest) = Inr (m1, bs2 @ rest)"
          "agrees m1 m" "keysAscend m1" "fst ` set m1 = fst ` set m0 \<union> set (fieldNames t)"
        using roundTrips_fields [OF assms(2) [OF Some] \<open>snd (typings t) m\<close> hyps(2,3), of "bs2 @ rest"] by blast
      obtain bs3 m3 where own': "writeFields (map (map_StructField (writers conv)) fs) m = Inr bs3"
          "readFields (map (map_StructField readers) fs) m1 (bs3 @ rest) = Inr (m3, rest)"
          "agrees m3 m" "keysAscend m3" "fst ` set m3 = fst ` set m1 \<union> field_name ` set fs"
        using fields_roundtrip [OF assms(1) own up(3,4), of fs rest] by auto
      then show ?thesis
        using up Some \<open>writeFields _ m = Inr bs2\<close> by (auto simp: Let_def)
    qed
  qed
  have "\<exists>bs. fst (writers conv ?t) v = Inr bs \<and> fst (readers ?t) VEmpty (bs @ rest) = Inr (v, rest)"
    if typed: "fst (typings ?t) v" for v rest
  proof -
    obtain m where v: "v = VMap m" "keysAscend m" "fst ` set m = set (fieldNames ?t)" "snd (typings ?t) m"
      using typed by (cases v) (simp_all add: Let_def del: fieldNames.simps)
    obtain bs m1 where bs: "snd (writers conv ?t) m = Inr bs" "snd (readers ?t) [] (bs @ rest) = Inr (m1, rest)"
        "agrees m1 m" "keysAscend m1" "fst ` set m1 = set (fieldNames ?t)"
      using fields [OF v(4), of "[]" rest] by (auto simp: agrees_def)
    then have "m1 = m"
      using v(2,3) by (intro agrees_eq) simp_all
    then show ?thesis
      using bs(1,2) v(1) by (simp add: Let_def)
  qed
  then show ?thesis
    unfolding roundTrips_def using fields by blast
qed

lemma all_roundTrip: "roundTrips conv t"
proof (induction t)
  case (NativeType k)
  then show ?case
    by (rule noFields) (simp_all add: native_roundtrip)
next
  case (EnumType a n es st)
  then show ?case
    by (rule noFields) (simp_all add: native_roundtrip)
next
  case (QuantityType a k n e u mn mx)
  then show ?case
    by (rule noFields) (simp_all add: native_roundtrip)
next
  case (SequenceType a n e mx fx)
  then show ?case
    by (rule sequence_roundtrip)
next
  case (AliasType a n e)
  then show ?case
    by (intro noFields) (auto simp: elim: roundTrips_value)
next
  case (OptionalType a n e)
  show ?case
  proof (rule noFields)
    fix v rest
    assume "fst (typings (OptionalType a n e)) v"
    then consider "v = VEmpty" | "v \<noteq> VEmpty" "fst (typings e) v"
      by auto
    then show "\<exists>bs. fst (writers conv (OptionalType a n e)) v = Inr bs
        \<and> fst (readers (OptionalType a n e)) VEmpty (bs @ rest) = Inr (v, rest)"
    proof cases
      case 2
      obtain bs where "fst (writers conv e) v = Inr bs" "fst (readers e) VEmpty (bs @ rest) = Inr (v, rest)"
        using roundTrips_value [OF OptionalType 2(2)] .
      then show ?thesis
        using 2 by (simp add: readBasic_def advanceBytes_def ofLe_def)
    qed (simp add: readBasic_def advanceBytes_def ofLe_def)
  qed simp_all
next
  case (VariantType a n fs)
  show ?case
  proof (rule variant_roundtrip)
    show "roundTrips conv (variant_type f)" if "f \<in> set fs" for f
      using that by (rule VariantType) (rule VariantField.set_sel)
  qed
next
  case (StructType a n fs p)
  show ?case
  proof (rule struct_roundtrip)
    show "roundTrips conv (field_type f)" if "f \<in> set fs" for f
      using that by (rule StructType(1)) (rule StructField.set_sel)
    show "roundTrips conv t" if "p = Some t" for t
      using that by (rule_tac StructType(2)) simp_all
  qed
next
  case (ClassType a c)
  then show ?case
    by (intro noFields) simp_all
qed

section \<open>Sizes computed beforehand\<close>

definition exactSize :: "conversion \<Rightarrow> Type \<Rightarrow> bool" where
  "exactSize conv t \<longleftrightarrow> (\<forall>v. fst (typings t) v \<longrightarrow>
     (\<exists>bs. fst (writers conv t) v = Inr bs \<and> serializedSize conv t v = Inr (of_nat (length bs))))"

lemma exactSizeI:
  "(\<And>v. fst (typings t) v \<Longrightarrow>
     \<exists>bs. fst (writers conv t) v = Inr bs \<and> serializedSize conv t v = Inr (of_nat (length bs)))
   \<Longrightarrow> exactSize conv t"
  by (simp add: exactSize_def)

lemma exactSizeD:
  assumes "exactSize conv t" "fst (typings t) v"
  shows "\<exists>bs. fst (writers conv t) v = Inr bs \<and> serializedSize conv t v = Inr (of_nat (length bs))"
  using assms unfolding exactSize_def by blast

lemma sizeOfValue_length:
  assumes "typedNative (Some a) v"
  shows "sizeOfValue v = of_nat (length (writeValue v))"
  using assms unat_length length_zero
  by (cases v) (auto simp: typedNative_def holds_def writeString_def Let_def)

lemma native_size:
  assumes "typedNative alt v"
  shows "\<exists>bs. writeNative conv alt v = Inr bs \<and> sizeOfNative conv alt v = Inr (of_nat (length bs))"
  using assms sizeOfValue_length
  by (cases alt) (auto simp: writeNative_def sizeOfNative_def copyAs_def typedNative_def)

lemma elements_size:
  assumes "exactSize conv e" "\<forall>x \<in> set vs. fst (typings e) x"
  shows "\<exists>bs. writeElements (fst (writers conv e)) vs = Inr bs
    \<and> sumSizes (map (serializedSize conv e) vs) = Inr (of_nat (length bs))"
  using assms(2)
proof (induction vs)
  case (Cons v vs)
  then obtain bs b where "writeElements (fst (writers conv e)) vs = Inr bs"
      "sumSizes (map (serializedSize conv e) vs) = Inr (of_nat (length bs))"
      "fst (writers conv e) v = Inr b" "serializedSize conv e v = Inr (of_nat (length b))"
    using exactSizeD [OF assms(1), of v] by auto
  then show ?case
    by simp
qed simp

lemma fields_size:
  assumes "\<And>f. f \<in> set fs \<Longrightarrow> exactSize conv (field_type f)"
    "\<And>f. f \<in> set fs \<Longrightarrow> \<exists>x. map_of m (field_name f) = Some x \<and> fst (typings (field_type f)) x"
  shows "\<exists>bs. writeFields (map (map_StructField (writers conv)) fs) m = Inr bs
    \<and> sumSizes (map (\<lambda>f. case map_of m (field_name f) of None \<Rightarrow> Inl NullAccess | Some x \<Rightarrow> field_type f x)
          (map (map_StructField (serializedSize conv)) fs)) = Inr (of_nat (length bs))"
  using assms
proof (induction fs)
  case (Cons f fs)
  obtain x where x: "map_of m (field_name f) = Some x" "fst (typings (field_type f)) x"
    using Cons.prems(2) [of f] by auto
  obtain b where "fst (writers conv (field_type f)) x = Inr b"
      "serializedSize conv (field_type f) x = Inr (of_nat (length b))"
    using exactSizeD [OF Cons.prems(1) x(2)] by auto
  moreover obtain bs where "writeFields (map (map_StructField (writers conv)) fs) m = Inr bs"
      "sumSizes (map (\<lambda>f. case map_of m (field_name f) of None \<Rightarrow> Inl NullAccess | Some x \<Rightarrow> field_type f x)
          (map (map_StructField (serializedSize conv)) fs)) = Inr (of_nat (length bs))"
    using Cons.IH Cons.prems by auto
  ultimately show ?case
    using x by (simp add: StructField.map_sel)
qed simp

lemma sequence_size:
  assumes "exactSize conv e"
  shows "exactSize conv (SequenceType a n e mx False)"
proof (rule exactSizeI)
  fix v
  assume "fst (typings (SequenceType a n e mx False)) v"
  then obtain vs where v: "v = VList vs" "length vs < 2 ^ 32" "\<forall>x \<in> set vs. fst (typings e) x"
    by (auto split: Var.splits)
  obtain bs where "writeElements (fst (writers conv e)) vs = Inr bs"
      "sumSizes (map (serializedSize conv e) vs) = Inr (of_nat (length bs))"
    using elements_size [OF assms v(3)] by auto
  then show "\<exists>bs. fst (writers conv (SequenceType a n e mx False)) v = Inr bs
      \<and> serializedSize conv (SequenceType a n e mx False) v = Inr (of_nat (length bs))"
    using v(1) by (simp add: writeSequence_def Let_def)
qed

lemma variant_size:
  assumes "\<And>f. f \<in> set fs \<Longrightarrow> exactSize conv (variant_type f)"
  shows "exactSize conv (VariantType a n fs)"
proof (rule exactSizeI)
  fix v
  assume "fst (typings (VariantType a n fs)) v"
  then obtain key x f where v: "v = VKeyed key (Some x)" "find (\<lambda>f. variant_key f = key) fs = Some f"
      "fst (typings (variant_type f)) x"
    by (auto simp: find_variant VariantField.map_sel split: Var.splits option.splits)
  then have "f \<in> set fs"
    by (auto simp: find_Some_iff)
  then obtain bs where "fst (writers conv (variant_type f)) x = Inr bs"
      "serializedSize conv (variant_type f) x = Inr (of_nat (length bs))"
    using exactSizeD [OF assms v(3)] by blast
  then show "\<exists>bs. fst (writers conv (VariantType a n fs)) v = Inr bs
      \<and> serializedSize conv (VariantType a n fs) v = Inr (of_nat (length bs))"
    using v by (simp add: writeVariant_def writeKeyed_def find_variant VariantField.map_sel)
qed

lemma struct_size:
  assumes "\<And>f. f \<in> set fs \<Longrightarrow> exactSize conv (field_type f)"
  shows "exactSize conv (StructType a n fs None)"
proof (rule exactSizeI)
  fix v
  assume typed: "fst (typings (StructType a n fs None)) v"
  then obtain m where v: "v = VMap m"
    by (auto simp: Let_def split: Var.splits)
  have "\<exists>x. map_of m (field_name f) = Some x \<and> fst (typings (field_type f)) x" if "f \<in> set fs" for f
    using typed that unfolding v by (auto simp: StructField.map_sel Let_def split: option.splits)
  then show "\<exists>bs. fst (writers conv (StructType a n fs None)) v = Inr bs
      \<and> serializedSize conv (StructType a n fs None) v = Inr (of_nat (length bs))"
    using fields_size [OF assms, of fs m] v by (auto simp: Let_def)
qed

lemma sizedLayout_exact: "sizedLayout t \<Longrightarrow> exactSize conv t"
proof (induction t)
  case (SequenceType a n e mx fx)
  then show ?case
    by (simp add: sequence_size)
next
  case (AliasType a n e)
  then show ?case
    by (simp add: exactSize_def)
next
  case (OptionalType a n e)
  show ?case
  proof (rule exactSizeI)
    fix v
    assume "fst (typings (OptionalType a n e)) v"
    then consider "v = VEmpty" | "v \<noteq> VEmpty" "fst (typings e) v"
      by auto
    then show "\<exists>bs. fst (writers conv (OptionalType a n e)) v = Inr bs
        \<and> serializedSize conv (OptionalType a n e) v = Inr (of_nat (length bs))"
      using OptionalType exactSizeD [of conv e v] by cases auto
  qed
next
  case (VariantType a n fs)
  show ?case
  proof (rule variant_size)
    show "exactSize conv (variant_type f)" if "f \<in> set fs" for f
      using that VariantType(2) by (intro VariantType(1) [OF that VariantField.set_sel]) (simp add: VariantField.map_sel)
  qed
next
  case (StructType a n fs p)
  have "exactSize conv (field_type f)" if "f \<in> set fs" for f
    using that StructType(3) by (intro StructType(1) [OF that StructField.set_sel]) (simp add: StructField.map_sel)
  then show ?case
    using StructType(3) struct_size by simp
qed (auto simp: native_size intro: exactSizeI)

section \<open>Reading arbitrary bytes\<close>

definition reported :: "stream_exn \<Rightarrow> bool" where
  "reported e \<longleftrightarrow> e = Underflow \<or> (\<exists>k q. e = MissingKey k q)"

text \<open>A reading is sound when it reports an error or gives a value of which \<open>Q\<close> holds, and a rest of the input.\<close>

definition sound :: "('a \<Rightarrow> bool) \<Rightarrow> u8 list \<Rightarrow> stream_exn + 'a \<times> u8 list \<Rightarrow> bool" where
  "sound Q bs r \<longleftrightarrow> (case r of Inl e \<Rightarrow> reported e | Inr (x, rest) \<Rightarrow> Q x \<and> suffix rest bs)"

lemma sound_bind:
  assumes "sound Q bs r" "\<And>x rest. Q x \<Longrightarrow> sound R rest (f (x, rest))"
  shows "sound R bs (rbind r f)"
proof (cases r)
  case (Inl e)
  then show ?thesis
    using assms(1) by (simp add: sound_def)
next
  case (Inr y)
  obtain x rest where y: "y = (x, rest)"
    by (rule prod.exhaust)
  then have "Q x" "suffix rest bs"
    using assms(1) Inr by (simp_all add: sound_def)
  then show ?thesis
    using assms(2) [of x rest] Inr y suffix_order.order_trans [of _ rest bs]
    by (auto simp: sound_def split: sum.splits prod.splits)
qed

lemma sound_return: "Q x \<Longrightarrow> sound Q bs (Inr (x, bs))"
  by (simp add: sound_def)

lemma sound_weaken: "\<lbrakk>sound Q bs r; \<And>x. Q x \<Longrightarrow> R x\<rbrakk> \<Longrightarrow> sound R bs r"
  by (auto simp: sound_def split: sum.splits)

lemma sound_advance: "sound (\<lambda>b. length b = n) bs (advanceBytes n bs)"
  by (simp add: sound_def advanceBytes_def reported_def suffix_drop)

lemma sound_basic: "sound (\<lambda>_. True) bs (readBasic n bs)"
  unfolding readBasic_def by (rule sound_bind [OF sound_advance]) (simp add: sound_return)

lemma sound_string: "sound (\<lambda>s. length s < 2 ^ 32) bs (readString bs)"
  unfolding readString_def
proof (rule sound_bind [OF sound_basic], clarsimp, intro conjI impI)
  fix size :: u32 and rest
  show "sound (\<lambda>s. length s < 4294967296) rest (Inr ([], rest))"
    by (simp add: sound_return)
  have "unat size < 4294967296"
    using unsigned_less [of size, where 'a = nat] by simp
  then show "sound (\<lambda>s. length s < 4294967296) rest
      (rbind (advanceBytes (unat size) rest) (\<lambda>(b, rest). Inr (map (char_of \<circ> unat) b, rest)))"
    by (intro sound_bind [OF sound_advance]) (simp add: sound_return)
qed

lemma sound_as: "(\<And>x. Q (mk x)) \<Longrightarrow> sound Q bs (readAs n mk bs)"
  unfolding readAs_def by (rule sound_bind [OF sound_basic]) (simp add: sound_return)

lemma sound_native: "sound (typedNative alt) bs (readNative alt VEmpty bs)"
proof (cases alt)
  case None
  then show ?thesis
    by (simp add: readNative_def sound_return typedNative_def)
next
  case (Some a)
  have "sound (typedNative (Some a)) bs (readAlternative a bs)"
    by (cases a; simp)
      (auto intro!: sound_as sound_bind [OF sound_string] sound_return simp: typedNative_def holds_def)
  then show ?thesis
    using Some by (simp add: readNative_def)
qed

lemma sound_elements:
  assumes "\<And>bs. sound P bs (r VEmpty bs)"
  shows "sound (\<lambda>vs. length vs = n \<and> (\<forall>x \<in> set vs. P x)) bs (readElements n r bs)"
proof (induction n arbitrary: bs)
  case (Suc n)
  show ?case
    by (simp, rule sound_bind [OF assms], simp, rule sound_bind [OF Suc]) (simp add: sound_return)
qed (simp add: sound_return)

definition mapsApart :: "Type \<Rightarrow> (string \<times> Var) list \<Rightarrow> bool" where
  "mapsApart t m \<longleftrightarrow> keysAscend m \<and> fst ` set m \<inter> set (fieldNames t) = {}"

text \<open>\<open>m1\<close> is the map \<open>m\<close> with entries added for the names \<open>ks\<close>.\<close>

definition extendsBy :: "string list \<Rightarrow> (string \<times> Var) list \<Rightarrow> (string \<times> Var) list \<Rightarrow> bool" where
  "extendsBy ks m m1 \<longleftrightarrow> keysAscend m1 \<and> fst ` set m1 = fst ` set m \<union> set ks
     \<and> (\<forall>k \<in> fst ` set m. map_of m1 k = map_of m k)"

definition decodes :: "Type \<Rightarrow> bool" where
  "decodes t \<longleftrightarrow> (\<forall>bs. sound (fst (typings t)) bs (fst (readers t) VEmpty bs))
     \<and> (\<forall>m bs. mapsApart t m \<longrightarrow>
          sound (\<lambda>m1. extendsBy (fieldNames t) m m1 \<and> snd (typings t) m1) bs (snd (readers t) m bs))"

lemma decodesI:
  "\<lbrakk>snd (typings t) = (\<lambda>m. True); snd (readers t) = (\<lambda>m bs. Inr (m, bs)); fieldNames t = [];
    \<And>bs. sound (fst (typings t)) bs (fst (readers t) VEmpty bs)\<rbrakk> \<Longrightarrow> decodes t"
  by (auto simp: decodes_def mapsApart_def extendsBy_def intro: sound_return)

lemma mapEmplace_lookup:
  "k \<notin> fst ` set m \<Longrightarrow> map_of (mapEmplace k v m) = (map_of m)(k \<mapsto> v)"
  by (induction k v m rule: mapEmplace.induct) auto

lemma extendsBy_emplace:
  assumes "keysAscend m" "k \<notin> fst ` set m" "extendsBy ks (mapEmplace k v m) m1"
  shows "extendsBy (k # ks) m m1" "map_of m1 k = Some v"
  using assms by (auto simp: extendsBy_def mapEmplace_keys mapEmplace_lookup)

lemma typings_extends:
  "(\<And>k. k \<in> set (fieldNames t) \<Longrightarrow> map_of m1 k = map_of m k) \<Longrightarrow> snd (typings t) m \<Longrightarrow> snd (typings t) m1"
proof (induction t)
  case (StructType a n fs p)
  have "snd (typings t) m1" if "p = Some t" for t
    using that StructType(2) [of t] StructType(3,4) by (auto simp: Let_def)
  moreover have "map_of m1 (field_name f) = map_of m (field_name f)" if "f \<in> set fs" for f
    using that StructType(3) by simp
  ultimately show ?case
    using StructType(4) by (auto simp: Let_def StructField.map_sel split: option.splits)
qed simp_all

lemma sound_fields:
  assumes "\<And>f. f \<in> set fs \<Longrightarrow> decodes (field_type f)"
    "keysAscend m" "distinct (map field_name fs)" "fst ` set m \<inter> field_name ` set fs = {}"
  shows "sound (\<lambda>m1. extendsBy (map field_name fs) m m1 \<and>
      (\<forall>f \<in> set fs. \<exists>x. map_of m1 (field_name f) = Some x \<and> fst (typings (field_type f)) x))
      bs (readFields (map (map_StructField readers) fs) m bs)"
  using assms
proof (induction fs arbitrary: m bs)
  case (Cons f fs)
  have first: "sound (fst (typings (field_type f))) bs (fst (readers (field_type f)) VEmpty bs)"
    using Cons.prems(1) [of f] by (simp add: decodes_def)
  have "sound (\<lambda>m1. extendsBy (map field_name (f # fs)) m m1 \<and>
      (\<forall>f \<in> set (f # fs). \<exists>x. map_of m1 (field_name f) = Some x \<and> fst (typings (field_type f)) x))
      rest (readFields (map (map_StructField readers) fs) (mapEmplace (field_name f) v m) rest)"
    if "fst (typings (field_type f)) v" for v rest
  proof -
    have "sound (\<lambda>m1. extendsBy (map field_name fs) (mapEmplace (field_name f) v m) m1 \<and>
        (\<forall>f \<in> set fs. \<exists>x. map_of m1 (field_name f) = Some x \<and> fst (typings (field_type f)) x))
        rest (readFields (map (map_StructField readers) fs) (mapEmplace (field_name f) v m) rest)"
      using Cons.prems by (intro Cons.IH) (auto simp: mapEmplace_ascend mapEmplace_keys)
    then show ?thesis
      using Cons.prems that extendsBy_emplace [of m "field_name f" "map field_name fs" v]
      by (elim sound_weaken) auto
  qed
  then show ?case
    by (simp add: StructField.map_sel) (rule sound_bind [OF first], simp)
qed (simp add: sound_return extendsBy_def)

lemma extendsBy_old: "extendsBy ks m m1 \<Longrightarrow> k \<in> fst ` set m \<Longrightarrow> map_of m1 k = map_of m k"
  by (auto simp: extendsBy_def)

lemma extendsBy_trans:
  assumes "extendsBy ks m m1" "extendsBy ls m1 m2"
  shows "extendsBy (ks @ ls) m m2"
  using assms by (auto simp: extendsBy_def)

lemma sound_struct:
  assumes "decodable (StructType a n fs p)"
    "\<And>f. f \<in> set fs \<Longrightarrow> decodes (field_type f)" "\<And>t. p = Some t \<Longrightarrow> decodes t"
    "mapsApart (StructType a n fs p) m"
  shows "sound (\<lambda>m1. extendsBy (fieldNames (StructType a n fs p)) m m1 \<and> snd (typings (StructType a n fs p)) m1) bs
    (snd (readers (StructType a n fs p)) m bs)"
proof (cases p)
  case None
  have "sound (\<lambda>m1. extendsBy (map field_name fs) m m1 \<and>
      (\<forall>f \<in> set fs. \<exists>x. map_of m1 (field_name f) = Some x \<and> fst (typings (field_type f)) x))
      bs (readFields (map (map_StructField readers) fs) m bs)"
    using assms None by (intro sound_fields) (auto simp: mapsApart_def)
  then show ?thesis
    unfolding None by (simp add: Let_def) (elim sound_weaken, auto simp: StructField.map_sel)
next
  case (Some t)
  have up: "sound (\<lambda>m1. extendsBy (fieldNames t) m m1 \<and> snd (typings t) m1) bs (snd (readers t) m bs)"
    using assms(3) [OF Some] assms(4) Some by (auto simp: decodes_def mapsApart_def)
  have "sound (\<lambda>m2. extendsBy (fieldNames (StructType a n fs p)) m m2 \<and> snd (typings (StructType a n fs p)) m2) rest
      (readFields (map (map_StructField readers) fs) m1 rest)"
    if m1: "extendsBy (fieldNames t) m m1" "snd (typings t) m1" for m1 rest
  proof -
    have "sound (\<lambda>m2. extendsBy (map field_name fs) m1 m2 \<and>
        (\<forall>f \<in> set fs. \<exists>x. map_of m2 (field_name f) = Some x \<and> fst (typings (field_type f)) x))
        rest (readFields (map (map_StructField readers) fs) m1 rest)"
      using assms Some m1 by (intro sound_fields) (auto simp: mapsApart_def extendsBy_def)
    moreover have "snd (typings t) m2" if "extendsBy (map field_name fs) m1 m2" for m2
    proof (rule typings_extends [OF _ m1(2)])
      fix k
      assume "k \<in> set (fieldNames t)"
      then have "k \<in> fst ` set m1"
        using m1(1) by (simp add: extendsBy_def)
      then show "map_of m2 k = map_of m1 k"
        by (rule extendsBy_old [OF that])
    qed
    ultimately show ?thesis
      using extendsBy_trans [OF m1(1)] unfolding Some
      by (elim sound_weaken) (auto simp: Let_def StructField.map_sel)
  qed
  then show ?thesis
    unfolding Some by (simp add: Let_def) (rule sound_bind [OF up], auto)
qed

lemma sound_sequence:
  assumes "decodes e" "fx \<Longrightarrow> \<exists>s. mx = Some s \<and> unat s < 2 ^ 32"
  shows "decodes (SequenceType a n e mx fx)"
proof (rule decodesI)
  fix bs
  let ?size = "if fx then (case mx of None \<Rightarrow> Inl BadAccess | Some s \<Rightarrow> Inr (ucast s :: u32, bs)) else readBasic 4 bs"
  have fixed: "mx = Some (of_nat (unat (ucast s :: u32)))" if "mx = Some s" "unat s < 2 ^ 32" for s :: u64
    using that by (simp add: unsigned_ucast_eq take_bit_nat_eq_self)
  have size: "sound (\<lambda>k. fx \<longrightarrow> mx = Some (of_nat (unat k))) bs ?size"
    using assms(2) fixed by (cases fx) (auto intro: sound_return sound_weaken [OF sound_basic])
  have "sound (fst (typings (SequenceType a n e mx fx))) rest
      (rbind (readElements (unat k) (fst (readers e)) rest) (\<lambda>(vs, bs). Inr (VList vs, bs)))"
    if "fx \<longrightarrow> mx = Some (of_nat (unat k))" for k :: u32 and rest
  proof -
    have "unat k < 4294967296"
      using unsigned_less [of k, where 'a = nat] by simp
    then show ?thesis
      using that assms(1)
      by (intro sound_bind [OF sound_elements [of "fst (typings e)"]])
        (auto simp: decodes_def intro!: sound_return)
  qed
  then show "sound (fst (typings (SequenceType a n e mx fx))) bs
      (fst (readers (SequenceType a n e mx fx)) VEmpty bs)"
    unfolding readers.simps fst_conv by (intro sound_bind [OF size]) (simp only: prod.case)
qed simp_all

lemma sound_variant:
  assumes "\<And>f. f \<in> set fs \<Longrightarrow> decodes (variant_type f)"
  shows "decodes (VariantType a n fs)"
proof (rule decodesI)
  fix bs
  have "sound (fst (typings (VariantType a n fs))) rest
      (case map_option (map_VariantField readers) (find (\<lambda>f. variant_key f = key) fs) of
         None \<Rightarrow> Inl (MissingKey key (tn_qualifiedName n))
       | Some f \<Rightarrow> rbind (fst (variant_type f) VEmpty rest) (\<lambda>(v, bs). Inr (VKeyed key (Some v), bs)))"
    for key rest
  proof (cases "find (\<lambda>f. variant_key f = key) fs")
    case None
    then show ?thesis
      by (simp add: sound_def reported_def)
  next
    case (Some f)
    then have "sound (fst (typings (variant_type f))) rest (fst (readers (variant_type f)) VEmpty rest)"
      using assms by (auto simp: decodes_def find_Some_iff)
    then show ?thesis
      using Some by (simp add: VariantField.map_sel)
        (erule sound_bind, simp add: sound_return find_variant VariantField.map_sel)
  qed
  then show "sound (fst (typings (VariantType a n fs))) bs (fst (readers (VariantType a n fs)) VEmpty bs)"
    by (simp only: readers.simps fst_conv find_variant) (rule sound_bind [OF sound_basic], simp)
qed simp_all

lemma struct_decodes:
  assumes "decodable (StructType a n fs p)"
    "\<And>f. f \<in> set fs \<Longrightarrow> decodes (field_type f)" "\<And>t. p = Some t \<Longrightarrow> decodes t"
  shows "decodes (StructType a n fs p)"
proof -
  have fields: "sound (\<lambda>m1. extendsBy (fieldNames (StructType a n fs p)) m m1
      \<and> snd (typings (StructType a n fs p)) m1) bs (snd (readers (StructType a n fs p)) m bs)"
    if "mapsApart (StructType a n fs p) m" for m bs
    using sound_struct [OF assms that] .
  have "sound (fst (typings (StructType a n fs p))) bs (fst (readers (StructType a n fs p)) VEmpty bs)" for bs
  proof -
    have "fst (readers (StructType a n fs p)) VEmpty bs =
        rbind (snd (readers (StructType a n fs p)) [] bs) (\<lambda>(m, bs). Inr (VMap m, bs))"
      by (simp add: Let_def)
    moreover have "fst (typings (StructType a n fs p)) (VMap m)"
      if "extendsBy (fieldNames (StructType a n fs p)) [] m" "snd (typings (StructType a n fs p)) m" for m
      using that unfolding extendsBy_def by (simp add: Let_def del: fieldNames.simps)
    ultimately show ?thesis
      using fields [of "[]" bs]
      by (simp del: readers.simps typings.simps fieldNames.simps add: mapsApart_def)
        (erule sound_bind, simp add: sound_return del: readers.simps typings.simps fieldNames.simps)
  qed
  then show ?thesis
    unfolding decodes_def using fields by blast
qed

lemma decodable_decodes: "decodable t \<Longrightarrow> decodes t"
proof (induction t)
  case (SequenceType a n e mx fx)
  then show ?case
    by (intro sound_sequence) (auto split: option.splits)
next
  case (AliasType a n e)
  then show ?case
    by (intro decodesI) (auto simp: decodes_def)
next
  case (OptionalType a n e)
  then have e: "sound (fst (typings e)) bs (fst (readers e) VEmpty bs)" for bs
    by (simp add: decodes_def)
  show ?case
    by (rule decodesI; simp)
      (rule sound_bind [OF sound_basic], auto intro: sound_return sound_weaken [OF e])
next
  case (VariantType a n fs)
  show ?case
  proof (rule sound_variant)
    show "decodes (variant_type f)" if "f \<in> set fs" for f
      using that VariantType(2)
      by (intro VariantType(1) [OF that VariantField.set_sel]) (simp add: VariantField.map_sel)
  qed
next
  case (StructType a n fs p)
  show ?case
  proof (rule struct_decodes [OF StructType(3)])
    show "decodes (field_type f)" if "f \<in> set fs" for f
      using that StructType(3)
      by (intro StructType(1) [OF that StructField.set_sel]) (simp add: StructField.map_sel)
    show "decodes t" if "p = Some t" for t
      using that StructType(3) by (intro StructType(2)) simp_all
  qed
next
  case (ClassType a c)
  then show ?case
    by simp
qed (intro decodesI; simp add: sound_native)+

section \<open>Properties\<close>

text \<open>An example: a struct that inherits a field and has an optional, a variant and a sequence of its own.\<close>

definition exampleBase :: Type where
  "exampleBase = StructType 1 (TypeNames ''Base'' ''pkg.Base'' [])
     [StructField ''id'' [] (NativeType UInt32Type)] None"

definition exampleLayout :: "Type option \<Rightarrow> Type" where
  "exampleLayout p = StructType 5 (TypeNames ''Entity'' ''pkg.Entity'' [])
     [StructField ''alias'' [] (OptionalType 2 (TypeNames ''MaybeText'' ''pkg.MaybeText'' []) (NativeType StringType)),
      StructField ''kind'' [] (VariantType 3 (TypeNames ''Kind'' ''pkg.Kind'' [])
        [VariantField 7 [] (NativeType BoolType), VariantField 9 [] (NativeType Int16Type)]),
      StructField ''marks'' [] (SequenceType 4 (TypeNames ''Marks'' ''pkg.Marks'' []) (NativeType UInt8Type) None False)]
     p"

definition exampleOwn :: Var where
  "exampleOwn = VMap
     [(''alias'', VString ''ab''), (''kind'', VKeyed 9 (Some (VInt16 513))), (''marks'', VList [VUInt8 3, VUInt8 4])]"

definition exampleDerived :: Var where
  "exampleDerived = VMap
     [(''alias'', VString ''ab''), (''id'', VUInt32 42), (''kind'', VKeyed 9 (Some (VInt16 513))),
      (''marks'', VList [VUInt8 3, VUInt8 4])]"

definition noConversion :: conversion where
  "noConversion alt v = Inl ''not converted''"

lemmas example_stream = exampleBase_def exampleLayout_def exampleOwn_def exampleDerived_def noConversion_def

text \<open>
  C7. What is written is read back: for every type and every value of that type, StreamWriter succeeds, and
  StreamReader, given the bytes followed by any others, gives the value and leaves those others.  This
  includes structs with their inherited fields, sequences with and without a fixed size, optionals and variants
  at any depth.
\<close>

theorem stream_roundtrip:
  assumes "hasType t v"
  shows "\<exists>bs. streamWrite conv t v = Inr bs \<and> readFromStream t VEmpty (bs @ rest) = Inr (v, rest)"
proof -
  obtain bs where "fst (writers conv t) v = Inr bs" "fst (readers t) VEmpty (bs @ rest) = Inr (v, rest)"
    using roundTrips_value [OF all_roundTrip] assms unfolding hasType_def by blast
  then show ?thesis
    by (auto simp: streamWrite_def readFromStream_def)
qed

lemma exampleDerived_typed: "hasType (exampleLayout (Some exampleBase)) exampleDerived"
  by (auto simp: hasType_def example_stream Let_def typedNative_def holds_def VariantField.map_sel)

theorem stream_roundtrip_witness:
  "\<exists>bs. streamWrite noConversion (exampleLayout (Some exampleBase)) exampleDerived = Inr bs
      \<and> readFromStream (exampleLayout (Some exampleBase)) VEmpty (bs @ [255]) = Inr (exampleDerived, [255])"
  by (rule stream_roundtrip [OF exampleDerived_typed])

lemma serialized_size_wrong:
  "(let t = exampleLayout (Some exampleBase); bs = projr (streamWrite noConversion t exampleDerived)
    in hasType t exampleDerived \<and> serializedSize noConversion t exampleDerived = Inr 19 \<and> length bs = 23) \<and>
   (let t = SequenceType 6 (TypeNames ''Pair'' ''pkg.Pair'' []) (NativeType UInt8Type) (Some 2) True;
        v = VList [VUInt8 3, VUInt8 4]; bs = projr (streamWrite noConversion t v)
    in hasType t v \<and> serializedSize noConversion t v = Inr 6 \<and> length bs = 2)"
  using exampleDerived_typed
  by (simp add: Let_def hasType_def streamWrite_def example_stream typedNative_def holds_def sizeOfNative_def
      copyAs_def writeNative_def writeVariant_def writeKeyed_def writeSequence_def writeString_def)

text \<open>
  C35. The size computed beforehand is the number of bytes written, modulo the 32 bits it is kept in, for every
  value of a type in which no struct has a parent and no sequence a fixed size.  Outside those types it
  is wrong: the inherited field of a struct is written and not counted (19 for 23 bytes), and the length of
  a sequence of fixed size is counted and not written (6 for 2 bytes).
\<close>

theorem serialized_size_exact:
  "(hasType t v \<and> sizedLayout t \<longrightarrow>
      (\<exists>bs. streamWrite conv t v = Inr bs \<and> serializedSize conv t v = Inr (of_nat (length bs)))) \<and>
   (let t = exampleLayout (Some exampleBase); bs = projr (streamWrite noConversion t exampleDerived)
    in hasType t exampleDerived \<and> serializedSize noConversion t exampleDerived = Inr 19 \<and> length bs = 23) \<and>
   (let t = SequenceType 6 (TypeNames ''Pair'' ''pkg.Pair'' []) (NativeType UInt8Type) (Some 2) True;
        v = VList [VUInt8 3, VUInt8 4]; bs = projr (streamWrite noConversion t v)
    in hasType t v \<and> serializedSize noConversion t v = Inr 6 \<and> length bs = 2)"
  using exactSizeD [OF sizedLayout_exact] serialized_size_wrong by (simp add: hasType_def streamWrite_def)

lemma exampleOwn_typed: "hasType (exampleLayout None) exampleOwn \<and> sizedLayout (exampleLayout None)"
  by (auto simp: hasType_def example_stream Let_def typedNative_def holds_def VariantField.map_sel StructField.map_sel)

theorem serialized_size_exact_witness:
  "\<exists>bs. streamWrite noConversion (exampleLayout None) exampleOwn = Inr bs
      \<and> serializedSize noConversion (exampleLayout None) exampleOwn = Inr (of_nat (length bs))"
  using serialized_size_exact [of "exampleLayout None" exampleOwn noConversion] exampleOwn_typed by blast



end
