(* ===== verification/Event_Buffers.thy ===== *)
theory Event_Buffers
  imports Var_Stream
begin

text \<open>
  Events on their way to another process: the queue of an object's events (SerializableEventQueue in
  core/obj/detail/event_buffer.h), their layout on a stream, the packing of events into best-effort
  messages (kernel/src/bus/util.h) and the loop that takes a received message apart (rcvEvents in
  kernel/src/bus/remote_participant.cpp).  The function that serializes the arguments of an event is
  generated code: an event holds the bytes this function writes.
\<close>

section \<open>The queue of events\<close>

record SerializableEvent =
  eventId :: u32
  creationTime :: i64
  serializeBytes :: "u8 list"
  producerId :: u32
  transportMode :: TransportMode
  serializedSize :: u32

text \<open>\<open>dropped\<close> counts the calls of onDropped_.  A maximum size of zero is no limit.\<close>

record SerializableEventQueue =
  queuedEvents :: "SerializableEvent list"
  maxQueued :: nat
  dropOldestEvent :: bool
  dropped :: nat

definition pushEvent :: "SerializableEvent \<Rightarrow> SerializableEventQueue \<Rightarrow> SerializableEventQueue" where
  "pushEvent e q =
    (if maxQueued q = 0 then q\<lparr>queuedEvents := queuedEvents q @ [e]\<rparr>
     else if length (queuedEvents q) < maxQueued q then q\<lparr>queuedEvents := queuedEvents q @ [e]\<rparr>
     else
       (let q = (if dropOldestEvent q then q\<lparr>queuedEvents := tl (queuedEvents q) @ [e]\<rparr> else q)
        in q\<lparr>dropped := Suc (dropped q)\<rparr>))"

definition clearEvents :: "SerializableEventQueue \<Rightarrow> SerializableEventQueue" where
  "clearEvents q = q\<lparr>queuedEvents := []\<rparr>"

lemma pushEvents:
  assumes "queuedEvents q = []"
  shows "fold pushEvent es q = q\<lparr>
     queuedEvents :=
       (if maxQueued q = 0 then es
        else if dropOldestEvent q then drop (length es - maxQueued q) es
        else take (maxQueued q) es),
     dropped := dropped q + (if maxQueued q = 0 then 0 else length es - maxQueued q)\<rparr>"
  using assms
proof (induction es rule: rev_induct)
  case (snoc e es)
  show ?case
  proof (cases "maxQueued q = 0")
    case True
    then show ?thesis using snoc by (simp add: pushEvent_def)
  next
    case False
    then show ?thesis
      using snoc by (auto simp: pushEvent_def Let_def tl_drop Suc_diff_le not_less drop_Suc)
  qed
qed simp

section \<open>An event on a stream\<close>

definition getMaxEventSerializedSize :: "SerializableEvent \<Rightarrow> u32" where
  "getMaxEventSerializedSize e = 4 + 4 + 8 + 4 + serializedSize e"

definition writeEventToStream :: "SerializableEvent \<Rightarrow> u8 list" where
  "writeEventToStream e =
     leBytes 4 (producerId e) @ leBytes 4 (eventId e) @ leBytes 8 (creationTime e) @
     leBytes 4 (serializedSize e) @ serializeBytes e"

record EventFromStream =
  rcvProducerId :: u32
  rcvEventId :: u32
  rcvCreationTime :: i64
  argumentsBuffer :: "u8 list"

definition readEventFromStream :: "u8 list \<Rightarrow> stream_exn + EventFromStream \<times> u8 list" where
  "readEventFromStream bs =
     rbind (readBasic 4 bs) (\<lambda>(p, bs).
     rbind (readBasic 4 bs) (\<lambda>(e, bs).
     rbind (readBasic 8 bs) (\<lambda>(t, bs).
     rbind (readBasic 4 bs) (\<lambda>(n, bs).
     rbind (advanceBytes (unat (n :: u32)) bs) (\<lambda>(args, bs).
       Inr (\<lparr>rcvProducerId = p, rcvEventId = e, rcvCreationTime = t, argumentsBuffer = args\<rparr>, bs))))))"

definition received :: "SerializableEvent \<Rightarrow> EventFromStream" where
  "received e = \<lparr>rcvProducerId = producerId e, rcvEventId = eventId e, rcvCreationTime = creationTime e,
     argumentsBuffer = serializeBytes e\<rparr>"

text \<open>The event writes the number of bytes it announces.\<close>

definition announced :: "SerializableEvent \<Rightarrow> bool" where
  "announced e \<longleftrightarrow> length (serializeBytes e) = unat (serializedSize e)"

lemma readEvent_writeEvent:
  "announced e \<Longrightarrow> readEventFromStream (writeEventToStream e @ rest) = Inr (received e, rest)"
  by (simp add: readEventFromStream_def writeEventToStream_def readBasic_leBytes advanceBytes_append
      announced_def received_def)

lemma length_writeEvent: "announced e \<Longrightarrow> length (writeEventToStream e) = 20 + unat (serializedSize e)"
  by (simp add: writeEventToStream_def announced_def)

lemma readBasic_shorter: "readBasic n bs = Inr (x, rest) \<Longrightarrow> length rest + n = length bs"
  by (auto simp: readBasic_def advanceBytes_def rbind_Inr_conv split: if_splits)

lemma readEvent_shorter:
  assumes "readEventFromStream bs = Inr (x, rest)" shows "length rest < length bs"
  using assms
  by (auto simp: readEventFromStream_def rbind_Inr_conv advanceBytes_def split: if_splits
      dest!: readBasic_shorter)

section \<open>Taking a message apart\<close>

text \<open>
  The events read from a message, and the exception that ended the loop, if any: what was read before it has
  been passed on.
\<close>

function readEvents :: "u8 list \<Rightarrow> EventFromStream list \<times> stream_exn option" where
  "readEvents bs =
    (if bs = [] then ([], None)
     else case readEventFromStream bs of
        Inl e \<Rightarrow> ([], Some e)
      | Inr (event, rest) \<Rightarrow> (let (events, r) = readEvents rest in (event # events, r)))"
  by pat_completeness auto
termination
  by (relation "measure length") (auto dest: readEvent_shorter)

declare readEvents.simps [simp del]

text \<open>
  The proxies an event is passed to: those tracked for its producer whose weak reference can be locked.
\<close>

definition rcvEvent ::
  "(u32 \<rightharpoonup> 'p list) \<Rightarrow> ('p \<Rightarrow> bool) \<Rightarrow> EventFromStream \<Rightarrow> ('p \<times> u32 \<times> i64 \<times> u8 list) list" where
  "rcvEvent trackedProxies alive event =
    (case trackedProxies (rcvProducerId event) of
       None \<Rightarrow> []
     | Some remotes \<Rightarrow>
         map (\<lambda>p. (p, rcvEventId event, rcvCreationTime event, argumentsBuffer event)) (filter alive remotes))"

definition rcvEvents ::
  "(u32 \<rightharpoonup> 'p list) \<Rightarrow> ('p \<Rightarrow> bool) \<Rightarrow> u8 list \<Rightarrow> ('p \<times> u32 \<times> i64 \<times> u8 list) list \<times> stream_exn option" where
  "rcvEvents trackedProxies alive bs =
    (let (events, r) = readEvents bs in (concat (map (rcvEvent trackedProxies alive) events), r))"

lemma readEvents_written:
  "(\<And>e. e \<in> set es \<Longrightarrow> announced e) \<Longrightarrow>
   readEvents (concat (map writeEventToStream es)) = (map received es, None)"
proof (induction es)
  case Nil
  then show ?case by (simp add: readEvents.simps)
next
  case (Cons e es)
  have "writeEventToStream e \<noteq> []" by (simp add: writeEventToStream_def leBytes_def)
  then show ?case
    using Cons by (simp add: readEvents.simps [of "writeEventToStream e @ _"] readEvent_writeEvent)
qed

section \<open>Best-effort messages\<close>

datatype buffer_exn = CannotFit | OutOfRange

definition maxBestEffortMessageSize :: nat where
  "maxBestEffortMessageSize = 65527"

text \<open>\<open>currentBuffer\<close> is the place in the list of the buffer that is being filled.\<close>

record BestEffortBuffers =
  bufferList :: "u8 list list"
  currentBuffer :: "nat option"

definition noBuffers :: BestEffortBuffers where
  "noBuffers = \<lparr>bufferList = [], currentBuffer = None\<rparr>"

definition getBestEffortBuffer :: "nat \<Rightarrow> BestEffortBuffers \<Rightarrow> buffer_exn + nat \<times> BestEffortBuffers" where
  "getBestEffortBuffer maxMessageSize b =
    (if maxMessageSize > maxBestEffortMessageSize then Inl CannotFit
     else case currentBuffer b of
        Some k \<Rightarrow>
          (if length (bufferList b ! k) + maxMessageSize \<ge> maxBestEffortMessageSize
           then Inr (length (bufferList b),
             \<lparr>bufferList = bufferList b @ [[]], currentBuffer = Some (length (bufferList b))\<rparr>)
           else Inr (k, b))
      | None \<Rightarrow> Inr (length (bufferList b),
             \<lparr>bufferList = bufferList b @ [[]], currentBuffer = Some (length (bufferList b))\<rparr>))"

text \<open>
  A writer on a block resizes it, and a block does not grow beyond its capacity (FixedMemoryBlock::resize).
  The writes of one event are taken together.
\<close>

definition blockWrite :: "u8 list \<Rightarrow> u8 list \<Rightarrow> buffer_exn + u8 list" where
  "blockWrite bs block =
     (if length block + length bs > maxBestEffortMessageSize then Inl OutOfRange else Inr (block @ bs))"

definition writeEventToBestEffortStream ::
  "SerializableEvent \<Rightarrow> BestEffortBuffers \<Rightarrow> buffer_exn + BestEffortBuffers" where
  "writeEventToBestEffortStream e b =
     rbind (getBestEffortBuffer (unat (getMaxEventSerializedSize e)) b) (\<lambda>(k, b).
     rbind (blockWrite (writeEventToStream e) (bufferList b ! k)) (\<lambda>block.
       Inr (b\<lparr>bufferList := (bufferList b)[k := block]\<rparr>)))"

fun writeEvents :: "SerializableEvent list \<Rightarrow> BestEffortBuffers \<Rightarrow> buffer_exn + BestEffortBuffers" where
  "writeEvents [] b = Inr b"
| "writeEvents (e # es) b = rbind (writeEventToBestEffortStream e b) (writeEvents es)"

text \<open>What the buffers hold: whole events, one group of them to a buffer, none empty, and the last one open.\<close>

definition holdsGroups :: "SerializableEvent list list \<Rightarrow> BestEffortBuffers \<Rightarrow> bool" where
  "holdsGroups gs b \<longleftrightarrow>
     bufferList b = map (concat \<circ> map writeEventToStream) gs \<and> [] \<notin> set gs \<and>
     currentBuffer b = (if gs = [] then None else Some (length gs - 1)) \<and>
     (\<forall>block \<in> set (bufferList b). length block \<le> maxBestEffortMessageSize)"

text \<open>An event that announces what it writes and whose size does not wrap around.\<close>

definition sizedEvent :: "SerializableEvent \<Rightarrow> bool" where
  "sizedEvent e \<longleftrightarrow> announced e \<and> unat (serializedSize e) < 2 ^ 32 - 20"

definition fits :: "SerializableEvent \<Rightarrow> bool" where
  "fits e \<longleftrightarrow> 20 + unat (serializedSize e) \<le> maxBestEffortMessageSize"

lemma maxSize_exact: "sizedEvent e \<Longrightarrow> unat (getMaxEventSerializedSize e) = 20 + unat (serializedSize e)"
  unfolding sizedEvent_def getMaxEventSerializedSize_def by (simp add: unat_word_ariths)

lemma openBuffer:
  assumes "holdsGroups gs b" "n \<le> maxBestEffortMessageSize"
  obtains (new) "getBestEffortBuffer n b =
      Inr (length gs, \<lparr>bufferList = bufferList b @ [[]], currentBuffer = Some (length gs)\<rparr>)"
  | (old) gs' g where "gs = gs' @ [g]" "getBestEffortBuffer n b = Inr (length gs', b)"
      "length (bufferList b ! length gs') + n < maxBestEffortMessageSize"
proof (cases gs rule: rev_cases)
  case Nil
  then show ?thesis
    using assms by (intro new) (auto simp: holdsGroups_def getBestEffortBuffer_def)
next
  case (snoc gs' g)
  then have b: "length (bufferList b) = length gs" "currentBuffer b = Some (length gs')"
    using assms(1) by (auto simp: holdsGroups_def)
  show ?thesis
  proof (cases "length (bufferList b ! length gs') + n < maxBestEffortMessageSize")
    case True
    then show ?thesis using snoc b assms(2) by (intro old) (auto simp: getBestEffortBuffer_def)
  next
    case False
    then show ?thesis using b assms(2) by (intro new) (auto simp: getBestEffortBuffer_def)
  qed
qed

lemma writeEvent_holds:
  assumes "holdsGroups gs b" "sizedEvent e"
  shows "if fits e then \<exists>gs' b'. writeEventToBestEffortStream e b = Inr b' \<and> holdsGroups gs' b' \<and>
      concat gs' = concat gs @ [e]
    else writeEventToBestEffortStream e b = Inl CannotFit"
proof (cases "fits e")
  case False
  then show ?thesis
    using maxSize_exact [OF assms(2)]
    by (simp add: writeEventToBestEffortStream_def getBestEffortBuffer_def fits_def)
next
  case True
  let ?n = "unat (getMaxEventSerializedSize e)"
  have n: "length (writeEventToStream e) = ?n" "?n \<le> maxBestEffortMessageSize"
    using True assms(2) maxSize_exact [OF assms(2)] length_writeEvent [of e]
    by (auto simp: fits_def sizedEvent_def)
  from assms(1) n(2) show ?thesis
  proof (cases rule: openBuffer)
    case new
    have len: "length (bufferList b) = length gs" using assms(1) by (simp add: holdsGroups_def)
    have "writeEventToBestEffortStream e b = Inr \<lparr>bufferList = bufferList b @ [writeEventToStream e],
        currentBuffer = Some (length gs)\<rparr>"
      using n len by (simp add: writeEventToBestEffortStream_def new blockWrite_def nth_append list_update_append)
    moreover have "holdsGroups (gs @ [[e]]) \<lparr>bufferList = bufferList b @ [writeEventToStream e],
        currentBuffer = Some (length gs)\<rparr>"
      using assms(1) n by (auto simp: holdsGroups_def)
    ultimately show ?thesis using True by auto
  next
    case (old gs' g)
    let ?block = "concat (map writeEventToStream g)"
    have b: "bufferList b = map (concat \<circ> map writeEventToStream) gs' @ [?block]"
      using assms(1) old(1) by (simp add: holdsGroups_def)
    let ?b = "b\<lparr>bufferList := map (concat \<circ> map writeEventToStream) gs' @ [?block @ writeEventToStream e]\<rparr>"
    have at: "bufferList b ! length gs' = ?block" by (simp add: b nth_append)
    have "writeEventToBestEffortStream e b = Inr ?b"
      using n(1) old(2,3) by (simp add: writeEventToBestEffortStream_def blockWrite_def at)
        (simp add: b list_update_append)
    moreover have "holdsGroups (gs' @ [g @ [e]]) ?b"
      using assms(1) n(1) old(1) old(3) [unfolded at] by (auto simp: holdsGroups_def)
    ultimately show ?thesis using True old(1) by auto
  qed
qed

lemma writeEvents_holds:
  assumes "holdsGroups gs b" "\<And>e. e \<in> set es \<Longrightarrow> sizedEvent e"
  shows "if \<forall>e \<in> set es. fits e then \<exists>gs' b'. writeEvents es b = Inr b' \<and> holdsGroups gs' b' \<and>
      concat gs' = concat gs @ es
    else writeEvents es b = Inl CannotFit"
  using assms
proof (induction es arbitrary: gs b)
  case (Cons e es)
  note step = writeEvent_holds [OF Cons.prems(1) Cons.prems(2) [of e]]
  show ?case
  proof (cases "fits e")
    case True
    with step obtain gs' b' where b': "writeEventToBestEffortStream e b = Inr b'" "holdsGroups gs' b'"
      "concat gs' = concat gs @ [e]" by auto
    from Cons.IH [OF b'(2)] Cons.prems(2) show ?thesis using True b'(1,3) by (auto split: if_splits)
  next
    case False
    then show ?thesis using step by auto
  qed
qed auto

section \<open>Properties\<close>

text \<open>
  C21. Events packed into best-effort messages arrive as they were sent: if every event writes the number of
  bytes it announces, then either every event fits a message, and the messages are no larger than the limit,
  and taking each of them apart gives all the events in order, without an error; or one does not fit, and the
  packing ends with an exception.
\<close>

theorem events_roundtrip:
  assumes "\<And>e. e \<in> set es \<Longrightarrow> sizedEvent e"
  shows "case writeEvents es noBuffers of
      Inr b \<Rightarrow>
        (\<forall>e \<in> set es. fits e) \<and> (\<forall>block \<in> set (bufferList b). length block \<le> maxBestEffortMessageSize) \<and>
        concat (map (fst \<circ> readEvents) (bufferList b)) = map received es \<and>
        (\<forall>block \<in> set (bufferList b). block \<noteq> [] \<and> snd (readEvents block) = None)
    | Inl x \<Rightarrow> x = CannotFit \<and> (\<exists>e \<in> set es. \<not> fits e)"
proof -
  have none: "holdsGroups [] noBuffers" by (simp add: holdsGroups_def noBuffers_def)
  note packed = writeEvents_holds [OF none, of es, OF assms]
  show ?thesis
  proof (cases "\<forall>e \<in> set es. fits e")
    case False
    then show ?thesis using packed by auto
  next
    case True
    with packed obtain gs b where b: "writeEvents es noBuffers = Inr b" "holdsGroups gs b" "concat gs = es"
      by auto
    have group: "readEvents (concat (map writeEventToStream g)) = (map received g, None)" if "g \<in> set gs" for g
      by (rule readEvents_written) (use that b(3) in \<open>auto intro!: assms [unfolded sizedEvent_def, THEN conjunct1]\<close>)
    have nonempty: "concat (map writeEventToStream g) \<noteq> []" if "g \<in> set gs" for g
      using that b(2) by (cases g) (auto simp: holdsGroups_def writeEventToStream_def leBytes_def)
    have "concat (map (fst \<circ> readEvents) (bufferList b)) = concat (map (map received) gs)"
      using b(2) group by (auto simp: holdsGroups_def intro!: arg_cong [of _ _ concat])
    then show ?thesis
      using True b group nonempty by (auto simp: holdsGroups_def map_concat)
  qed
qed

definition exampleEvent :: SerializableEvent where
  "exampleEvent = \<lparr>eventId = 7, creationTime = 3, serializeBytes = [1, 2], producerId = 9,
     transportMode = Multicast, serializedSize = 2\<rparr>"

theorem events_roundtrip_witness:
  "\<exists>b. writeEvents [exampleEvent, exampleEvent] noBuffers = Inr b \<and>
     concat (map (fst \<circ> readEvents) (bufferList b)) = [received exampleEvent, received exampleEvent]"
proof -
  have "sizedEvent exampleEvent" "fits exampleEvent"
    by (simp_all add: sizedEvent_def announced_def fits_def exampleEvent_def maxBestEffortMessageSize_def)
  then show ?thesis
    using events_roundtrip [of "[exampleEvent, exampleEvent]"] by (auto split: sum.splits)
qed

text \<open>
  The queue of an object's events holds, after any events were put into an empty one, all of them if it has
  no limit, the last ones if it drops the oldest, the first ones if it does not; and it reports each event it
  dropped.
\<close>

theorem event_queue_contents:
  assumes "queuedEvents q = []"
  shows "queuedEvents (fold pushEvent es q) =
      (if maxQueued q = 0 then es
       else if dropOldestEvent q then drop (length es - maxQueued q) es
       else take (maxQueued q) es) \<and>
    dropped (fold pushEvent es q) - dropped q = length es - length (queuedEvents (fold pushEvent es q))"
  by (simp add: pushEvents [OF assms] min_def)

theorem event_queue_contents_witness:
  "length (queuedEvents (fold pushEvent [exampleEvent, exampleEvent]
     \<lparr>queuedEvents = [], maxQueued = 1, dropOldestEvent = True, dropped = 0\<rparr>)) = 1"
  using event_queue_contents [of "\<lparr>queuedEvents = [], maxQueued = 1, dropOldestEvent = True, dropped = 0\<rparr>"
    "[exampleEvent, exampleEvent]"] by simp

end
