(* ===== verification/Remote_Events.thy ===== *)
theory Remote_Events
  imports Remote_Updates Event_Buffers "HOL-Library.AList"
begin

text \<open>
  The events of a pass of the manager (sendEvents in kernel/src/bus/remote_interest_manager.cpp): each event goes to
  the remote participants that are linked to the update of its producer, in the buffers of its transport mode, and
  the buffers are sent, those of one participant for each process.  A participant is sent to by its transport; what
  is handed to it is the result of the pass.  The buffer of confirmed events is written without a limit.
\<close>

section \<open>Collecting the events\<close>

record RemoteData =
  confirmedBuffer :: "u8 list"
  unicastBuffers :: BestEffortBuffers

definition emptyData :: RemoteData where
  "emptyData = \<lparr>confirmedBuffer = [], unicastBuffers = noBuffers\<rparr>"

text \<open>\<open>remoteDataMap[remote]\<close> makes an entry for a participant that has none.\<close>

definition dataOf :: "'r \<Rightarrow> ('r \<times> RemoteData) list \<Rightarrow> RemoteData" where
  "dataOf r remoteDataMap = (case map_of remoteDataMap r of None \<Rightarrow> emptyData | Some d \<Rightarrow> d)"

definition writeForRemote ::
  "SerializableEvent \<Rightarrow> 'r \<Rightarrow> ('r \<times> RemoteData) list \<Rightarrow> buffer_exn + ('r \<times> RemoteData) list" where
  "writeForRemote e r remoteDataMap =
    (let d = dataOf r remoteDataMap
     in if transportMode e = Confirmed
        then Inr (AList.update r (d\<lparr>confirmedBuffer := confirmedBuffer d @ writeEventToStream e\<rparr>) remoteDataMap)
        else rbind (writeEventToBestEffortStream e (unicastBuffers d)) (\<lambda>b.
               Inr (AList.update r (d\<lparr>unicastBuffers := b\<rparr>) remoteDataMap)))"

fun writeForRemotes ::
  "SerializableEvent \<Rightarrow> 'r list \<Rightarrow> ('r \<times> RemoteData) list \<Rightarrow> buffer_exn + ('r \<times> RemoteData) list" where
  "writeForRemotes e [] remoteDataMap = Inr remoteDataMap"
| "writeForRemotes e (r # rs) remoteDataMap = rbind (writeForRemote e r remoteDataMap) (writeForRemotes e rs)"

fun collectEvents ::
  "'r RemoteInterestsManager \<Rightarrow> SerializableEvent list \<Rightarrow> BestEffortBuffers \<Rightarrow> ('r \<times> RemoteData) list
     \<Rightarrow> buffer_exn + BestEffortBuffers \<times> ('r \<times> RemoteData) list" where
  "collectEvents M [] multicast remoteDataMap = Inr (multicast, remoteDataMap)"
| "collectEvents M (e # es) multicast remoteDataMap =
    (case yToXMap (updatesObjectIds M) (producerId e) of
       None \<Rightarrow> collectEvents M es multicast remoteDataMap
     | Some u \<Rightarrow>
         if transportMode e = Confirmed \<or> transportMode e = Unicast
         then rbind (writeForRemotes e (forEachY u (remotesUpdates (handler M))) remoteDataMap) (\<lambda>m.
                collectEvents M es multicast m)
         else rbind (writeEventToBestEffortStream e multicast) (\<lambda>b. collectEvents M es b remoteDataMap))"

section \<open>Sending them\<close>

datatype 'r Sent =
    SentMulticast 'r "u8 list list"
  | SentUnicast 'r "u8 list list"
  | SentConfirmed 'r "u8 list"

fun sendPerProcess :: "('r \<Rightarrow> u32) \<Rightarrow> ('r \<times> RemoteData) list \<Rightarrow> u32 set \<Rightarrow> 'r Sent list" where
  "sendPerProcess proc [] used = []"
| "sendPerProcess proc ((r, d) # ds) used =
    (if proc r \<in> used then sendPerProcess proc ds used
     else (if bufferList (unicastBuffers d) = [] then [] else [SentUnicast r (bufferList (unicastBuffers d))]) @
          (if confirmedBuffer d = [] then [] else [SentConfirmed r (confirmedBuffer d)]) @
          sendPerProcess proc ds (insert (proc r) used))"

text \<open>\<open>order\<close> is the order in which the hash map of the participants is walked.\<close>

definition sendEvents ::
  "('r \<Rightarrow> u32) \<Rightarrow> (('r \<times> RemoteData) list \<Rightarrow> ('r \<times> RemoteData) list) \<Rightarrow> SerializableEvent list
     \<Rightarrow> 'r RemoteInterestsManager \<Rightarrow> buffer_exn + 'r Sent list" where
  "sendEvents proc order events M =
    (case aRemoteParticipant M of
       None \<Rightarrow> Inr []
     | Some a \<Rightarrow>
         if events = [] then Inr []
         else rbind (collectEvents M events noBuffers []) (\<lambda>(multicast, remoteDataMap).
           Inr ((if bufferList multicast = [] then [] else [SentMulticast a (bufferList multicast)]) @
                sendPerProcess proc (order remoteDataMap) {})))"

text \<open>A pass sends the updates and then the events.\<close>

definition sendToRelevantRemoteParticipants ::
  "('r \<Rightarrow> u32) \<Rightarrow> (u32 \<Rightarrow> bool) \<Rightarrow> ((nat \<rightharpoonup> 'r List) \<Rightarrow> nat list) \<Rightarrow> (('r \<times> RemoteData) list \<Rightarrow> ('r \<times> RemoteData) list)
     \<Rightarrow> SerializableEvent list \<Rightarrow> 'r RemoteInterestsManager
     \<Rightarrow> ('r \<times> u32) list \<times> (buffer_exn + 'r Sent list) \<times> 'r RemoteInterestsManager" where
  "sendToRelevantRemoteParticipants proc alive updates order events M =
    (let (sent, M) = sendObjectUpdates proc alive updates M
     in (sent, sendEvents proc order events M, M))"

section \<open>The data of a participant\<close>

text \<open>The events of one transport mode that concern a participant.\<close>

definition concerns :: "'r RemoteInterestsManager \<Rightarrow> 'r \<Rightarrow> SerializableEvent \<Rightarrow> bool" where
  "concerns M r e \<longleftrightarrow>
     (\<exists>u. yToXMap (updatesObjectIds M) (producerId e) = Some u \<and> r \<in> set (forEachY u (remotesUpdates (handler M))))"

definition confirmedFor :: "'r RemoteInterestsManager \<Rightarrow> 'r \<Rightarrow> SerializableEvent list \<Rightarrow> SerializableEvent list" where
  "confirmedFor M r es = filter (\<lambda>e. transportMode e = Confirmed \<and> concerns M r e) es"

lemma dataOf_update: "dataOf r (AList.update r' d m) = (if r = r' then d else dataOf r m)"
  by (simp add: dataOf_def update_conv)

lemma writeForRemotes_confirmed:
  assumes "writeForRemotes e rs m = Inr m'" "distinct rs"
  shows "confirmedBuffer (dataOf r m') = confirmedBuffer (dataOf r m) @
      (if r \<in> set rs \<and> transportMode e = Confirmed then writeEventToStream e else []) \<and>
     (distinct (map fst m) \<longrightarrow> distinct (map fst m')) \<and> fst ` set m' = fst ` set m \<union> set rs"
  using assms
proof (induction rs arbitrary: m)
  case (Cons r' rs)
  then obtain m1 where m1: "writeForRemote e r' m = Inr m1" "writeForRemotes e rs m1 = Inr m'"
    by (auto simp: rbind_Inr_conv)
  then obtain d where d: "m1 = AList.update r' d m" "confirmedBuffer d = confirmedBuffer (dataOf r' m) @
      (if transportMode e = Confirmed then writeEventToStream e else [])"
    by (auto simp: writeForRemote_def rbind_Inr_conv Let_def split: if_splits)
  have one: "confirmedBuffer (dataOf r m1) = confirmedBuffer (dataOf r m) @
      (if r = r' \<and> transportMode e = Confirmed then writeEventToStream e else [])"
      "distinct (map fst m) \<longrightarrow> distinct (map fst m1)" "fst ` set m1 = insert r' (fst ` set m)"
    by (simp_all add: d dataOf_update distinct_update dom_update)
  show ?case using Cons.IH [OF m1(2)] Cons.prems(2) one by auto
qed simp

lemma collectEvents_confirmed:
  assumes "collectEvents M es b m = Inr (b', m')" "handlerOk (handler M)"
  shows "confirmedBuffer (dataOf r m') =
      confirmedBuffer (dataOf r m) @ concat (map writeEventToStream (confirmedFor M r es)) \<and>
     (distinct (map fst m) \<longrightarrow> distinct (map fst m'))"
  using assms
proof (induction es arbitrary: b m)
  case (Cons e es)
  have ok: "mmOk (remotesUpdates (handler M))" using Cons.prems(2) by (simp add: handlerOk_def)
  show ?case
  proof (cases "yToXMap (updatesObjectIds M) (producerId e)")
    case None
    then show ?thesis using Cons by (simp add: confirmedFor_def concerns_def)
  next
    case (Some u)
    show ?thesis
    proof (cases "transportMode e = Confirmed \<or> transportMode e = Unicast")
      case True
      with Cons.prems(1) Some obtain m1
        where m1: "writeForRemotes e (forEachY u (remotesUpdates (handler M))) m = Inr m1"
          and rest: "collectEvents M es b m1 = Inr (b', m')" by (auto simp: rbind_Inr_conv)
      note w = writeForRemotes_confirmed [OF m1, of r] forEachY_pairs [OF ok, of u]
      show ?thesis using Cons.IH [OF rest Cons.prems(2)] w Some by (simp add: confirmedFor_def concerns_def)
    next
      case False
      with Cons.prems(1) Some obtain b1 where "collectEvents M es b1 m = Inr (b', m')"
        by (auto simp: rbind_Inr_conv)
      from Cons.IH [OF this Cons.prems(2)] show ?thesis using False by (simp add: confirmedFor_def)
    qed
  qed
qed (simp add: confirmedFor_def)

section \<open>What is sent\<close>

lemma sendPerProcess_first:
  "(r, d) \<in> set ds \<Longrightarrow> proc r \<notin> used \<Longrightarrow> \<exists>(r', d') \<in> set ds. proc r' = proc r \<and>
     (confirmedBuffer d' \<noteq> [] \<longrightarrow> SentConfirmed r' (confirmedBuffer d') \<in> set (sendPerProcess proc ds used))"
proof (induction ds arbitrary: used)
  case (Cons x ds)
  obtain a b where x: "x = (a, b)" by fastforce
  show ?case
  proof (cases "proc a = proc r")
    case True
    then have "confirmedBuffer b \<noteq> [] \<longrightarrow>
        SentConfirmed a (confirmedBuffer b) \<in> set (sendPerProcess proc (x # ds) used)"
      using Cons.prems(2) by (simp add: x)
    then show ?thesis using True by (auto simp: x)
  next
    case False
    then have in_ds: "(r, d) \<in> set ds" using Cons.prems(1) x by auto
    show ?thesis
    proof (cases "proc a \<in> used")
      case True
      then show ?thesis using Cons.IH [OF in_ds Cons.prems(2)] by (auto simp: x)
    next
      case new: False
      have "proc r \<notin> insert (proc a) used" using False Cons.prems(2) by auto
      from Cons.IH [OF in_ds this] show ?thesis using new by (auto simp: x)
    qed
  qed
qed simp

lemma sendPerProcess_unused:
  "proc r \<in> used \<Longrightarrow> SentConfirmed r bytes \<notin> set (sendPerProcess proc ds used)"
  by (induction proc ds used rule: sendPerProcess.induct) auto

lemma sendPerProcess_once:
  "distinct (map fst ds) \<Longrightarrow> SentConfirmed r bytes \<in> set (sendPerProcess proc ds used) \<Longrightarrow>
   (\<exists>d. (r, d) \<in> set ds \<and> bytes = confirmedBuffer d) \<and> proc r \<notin> used \<and>
   (\<forall>r' bytes'. SentConfirmed r' bytes' \<in> set (sendPerProcess proc ds used) \<longrightarrow> proc r' = proc r \<longrightarrow> r' = r)"
proof (induction ds arbitrary: used)
  case (Cons x ds)
  obtain a b where x: "x = (a, b)" by fastforce
  show ?case
  proof (cases "proc a \<in> used")
    case True
    then show ?thesis using Cons by (auto simp: x)
  next
    case False
    show ?thesis
    proof (cases "SentConfirmed r bytes \<in> set (sendPerProcess proc ds (insert (proc a) used))")
      case True
      note IH = Cons.IH [OF _ True]
      then show ?thesis using False Cons.prems(1) by (auto simp: x split: if_splits)
    next
      case here: False
      then have "r = a" "bytes = confirmedBuffer b" using Cons.prems(2) False by (auto simp: x split: if_splits)
      then show ?thesis using False by (auto simp: x sendPerProcess_unused split: if_splits)
    qed
  qed
qed simp

text \<open>The walk over the map of the participants reaches each entry once.\<close>

definition walksData :: "(('r \<times> RemoteData) list \<Rightarrow> ('r \<times> RemoteData) list) \<Rightarrow> bool" where
  "walksData order \<longleftrightarrow>
     (\<forall>m. distinct (map fst m) \<longrightarrow> set (order m) = set m \<and> distinct (map fst (order m)))"

lemma sendEvents_data:
  assumes "sendEvents proc order events M = Inr out" "walksData order" "handlerOk (handler M)"
    "aRemoteParticipant M \<noteq> None" "events \<noteq> []"
  obtains m mc where "distinct (map fst m)" "set out = mc \<union> set (sendPerProcess proc (order m) {})"
    "\<And>r bytes. SentConfirmed r bytes \<notin> mc" "set (order m) = set m" "distinct (map fst (order m))"
    "\<And>r. confirmedBuffer (dataOf r m) = concat (map writeEventToStream (confirmedFor M r events))"
proof -
  from assms(4) obtain a where a: "aRemoteParticipant M = Some a" by blast
  with assms(1,5) obtain b m where c: "collectEvents M events noBuffers [] = Inr (b, m)"
    and out: "out = (if bufferList b = [] then [] else [SentMulticast a (bufferList b)]) @
        sendPerProcess proc (order m) {}"
    by (auto simp: sendEvents_def rbind_Inr_conv)
  note d = collectEvents_confirmed [OF c assms(3)]
  then have "distinct (map fst m)" by simp
  then show thesis
    using d assms(2) out
    by (intro that [of m "if bufferList b = [] then {} else {SentMulticast a (bufferList b)}"])
      (auto simp: walksData_def dataOf_def [of _ "[]"] emptyData_def)
qed

section \<open>An example\<close>

text \<open>A confirmed event of the object 5, which participant 1 is linked to.\<close>

definition exampleConfirmed :: SerializableEvent where
  "exampleConfirmed = exampleEvent\<lparr>producerId := 5, transportMode := Confirmed\<rparr>"

lemma singleton_list: "distinct xs \<Longrightarrow> set xs = {a} \<Longrightarrow> xs = [a]"
  by (cases xs; cases "tl xs") auto

lemma exampleConfirmed_sent:
  "confirmedFor exampleRelinked 1 [exampleConfirmed] = [exampleConfirmed]"
  "sendEvents proc (\<lambda>m. m) [exampleConfirmed] exampleRelinked =
     Inr [SentConfirmed 1 (writeEventToStream exampleConfirmed)]"
proof -
  note x = exampleRelinked_state
  from managerRun_ok [OF x(1) [of someOrder True] someOrder_walks]
  have ok: "tablesOk exampleRelinked" "aRemoteParticipant exampleRelinked \<noteq> None"
    by (simp_all add: managerOk_def coreOk_def) (use x(3) in \<open>auto simp: referenceOk_def split: option.splits\<close>)
  then obtain a where a: "aRemoteParticipant exampleRelinked = Some a" by blast
  have "(1, 5) \<in> set (objectUpdates exampleRelinked)" using x(7) tables_node [OF ok(1), of 5 1] by simp
  then have u: "yToXMap (updatesObjectIds exampleRelinked) 5 = Some 1"
    using ok(1) unfolding tablesOk_def by blast
  have "mmOk (remotesUpdates (handler exampleRelinked))" using x(2) by (simp add: handlerOk_def)
  from forEachY_pairs [OF this, of 1] have l: "forEachY 1 (remotesUpdates (handler exampleRelinked)) = [1]"
    unfolding x(5) by (intro singleton_list) simp_all
  show "confirmedFor exampleRelinked 1 [exampleConfirmed] = [exampleConfirmed]"
    using u l by (simp add: confirmedFor_def concerns_def exampleConfirmed_def del: One_nat_def)
  have "writeEventToStream exampleConfirmed \<noteq> []" by (simp add: writeEventToStream_def leBytes_def)
  then show "sendEvents proc (\<lambda>m. m) [exampleConfirmed] exampleRelinked =
     Inr [SentConfirmed 1 (writeEventToStream exampleConfirmed)]"
    using u l a
    by (simp add: sendEvents_def exampleConfirmed_def writeForRemote_def dataOf_def emptyData_def noBuffers_def
        del: One_nat_def)
qed

section \<open>Properties\<close>

text \<open>
  C22. The confirmed events of a remote participant arrive: if a pass completes, and the participants of its process
  are linked to the same updates, then the events of the objects it is linked to are sent to its process in one
  message, which reads back as these events, in order.
\<close>

theorem confirmed_events_delivered:
  assumes "managerRun keys complete M" "walksAll keys" "walksData order"
    and "sendEvents proc order events M = Inr out" "r \<in> Domain (subscribed (handler M))"
    and "\<And>r' u. proc r' = proc r \<Longrightarrow> (r', u) \<in> sends (handler M) \<longleftrightarrow> (r, u) \<in> sends (handler M)"
    and "confirmedFor M r events \<noteq> []" "\<And>e. e \<in> set events \<Longrightarrow> announced e"
  shows "\<exists>r' bytes. proc r' = proc r \<and> SentConfirmed r' bytes \<in> set out \<and>
     readEvents bytes = (map received (confirmedFor M r events), None)"
proof -
  from managerRun_ok [OF assms(1,2)] have ok: "handlerOk (handler M)" "referenceOk M"
    by (auto simp: managerOk_def coreOk_def)
  have "aRemoteParticipant M \<noteq> None"
    using ok(2) assms(5) by (cases "aRemoteParticipant M") (auto simp: referenceOk_def)
  moreover have "events \<noteq> []" using assms(7) by (auto simp: confirmedFor_def)
  ultimately obtain m mc where m: "distinct (map fst m)" "set out = mc \<union> set (sendPerProcess proc (order m) {})"
      "set (order m) = set m"
      "\<And>r. confirmedBuffer (dataOf r m) = concat (map writeEventToStream (confirmedFor M r events))"
    using sendEvents_data [OF assms(4,3) ok(1)] by metis
  have nonempty: "writeEventToStream e \<noteq> []" for e by (simp add: writeEventToStream_def leBytes_def)
  then have "confirmedBuffer (dataOf r m) \<noteq> []" using m(4) [of r] assms(7) by (cases "confirmedFor M r events") auto
  then have "map_of m r \<noteq> None" by (cases "map_of m r") (auto simp: dataOf_def emptyData_def)
  then obtain d where "(r, d) \<in> set (order m)" using m(3) by (auto dest: map_of_SomeD)
  from sendPerProcess_first [OF this, of proc "{}"] obtain r' d' where r': "(r', d') \<in> set m" "proc r' = proc r"
      "confirmedBuffer d' \<noteq> [] \<longrightarrow> SentConfirmed r' (confirmedBuffer d') \<in> set out"
    using m(2,3) by auto
  have "concerns M r' e \<longleftrightarrow> concerns M r e" for e
    using assms(6) [OF r'(2)] ok(1) forEachY_pairs [of "remotesUpdates (handler M)"]
    by (auto simp: concerns_def handlerOk_def)
  then have same: "confirmedFor M r' events = confirmedFor M r events" by (simp add: confirmedFor_def)
  have "dataOf r' m = d'" using m(1) r'(1) by (simp add: dataOf_def)
  then have d': "confirmedBuffer d' = concat (map writeEventToStream (confirmedFor M r events))"
    using m(4) [of r'] same by simp
  then have "confirmedBuffer d' \<noteq> []" using m(4) \<open>confirmedBuffer (dataOf r m) \<noteq> []\<close> by simp
  moreover have "readEvents (confirmedBuffer d') = (map received (confirmedFor M r events), None)"
    unfolding d' by (rule readEvents_written) (use assms(8) in \<open>auto simp: confirmedFor_def\<close>)
  ultimately show ?thesis using r'(2,3) by blast
qed

theorem confirmed_events_delivered_witness:
  "\<exists>bytes. SentConfirmed (1 :: nat) bytes \<in> set [SentConfirmed 1 (writeEventToStream exampleConfirmed)] \<and>
     readEvents bytes = ([received exampleConfirmed], None)"
proof -
  note x = exampleRelinked_state
  let ?proc = "\<lambda>r :: nat. if r = 1 then 0 else 1 :: u32"
  have linked: "(r', u) \<in> sends (handler exampleRelinked) \<longleftrightarrow> (1, u) \<in> sends (handler exampleRelinked)"
    if "?proc r' = ?proc 1" for r' u using that by (simp add: x(5) split: if_splits)
  have "announced e" if "e \<in> set [exampleConfirmed]" for e
    using that by (simp add: announced_def exampleConfirmed_def exampleEvent_def)
  from confirmed_events_delivered [OF x(1) [of someOrder True] someOrder_walks, of "\<lambda>m. m" ?proc,
      OF _ exampleConfirmed_sent(2), of 1, OF _ _ linked _ this]
  show ?thesis by (simp add: walksData_def x(3) exampleConfirmed_sent(1) del: One_nat_def)
qed

text \<open>
  All the confirmed events sent to a process are those of one of its participants: what concerns another
  participant of the process only is lost.
\<close>

theorem events_of_one_participant:
  assumes "managerRun keys complete M" "walksAll keys" "walksData order"
    and "sendEvents proc order events M = Inr out" "SentConfirmed r bytes \<in> set out"
  shows "bytes = concat (map writeEventToStream (confirmedFor M r events)) \<and>
     (\<forall>r' bytes'. proc r' = proc r \<and> r' \<noteq> r \<longrightarrow> SentConfirmed r' bytes' \<notin> set out)"
proof -
  from managerRun_ok [OF assms(1,2)] have ok: "handlerOk (handler M)" by (auto simp: managerOk_def coreOk_def)
  have "aRemoteParticipant M \<noteq> None" "events \<noteq> []"
    using assms(4,5) by (auto simp: sendEvents_def split: option.splits)
  from sendEvents_data [OF assms(4,3) ok this] obtain m mc where m: "distinct (map fst m)"
      "set out = mc \<union> set (sendPerProcess proc (order m) {})" "\<And>r bytes. SentConfirmed r bytes \<notin> mc"
      "set (order m) = set m" "distinct (map fst (order m))"
      "\<And>r. confirmedBuffer (dataOf r m) = concat (map writeEventToStream (confirmedFor M r events))"
    by metis
  have "SentConfirmed r bytes \<in> set (sendPerProcess proc (order m) {})" using assms(5) m(2,3) by blast
  from sendPerProcess_once [OF m(5) this] obtain d where d: "(r, d) \<in> set m" "bytes = confirmedBuffer d"
    and once: "\<forall>r' bytes'. SentConfirmed r' bytes' \<in> set (sendPerProcess proc (order m) {}) \<longrightarrow>
        proc r' = proc r \<longrightarrow> r' = r" using m(4) by auto
  have "dataOf r m = d" using m(1) d(1) by (simp add: dataOf_def)
  then show ?thesis using m(2,3) m(6) [of r] d(2) once by auto
qed

theorem events_of_one_participant_witness:
  "\<forall>bytes. SentConfirmed (2 :: nat) bytes \<notin> set [SentConfirmed 1 (writeEventToStream exampleConfirmed)]"
  using events_of_one_participant [OF exampleRelinked_state(1) [of someOrder True] someOrder_walks, of "\<lambda>m. m" "\<lambda>_. 0",
      OF _ exampleConfirmed_sent(2), of 1 "writeEventToStream exampleConfirmed"]
  by (simp add: walksData_def)

end
