(* ===== verification/Meta_Class.thy ===== *)
theory Meta_Class
  imports Meta_Make
begin

text \<open>
  Classes (meta/class_type.cpp): the validation of ClassType::make, the searches of members in the
  class and its ancestors, the lists of members, and the inheritance tests.
\<close>

section \<open>Walking a class and its parents\<close>

text \<open>The first result of a list of searches.\<close>

fun firstSome :: "'r option list \<Rightarrow> 'r option" where
  "firstSome [] = None"
| "firstSome (r # rs) = (case r of Some x \<Rightarrow> Some x | None \<Rightarrow> firstSome rs)"

text \<open>The search in the own members, then in the parents in their order.\<close>

primrec searchClass :: "(Type ClassSpec \<Rightarrow> 'r option) \<Rightarrow> Type \<Rightarrow> 'r option" where
  "searchClass own (NativeType k) = None"
| "searchClass own (EnumType a n es st) = None"
| "searchClass own (QuantityType a k n e u mn mx) = None"
| "searchClass own (SequenceType a n e mx fx) = None"
| "searchClass own (AliasType a n e) = None"
| "searchClass own (OptionalType a n e) = None"
| "searchClass own (VariantType a n fs) = None"
| "searchClass own (StructType a n fs p) = None"
| "searchClass own (ClassType a c) = (case own c of
     Some r \<Rightarrow> Some r
   | None \<Rightarrow> firstSome (class_parents (map_ClassSpec (searchClass own) c)))"

text \<open>The members of the parents in their order, then the own members.\<close>

primrec collectClass :: "(Type ClassSpec \<Rightarrow> 'r list) \<Rightarrow> Type \<Rightarrow> 'r list" where
  "collectClass own (NativeType k) = []"
| "collectClass own (EnumType a n es st) = []"
| "collectClass own (QuantityType a k n e u mn mx) = []"
| "collectClass own (SequenceType a n e mx fx) = []"
| "collectClass own (AliasType a n e) = []"
| "collectClass own (OptionalType a n e) = []"
| "collectClass own (VariantType a n fs) = []"
| "collectClass own (StructType a n fs p) = []"
| "collectClass own (ClassType a c) = concat (class_parents (map_ClassSpec (collectClass own) c)) @ own c"

primrec anyAncestor :: "(Type \<Rightarrow> bool) \<Rightarrow> Type \<Rightarrow> bool" where
  "anyAncestor P (NativeType k) = False"
| "anyAncestor P (EnumType a n es st) = False"
| "anyAncestor P (QuantityType a k n e u mn mx) = False"
| "anyAncestor P (SequenceType a n e mx fx) = False"
| "anyAncestor P (AliasType a n e) = False"
| "anyAncestor P (OptionalType a n e) = False"
| "anyAncestor P (VariantType a n fs) = False"
| "anyAncestor P (StructType a n fs p) = False"
| "anyAncestor P (ClassType a c) \<longleftrightarrow>
     P (ClassType a c) \<or> list_ex id (class_parents (map_ClassSpec (anyAncestor P) c))"

lemma walk_class [simp]:
  "searchClass own (ClassType a c) =
     (case own c of Some r \<Rightarrow> Some r | None \<Rightarrow> firstSome (map (searchClass own) (class_parents c)))"
  "collectClass get (ClassType a c) = concat (map (collectClass get) (class_parents c)) @ get c"
  "anyAncestor P (ClassType a c) \<longleftrightarrow> P (ClassType a c) \<or> list_ex (anyAncestor P) (class_parents c)"
  by (simp_all add: ClassSpec.map_sel list_ex_iff split: option.split)

declare searchClass.simps(9) [simp del] collectClass.simps(9) [simp del] anyAncestor.simps(9) [simp del]

section \<open>Operations\<close>

datatype SearchMode = IncludeParents | DoNotIncludeParents

text \<open>A search restricted to the class itself.\<close>

definition ownSpec :: "(Type ClassSpec \<Rightarrow> 'r option) \<Rightarrow> Type \<Rightarrow> 'r option" where
  "ownSpec own t = (case t of ClassType a c \<Rightarrow> own c | _ \<Rightarrow> None)"

definition withMode :: "SearchMode \<Rightarrow> (Type ClassSpec \<Rightarrow> 'r option) \<Rightarrow> Type \<Rightarrow> 'r option" where
  "withMode mode own t = (case mode of IncludeParents \<Rightarrow> searchClass own t | DoNotIncludeParents \<Rightarrow> ownSpec own t)"

definition searchPropertyByName :: "string \<Rightarrow> SearchMode \<Rightarrow> Type \<Rightarrow> Type PropertySpec option" where
  "searchPropertyByName name mode =
     withMode mode (\<lambda>c. find (\<lambda>p. prop_name p = name) (class_properties c))"

text \<open>\<open>emplace\<close> keeps the first property of an id, so the map finds the first one in the list.\<close>

definition searchPropertyById :: "u32 \<Rightarrow> SearchMode \<Rightarrow> Type \<Rightarrow> Type PropertySpec option" where
  "searchPropertyById h mode = withMode mode (\<lambda>c. find (\<lambda>p. propertyId p = h) (class_properties c))"

text \<open>The methods of a property: its getter, and its setter when it can be written from outside.\<close>

definition propertyMethods :: "Type PropertySpec \<Rightarrow> Type MethodSpec list" where
  "propertyMethods p = getterMethod p # (if prop_category p = DynamicRW then [setterMethod p] else [])"

abbreviation methodName :: "'ty MethodSpec \<Rightarrow> string" where
  "methodName m \<equiv> callable_name (method_callable m)"

abbreviation eventName :: "'ty EventSpec \<Rightarrow> string" where
  "eventName e \<equiv> callable_name (event_callable e)"

definition ownMethods :: "Type ClassSpec \<Rightarrow> Type MethodSpec list" where
  "ownMethods c = class_methods c @ concat (map propertyMethods (class_properties c))"

definition searchMethodByName :: "string \<Rightarrow> SearchMode \<Rightarrow> Type \<Rightarrow> Type MethodSpec option" where
  "searchMethodByName name mode = withMode mode (\<lambda>c. find (\<lambda>m. methodName m = name) (ownMethods c))"

definition searchMethodById :: "u32 \<Rightarrow> SearchMode \<Rightarrow> Type \<Rightarrow> Type MethodSpec option" where
  "searchMethodById h mode = withMode mode (\<lambda>c. find (\<lambda>m. methodId m = h) (ownMethods c))"

definition ownEvents :: "Type ClassSpec \<Rightarrow> Type EventSpec list" where
  "ownEvents c = class_events c @ map changeEvent (class_properties c)"

definition searchEventByName :: "string \<Rightarrow> SearchMode \<Rightarrow> Type \<Rightarrow> Type EventSpec option" where
  "searchEventByName name mode = withMode mode (\<lambda>c. find (\<lambda>e. eventName e = name) (ownEvents c))"

text \<open>The search by id looks only at the declared events, not at the change events of properties.\<close>

definition searchEventById :: "u32 \<Rightarrow> SearchMode \<Rightarrow> Type \<Rightarrow> Type EventSpec option" where
  "searchEventById h mode = withMode mode (\<lambda>c. find (\<lambda>e. eventId e = h) (class_events c))"

definition membersOf :: "SearchMode \<Rightarrow> (Type ClassSpec \<Rightarrow> 'r list) \<Rightarrow> Type \<Rightarrow> 'r list" where
  "membersOf mode get t = (case mode of
     IncludeParents \<Rightarrow> collectClass get t
   | DoNotIncludeParents \<Rightarrow> (case t of ClassType a c \<Rightarrow> get c | _ \<Rightarrow> []))"

definition getProperties :: "SearchMode \<Rightarrow> Type \<Rightarrow> Type PropertySpec list" where
  "getProperties mode = membersOf mode class_properties"

definition getMethods :: "SearchMode \<Rightarrow> Type \<Rightarrow> Type MethodSpec list" where
  "getMethods mode = membersOf mode class_methods"

definition getEvents :: "SearchMode \<Rightarrow> Type \<Rightarrow> Type EventSpec list" where
  "getEvents mode = membersOf mode class_events"

definition isSameOrInheritsFrom :: "Type \<Rightarrow> Type \<Rightarrow> bool" where
  "isSameOrInheritsFrom t other = anyAncestor (\<lambda>x. getHash x = getHash other) t"

definition isSameOrInheritsFromName :: "Type \<Rightarrow> string \<Rightarrow> bool" where
  "isSameOrInheritsFromName t name = anyAncestor (\<lambda>x. getQualifiedName x = name) t"

section \<open>The factory\<close>

definition classError :: "Type ClassSpec \<Rightarrow> string \<Rightarrow> string" where
  "classError spec message = ''error in class '' @ quote @ tn_name (class_names spec) @ quote @ '' spec: '' @ message"

definition checkLocalProperties :: "Type ClassSpec \<Rightarrow> string + unit" where
  "checkLocalProperties spec =
     forPairs (\<lambda>current other. throwIf (prop_name other = prop_name current)
                 (classError spec (''duplicated property name '' @ quote @ prop_name current @ quote)))
       (class_properties spec)"

text \<open>A member of a parent with the name of an own member.\<close>

definition checkInherited ::
  "Type ClassSpec \<Rightarrow> string \<Rightarrow> ('m \<Rightarrow> string) \<Rightarrow> (string \<Rightarrow> Type \<Rightarrow> bool) \<Rightarrow> 'm list \<Rightarrow> string + unit" where
  "checkInherited spec what nameOf found members =
     forEach (\<lambda>m.
       forEach (\<lambda>parent. throwIf (found (nameOf m) parent)
                 (classError spec (''parent class '' @ getQualifiedName parent @ '' already has '' @ what
                    @ '' named '' @ nameOf m)))
         (class_parents spec))
       members"

definition checkInheritedProperties :: "Type ClassSpec \<Rightarrow> string + unit" where
  "checkInheritedProperties spec =
     checkInherited spec ''a property'' prop_name
       (\<lambda>n parent. searchPropertyByName n IncludeParents parent \<noteq> None) (class_properties spec)"

definition checkAndBuildProperties :: "Type ClassSpec \<Rightarrow> string + unit" where
  "checkAndBuildProperties spec =
     rbind (checkLocalProperties spec) (\<lambda>_.
     rbind (checkInheritedProperties spec) (\<lambda>_.
       forEach (\<lambda>p. rbind (propertyMake p) (\<lambda>_. Inr ())) (class_properties spec)))"

definition checkLocalMethods :: "Type ClassSpec \<Rightarrow> string + unit" where
  "checkLocalMethods spec =
     forPairs (\<lambda>current other. throwIf (methodName other = methodName current)
                 (classError spec (''method with repeated name '' @ quote @ methodName other @ quote)))
       (class_methods spec)"

definition checkInheritedMethods :: "Type ClassSpec \<Rightarrow> string + unit" where
  "checkInheritedMethods spec =
     checkInherited spec ''a method'' methodName
       (\<lambda>n parent. searchMethodByName n IncludeParents parent \<noteq> None) (class_methods spec)"

definition checkAndBuildMethods :: "Type ClassSpec \<Rightarrow> string + unit" where
  "checkAndBuildMethods spec =
     rbind (checkLocalMethods spec) (\<lambda>_.
     rbind (checkInheritedMethods spec) (\<lambda>_.
       forEach (\<lambda>m. rbind (methodMake m) (\<lambda>_. Inr ())) (class_methods spec)))"

definition checkLocalEvents :: "Type ClassSpec \<Rightarrow> string + unit" where
  "checkLocalEvents spec =
     forPairs (\<lambda>current other. throwIf (eventName other = eventName current)
                 (classError spec (''event with repeated name '' @ quote @ eventName other @ quote)))
       (class_events spec)"

definition checkInheritedEvents :: "Type ClassSpec \<Rightarrow> string + unit" where
  "checkInheritedEvents spec =
     checkInherited spec ''an event'' eventName
       (\<lambda>n parent. searchEventByName n IncludeParents parent \<noteq> None) (class_events spec)"

definition checkAndBuildEvents :: "Type ClassSpec \<Rightarrow> string + unit" where
  "checkAndBuildEvents spec =
     rbind (checkLocalEvents spec) (\<lambda>_.
     rbind (checkInheritedEvents spec) (\<lambda>_.
       forEach (\<lambda>e. rbind (eventMake e) (\<lambda>_. Inr ())) (class_events spec)))"

definition checkParents :: "Type ClassSpec \<Rightarrow> string + unit" where
  "checkParents spec =
     rbind (throwIf (class_isInterface spec \<and> class_parents spec \<noteq> [])
              (classError spec ''interface classes cannot have parents''))
       (\<lambda>_. forPairs (\<lambda>current other. throwIf (isSameOrInheritsFrom current other)
              (classError spec (''invalid parent class '' @ quote @ getQualifiedName other @ quote
                 @ '' check the hierarchy as it might be repeated.'')))
            (class_parents spec))"

definition checkAndBuildConstructor :: "Type ClassSpec \<Rightarrow> string + unit" where
  "checkAndBuildConstructor spec = (case class_constructor spec of
     None \<Rightarrow> Inr ()
   | Some m \<Rightarrow> rbind (methodMake m) (\<lambda>_. Inr ()))"

definition classMake :: "nat \<Rightarrow> Type ClassSpec \<Rightarrow> string + Type" where
  "classMake address spec =
     rbind (checkTypeNames (class_names spec)) (\<lambda>_.
     rbind (checkAndBuildProperties spec) (\<lambda>_.
     rbind (checkAndBuildMethods spec) (\<lambda>_.
     rbind (checkAndBuildEvents spec) (\<lambda>_.
     rbind (checkParents spec) (\<lambda>_.
     rbind (checkAndBuildConstructor spec) (\<lambda>_.
       Inr (ClassType address spec)))))))"

text \<open>
  The class a component derives from a generated one: it is named after the package, or after the
  package of its parent, and takes the constructor of its parent.
\<close>

definition makeImplementation :: "nat \<Rightarrow> string \<Rightarrow> Type \<Rightarrow> string option \<Rightarrow> string + Type" where
  "makeImplementation address name parent packagePath =
    (let full = getQualifiedName parent;
         package = (case packagePath of Some p \<Rightarrow> p
                    | None \<Rightarrow> if CHR ''.'' \<in> set full
                              then rev (tl (dropWhile (\<lambda>c. c \<noteq> CHR ''.'') (rev full))) else full);
         constructor = (case parent of ClassType a c \<Rightarrow> class_constructor c | _ \<Rightarrow> None)
     in classMake address
          (ClassSpec (TypeNames name (package @ ''.'' @ name) (''Implementation of '' @ full))
             [] [] [] constructor [parent] False False))"

section \<open>Laws of the walks\<close>

text \<open>A class and its ancestors, by rule induction on the parents.\<close>

inductive ancestor :: "Type \<Rightarrow> Type \<Rightarrow> bool" where
  self: "ancestor (ClassType a c) (ClassType a c)"
| parent: "p \<in> set (class_parents c) \<Longrightarrow> ancestor p t \<Longrightarrow> ancestor (ClassType a c) t"

inductive_cases ancestorE: "ancestor (ClassType a c) t"

lemma firstSome_None [simp]: "firstSome rs = None \<longleftrightarrow> (\<forall>r \<in> set rs. r = None)"
  by (induction rs) (auto split: option.splits)

lemma anyAncestor_iff: "anyAncestor P t \<longleftrightarrow> (\<exists>x. ancestor t x \<and> P x)"
proof (induction t)
  case (ClassType a c)
  have "anyAncestor P p \<longleftrightarrow> (\<exists>x. ancestor p x \<and> P x)" if "p \<in> set (class_parents c)" for p
    using that ClassType by (blast intro: ClassSpec.set_sel)
  then show ?case
    by (auto simp: list_ex_iff intro: ancestor.intros elim: ancestorE)
qed (auto elim: ancestor.cases)

lemma collectClass_iff:
  "r \<in> set (collectClass get t) \<longleftrightarrow> (\<exists>a c. ancestor t (ClassType a c) \<and> r \<in> set (get c))"
proof (induction t)
  case (ClassType a c)
  have "r \<in> set (collectClass get p) \<longleftrightarrow> (\<exists>a c. ancestor p (ClassType a c) \<and> r \<in> set (get c))"
    if "p \<in> set (class_parents c)" for p
    using that ClassType by (blast intro: ClassSpec.set_sel)
  then show ?case
    by (auto intro: ancestor.intros elim!: ancestorE)
qed (auto elim: ancestor.cases)

abbreviation searchBy :: "('r \<Rightarrow> bool) \<Rightarrow> (Type ClassSpec \<Rightarrow> 'r list) \<Rightarrow> Type \<Rightarrow> 'r option" where
  "searchBy P get \<equiv> searchClass (\<lambda>c. find P (get c))"

lemma searchBy_None: "searchBy P get t = None \<longleftrightarrow> (\<forall>r \<in> set (collectClass get t). \<not> P r)"
proof (induction t)
  case (ClassType a c)
  have "searchBy P get p = None \<longleftrightarrow> (\<forall>r \<in> set (collectClass get p). \<not> P r)"
    if "p \<in> set (class_parents c)" for p
    using that ClassType by (blast intro: ClassSpec.set_sel)
  moreover have "find P (get c) = Some r \<Longrightarrow> r \<in> set (get c) \<and> P r" for r
    by (metis find_Some_iff nth_mem)
  ultimately show ?case
    by (fastforce simp: find_None_iff split: option.splits)
qed simp_all

lemma firstSome_concat:
  "(\<And>x. x \<in> set xs \<Longrightarrow> s x = find P (g x)) \<Longrightarrow> firstSome (map s xs) = find P (concat (map g xs))"
  by (induction xs) (auto simp: find_append split: option.splits)

text \<open>
  When no class of the hierarchy has a member that satisfies \<open>P\<close> beside one of its ancestors, the
  search of the own members first finds what the list, with the own members last, has first.
\<close>

lemma searchBy_find:
  assumes "\<And>a c r p. ancestor t (ClassType a c) \<Longrightarrow> r \<in> set (get c) \<Longrightarrow> P r \<Longrightarrow>
             p \<in> set (class_parents c) \<Longrightarrow> searchBy P get p = None"
  shows "searchBy P get t = find P (collectClass get t)"
  using assms
proof (induction t)
  case (ClassType a c)
  have "searchBy P get p = find P (collectClass get p)" if "p \<in> set (class_parents c)" for p
    using that ClassType.IH ClassType.prems ancestor.parent by (metis (no_types, lifting) ClassSpec.set_sel(5))
  then have parents: "firstSome (map (searchBy P get) (class_parents c)) = find P (concat (map (collectClass get) (class_parents c)))"
    by (rule firstSome_concat)
  show ?case
  proof (cases "find P (get c)")
    case None
    then show ?thesis
      using parents by (simp add: find_append split: option.splits)
  next
    case (Some r)
    then have "r \<in> set (get c)" "P r"
      by (metis find_Some_iff nth_mem)+
    then have "firstSome (map (searchBy P get) (class_parents c)) = None"
      using ClassType.prems ancestor.self by fastforce
    then show ?thesis
      using Some parents by (simp add: find_append)
  qed
qed simp_all

section \<open>What the factory accepts\<close>

lemma checkInherited_ok:
  "checkInherited spec what nm found ms = Inr u \<longleftrightarrow> (\<forall>m \<in> set ms. \<forall>p \<in> set (class_parents spec). \<not> found (nm m) p)"
  by (simp add: checkInherited_def)

definition validClass :: "Type ClassSpec \<Rightarrow> bool" where
  "validClass c \<longleftrightarrow> typeNames (class_names c)
     \<and> distinct (map prop_name (class_properties c))
     \<and> (\<forall>p \<in> set (class_properties c). memberName (prop_name p) \<and> prop_type p \<noteq> NativeType VoidType
          \<and> (\<forall>q \<in> set (class_parents c). searchPropertyByName (prop_name p) IncludeParents q = None))
     \<and> distinct (map methodName (class_methods c))
     \<and> (\<forall>m \<in> set (class_methods c). checkSpec (method_callable m) = Inr ()
          \<and> (\<forall>q \<in> set (class_parents c). searchMethodByName (methodName m) IncludeParents q = None))
     \<and> distinct (map eventName (class_events c))
     \<and> (\<forall>e \<in> set (class_events c). checkSpec (event_callable e) = Inr ()
          \<and> (\<forall>q \<in> set (class_parents c). searchEventByName (eventName e) IncludeParents q = None))
     \<and> (class_isInterface c \<longrightarrow> class_parents c = [])
     \<and> (\<forall>i < length (class_parents c). \<forall>j < length (class_parents c).
          i \<noteq> j \<longrightarrow> \<not> isSameOrInheritsFrom (class_parents c ! i) (class_parents c ! j))
     \<and> (\<forall>m. class_constructor c = Some m \<longrightarrow> checkSpec (method_callable m) = Inr ())"

lemma classMake_ok: "classMake a c = Inr t \<longleftrightarrow> validClass c \<and> t = ClassType a c"
proof -
  have "checkAndBuildProperties c = Inr () \<longleftrightarrow> distinct (map prop_name (class_properties c))
      \<and> (\<forall>p \<in> set (class_properties c). memberName (prop_name p) \<and> prop_type p \<noteq> NativeType VoidType
          \<and> (\<forall>q \<in> set (class_parents c). searchPropertyByName (prop_name p) IncludeParents q = None))"
    by (auto simp: checkAndBuildProperties_def checkLocalProperties_def checkInheritedProperties_def rbind_Inr_conv
        checkInherited_ok propertyMake_ok forPairs_ok simp flip: distinct_by_pairs)
  moreover have "checkAndBuildMethods c = Inr () \<longleftrightarrow> distinct (map methodName (class_methods c))
     \<and> (\<forall>m \<in> set (class_methods c). checkSpec (method_callable m) = Inr ()
          \<and> (\<forall>q \<in> set (class_parents c). searchMethodByName (methodName m) IncludeParents q = None))"
    by (auto simp: checkAndBuildMethods_def checkLocalMethods_def checkInheritedMethods_def rbind_Inr_conv
        checkInherited_ok methodMake_def forPairs_ok simp flip: distinct_by_pairs)
  moreover have "checkAndBuildEvents c = Inr () \<longleftrightarrow> distinct (map eventName (class_events c))
     \<and> (\<forall>e \<in> set (class_events c). checkSpec (event_callable e) = Inr ()
          \<and> (\<forall>q \<in> set (class_parents c). searchEventByName (eventName e) IncludeParents q = None))"
    by (auto simp: checkAndBuildEvents_def checkLocalEvents_def checkInheritedEvents_def rbind_Inr_conv
        checkInherited_ok eventMake_def forPairs_ok simp flip: distinct_by_pairs)
  moreover have "checkParents c = Inr () \<longleftrightarrow> (class_isInterface c \<longrightarrow> class_parents c = [])
     \<and> (\<forall>i < length (class_parents c). \<forall>j < length (class_parents c).
          i \<noteq> j \<longrightarrow> \<not> isSameOrInheritsFrom (class_parents c ! i) (class_parents c ! j))"
    by (simp add: checkParents_def rbind_Inr_conv forPairs_ok)
  moreover have "checkAndBuildConstructor c = Inr () \<longleftrightarrow>
      (\<forall>m. class_constructor c = Some m \<longrightarrow> checkSpec (method_callable m) = Inr ())"
    by (auto simp: checkAndBuildConstructor_def methodMake_def rbind_Inr_conv split: option.split)
  ultimately show ?thesis
    unfolding classMake_def validClass_def by (simp add: rbind_Inr_conv) blast
qed

text \<open>Classes that the factory built, from parents that the factory built.\<close>

inductive madeClass :: "Type \<Rightarrow> bool" where
  made: "classMake a c = Inr t \<Longrightarrow> (\<And>p. p \<in> set (class_parents c) \<Longrightarrow> madeClass p) \<Longrightarrow> madeClass t"

lemma madeClassI: "validClass c \<Longrightarrow> (\<And>p. p \<in> set (class_parents c) \<Longrightarrow> madeClass p) \<Longrightarrow> madeClass (ClassType a c)"
  by (rule madeClass.made [where a = a and c = c]) (simp_all add: classMake_ok)

lemma madeClass_valid: "madeClass (ClassType a c) \<Longrightarrow> validClass c"
  by (cases rule: madeClass.cases) (auto simp: classMake_ok)

lemma madeClass_ancestor: "ancestor t x \<Longrightarrow> madeClass t \<Longrightarrow> madeClass x"
  by (induction rule: ancestor.induct) (auto simp: classMake_ok elim: madeClass.cases)

lemma property_search_collect:
  assumes "madeClass t"
  shows "searchPropertyByName n IncludeParents t = find (\<lambda>p. prop_name p = n) (getProperties IncludeParents t)"
  unfolding searchPropertyByName_def withMode_def getProperties_def membersOf_def SearchMode.case
proof (rule searchBy_find)
  fix a c r p
  assume "ancestor t (ClassType a c)" "r \<in> set (class_properties c)" "prop_name r = n" "p \<in> set (class_parents c)"
  then show "searchBy (\<lambda>p. prop_name p = n) class_properties p = None"
    using madeClass_valid [OF madeClass_ancestor [OF _ assms]]
    by (auto simp: validClass_def searchPropertyByName_def withMode_def)
qed

text \<open>
  In a class that the factory built from such classes, the search of a property by name, which
  looks at the class before its parents, gives the first property of that name in getProperties,
  which lists the parents first: no property shadows an inherited one.  The property found is one
  of an ancestor, and none is found only when no ancestor has one.
\<close>

theorem class_property_lookup:
  assumes "madeClass t"
  shows "searchPropertyByName n IncludeParents t = find (\<lambda>p. prop_name p = n) (getProperties IncludeParents t)
    \<and> (searchPropertyByName n IncludeParents t \<noteq> None \<longleftrightarrow>
         (\<exists>a c. ancestor t (ClassType a c) \<and> n \<in> prop_name ` set (class_properties c)))"
proof
  show eq: "searchPropertyByName n IncludeParents t = find (\<lambda>p. prop_name p = n) (getProperties IncludeParents t)"
    by (rule property_search_collect) (rule assms)
  show "searchPropertyByName n IncludeParents t \<noteq> None \<longleftrightarrow>
         (\<exists>a c. ancestor t (ClassType a c) \<and> n \<in> prop_name ` set (class_properties c))"
    unfolding eq
    by (auto simp: find_None_iff getProperties_def membersOf_def collectClass_iff simp del: not_None_eq)
qed

definition exampleClass :: Type where
  "exampleClass = ClassType 1 (ClassSpec (TypeNames ''Node'' ''p.Node'' [])
     [PropertySpec ''address'' [] StaticRW (NativeType UInt32Type) Confirmed [] False] [] [] None [] False False)"

definition exampleSpec :: "Type ClassSpec" where
  "exampleSpec = ClassSpec (TypeNames ''Relay'' ''p.Relay'' [])
     [PropertySpec ''power'' [] DynamicRW (NativeType Float64Type) Multicast [] False] [] [] None [exampleClass] False False"

definition exampleSubclass :: Type where
  "exampleSubclass = ClassType 2 exampleSpec"

lemmas class_eval = classMake_ok validClass_def name_eval memberName_def identifierName_def
  searchPropertyByName_def searchMethodByName_def searchEventByName_def withMode_def

lemma exampleClass_made: "madeClass exampleClass"
  unfolding exampleClass_def
  by (rule madeClassI) (simp_all add: class_eval)

lemma exampleSubclass_made: "madeClass exampleSubclass"
  unfolding exampleSubclass_def
  by (rule madeClassI) (use exampleClass_made in \<open>simp_all add: class_eval exampleClass_def exampleSpec_def\<close>)

theorem class_property_lookup_witness:
  "madeClass exampleSubclass
   \<and> map_option prop_category (searchPropertyByName ''address'' IncludeParents exampleSubclass) = Some StaticRW
   \<and> searchPropertyByName ''colour'' IncludeParents exampleSubclass = None"
  using class_property_lookup [OF exampleSubclass_made, of "''address''"]
    class_property_lookup [OF exampleSubclass_made, of "''colour''"] exampleSubclass_made
  by (simp add: getProperties_def membersOf_def exampleSubclass_def exampleSpec_def exampleClass_def)

text \<open>
  The inheritance tests decide the ancestor relation: by name, whether some ancestor has the
  qualified name; by type, whether some ancestor has the hash of the type, which for two classes of
  one heap without quantities holds for every ancestor equal to it.  Every class is its own
  ancestor, and what a parent inherits from, the class inherits from.
\<close>

theorem inheritance_is_ancestry:
  "(isSameOrInheritsFromName t n \<longleftrightarrow> (\<exists>x. ancestor t x \<and> getQualifiedName x = n))
   \<and> (isSameOrInheritsFrom t u \<longleftrightarrow> (\<exists>x. ancestor t x \<and> getHash x = getHash u))
   \<and> (ancestor t x \<and> equals x u \<and> oneHeap x u \<and> quantityFree x \<longrightarrow> isSameOrInheritsFrom t u)
   \<and> isSameOrInheritsFrom (ClassType a c) (ClassType a c)
   \<and> (p \<in> set (class_parents c) \<and> isSameOrInheritsFrom p u \<longrightarrow> isSameOrInheritsFrom (ClassType a c) u)"
  using equals_hash
  by (auto simp: isSameOrInheritsFromName_def isSameOrInheritsFrom_def anyAncestor_iff intro: ancestor.intros)

theorem inheritance_is_ancestry_witness:
  "isSameOrInheritsFrom exampleSubclass exampleClass \<and> isSameOrInheritsFromName exampleSubclass ''p.Node''
   \<and> \<not> isSameOrInheritsFromName exampleClass ''p.Relay''"
proof -
  note law = inheritance_is_ancestry [of t n u x a c p for t n u x a c p]
  have "exampleClass \<in> set (class_parents exampleSpec)"
    by (simp add: exampleSpec_def)
  moreover have "isSameOrInheritsFrom exampleClass exampleClass"
    unfolding exampleClass_def using law by blast
  ultimately have "isSameOrInheritsFrom exampleSubclass exampleClass"
    unfolding exampleSubclass_def
    using inheritance_is_ancestry [where p = exampleClass and c = exampleSpec and u = exampleClass and a = 2] by blast
  then show ?thesis
    by (simp add: isSameOrInheritsFromName_def exampleSubclass_def exampleSpec_def exampleClass_def)
qed

end
