(* ===== verification/Meta_Registry.thy ===== *)
theory Meta_Registry
  imports Meta_Class
begin

text \<open>
  The registry of custom types (meta/type_registry.cpp): the walk over the types a type depends on,
  the registration of a type after its dependencies, and the lookups by name and by hash.
\<close>

section \<open>Dependent types\<close>

text \<open>
  The types the visitor of a type passes to typeDiscovered, in its order.  A class names its parents,
  the types of its properties, the arguments of its events and the arguments and results of its
  methods; \<open>isVoid\<close> tells the results that are left out.
\<close>

definition methodTypes :: "('ty \<Rightarrow> bool) \<Rightarrow> 'ty MethodSpec \<Rightarrow> 'ty list" where
  "methodTypes isVoid m =
     map arg_type (callable_args (method_callable m))
     @ (if isVoid (method_returnType m) then [] else [method_returnType m])"

definition classTypes :: "('ty \<Rightarrow> bool) \<Rightarrow> 'ty ClassSpec \<Rightarrow> 'ty list" where
  "classTypes isVoid c =
     class_parents c @ map prop_type (class_properties c)
     @ concat (map (\<lambda>e. map arg_type (callable_args (event_callable e))) (class_events c))
     @ concat (map (methodTypes isVoid) (class_methods c))"

text \<open>
  A walk over a type is the list of callbacks it makes: typeDiscovered visits the discovered type
  first and passes it to the callback afterwards.  For a struct the loop over the ancestors discovers
  each of them in turn, although the walk of the nearest one has discovered the others already.
  \<open>walks t\<close> is the walk of \<open>t\<close> and the callbacks of that loop when it starts at \<open>t\<close>.
\<close>

type_synonym walk = "Type \<times> Type list \<times> Type list"

definition typeDiscovered :: "walk \<Rightarrow> Type list" where
  "typeDiscovered w = fst (snd w) @ [fst w]"

definition walkIsVoid :: "walk \<Rightarrow> bool" where
  "walkIsVoid w = (fst w = NativeType VoidType)"

definition ancestorsWalk :: "(Type list \<times> Type list) option \<Rightarrow> Type list" where
  "ancestorsWalk w = (case w of Some ws \<Rightarrow> snd ws | None \<Rightarrow> [])"

primrec walks :: "Type \<Rightarrow> Type list \<times> Type list" where
  "walks (NativeType k) = ([], [])"
| "walks (EnumType a n es st) = ([], [])"
| "walks (QuantityType a k n e u mn mx) = (if k = PlainQuantity then [NativeType e] else [], [])"
| "walks (SequenceType a n e mx fx) = (typeDiscovered (e, walks e), [])"
| "walks (AliasType a n e) = (typeDiscovered (e, walks e), [])"
| "walks (OptionalType a n e) = (typeDiscovered (e, walks e), [])"
| "walks (VariantType a n fs) =
     (concat (map (typeDiscovered \<circ> variant_type) (map (map_VariantField (\<lambda>x. (x, walks x))) fs)), [])"
| "walks (StructType a n fs p) =
    (let up = ancestorsWalk (map_option walks p);
         w = up @ concat (map (typeDiscovered \<circ> field_type) (map (map_StructField (\<lambda>x. (x, walks x))) fs))
     in (w, w @ StructType a n fs p # up))"
| "walks (ClassType a c) =
     (concat (map typeDiscovered (classTypes walkIsVoid (map_ClassSpec (\<lambda>x. (x, walks x)) c))), [])"

definition iterateOverDependentTypes :: "Type \<Rightarrow> Type list" where
  "iterateOverDependentTypes t = fst (walks t)"

section \<open>The registry\<close>

record Registry =
  types :: "string \<rightharpoonup> Type"
  typesByHash :: "u32 \<rightharpoonup> Type"
  typesInDependencyOrder :: "Type list"

definition emptyRegistry :: Registry where
  "emptyRegistry = \<lparr>types = Map.empty, typesByHash = Map.empty, typesInDependencyOrder = []\<rparr>"

definition isCustomType :: "Type \<Rightarrow> bool" where
  "isCustomType t = (case t of NativeType k \<Rightarrow> False | _ \<Rightarrow> True)"

definition isTimeType :: "Type \<Rightarrow> bool" where
  "isTimeType t = (case t of QuantityType a k n e u mn mx \<Rightarrow> k \<noteq> PlainQuantity | _ \<Rightarrow> False)"

definition isStructType :: "Type \<Rightarrow> bool" where
  "isStructType t = (case t of StructType a n fs p \<Rightarrow> True | _ \<Rightarrow> False)"

definition isClassType :: "Type \<Rightarrow> bool" where
  "isClassType t = (case t of ClassType a c \<Rightarrow> True | _ \<Rightarrow> False)"

text \<open>No result stands for the assertion that fails when the name is already there.\<close>

definition uncheckedAdd :: "Type \<Rightarrow> Registry \<Rightarrow> Registry option" where
  "uncheckedAdd t r =
     (if getQualifiedName t \<in> dom (types r) then None
      else Some (r\<lparr>types := (types r)(getQualifiedName t \<mapsto> t),
                   typesByHash := (if getHash t \<in> dom (typesByHash r) then typesByHash r
                                   else (typesByHash r)(getHash t \<mapsto> t)),
                   typesInDependencyOrder := typesInDependencyOrder r @ [t]\<rparr>))"

definition dependentCallback :: "Type \<Rightarrow> Registry \<Rightarrow> Registry option" where
  "dependentCallback t r =
     (if isCustomType t \<and> getQualifiedName t \<notin> dom (types r) then uncheckedAdd t r else Some r)"

fun callbacks :: "Type list \<Rightarrow> Registry \<Rightarrow> Registry option" where
  "callbacks [] r = Some r"
| "callbacks (t # ts) r = Option.bind (dependentCallback t r) (callbacks ts)"

definition registryAdd :: "Type \<Rightarrow> Registry \<Rightarrow> Registry option" where
  "registryAdd t r =
     (if \<not> isCustomType t \<or> isTimeType t then Some r
      else if getQualifiedName t \<in> dom (types r) then Some r
      else Option.bind (callbacks (iterateOverDependentTypes t) r) (uncheckedAdd t))"

text \<open>
  The built-in types, in the order of getNativeTypes.  The two time types are quantities in
  nanoseconds; \<open>ns\<close> is the unit the unit registry gives for that abbreviation.
\<close>

definition timestampType :: "Unit \<Rightarrow> Type" where
  "timestampType ns = QuantityType 0 TimestampQuantity (TypeNames ''TimeStamp'' ''sen.TimeStamp'' ''a point in time'')
     Int64Type (Some ns) None None"

definition durationType :: "Unit \<Rightarrow> Type" where
  "durationType ns = QuantityType 1 DurationQuantity (TypeNames ''Duration'' ''sen.Duration'' ''a time duration'')
     Int64Type (Some ns) None None"

definition getNativeTypes :: "Unit \<Rightarrow> Type list" where
  "getNativeTypes ns =
     map NativeType [UInt8Type, Int16Type, UInt16Type, Int32Type, UInt32Type, Int64Type, UInt64Type,
       Float32Type, Float64Type, BoolType, StringType]
     @ [timestampType ns, durationType ns, NativeType VoidType]"

definition registryGet :: "Unit \<Rightarrow> Registry \<Rightarrow> string \<Rightarrow> Type option" where
  "registryGet ns r name = (case types r name of
     Some t \<Rightarrow> Some t
   | None \<Rightarrow> find (\<lambda>t. getName t = name) (getNativeTypes ns))"

definition registryGetByHash :: "Unit \<Rightarrow> Registry \<Rightarrow> u32 \<Rightarrow> Type option" where
  "registryGetByHash ns r h = (case typesByHash r h of
     Some t \<Rightarrow> Some t
   | None \<Rightarrow> find (\<lambda>t. getHash t = h) (getNativeTypes ns))"

section \<open>Dependencies come first\<close>

text \<open>The types a type directly depends on.\<close>

definition deps :: "Type \<Rightarrow> Type list" where
  "deps t = (case t of
     NativeType k \<Rightarrow> []
   | EnumType a n es st \<Rightarrow> []
   | QuantityType a k n e u mn mx \<Rightarrow> if k = PlainQuantity then [NativeType e] else []
   | SequenceType a n e mx fx \<Rightarrow> [e]
   | AliasType a n e \<Rightarrow> [e]
   | OptionalType a n e \<Rightarrow> [e]
   | VariantType a n fs \<Rightarrow> map variant_type fs
   | StructType a n fs p \<Rightarrow> parentChain p @ map field_type fs
   | ClassType a c \<Rightarrow> classTypes (\<lambda>x. x = NativeType VoidType) c)"

fun closedAfter :: "Type set \<Rightarrow> Type list \<Rightarrow> bool" where
  "closedAfter S [] = True"
| "closedAfter S (t # ts) \<longleftrightarrow> set (deps t) \<subseteq> S \<and> closedAfter (insert t S) ts"

lemma closedAfter_mono: "closedAfter S ts \<Longrightarrow> S \<subseteq> S' \<Longrightarrow> closedAfter S' ts"
  by (induction ts arbitrary: S S') (simp, meson closedAfter.simps(2) insert_mono order_trans)

lemma closedAfter_append: "closedAfter S (xs @ ys) \<longleftrightarrow> closedAfter S xs \<and> closedAfter (S \<union> set xs) ys"
  by (induction xs arbitrary: S) (auto simp: insert_commute)

lemma closedAfter_both: "closedAfter {} xs \<Longrightarrow> closedAfter {} ys \<Longrightarrow> closedAfter {} (xs @ ys)"
  by (auto simp: closedAfter_append intro: closedAfter_mono [of "{}"])

lemma closedAfter_concat: "(\<And>xs. xs \<in> set xss \<Longrightarrow> closedAfter {} xs) \<Longrightarrow> closedAfter {} (concat xss)"
  by (induction xss) (auto intro: closedAfter_both)

text \<open>What a walk promises: it is closed under dependencies and ends with those of its type.\<close>

definition soundWalk :: "Type \<Rightarrow> bool" where
  "soundWalk t \<longleftrightarrow> closedAfter {} (fst (walks t)) \<and> set (deps t) \<subseteq> set (fst (walks t))
     \<and> closedAfter {} (snd (walks t)) \<and> set (structChain t) \<subseteq> set (snd (walks t))"

lemma soundWalk_discovered:
  "soundWalk t \<Longrightarrow> closedAfter {} (typeDiscovered (t, walks t)) \<and> t \<in> set (typeDiscovered (t, walks t))"
  by (simp add: soundWalk_def typeDiscovered_def closedAfter_append)

lemma soundWalk_each:
  assumes "\<And>x. x \<in> set xs \<Longrightarrow> soundWalk x"
  shows "closedAfter {} (concat (map (\<lambda>x. typeDiscovered (x, walks x)) xs))"
    and "set xs \<subseteq> set (concat (map (\<lambda>x. typeDiscovered (x, walks x)) xs))"
  using assms soundWalk_discovered by (auto intro!: closedAfter_concat)

lemma classTypes_map:
  "classTypes P (map_ClassSpec f c) = map f (classTypes (\<lambda>x. P (f x)) c)"
  by (simp add: classTypes_def methodTypes_def ClassSpec.map_sel PropertySpec.map_sel EventSpec.map_sel
      MethodSpec.map_sel CallableSpec.map_sel Arg.map_sel map_concat o_def if_distrib cong: if_cong)

lemma classTypes_subset: "set (classTypes P c) \<subseteq> set_ClassSpec c"
proof -
  have "x \<in> set_ClassSpec c" if "e \<in> set (class_events c)" "x \<in> arg_type ` set (callable_args (event_callable e))" for e x
    using that by (auto intro!: ClassSpec.set_sel(3) EventSpec.set_sel CallableSpec.set_sel Arg.set_sel)
  moreover have "x \<in> set_ClassSpec c" if "m \<in> set (class_methods c)" "x \<in> set (methodTypes P m)" for m x
    using that
    by (auto simp: methodTypes_def split: if_splits
        intro!: ClassSpec.set_sel(2) intro: MethodSpec.set_sel CallableSpec.set_sel Arg.set_sel)
  ultimately show ?thesis
    by (auto simp: classTypes_def intro: ClassSpec.set_sel PropertySpec.set_sel)
qed

lemma walks_sound: "soundWalk t"
proof (induction t)
  case (ClassType a c)
  let ?ts = "classTypes (\<lambda>x. x = NativeType VoidType) c"
  have "soundWalk x" if "x \<in> set ?ts" for x
    using classTypes_subset that by (rule ClassType.IH [OF subsetD])
  note each = soundWalk_each [of ?ts, OF this]
  have "fst (walks (ClassType a c)) = concat (map (\<lambda>x. typeDiscovered (x, walks x)) ?ts)"
    by (simp add: classTypes_map walkIsVoid_def o_def)
  then show ?case
    using each by (simp add: soundWalk_def deps_def)
next
  case (StructType a n fs p)
  let ?up = "ancestorsWalk (map_option walks p)"
  have "soundWalk x" if "x \<in> set (map field_type fs)" for x
    using that StructType.IH(1) by (auto intro: StructField.set_sel)
  note each = soundWalk_each [of "map field_type fs", OF this]
  have up: "closedAfter {} ?up" "set (parentChain p) \<subseteq> set ?up"
    using StructType.IH(2) by (auto simp: ancestorsWalk_def parentChain_def soundWalk_def split: option.splits)
  have w: "fst (walks (StructType a n fs p)) = ?up @ concat (map (\<lambda>x. typeDiscovered (x, walks x)) (map field_type fs))"
    by (simp add: Let_def o_def StructField.map_sel)
  have "set (deps (StructType a n fs p)) \<subseteq> set (fst (walks (StructType a n fs p)))"
    using up(2) each(2) unfolding w by (auto simp: deps_def)
  moreover have "closedAfter {} (fst (walks (StructType a n fs p)))"
    unfolding w using up(1) each(1) by (rule closedAfter_both)
  moreover have "snd (walks (StructType a n fs p)) = fst (walks (StructType a n fs p)) @ StructType a n fs p # ?up"
    by (simp add: Let_def)
  ultimately show ?case
    using up
    by (auto simp: soundWalk_def closedAfter_append structChain_struct intro: closedAfter_mono
        simp del: walks.simps structChain.simps)
next
  case (VariantType a n fs)
  have "soundWalk x" if "x \<in> set (map variant_type fs)" for x
    using that VariantType.IH by (auto intro: VariantField.set_sel)
  note each = soundWalk_each [of "map variant_type fs", OF this]
  then show ?case
    by (simp add: soundWalk_def deps_def o_def VariantField.map_sel)
qed (auto simp: soundWalk_def deps_def typeDiscovered_def closedAfter_append)

text \<open>
  The registry keeps its three containers in step and every registered type after the types it
  depends on, which are known by their qualified names.
\<close>

definition registered :: "Registry \<Rightarrow> Type \<Rightarrow> bool" where
  "registered r t \<longleftrightarrow> \<not> isCustomType t \<or> getQualifiedName t \<in> dom (types r)"

definition dependenciesFirst :: "Type list \<Rightarrow> bool" where
  "dependenciesFirst ts \<longleftrightarrow>
    (\<forall>i < length ts. \<forall>d \<in> set (deps (ts ! i)). isCustomType d \<longrightarrow>
       (\<exists>j < i. getQualifiedName (ts ! j) = getQualifiedName d))"

definition registryOk :: "Registry \<Rightarrow> bool" where
  "registryOk r \<longleftrightarrow> distinct (map getQualifiedName (typesInDependencyOrder r))
     \<and> types r = map_of (map (\<lambda>t. (getQualifiedName t, t)) (typesInDependencyOrder r))
     \<and> (\<forall>h t. typesByHash r h = Some t \<longrightarrow> getHash t = h \<and> t \<in> set (typesInDependencyOrder r))
     \<and> (\<forall>t \<in> set (typesInDependencyOrder r). isCustomType t \<and> getHash t \<in> dom (typesByHash r))
     \<and> dependenciesFirst (typesInDependencyOrder r)"

lemma registryOk_dom: "registryOk r \<Longrightarrow> dom (types r) = getQualifiedName ` set (typesInDependencyOrder r)"
  by (auto simp: registryOk_def dom_map_of_conv_image_fst image_image)

lemma emptyRegistry_ok: "registryOk emptyRegistry"
  by (simp add: registryOk_def emptyRegistry_def dependenciesFirst_def)

lemma dependenciesFirst_snoc:
  assumes "dependenciesFirst ts"
    and "\<And>d. d \<in> set (deps t) \<Longrightarrow> isCustomType d \<Longrightarrow> getQualifiedName d \<in> getQualifiedName ` set ts"
  shows "dependenciesFirst (ts @ [t])"
  unfolding dependenciesFirst_def
proof (intro allI impI ballI)
  fix i d assume i: "i < length (ts @ [t])" "d \<in> set (deps ((ts @ [t]) ! i))" "isCustomType d"
  show "\<exists>j < i. getQualifiedName ((ts @ [t]) ! j) = getQualifiedName d"
  proof (cases "i < length ts")
    case True
    then obtain j where "j < i" "getQualifiedName (ts ! j) = getQualifiedName d"
      using assms(1) i unfolding dependenciesFirst_def by (metis nth_append)
    then show ?thesis
      using True by (metis nth_append order_less_trans)
  next
    case False
    then obtain x where "x \<in> set ts" "getQualifiedName x = getQualifiedName d" "i = length ts"
      using assms(2) [of d] i by (auto simp: nth_append)
    then show ?thesis
      by (metis in_set_conv_nth nth_append)
  qed
qed

lemma map_of_snoc: "k \<notin> fst ` set xs \<Longrightarrow> map_of (xs @ [(k, v)]) = (map_of xs)(k \<mapsto> v)"
  by (induction xs) (auto simp: fun_upd_twist)

lemma uncheckedAdd_ok:
  assumes "uncheckedAdd t r = Some r'" "registryOk r" "isCustomType t" "\<And>d. d \<in> set (deps t) \<Longrightarrow> registered r d"
  shows "registryOk r' \<and> typesInDependencyOrder r' = typesInDependencyOrder r @ [t]"
proof -
  have new: "getQualifiedName t \<notin> dom (types r)"
    and r': "typesInDependencyOrder r' = typesInDependencyOrder r @ [t]"
      "types r' = (types r)(getQualifiedName t \<mapsto> t)"
      "typesByHash r' = (if getHash t \<in> dom (typesByHash r) then typesByHash r else (typesByHash r)(getHash t \<mapsto> t))"
    using assms(1) by (auto simp: uncheckedAdd_def split: if_splits)
  have "dependenciesFirst (typesInDependencyOrder r')"
    unfolding r' using assms(2,4)
    by (intro dependenciesFirst_snoc) (auto simp: registryOk_def registered_def simp flip: registryOk_dom [OF assms(2)])
  moreover have "types r' = map_of (map (\<lambda>t. (getQualifiedName t, t)) (typesInDependencyOrder r'))"
  proof -
    have "getQualifiedName t \<notin> getQualifiedName ` set (typesInDependencyOrder r)"
      using new registryOk_dom [OF assms(2)] by simp
    then show ?thesis
      using assms(2) unfolding r' registryOk_def
      by (simp add: map_of_snoc image_image del: map_of_append)
  qed
  moreover have "distinct (map getQualifiedName (typesInDependencyOrder r'))"
    using new assms(2) registryOk_dom [OF assms(2)] by (simp add: r' registryOk_def)
  moreover have "\<forall>h x. typesByHash r' h = Some x \<longrightarrow> getHash x = h \<and> x \<in> set (typesInDependencyOrder r')"
      "\<forall>x \<in> set (typesInDependencyOrder r'). isCustomType x \<and> getHash x \<in> dom (typesByHash r')"
    using assms(2,3) by (auto simp: r' registryOk_def split: if_splits)
  ultimately have "registryOk r'"
    unfolding registryOk_def by blast
  with r'(1) show ?thesis
    by blast
qed

lemma registered_grows: "registered r d \<Longrightarrow> dependentCallback t r = Some r' \<Longrightarrow> registered r' d"
  by (auto simp: registered_def dependentCallback_def uncheckedAdd_def split: if_splits)

lemma dependentCallback_ok:
  assumes "registryOk r" "\<And>d. d \<in> set (deps t) \<Longrightarrow> registered r d"
  shows "\<exists>r'. dependentCallback t r = Some r' \<and> registryOk r' \<and> registered r' t
           \<and> (\<exists>ts. typesInDependencyOrder r' = typesInDependencyOrder r @ ts)"
proof (cases "isCustomType t \<and> getQualifiedName t \<notin> dom (types r)")
  case True
  then obtain r' where r': "uncheckedAdd t r = Some r'"
    by (simp add: uncheckedAdd_def)
  then show ?thesis
    using True assms uncheckedAdd_ok [OF r'] registryOk_dom [of r']
    by (auto simp: dependentCallback_def registered_def)
next
  case False
  then show ?thesis
    using assms by (auto simp: dependentCallback_def registered_def)
qed

lemma callbacks_ok:
  "closedAfter S ts \<Longrightarrow> (\<And>d. d \<in> S \<Longrightarrow> registered r d) \<Longrightarrow> registryOk r \<Longrightarrow>
   \<exists>r'. callbacks ts r = Some r' \<and> registryOk r' \<and> (\<forall>d \<in> S \<union> set ts. registered r' d)
     \<and> (\<exists>us. typesInDependencyOrder r' = typesInDependencyOrder r @ us)"
proof (induction ts arbitrary: S r)
  case (Cons t ts)
  then have "\<And>d. d \<in> set (deps t) \<Longrightarrow> registered r d"
    by auto
  then obtain r1 us where r1: "dependentCallback t r = Some r1" "registryOk r1" "registered r1 t"
      "typesInDependencyOrder r1 = typesInDependencyOrder r @ us"
    using dependentCallback_ok [OF Cons.prems(3)] by blast
  have "\<And>d. d \<in> insert t S \<Longrightarrow> registered r1 d"
    using Cons.prems(2) r1(1,3) registered_grows by blast
  from Cons.IH [of "insert t S" r1, OF _ this r1(2)] Cons.prems(1) r1 show ?case
    by auto
qed auto

text \<open>Every registry that additions can build from the empty one.\<close>

inductive reachableRegistry :: "Registry \<Rightarrow> bool" where
  empty: "reachableRegistry emptyRegistry"
| added: "reachableRegistry r \<Longrightarrow> registryAdd t r = Some r' \<Longrightarrow> reachableRegistry r'"

lemma registryAdd_ok:
  assumes "registryAdd t r = Some r'" "registryOk r"
  shows "registryOk r' \<and> (isCustomType t \<and> \<not> isTimeType t \<longrightarrow> getQualifiedName t \<in> dom (types r'))
    \<and> (\<exists>us. typesInDependencyOrder r' = typesInDependencyOrder r @ us)"
proof (cases "isCustomType t \<and> \<not> isTimeType t \<and> getQualifiedName t \<notin> dom (types r)")
  case True
  have sound: "closedAfter {} (iterateOverDependentTypes t)" "set (deps t) \<subseteq> set (iterateOverDependentTypes t)"
    using walks_sound [of t] by (simp_all add: soundWalk_def iterateOverDependentTypes_def)
  obtain r1 us where r1: "callbacks (iterateOverDependentTypes t) r = Some r1" "registryOk r1"
      "\<forall>d \<in> set (iterateOverDependentTypes t). registered r1 d"
      "typesInDependencyOrder r1 = typesInDependencyOrder r @ us"
    using callbacks_ok [OF sound(1) _ assms(2)] by auto
  then have "uncheckedAdd t r1 = Some r'"
    using assms(1) True by (auto simp: registryAdd_def)
  moreover have "registered r1 d" if "d \<in> set (deps t)" for d
    using that sound(2) r1(3) by blast
  ultimately have "registryOk r'" "typesInDependencyOrder r' = typesInDependencyOrder r @ us @ [t]"
    using uncheckedAdd_ok [of t r1 r'] r1(2,4) True by simp_all
  then show ?thesis
    using registryOk_dom [of r'] by simp
next
  case False
  then show ?thesis
    using assms by (auto simp: registryAdd_def split: if_splits)
qed

lemma reachableRegistry_ok: "reachableRegistry r \<Longrightarrow> registryOk r"
  by (induction rule: reachableRegistry.induct) (simp_all add: emptyRegistry_ok registryAdd_ok)


text \<open>Adding a derived struct registers its parent first; a duration field is registered too.\<close>

definition exampleNs :: Unit where
  "exampleNs = Unit 0 (UnitSpec 2 ''nanosecond'' ''nanoseconds'' ''ns'' 0x3e112e0be826d695 0 0)"

definition exampleTimed :: Type where
  "exampleTimed = StructType 3 (TypeNames ''Timed'' ''p.Timed'' [])
     [StructField ''age'' [] (durationType exampleNs)] (Some exampleBase)"

lemma exampleTimed_added:
  "map_option (map getQualifiedName \<circ> typesInDependencyOrder) (registryAdd exampleTimed emptyRegistry) =
     Some [''p.Base'', ''sen.Duration'', ''p.Timed'']"
  by (simp add: registryAdd_def exampleTimed_def exampleBase_def emptyRegistry_def isCustomType_def isTimeType_def
      iterateOverDependentTypes_def ancestorsWalk_def typeDiscovered_def dependentCallback_def uncheckedAdd_def
      durationType_def Let_def)


end
