(* ===== verification/Type_Specs.thy ===== *)
theory Type_Specs
  imports Meta_Registry
begin

text \<open>
  The specifications of types that processes exchange and recordings keep (libs/kernel): the data of
  stl/sen/kernel/type_specs.stl, the specification of a type (makeCustomTypeSpec) and the type built
  from a specification (buildNonNativeType) in src/type_specs_utils.cpp.  In a specification a type
  is mentioned by its qualified name, and building looks the name up in the registries.
\<close>

section \<open>Data\<close>

datatype IntegralTypeSpec = Uint8Spec | Int16Spec | Uint16Spec | Int32Spec | Uint32Spec | Int64Spec | Uint64Spec
datatype RealTypeSpec = Float32Spec | Float64Spec
datatype NumericTypeSpec = IntegralSpec IntegralTypeSpec | RealSpec RealTypeSpec

datatype UnitCat =
    LengthCat | MassCat | TimeCat | AngleCat | TemperatureCat | FrequencyCat | VelocityCat | AngularVelocityCat
  | AccelerationCat | AngularAccelerationCat | DensityCat | PressureCat | AreaCat | ForceCat | TorqueCat

datatype UnitInfo = UnitInfo (ui_name: string) (ui_abbreviation: string) (ui_category: UnitCat)

datatype EnumeratorSpec = EnumeratorSpec (es_name: string) (es_key: u32) (es_description: string)

datatype StructTypeFieldSpec =
  StructTypeFieldSpec (sfs_name: string) (sfs_description: string) (sfs_type: string)

datatype VariantTypeFieldSpec =
  VariantTypeFieldSpec (vfs_key: u32) (vfs_description: string) (vfs_type: string)

datatype TransportModeSpec = UnicastSpec | MulticastSpec | ConfirmedSpec
datatype MethodConstnessSpec = ConstantSpec | NonConstantSpec
datatype PropertyRelationSpec = NonPropertyRelatedSpec | PropertyGetterSpec | PropertySetterSpec
datatype PropertyCategorySpec = StaticRWSpec | StaticROSpec | DynamicRWSpec | DynamicROSpec

datatype ArgSpec = ArgSpec (as_name: string) (as_description: string) (as_type: string)

datatype EventDataSpec = EventDataSpec (evs_name: string) (evs_description: string) (evs_args: "ArgSpec list")
  (evs_transportMode: TransportModeSpec)

datatype MethodDataSpec = MethodDataSpec (ms_name: string) (ms_description: string) (ms_args: "ArgSpec list")
  (ms_transportMode: TransportModeSpec) (ms_constness: MethodConstnessSpec) (ms_deferred: bool)
  (ms_returnType: string) (ms_propertyRelation: PropertyRelationSpec) (ms_localOnly: bool)

datatype PropertyDataSpec = PropertyDataSpec (ps_name: string) (ps_description: string)
  (ps_category: PropertyCategorySpec) (ps_type: string) (ps_transportMode: TransportModeSpec)
  (ps_tags: "string list") (ps_checkedSet: bool)

datatype CustomTypeData =
    EnumTypeSpec "EnumeratorSpec list" IntegralTypeSpec
  | QuantityTypeSpec NumericTypeSpec UnitInfo "float64 option" "float64 option"
  | SequenceTypeSpec string "u64 option" bool
  | StructTypeSpec "StructTypeFieldSpec list" string
  | VariantTypeSpec "VariantTypeFieldSpec list"
  | AliasTypeSpec string
  | OptionalTypeSpec string
  | ClassTypeSpec "PropertyDataSpec list" "MethodDataSpec list" "EventDataSpec list" MethodDataSpec
      "string list" bool

datatype CustomTypeSpec = CustomTypeSpec (cts_name: string) (cts_qualifiedName: string)
  (cts_description: string) (cts_data: CustomTypeData)

section \<open>From types to specifications\<close>

text \<open>The name of a type in a specification: qualified for custom types, plain for the others.\<close>

definition getQualifiedTypeName :: "Type \<Rightarrow> string" where
  "getQualifiedTypeName t = (if isCustomType t then getQualifiedName t else getName t)"

text \<open>The categories are numbered in the order of the enumeration of unit.h.\<close>

definition getUnitCat :: "u32 \<Rightarrow> string + UnitCat" where
  "getUnitCat c =
    (if c = 0 then Inr LengthCat else if c = 1 then Inr MassCat else if c = 2 then Inr TimeCat
     else if c = 3 then Inr AngleCat else if c = 4 then Inr TemperatureCat else if c = 5 then Inr DensityCat
     else if c = 6 then Inr PressureCat else if c = 7 then Inr AreaCat else if c = 8 then Inr ForceCat
     else if c = 9 then Inr FrequencyCat else if c = 10 then Inr VelocityCat
     else if c = 11 then Inr AngularVelocityCat else if c = 12 then Inr AccelerationCat
     else if c = 13 then Inr AngularAccelerationCat else if c = 14 then Inr TorqueCat
     else Inl ''unhandled unit category'')"

definition getUnitInfo :: "Unit option \<Rightarrow> string + UnitInfo" where
  "getUnitInfo u = (case u of
     Some v \<Rightarrow> rbind (getUnitCat (unit_category (unitSpec v)))
       (\<lambda>cat. Inr (UnitInfo (unit_name (unitSpec v)) (unit_abbreviation (unitSpec v)) cat))
   | None \<Rightarrow> Inr (UnitInfo [] ''none'' LengthCat))"

definition propertyCategorySpec :: "PropertyCategory \<Rightarrow> PropertyCategorySpec" where
  "propertyCategorySpec c = (case c of
     StaticRO \<Rightarrow> StaticROSpec | StaticRW \<Rightarrow> StaticRWSpec | DynamicRW \<Rightarrow> DynamicRWSpec | DynamicRO \<Rightarrow> DynamicROSpec)"

definition constnessSpec :: "Constness \<Rightarrow> MethodConstnessSpec" where
  "constnessSpec c = (case c of Constant \<Rightarrow> ConstantSpec | NonConstant \<Rightarrow> NonConstantSpec)"

definition transportModeSpec :: "TransportMode \<Rightarrow> TransportModeSpec" where
  "transportModeSpec m = (case m of
     Confirmed \<Rightarrow> ConfirmedSpec | Multicast \<Rightarrow> MulticastSpec | Unicast \<Rightarrow> UnicastSpec)"

definition toPropertyRelationSpec :: "PropertyRelation \<Rightarrow> PropertyRelationSpec" where
  "toPropertyRelationSpec r = (case r of
     NonPropertyRelated \<Rightarrow> NonPropertyRelatedSpec | PropertyGetter \<Rightarrow> PropertyGetterSpec
   | PropertySetter \<Rightarrow> PropertySetterSpec)"

definition integralTypeSpec :: "NativeKind \<Rightarrow> string + IntegralTypeSpec" where
  "integralTypeSpec k = (case k of
     UInt8Type \<Rightarrow> Inr Uint8Spec | Int16Type \<Rightarrow> Inr Int16Spec | UInt16Type \<Rightarrow> Inr Uint16Spec
   | Int32Type \<Rightarrow> Inr Int32Spec | UInt32Type \<Rightarrow> Inr Uint32Spec | Int64Type \<Rightarrow> Inr Int64Spec
   | UInt64Type \<Rightarrow> Inr Uint64Spec | _ \<Rightarrow> Inl (''unhandled integral type '' @ nativeName k))"

definition isIntegral :: "NativeKind \<Rightarrow> bool" where
  "isIntegral k \<longleftrightarrow> k \<in> {UInt8Type, Int16Type, UInt16Type, Int32Type, UInt32Type, Int64Type, UInt64Type}"

definition numericTypeSpec :: "NativeKind \<Rightarrow> string + NumericTypeSpec" where
  "numericTypeSpec k =
     (if isIntegral k then rbind (integralTypeSpec k) (\<lambda>i. Inr (IntegralSpec i))
      else if k = Float32Type then Inr (RealSpec Float32Spec)
      else if k = Float64Type then Inr (RealSpec Float64Spec)
      else Inl (''unhandled numeric type '' @ nativeName k))"

definition argSpec :: "Type Arg \<Rightarrow> ArgSpec" where
  "argSpec a = ArgSpec (arg_name a) (arg_description a) (getQualifiedTypeName (arg_type a))"

definition getMethodSpec :: "Type MethodSpec \<Rightarrow> MethodDataSpec" where
  "getMethodSpec m = MethodDataSpec
     (callable_name (method_callable m)) (callable_description (method_callable m))
     (map argSpec (callable_args (method_callable m)))
     (transportModeSpec (callable_transport (method_callable m)))
     (constnessSpec (method_constness m)) (method_deferred m) (getQualifiedTypeName (method_returnType m))
     (toPropertyRelationSpec (method_relation m)) (method_localOnly m)"

definition propertyDataSpec :: "Type PropertySpec \<Rightarrow> PropertyDataSpec" where
  "propertyDataSpec p = PropertyDataSpec (prop_name p) (prop_description p)
     (propertyCategorySpec (prop_category p)) (getQualifiedTypeName (prop_type p))
     (transportModeSpec (prop_transport p)) (prop_tags p) (prop_checkedSet p)"

definition eventDataSpec :: "Type EventSpec \<Rightarrow> EventDataSpec" where
  "eventDataSpec e = EventDataSpec
     (callable_name (event_callable e)) (callable_description (event_callable e))
     (map argSpec (callable_args (event_callable e)))
     (transportModeSpec (callable_transport (event_callable e)))"

text \<open>A default constructed MethodSpec: empty strings and the first enumerators.\<close>

definition emptyMethodSpec :: MethodDataSpec where
  "emptyMethodSpec = MethodDataSpec [] [] [] UnicastSpec ConstantSpec False [] NonPropertyRelatedSpec False"

definition classTypeSpec :: "Type ClassSpec \<Rightarrow> CustomTypeData" where
  "classTypeSpec c = ClassTypeSpec
     (map propertyDataSpec (class_properties c)) (map getMethodSpec (class_methods c))
     (map eventDataSpec (class_events c))
     (case class_constructor c of Some m \<Rightarrow> getMethodSpec m | None \<Rightarrow> emptyMethodSpec)
     (map getQualifiedName (class_parents c)) (class_isInterface c)"

definition makeCustomTypeData :: "Type \<Rightarrow> string + CustomTypeData" where
  "makeCustomTypeData t = (case t of
     NativeType k \<Rightarrow> Inl (''unhandled custom type '' @ nativeName k)
   | EnumType a n es st \<Rightarrow> rbind (integralTypeSpec st)
       (\<lambda>i. Inr (EnumTypeSpec (map (\<lambda>e. EnumeratorSpec (enum_name e) (enum_key e) (enum_description e)) es) i))
   | QuantityType a k n e u mn mx \<Rightarrow>
       rbind (numericTypeSpec e) (\<lambda>i. rbind (getUnitInfo u) (\<lambda>info. Inr (QuantityTypeSpec i info mn mx)))
   | SequenceType a n e mx fx \<Rightarrow> Inr (SequenceTypeSpec (getQualifiedTypeName e) mx fx)
   | AliasType a n e \<Rightarrow> Inr (AliasTypeSpec (getQualifiedTypeName e))
   | OptionalType a n e \<Rightarrow> Inr (OptionalTypeSpec (getQualifiedTypeName e))
   | VariantType a n fs \<Rightarrow> Inr (VariantTypeSpec
       (map (\<lambda>f. VariantTypeFieldSpec (variant_key f) (variant_description f) (getQualifiedTypeName (variant_type f))) fs))
   | StructType a n fs p \<Rightarrow> Inr (StructTypeSpec
       (map (\<lambda>f. StructTypeFieldSpec (field_name f) (field_description f) (getQualifiedTypeName (field_type f))) fs)
       (case p of Some q \<Rightarrow> getQualifiedName q | None \<Rightarrow> []))
   | ClassType a c \<Rightarrow> Inr (classTypeSpec c))"

text \<open>The names of a custom type.\<close>

primrec namesOf :: "Type \<Rightarrow> TypeNames" where
  "namesOf (NativeType k) = TypeNames (nativeName k) (nativeName k) []"
| "namesOf (EnumType a n es st) = n"
| "namesOf (QuantityType a k n e u mn mx) = n"
| "namesOf (SequenceType a n e mx fx) = n"
| "namesOf (AliasType a n e) = n"
| "namesOf (OptionalType a n e) = n"
| "namesOf (VariantType a n fs) = n"
| "namesOf (StructType a n fs p) = n"
| "namesOf (ClassType a c) = class_names c"

definition makeCustomTypeSpec :: "Type \<Rightarrow> string + CustomTypeSpec" where
  "makeCustomTypeSpec t = rbind (makeCustomTypeData t) (\<lambda>d.
     Inr (CustomTypeSpec (tn_name (namesOf t)) (tn_qualifiedName (namesOf t)) (tn_description (namesOf t)) d))"

section \<open>From specifications to types\<close>

text \<open>A loop that builds a list from fallible calls.\<close>

primrec traverse :: "('a \<Rightarrow> 'e + 'b) \<Rightarrow> 'a list \<Rightarrow> 'e + 'b list" where
  "traverse f [] = Inr []"
| "traverse f (x # xs) = rbind (f x) (\<lambda>y. rbind (traverse f xs) (\<lambda>ys. Inr (y # ys)))"

text \<open>
  What the builders look names up in: the unit of the time types, the units, the registry of the
  process (\<open>nativeTypes\<close>) and the registry of what the other process has sent
  (\<open>nonNativeTypes\<close>).
\<close>

record Lookup =
  nsUnit :: Unit
  unitTable :: "Unit list"
  nativeTypes :: Registry
  nonNativeTypes :: Registry

definition findType :: "Lookup \<Rightarrow> string \<Rightarrow> string + Type" where
  "findType k qualifiedName =
    (case registryGet (nsUnit k) (nonNativeTypes k) qualifiedName of
       Some t \<Rightarrow> Inr t
     | None \<Rightarrow>
         (case find (\<lambda>t. ''sen.'' @ getName t = qualifiedName) (getNativeTypes (nsUnit k)) of
            Some t \<Rightarrow> Inr t
          | None \<Rightarrow>
              (case registryGet (nsUnit k) (nativeTypes k) qualifiedName of
                 Some t \<Rightarrow> Inr t
               | None \<Rightarrow> Inl (''could not find type '' @ quote @ qualifiedName @ quote))))"

definition searchUnitByName :: "Unit list \<Rightarrow> string \<Rightarrow> Unit option" where
  "searchUnitByName us name = find (\<lambda>u. unit_name (unitSpec u) = name) us"

definition integralTypeOf :: "IntegralTypeSpec \<Rightarrow> NativeKind" where
  "integralTypeOf i = (case i of
     Uint8Spec \<Rightarrow> UInt8Type | Int16Spec \<Rightarrow> Int16Type | Uint16Spec \<Rightarrow> UInt16Type | Int32Spec \<Rightarrow> Int32Type
   | Uint32Spec \<Rightarrow> UInt32Type | Int64Spec \<Rightarrow> Int64Type | Uint64Spec \<Rightarrow> UInt64Type)"

definition realTypeOf :: "RealTypeSpec \<Rightarrow> NativeKind" where
  "realTypeOf r = (case r of Float32Spec \<Rightarrow> Float32Type | Float64Spec \<Rightarrow> Float64Type)"

definition numericTypeOf :: "NumericTypeSpec \<Rightarrow> NativeKind" where
  "numericTypeOf n = (case n of IntegralSpec i \<Rightarrow> integralTypeOf i | RealSpec r \<Rightarrow> realTypeOf r)"

definition propertyCategoryOf :: "PropertyCategorySpec \<Rightarrow> PropertyCategory" where
  "propertyCategoryOf c = (case c of
     StaticRWSpec \<Rightarrow> StaticRW | StaticROSpec \<Rightarrow> StaticRO | DynamicRWSpec \<Rightarrow> DynamicRW | DynamicROSpec \<Rightarrow> DynamicRO)"

definition constnessOf :: "MethodConstnessSpec \<Rightarrow> Constness" where
  "constnessOf c = (case c of ConstantSpec \<Rightarrow> Constant | NonConstantSpec \<Rightarrow> NonConstant)"

definition transportModeOf :: "TransportModeSpec \<Rightarrow> TransportMode" where
  "transportModeOf m = (case m of
     ConfirmedSpec \<Rightarrow> Confirmed | MulticastSpec \<Rightarrow> Multicast | UnicastSpec \<Rightarrow> Unicast)"

definition toPropertyRelation :: "PropertyRelationSpec \<Rightarrow> PropertyRelation" where
  "toPropertyRelation r = (case r of
     NonPropertyRelatedSpec \<Rightarrow> NonPropertyRelated | PropertyGetterSpec \<Rightarrow> PropertyGetter
   | PropertySetterSpec \<Rightarrow> PropertySetter)"

definition getArgs :: "Lookup \<Rightarrow> ArgSpec list \<Rightarrow> string + Type Arg list" where
  "getArgs k = traverse (\<lambda>a. rbind (findType k (as_type a)) (\<lambda>t. Inr (Arg (as_name a) (as_description a) t)))"

definition makeMethodSpec :: "Lookup \<Rightarrow> MethodDataSpec \<Rightarrow> string + Type MethodSpec" where
  "makeMethodSpec k m =
     rbind (getArgs k (ms_args m)) (\<lambda>args.
     rbind (findType k (if ms_returnType m = [] then nativeName VoidType else ms_returnType m)) (\<lambda>ret.
       Inr (MethodSpec (CallableSpec (ms_name m) (ms_description m) args (transportModeOf (ms_transportMode m)))
              (constnessOf (ms_constness m)) ret (toPropertyRelation (ms_propertyRelation m))
              (ms_deferred m) (ms_localOnly m))))"

definition makePropertySpec :: "Lookup \<Rightarrow> PropertyDataSpec \<Rightarrow> string + Type PropertySpec" where
  "makePropertySpec k p =
     rbind (findType k (ps_type p)) (\<lambda>t.
       Inr (PropertySpec (ps_name p) (ps_description p) (propertyCategoryOf (ps_category p)) t
              (transportModeOf (ps_transportMode p)) (ps_tags p) (ps_checkedSet p)))"

definition makeEventSpec :: "Lookup \<Rightarrow> EventDataSpec \<Rightarrow> string + Type EventSpec" where
  "makeEventSpec k e =
     rbind (getArgs k (evs_args e)) (\<lambda>args.
       Inr (EventSpec (CallableSpec (evs_name e) (evs_description e) args (transportModeOf (evs_transportMode e)))))"

text \<open>The factories take the names of the specification.\<close>

definition specNames :: "CustomTypeSpec \<Rightarrow> TypeNames" where
  "specNames s = TypeNames (cts_name s) (cts_qualifiedName s) (cts_description s)"

definition makeNonNativeEnum :: "nat \<Rightarrow> TypeNames \<Rightarrow> EnumeratorSpec list \<Rightarrow> IntegralTypeSpec \<Rightarrow> string + Type" where
  "makeNonNativeEnum address names enums storage =
     enumMake address names (map (\<lambda>e. Enumerator (es_name e) (es_key e) (es_description e)) enums)
       (integralTypeOf storage)"

definition makeNonNativeQuantity ::
  "Lookup \<Rightarrow> nat \<Rightarrow> TypeNames \<Rightarrow> NumericTypeSpec \<Rightarrow> UnitInfo \<Rightarrow> float64 option \<Rightarrow> float64 option \<Rightarrow> string + Type" where
  "makeNonNativeQuantity k address names e info mn mx =
     quantityMake address names (numericTypeOf e) (searchUnitByName (unitTable k) (ui_name info)) mn mx"

definition makeNonNativeSequence ::
  "Lookup \<Rightarrow> nat \<Rightarrow> TypeNames \<Rightarrow> string \<Rightarrow> u64 option \<Rightarrow> bool \<Rightarrow> string + Type" where
  "makeNonNativeSequence k address names e mx fixedSize =
     rbind (findType k e) (\<lambda>t. sequenceMake address names t mx fixedSize)"

definition parentOfStruct :: "Lookup \<Rightarrow> TypeNames \<Rightarrow> string \<Rightarrow> string + Type option" where
  "parentOfStruct k names parent =
     (if parent = [] then Inr None
      else rbind (findType k parent) (\<lambda>t.
             if isStructType t then Inr (Some t)
             else Inl (''type '' @ quote @ parent @ quote @ '' is not a valid parent for struct ''
                       @ tn_qualifiedName names)))"

definition makeNonNativeStruct ::
  "Lookup \<Rightarrow> nat \<Rightarrow> TypeNames \<Rightarrow> StructTypeFieldSpec list \<Rightarrow> string \<Rightarrow> string + Type" where
  "makeNonNativeStruct k address names fs parent =
     rbind (parentOfStruct k names parent) (\<lambda>p.
     rbind (traverse (\<lambda>f. rbind (findType k (sfs_type f)) (\<lambda>t.
                          Inr (StructField (sfs_name f) (sfs_description f) t))) fs) (\<lambda>fields.
       structMake address names fields p))"

definition makeNonNativeVariant ::
  "Lookup \<Rightarrow> nat \<Rightarrow> TypeNames \<Rightarrow> VariantTypeFieldSpec list \<Rightarrow> string + Type" where
  "makeNonNativeVariant k address names fs =
     rbind (traverse (\<lambda>f. rbind (findType k (vfs_type f)) (\<lambda>t.
                          Inr (VariantField (vfs_key f) (vfs_description f) t))) fs) (\<lambda>fields.
       variantMake address names fields)"

definition makeNonNativeAlias :: "Lookup \<Rightarrow> nat \<Rightarrow> TypeNames \<Rightarrow> string \<Rightarrow> string + Type" where
  "makeNonNativeAlias k address names e = rbind (findType k e) (\<lambda>t. aliasMake address names t)"

definition makeNonNativeOptional :: "Lookup \<Rightarrow> nat \<Rightarrow> TypeNames \<Rightarrow> string \<Rightarrow> string + Type" where
  "makeNonNativeOptional k address names e = rbind (findType k e) (\<lambda>t. optionalMake address names t)"

definition parentOfClass :: "Lookup \<Rightarrow> TypeNames \<Rightarrow> string \<Rightarrow> string + Type" where
  "parentOfClass k names parent =
     rbind (findType k parent) (\<lambda>t.
       if isClassType t then Inr t
       else Inl (''type '' @ parent @ '' is not a valid parent for class '' @ tn_qualifiedName names))"

definition makeNonNativeClass ::
  "Lookup \<Rightarrow> nat \<Rightarrow> TypeNames \<Rightarrow> PropertyDataSpec list \<Rightarrow> MethodDataSpec list \<Rightarrow> EventDataSpec list
   \<Rightarrow> MethodDataSpec \<Rightarrow> string list \<Rightarrow> bool \<Rightarrow> string + Type" where
  "makeNonNativeClass k address names ps ms es constructor parents isInterface =
     rbind (makeMethodSpec k constructor) (\<lambda>constructor'.
     rbind (traverse (parentOfClass k names) parents) (\<lambda>parents'.
     rbind (traverse (makePropertySpec k) ps) (\<lambda>ps'.
     rbind (traverse (makeMethodSpec k) ms) (\<lambda>ms'.
     rbind (traverse (makeEventSpec k) es) (\<lambda>es'.
       classMake address (ClassSpec names ps' ms' es' (Some constructor') parents' isInterface False))))))"

definition buildNonNativeType :: "Lookup \<Rightarrow> nat \<Rightarrow> CustomTypeSpec \<Rightarrow> string + Type" where
  "buildNonNativeType k address s = (case cts_data s of
     EnumTypeSpec enums storage \<Rightarrow> makeNonNativeEnum address (specNames s) enums storage
   | QuantityTypeSpec e info mn mx \<Rightarrow> makeNonNativeQuantity k address (specNames s) e info mn mx
   | SequenceTypeSpec e mx fx \<Rightarrow> makeNonNativeSequence k address (specNames s) e mx fx
   | StructTypeSpec fs parent \<Rightarrow> makeNonNativeStruct k address (specNames s) fs parent
   | VariantTypeSpec fs \<Rightarrow> makeNonNativeVariant k address (specNames s) fs
   | AliasTypeSpec e \<Rightarrow> makeNonNativeAlias k address (specNames s) e
   | OptionalTypeSpec e \<Rightarrow> makeNonNativeOptional k address (specNames s) e
   | ClassTypeSpec ps ms es constructor parents isInterface \<Rightarrow>
       makeNonNativeClass k address (specNames s) ps ms es constructor parents isInterface)"

section \<open>What a copy of a type keeps\<close>

text \<open>
  A type without the things a specification does not carry: the addresses of objects, the identity
  of the time types, and the mark of abstract classes.
\<close>

definition concreteClass :: "'ty ClassSpec \<Rightarrow> 'ty ClassSpec" where
  "concreteClass c = ClassSpec (class_names c) (class_properties c) (class_methods c) (class_events c)
     (class_constructor c) (class_parents c) (class_isInterface c) False"

primrec erase :: "Type \<Rightarrow> Type" where
  "erase (NativeType k) = NativeType k"
| "erase (EnumType a n es st) = EnumType 0 n es st"
| "erase (QuantityType a k n e u mn mx) =
     QuantityType 0 PlainQuantity n e (map_option (\<lambda>v. Unit 0 (unitSpec v)) u) mn mx"
| "erase (SequenceType a n e mx fx) = SequenceType 0 n (erase e) mx fx"
| "erase (AliasType a n e) = AliasType 0 n (erase e)"
| "erase (OptionalType a n e) = OptionalType 0 n (erase e)"
| "erase (VariantType a n fs) = VariantType 0 n (map (map_VariantField erase) fs)"
| "erase (StructType a n fs p) = StructType 0 n (map (map_StructField erase) fs) (map_option erase p)"
| "erase (ClassType a c) = ClassType 0 (concreteClass (map_ClassSpec erase c))"

lemma concreteClass_sel [simp]:
  "class_names (concreteClass c) = class_names c" "class_properties (concreteClass c) = class_properties c"
  "class_methods (concreteClass c) = class_methods c" "class_events (concreteClass c) = class_events c"
  "class_constructor (concreteClass c) = class_constructor c" "class_parents (concreteClass c) = class_parents c"
  "class_isInterface (concreteClass c) = class_isInterface c"
  by (simp_all add: concreteClass_def)

lemma classHash_concrete [simp]: "classHash (concreteClass c) = classHash c"
  by (simp add: classHash_def)

lemma concreteClass_map: "map_ClassSpec f (concreteClass c) = concreteClass (map_ClassSpec f c)"
  by (cases c) (simp add: concreteClass_def)

lemma getHash_erase [simp]: "getHash (erase t) = getHash t"
proof (induction t)
  case (ClassType a c)
  then have "map_ClassSpec (getHash \<circ> erase) c = map_ClassSpec getHash c"
    by (intro ClassSpec.map_cong) auto
  then show ?case
    by (simp add: concreteClass_map ClassSpec.map_comp)
next
  case (StructType a n fs p)
  then have "map (\<lambda>f. fieldHash (map_StructField (\<lambda>x. getHash (erase x)) f)) fs = map (\<lambda>f. fieldHash (map_StructField getHash f)) fs"
      "map_option (\<lambda>x. getHash (erase x)) p = map_option getHash p"
    by (auto intro!: arg_cong [where f = fieldHash] StructField.map_cong option.map_cong)
  then show ?case
    by (simp add: StructField.map_comp option.map_comp o_def cong: map_cong)
next
  case (VariantType a n fs)
  then have "map (\<lambda>f. variantFieldHash (map_VariantField (\<lambda>x. getHash (erase x)) f)) fs
      = map (\<lambda>f. variantFieldHash (map_VariantField getHash f)) fs"
    by (auto intro!: arg_cong [where f = variantFieldHash] VariantField.map_cong)
  then show ?case
    by (simp add: VariantField.map_comp o_def cong: map_cong)
qed (simp_all add: option.map_comp o_def)

lemma erase_names [simp]:
  "namesOf (erase t) = namesOf t" "getName (erase t) = getName t" "getQualifiedName (erase t) = getQualifiedName t"
  "isCustomType (erase t) = isCustomType t" "getQualifiedTypeName (erase t) = getQualifiedTypeName t"
  "isClassType (erase t) = isClassType t" "isStructType (erase t) = isStructType t"
  "erase t = NativeType k \<longleftrightarrow> t = NativeType k"
  by (cases t; auto simp: isCustomType_def getQualifiedTypeName_def isClassType_def isStructType_def
      ClassSpec.map_sel)+

lemma copy_names:
  assumes "erase t = erase t'"
  shows "namesOf t = namesOf t'" "getName t = getName t'" "getQualifiedName t = getQualifiedName t'"
    "isCustomType t = isCustomType t'" "getQualifiedTypeName t = getQualifiedTypeName t'" "getHash t = getHash t'"
    "isClassType t = isClassType t'" "isStructType t = isStructType t'"
  using assms by (metis erase_names getHash_erase)+

lemma erase_chain: "structChain (erase t) = map erase (structChain t)"
  by (induction t) (auto split: option.split)

lemma erase_ownFields [simp]: "field_name ` set (ownFields (erase t)) = field_name ` set (ownFields t)"
  by (cases t) (auto simp: image_image StructField.map_sel)

text \<open>The searches of members by name see the same names.\<close>

lemma find_map_None: "find P (map f xs) = None \<longleftrightarrow> find (P \<circ> f) xs = None"
  by (auto simp: find_None_iff)

lemma erase_derived:
  "getterMethod (map_PropertySpec erase p) = map_MethodSpec erase (getterMethod p)"
  "setterMethod (map_PropertySpec erase p) = map_MethodSpec erase (setterMethod p)"
  "changeEvent (map_PropertySpec erase p) = map_EventSpec erase (changeEvent p)"
  by (simp_all add: getterMethod_def setterMethod_def changeEvent_def PropertySpec.map_sel)

lemma erase_ownMethods: "map methodName (ownMethods (map_ClassSpec erase c)) = map methodName (ownMethods c)"
  by (simp add: ownMethods_def ClassSpec.map_sel propertyMethods_def map_concat o_def erase_derived
      PropertySpec.map_sel MethodSpec.map_sel CallableSpec.map_sel if_distrib cong: if_cong)

lemma erase_ownEvents: "map eventName (ownEvents (map_ClassSpec erase c)) = map eventName (ownEvents c)"
  by (simp add: ownEvents_def ClassSpec.map_sel o_def erase_derived EventSpec.map_sel CallableSpec.map_sel)

lemma erase_collect_names:
  assumes "\<And>c. set (map nm (get (concreteClass (map_ClassSpec erase c)))) = set (map nm (get c))"
  shows "set (map nm (collectClass get (erase t))) = set (map nm (collectClass get t))"
proof (induction t)
  case (ClassType a c)
  have "set (map nm (collectClass get (erase p))) = set (map nm (collectClass get p))"
    if "p \<in> set (class_parents c)" for p
    using ClassType [OF ClassSpec.set_sel(5) [OF that]] .
  then have "(\<Union>p \<in> set (class_parents c). nm ` set (collectClass get (erase p)))
      = (\<Union>p \<in> set (class_parents c). nm ` set (collectClass get p))"
    by simp
  then show ?case
    using assms [of c] by (simp add: ClassSpec.map_sel image_Un image_UN)
qed simp_all

lemma searchBy_names: "searchBy (\<lambda>r. nm r = n) get t = None \<longleftrightarrow> n \<notin> set (map nm (collectClass get t))"
  by (auto simp: searchBy_None)

lemma erase_searches:
  "searchPropertyByName n IncludeParents (erase t) = None \<longleftrightarrow> searchPropertyByName n IncludeParents t = None"
  "searchMethodByName n IncludeParents (erase t) = None \<longleftrightarrow> searchMethodByName n IncludeParents t = None"
  "searchEventByName n IncludeParents (erase t) = None \<longleftrightarrow> searchEventByName n IncludeParents t = None"
proof -
  have methods: "ownMethods (concreteClass c) = ownMethods c" "ownEvents (concreteClass c) = ownEvents c" for c :: "Type ClassSpec"
    by (simp_all add: ownMethods_def ownEvents_def)
  show "searchPropertyByName n IncludeParents (erase t) = None \<longleftrightarrow> searchPropertyByName n IncludeParents t = None"
    unfolding searchPropertyByName_def withMode_def SearchMode.case searchBy_names
    by (subst erase_collect_names) (auto simp: ClassSpec.map_sel image_image PropertySpec.map_sel)
  show "searchMethodByName n IncludeParents (erase t) = None \<longleftrightarrow> searchMethodByName n IncludeParents t = None"
    unfolding searchMethodByName_def withMode_def SearchMode.case searchBy_names
    by (subst erase_collect_names) (simp_all only: methods erase_ownMethods)
  show "searchEventByName n IncludeParents (erase t) = None \<longleftrightarrow> searchEventByName n IncludeParents t = None"
    unfolding searchEventByName_def withMode_def SearchMode.case searchBy_names
    by (subst erase_collect_names) (simp_all only: methods erase_ownEvents)
qed

lemma erase_ancestors: "anyAncestor (\<lambda>x. getHash x = h) (erase t) \<longleftrightarrow> anyAncestor (\<lambda>x. getHash x = h) t"
proof (induction t)
  case (ClassType a c)
  have "list_ex (anyAncestor (\<lambda>x. getHash x = h)) (map erase (class_parents c))
      = list_ex (anyAncestor (\<lambda>x. getHash x = h)) (class_parents c)"
    using ClassType [OF ClassSpec.set_sel(5)] by (simp add: list_ex_iff)
  moreover have "getHash (ClassType 0 (concreteClass (map_ClassSpec erase c))) = getHash (ClassType a c)"
    using getHash_erase [of "ClassType a c"] by simp
  ultimately show ?case
    by (simp add: ClassSpec.map_sel del: getHash.simps)
qed simp_all

lemma erase_inherits: "isSameOrInheritsFrom (erase t) (erase t') \<longleftrightarrow> isSameOrInheritsFrom t t'"
  by (simp add: isSameOrInheritsFrom_def erase_ancestors)

lemma erase_checkSpec: "checkSpec (map_CallableSpec erase c) = Inr () \<longleftrightarrow> checkSpec c = Inr ()"
  by (simp add: checkSpec_ok CallableSpec.map_sel o_def Arg.map_sel)

text \<open>Whether the factory accepts a class does not depend on what is erased.\<close>

lemma validClass_erase: "validClass (map_ClassSpec erase c) \<longleftrightarrow> validClass c"
proof -
  have "distinct (map prop_name (map (map_PropertySpec erase) ps)) \<longleftrightarrow> distinct (map prop_name ps)"
    "distinct (map methodName (map (map_MethodSpec erase) ms)) \<longleftrightarrow> distinct (map methodName ms)"
    "distinct (map eventName (map (map_EventSpec erase) es)) \<longleftrightarrow> distinct (map eventName es)" for ps ms es
    by (simp_all add: o_def PropertySpec.map_sel MethodSpec.map_sel CallableSpec.map_sel EventSpec.map_sel)
  then show ?thesis
    unfolding validClass_def
    by (cases "class_constructor c")
       (simp_all add: ClassSpec.map_sel erase_searches erase_inherits erase_checkSpec PropertySpec.map_sel
        MethodSpec.map_sel CallableSpec.map_sel EventSpec.map_sel)
qed

lemma validClass_concrete: "validClass (concreteClass c) \<longleftrightarrow> validClass c"
  by (simp add: validClass_def)

lemma validClass_copy:
  "concreteClass (map_ClassSpec erase c) = concreteClass (map_ClassSpec erase c') \<Longrightarrow> validClass c \<longleftrightarrow> validClass c'"
  by (metis validClass_concrete validClass_erase)

section \<open>Round trip of one type\<close>

text \<open>
  A type as the factories make it: handles to structs and classes point to structs and classes, the
  representations are integral or numeric, and every class has a constructor.
\<close>

definition madeType :: "Type \<Rightarrow> bool" where
  "madeType t = (case t of
     NativeType k \<Rightarrow> False
   | EnumType a n es st \<Rightarrow> isIntegral st \<and> enumMake a n es st = Inr t
   | QuantityType a k n e u mn mx \<Rightarrow> (isIntegral e \<or> e = Float32Type \<or> e = Float64Type)
       \<and> quantityMake a n e u mn mx = Inr (QuantityType a PlainQuantity n e u mn mx)
   | SequenceType a n e mx fx \<Rightarrow> sequenceMake a n e mx fx = Inr t
   | AliasType a n e \<Rightarrow> aliasMake a n e = Inr t
   | OptionalType a n e \<Rightarrow> optionalMake a n e = Inr t
   | VariantType a n fs \<Rightarrow> variantMake a n fs = Inr t
   | StructType a n fs p \<Rightarrow> (\<forall>q. p = Some q \<longrightarrow> isStructType q \<and> getQualifiedName q \<noteq> []) \<and> structMake a n fs p = Inr t
   | ClassType a c \<Rightarrow> (\<forall>q \<in> set (class_parents c). isClassType q) \<and> class_constructor c \<noteq> None
       \<and> classMake a c = Inr t)"

text \<open>The unit of a quantity is found in the table by its name, and the absence of a unit by no name.\<close>

definition unitListed :: "Unit list \<Rightarrow> Type \<Rightarrow> bool" where
  "unitListed table t = (case t of
     QuantityType a k n e u mn mx \<Rightarrow>
       map_option unitSpec (searchUnitByName table (case u of Some v \<Rightarrow> unit_name (unitSpec v) | None \<Rightarrow> []))
         = map_option unitSpec u
       \<and> (\<forall>v. u = Some v \<longrightarrow> unit_category (unitSpec v) < 15)
   | _ \<Rightarrow> True)"

text \<open>The types a type is put together from.\<close>

definition components :: "Type \<Rightarrow> Type set" where
  "components t = (case t of
     SequenceType a n e mx fx \<Rightarrow> {e}
   | AliasType a n e \<Rightarrow> {e}
   | OptionalType a n e \<Rightarrow> {e}
   | VariantType a n fs \<Rightarrow> variant_type ` set fs
   | StructType a n fs p \<Rightarrow> field_type ` set fs \<union> set_option p
   | ClassType a c \<Rightarrow> set_ClassSpec c
   | _ \<Rightarrow> {})"

text \<open>The name of a type leads to a copy of it.\<close>

definition findsCopy :: "Lookup \<Rightarrow> Type \<Rightarrow> bool" where
  "findsCopy k d \<longleftrightarrow> (\<exists>t. findType k (getQualifiedTypeName d) = Inr t \<and> erase t = erase d)"

lemma spec_inverses:
  "isIntegral st \<Longrightarrow> \<exists>i. integralTypeSpec st = Inr i \<and> integralTypeOf i = st"
  "isIntegral e \<or> e = Float32Type \<or> e = Float64Type \<Longrightarrow> \<exists>n. numericTypeSpec e = Inr n \<and> numericTypeOf n = e"
  "propertyCategoryOf (propertyCategorySpec c) = c"
  "constnessOf (constnessSpec cn) = cn"
  "transportModeOf (transportModeSpec m) = m"
  "toPropertyRelation (toPropertyRelationSpec r) = r"
  by (auto simp: isIntegral_def integralTypeSpec_def integralTypeOf_def numericTypeSpec_def numericTypeOf_def
      realTypeOf_def propertyCategoryOf_def propertyCategorySpec_def constnessOf_def constnessSpec_def
      transportModeOf_def transportModeSpec_def toPropertyRelation_def toPropertyRelationSpec_def
      split: PropertyCategory.splits Constness.splits TransportMode.splits PropertyRelation.splits)

lemma traverse_copies:
  assumes "\<And>x. x \<in> set xs \<Longrightarrow> \<exists>y. f (g x) = Inr y \<and> E y = E x"
  shows "\<exists>ys. traverse f (map g xs) = Inr ys \<and> map E ys = map E xs"
  using assms by (induction xs) (auto, metis list.simps(9) rbind_simps(2))

lemma names_of_copies:
  "map (map_StructField erase) fs = map (map_StructField erase) fs' \<Longrightarrow> map field_name fs = map field_name fs'"
  "map (map_VariantField erase) vs = map (map_VariantField erase) vs' \<Longrightarrow> map variant_key vs = map variant_key vs'"
  by (drule arg_cong [where f = "map field_name"] arg_cong [where f = "map variant_key"],
      simp add: o_def StructField.map_sel VariantField.map_sel)+

lemma structMake_copy:
  assumes "structMake a n fs p = Inr t" "map (map_StructField erase) fs' = map (map_StructField erase) fs"
    "map_option erase p' = map_option erase p"
  shows "structMake b n fs' p' = Inr (StructType b n fs' p')"
proof -
  have names: "map field_name fs' = map field_name fs"
    by (rule names_of_copies(1)) (rule assms(2))
  have "map erase (parentChain p') = map erase (parentChain p)"
    using assms(3) by (cases p; cases p') (auto simp: parentChain_def simp flip: erase_chain)
  then have "(\<lambda>q. field_name ` set (ownFields q)) ` set (parentChain p') = (\<lambda>q. field_name ` set (ownFields q)) ` set (parentChain p)"
    by (metis (mono_tags, lifting) erase_ownFields image_cong image_image list.set_map)
  moreover have "list_all (\<lambda>f. memberName (field_name f)) fs' = list_all (\<lambda>f. memberName (field_name f)) fs"
    using names by (metis (no_types, lifting) list.pred_map list.pred_mono_strong o_apply)
  moreover have "field_name ` set fs' = field_name ` set fs"
    using names by (metis list.set_map)
  ultimately show ?thesis
    using assms(1) names unfolding structMake_ok by (simp; metis (no_types, lifting) image_iff)
qed

lemma args_copy:
  assumes "\<And>d. d \<in> \<Union> (set_Arg ` set as) \<Longrightarrow> findsCopy k d"
  shows "\<exists>bs. getArgs k (map argSpec as) = Inr bs \<and> map (map_Arg erase) bs = map (map_Arg erase) as"
  unfolding getArgs_def
proof (rule traverse_copies)
  fix x
  assume "x \<in> set as"
  then have "findsCopy k (arg_type x)"
    using assms Arg.set_sel by blast
  then show "\<exists>y. rbind (findType k (as_type (argSpec x))) (\<lambda>t. Inr (Arg (as_name (argSpec x)) (as_description (argSpec x)) t)) =
       Inr y \<and> map_Arg erase y = map_Arg erase x"
    by (cases x) (auto simp: findsCopy_def argSpec_def)
qed

lemma method_copy:
  assumes "\<And>d. d \<in> set_MethodSpec m \<Longrightarrow> findsCopy k d \<and> getQualifiedTypeName d \<noteq> []"
  shows "\<exists>m'. makeMethodSpec k (getMethodSpec m) = Inr m' \<and> map_MethodSpec erase m' = map_MethodSpec erase m"
proof -
  obtain n ds as tr cn ret rel df lo where m: "m = MethodSpec (CallableSpec n ds as tr) cn ret rel df lo"
    by (metis CallableSpec.exhaust MethodSpec.exhaust)
  obtain bs where "getArgs k (map argSpec as) = Inr bs" "map (map_Arg erase) bs = map (map_Arg erase) as"
    using args_copy [of as k] assms by (force simp: m)
  moreover obtain r where "findType k (getQualifiedTypeName ret) = Inr r" "erase r = erase ret" "getQualifiedTypeName ret \<noteq> []"
    using assms by (auto simp: m findsCopy_def)
  ultimately show ?thesis
    by (simp add: m makeMethodSpec_def getMethodSpec_def spec_inverses)
qed

lemma event_copy:
  assumes "\<And>d. d \<in> set_EventSpec e \<Longrightarrow> findsCopy k d"
  shows "\<exists>e'. makeEventSpec k (eventDataSpec e) = Inr e' \<and> map_EventSpec erase e' = map_EventSpec erase e"
proof -
  obtain n ds as tr where e: "e = EventSpec (CallableSpec n ds as tr)"
    by (metis CallableSpec.exhaust EventSpec.exhaust)
  obtain bs where "getArgs k (map argSpec as) = Inr bs" "map (map_Arg erase) bs = map (map_Arg erase) as"
    using args_copy [of as k] assms by (force simp: e)
  then show ?thesis
    by (simp add: e makeEventSpec_def eventDataSpec_def spec_inverses)
qed

lemma property_copy:
  "(\<And>d. d \<in> set_PropertySpec p \<Longrightarrow> findsCopy k d) \<Longrightarrow>
   \<exists>p'. makePropertySpec k (propertyDataSpec p) = Inr p' \<and> map_PropertySpec erase p' = map_PropertySpec erase p"
  by (cases p) (auto simp: findsCopy_def makePropertySpec_def propertyDataSpec_def spec_inverses)

lemma parent_copy:
  assumes "findsCopy k q" "isClassType q"
  shows "\<exists>q'. parentOfClass k n (getQualifiedName q) = Inr q' \<and> erase q' = erase q"
proof -
  have "getQualifiedTypeName q = getQualifiedName q"
    using assms(2) by (auto simp: getQualifiedTypeName_def isClassType_def isCustomType_def split: Type.splits)
  then obtain t where "findType k (getQualifiedName q) = Inr t" "erase t = erase q"
    using assms(1) by (auto simp: findsCopy_def)
  then show ?thesis
    using assms(2) copy_names(7) [of t q] by (simp add: parentOfClass_def)
qed

text \<open>The builder and the factory agree on a class whose mentioned types are found.\<close>

lemma class_copy:
  assumes made: "madeType (ClassType a c)"
    and found: "\<And>d. d \<in> set_ClassSpec c \<Longrightarrow> findsCopy k d \<and> getQualifiedTypeName d \<noteq> []"
    and spec: "makeCustomTypeSpec (ClassType a c) = Inr s"
  shows "\<exists>t. buildNonNativeType k b s = Inr t \<and> erase t = erase (ClassType a c)"
proof -
  have valid: "validClass c" and parents: "\<forall>q \<in> set (class_parents c). isClassType q"
    using made by (auto simp: madeType_def classMake_ok)
  obtain m where m: "class_constructor c = Some m"
    using made by (auto simp: madeType_def)
  obtain m' where m': "makeMethodSpec k (getMethodSpec m) = Inr m'" "map_MethodSpec erase m' = map_MethodSpec erase m"
    using method_copy [of m k] found ClassSpec.set_sel(4) [of m c] by (auto simp: m)
  have "\<exists>q'. parentOfClass k (class_names c) (getQualifiedName q) = Inr q' \<and> erase q' = erase q"
    if "q \<in> set (class_parents c)" for q
    using that found [OF ClassSpec.set_sel(5) [OF that]] parents by (intro parent_copy) simp_all
  then obtain qs where qs: "traverse (parentOfClass k (class_names c)) (map getQualifiedName (class_parents c)) = Inr qs"
      "map erase qs = map erase (class_parents c)"
    using traverse_copies [of "class_parents c" "parentOfClass k (class_names c)" getQualifiedName erase] by blast
  have "\<exists>y. makePropertySpec k (propertyDataSpec x) = Inr y \<and> map_PropertySpec erase y = map_PropertySpec erase x" if "x \<in> set (class_properties c)" for x
    by (rule property_copy) (use found ClassSpec.set_sel(1) [OF that] in blast)
  then obtain ps where ps: "traverse (makePropertySpec k) (map propertyDataSpec (class_properties c)) = Inr ps"
      "map (map_PropertySpec erase) ps = map (map_PropertySpec erase) (class_properties c)"
    using traverse_copies [of "class_properties c" "makePropertySpec k" propertyDataSpec "map_PropertySpec erase"] by blast
  have "\<exists>y. makeMethodSpec k (getMethodSpec x) = Inr y \<and> map_MethodSpec erase y = map_MethodSpec erase x" if "x \<in> set (class_methods c)" for x
    by (rule method_copy) (use found ClassSpec.set_sel(2) [OF that] in blast)
  then obtain ms where ms: "traverse (makeMethodSpec k) (map getMethodSpec (class_methods c)) = Inr ms"
      "map (map_MethodSpec erase) ms = map (map_MethodSpec erase) (class_methods c)"
    using traverse_copies [of "class_methods c" "makeMethodSpec k" getMethodSpec "map_MethodSpec erase"] by blast
  have "\<exists>y. makeEventSpec k (eventDataSpec x) = Inr y \<and> map_EventSpec erase y = map_EventSpec erase x" if "x \<in> set (class_events c)" for x
    by (rule event_copy) (use found ClassSpec.set_sel(3) [OF that] in blast)
  then obtain es where es: "traverse (makeEventSpec k) (map eventDataSpec (class_events c)) = Inr es"
      "map (map_EventSpec erase) es = map (map_EventSpec erase) (class_events c)"
    using traverse_copies [of "class_events c" "makeEventSpec k" eventDataSpec "map_EventSpec erase"] by blast
  let ?c = "ClassSpec (class_names c) ps ms es (Some m') qs (class_isInterface c) False"
  have same: "concreteClass (map_ClassSpec erase ?c) = concreteClass (map_ClassSpec erase c)"
    using ps(2) ms(2) es(2) qs(2) m m'(2) by (simp add: concreteClass_def ClassSpec.map_sel)
  have "specNames s = class_names c"
      "cts_data s = ClassTypeSpec (map propertyDataSpec (class_properties c)) (map getMethodSpec (class_methods c))
         (map eventDataSpec (class_events c)) (getMethodSpec m) (map getQualifiedName (class_parents c)) (class_isInterface c)"
    using spec by (auto simp: makeCustomTypeSpec_def makeCustomTypeData_def classTypeSpec_def m specNames_def)
  then have "buildNonNativeType k b s = classMake b ?c"
    using m'(1) qs(1) ps(1) ms(1) es(1) by (simp add: buildNonNativeType_def makeNonNativeClass_def)
  also have "classMake b ?c = Inr (ClassType b ?c)"
    using valid validClass_copy [OF same] by (simp add: classMake_ok)
  finally show ?thesis
    using same by simp
qed

lemma struct_copy:
  assumes made: "madeType (StructType a n fs p)"
    and found: "\<And>d. d \<in> components (StructType a n fs p) \<Longrightarrow> findsCopy k d"
    and spec: "makeCustomTypeSpec (StructType a n fs p) = Inr s"
  shows "\<exists>t. buildNonNativeType k b s = Inr t \<and> erase t = erase (StructType a n fs p)"
proof -
  let ?name = "\<lambda>f. StructTypeFieldSpec (field_name f) (field_description f) (getQualifiedTypeName (field_type f))"
  let ?build = "\<lambda>f. rbind (findType k (sfs_type f)) (\<lambda>t. Inr (StructField (sfs_name f) (sfs_description f) t))"
  have "\<exists>y. ?build (?name f) = Inr y \<and> map_StructField erase y = map_StructField erase f" if "f \<in> set fs" for f
    using found [of "field_type f"] that by (cases f) (force simp: components_def findsCopy_def)
  then obtain gs where gs: "traverse ?build (map ?name fs) = Inr gs" "map (map_StructField erase) gs = map (map_StructField erase) fs"
    using traverse_copies [of fs ?build ?name "map_StructField erase"] by blast
  have "\<exists>p'. parentOfStruct k n (case p of Some q \<Rightarrow> getQualifiedName q | None \<Rightarrow> []) = Inr p' \<and> map_option erase p' = map_option erase p"
  proof (cases p)
    case (Some q)
    then have q: "isStructType q" "getQualifiedName q \<noteq> []" "findsCopy k q"
      using made found by (auto simp: madeType_def components_def)
    then have "getQualifiedTypeName q = getQualifiedName q"
      by (auto simp: getQualifiedTypeName_def isStructType_def isCustomType_def split: Type.splits)
    then obtain t where "findType k (getQualifiedName q) = Inr t" "erase t = erase q"
      using q(3) by (auto simp: findsCopy_def)
    then show ?thesis
      using q(1,2) Some copy_names(8) [of t q] by (simp add: parentOfStruct_def)
  qed (simp add: parentOfStruct_def)
  then obtain p' where p': "parentOfStruct k n (case p of Some q \<Rightarrow> getQualifiedName q | None \<Rightarrow> []) = Inr p'"
      "map_option erase p' = map_option erase p"
    by blast
  have "specNames s = n" "cts_data s = StructTypeSpec (map ?name fs) (case p of Some q \<Rightarrow> getQualifiedName q | None \<Rightarrow> [])"
    using spec by (cases n; auto simp: makeCustomTypeSpec_def makeCustomTypeData_def specNames_def)+
  then have "buildNonNativeType k b s = structMake b n gs p'"
    using gs(1) p'(1) by (simp add: buildNonNativeType_def makeNonNativeStruct_def)
  also have "structMake b n gs p' = Inr (StructType b n gs p')"
    using made gs(2) p'(2) structMake_copy by (auto simp: madeType_def)
  finally show ?thesis
    using gs(2) p'(2) by simp
qed

lemma variant_copy:
  assumes made: "madeType (VariantType a n fs)"
    and found: "\<And>d. d \<in> components (VariantType a n fs) \<Longrightarrow> findsCopy k d"
    and spec: "makeCustomTypeSpec (VariantType a n fs) = Inr s"
  shows "\<exists>t. buildNonNativeType k b s = Inr t \<and> erase t = erase (VariantType a n fs)"
proof -
  let ?name = "\<lambda>f. VariantTypeFieldSpec (variant_key f) (variant_description f) (getQualifiedTypeName (variant_type f))"
  let ?build = "\<lambda>f. rbind (findType k (vfs_type f)) (\<lambda>t. Inr (VariantField (vfs_key f) (vfs_description f) t))"
  have "\<exists>y. ?build (?name f) = Inr y \<and> map_VariantField erase y = map_VariantField erase f" if "f \<in> set fs" for f
    using found [of "variant_type f"] that by (cases f) (force simp: components_def findsCopy_def)
  then obtain gs where gs: "traverse ?build (map ?name fs) = Inr gs" "map (map_VariantField erase) gs = map (map_VariantField erase) fs"
    using traverse_copies [of fs ?build ?name "map_VariantField erase"] by blast
  have "specNames s = n" "cts_data s = VariantTypeSpec (map ?name fs)"
    using spec by (cases n; auto simp: makeCustomTypeSpec_def makeCustomTypeData_def specNames_def)+
  then have "buildNonNativeType k b s = variantMake b n gs"
    using gs(1) by (simp add: buildNonNativeType_def makeNonNativeVariant_def)
  also have "variantMake b n gs = Inr (VariantType b n gs)"
    using made names_of_copies(2) [OF gs(2)] by (auto simp: madeType_def variantMake_ok)
  finally show ?thesis
    using gs(2) by simp
qed

lemma unit_info: "unitListed table (QuantityType a k n e u mn mx) \<Longrightarrow> \<exists>info. getUnitInfo u = Inr info
    \<and> map_option unitSpec (searchUnitByName table (ui_name info)) = map_option unitSpec u"
proof (cases u)
  case (Some v)
  assume listed: "unitListed table (QuantityType a k n e u mn mx)"
  define c where "c = unit_category (unitSpec v)"
  have "c < 15"
    using listed Some by (simp add: unitListed_def c_def)
  then have "0 \<le> uint c" "uint c < 15"
    by (simp_all add: word_less_def)
  then have "uint c = 0 \<or> uint c = 1 \<or> uint c = 2 \<or> uint c = 3 \<or> uint c = 4 \<or> uint c = 5 \<or> uint c = 6 \<or> uint c = 7
      \<or> uint c = 8 \<or> uint c = 9 \<or> uint c = 10 \<or> uint c = 11 \<or> uint c = 12 \<or> uint c = 13 \<or> uint c = 14"
    by presburger
  then have "\<exists>cat. getUnitCat c = Inr cat"
    by (auto simp: getUnitCat_def word_uint_eq_iff)
  then show ?thesis
    using listed Some by (auto simp: getUnitInfo_def unitListed_def c_def)
qed (simp add: getUnitInfo_def unitListed_def)

lemma spec_exists:
  assumes "madeType t" "unitListed table t"
  shows "\<exists>s. makeCustomTypeSpec t = Inr s \<and> cts_qualifiedName s = getQualifiedName t"
proof (cases t)
  case (QuantityType a k n e u mn mx)
  obtain i info where "numericTypeSpec e = Inr i" "getUnitInfo u = Inr info"
    using assms spec_inverses(2) [of e] unit_info [of table a k n e u mn mx]
    by (auto simp: madeType_def QuantityType)
  then show ?thesis
    by (simp add: QuantityType makeCustomTypeSpec_def makeCustomTypeData_def)
next
  case (EnumType a n es st)
  then show ?thesis
    using assms spec_inverses(1) [of st] by (auto simp: madeType_def makeCustomTypeSpec_def makeCustomTypeData_def)
qed (use assms in \<open>auto simp: madeType_def makeCustomTypeSpec_def makeCustomTypeData_def\<close>)

lemma quantity_copy:
  assumes made: "madeType (QuantityType a kind n e u mn mx)" and listed: "unitListed (unitTable k) (QuantityType a kind n e u mn mx)"
    and spec: "makeCustomTypeSpec (QuantityType a kind n e u mn mx) = Inr s"
  shows "\<exists>t. buildNonNativeType k b s = Inr t \<and> erase t = erase (QuantityType a kind n e u mn mx)"
proof -
  obtain i where i: "numericTypeSpec e = Inr i" "numericTypeOf i = e"
    using made spec_inverses(2) [of e] by (auto simp: madeType_def)
  obtain info where info: "getUnitInfo u = Inr info"
      "map_option unitSpec (searchUnitByName (unitTable k) (ui_name info)) = map_option unitSpec u"
    using unit_info [OF listed] by blast
  define u' where "u' = searchUnitByName (unitTable k) (ui_name info)"
  have "specNames s = n" "cts_data s = QuantityTypeSpec i info mn mx"
    using spec i info by (cases n; auto simp: makeCustomTypeSpec_def makeCustomTypeData_def specNames_def)+
  then have "buildNonNativeType k b s = quantityMake b n e u' mn mx"
    by (simp add: buildNonNativeType_def makeNonNativeQuantity_def i u'_def)
  also have "quantityMake b n e u' mn mx = Inr (QuantityType b PlainQuantity n e u' mn mx)"
    using made by (auto simp: madeType_def quantityMake_def rbind_Inr_conv)
  finally have "buildNonNativeType k b s = Inr (QuantityType b PlainQuantity n e u' mn mx)" .
  moreover have "map_option (\<lambda>v. Unit 0 (unitSpec v)) u' = map_option (\<lambda>v. Unit 0 (unitSpec v)) u"
    using arg_cong [OF info(2), of "map_option (Unit 0)"] by (simp add: u'_def option.map_comp o_def)
  ultimately show ?thesis
    by simp
qed

lemma wrapper_copy:
  assumes "findsCopy k e" "makeCustomTypeSpec t = Inr s" "madeType t"
    "t = SequenceType a n e mx fx \<or> t = AliasType a n e \<or> t = OptionalType a n e"
  shows "\<exists>t'. buildNonNativeType k b s = Inr t' \<and> erase t' = erase t"
  using assms
  by (cases n) (auto simp: findsCopy_def makeCustomTypeSpec_def makeCustomTypeData_def specNames_def buildNonNativeType_def
      makeNonNativeSequence_def makeNonNativeAlias_def makeNonNativeOptional_def madeType_def sequenceMake_def aliasMake_def
      optionalMake_def rbind_Inr_conv)

lemma enum_copy:
  assumes "makeCustomTypeSpec (EnumType a n es st) = Inr s" "madeType (EnumType a n es st)"
  shows "\<exists>t'. buildNonNativeType k b s = Inr t' \<and> erase t' = erase (EnumType a n es st)"
proof -
  obtain i where i: "integralTypeSpec st = Inr i" "integralTypeOf i = st"
    using assms(2) spec_inverses(1) [of st] by (auto simp: madeType_def)
  have "specNames s = n" "cts_data s = EnumTypeSpec (map (\<lambda>e. EnumeratorSpec (enum_name e) (enum_key e) (enum_description e)) es) i"
    using assms(1) i by (cases n; auto simp: makeCustomTypeSpec_def makeCustomTypeData_def specNames_def)+
  then show ?thesis
    using assms(2) i by (auto simp: buildNonNativeType_def makeNonNativeEnum_def madeType_def enumMake_ok o_def)
qed

lemma build_copy:
  assumes "madeType t" "unitListed (unitTable k) t" "makeCustomTypeSpec t = Inr s"
    and "\<And>d. d \<in> components t \<Longrightarrow> findsCopy k d \<and> getQualifiedTypeName d \<noteq> []"
  shows "\<exists>t'. buildNonNativeType k b s = Inr t' \<and> erase t' = erase t"
proof (cases t)
  case (ClassType a c)
  then show ?thesis
    using class_copy [of a c k s b] assms by (simp add: components_def)
next
  case (StructType a n fs p)
  then show ?thesis
    using struct_copy [of a n fs p k s b] assms by simp
next
  case (VariantType a n fs)
  then show ?thesis
    using variant_copy [of a n fs k s b] assms by simp
next
  case (QuantityType a kind n e u mn mx)
  then show ?thesis
    using quantity_copy [of a kind n e u mn mx k s b] assms by simp
next
  case (EnumType a n es st)
  then show ?thesis
    using enum_copy [of a n es st s k b] assms by simp
next
  case (NativeType kind)
  then show ?thesis
    using assms(1) by (simp add: madeType_def)
qed (rule wrapper_copy; use assms in \<open>simp add: components_def\<close>; fail)+


text \<open>A position with an optional altitude, whose type the other process has sent before.\<close>

definition exampleAltitude :: Type where
  "exampleAltitude = OptionalType 1 (TypeNames ''Altitude'' ''p.Altitude'' []) (NativeType Float64Type)"

definition examplePlace :: Type where
  "examplePlace = StructType 2 (TypeNames ''Place'' ''p.Place'' ''where it is'')
     [StructField ''x'' [] (NativeType Float64Type), StructField ''height'' [] exampleAltitude] None"

definition exampleLookup :: Lookup where
  "exampleLookup = \<lparr>nsUnit = exampleNs, unitTable = [], nativeTypes = emptyRegistry,
     nonNativeTypes = \<lparr>types = [''p.Altitude'' \<mapsto> OptionalType 9 (TypeNames ''Altitude'' ''p.Altitude'' []) (NativeType Float64Type)],
       typesByHash = Map.empty, typesInDependencyOrder = []\<rparr>\<rparr>"

lemma exampleFloat_found: "findType exampleLookup ''f64'' = Inr (NativeType Float64Type)"
  by (simp add: findType_def registryGet_def exampleLookup_def getNativeTypes_def nativeName_def)

lemma exampleAltitude_found:
  "findType exampleLookup ''p.Altitude'' = Inr (OptionalType 9 (TypeNames ''Altitude'' ''p.Altitude'' []) (NativeType Float64Type))"
  by (simp add: findType_def registryGet_def exampleLookup_def)

lemma examplePlace_components: "components examplePlace = {NativeType Float64Type, exampleAltitude}"
  by (simp add: examplePlace_def components_def)

lemma examplePlace_found:
  assumes "d \<in> components examplePlace"
  shows "findsCopy exampleLookup d \<and> getQualifiedTypeName d \<noteq> []"
proof -
  have "getQualifiedTypeName (NativeType Float64Type) = ''f64''" "getQualifiedTypeName exampleAltitude = ''p.Altitude''"
    by (simp_all add: getQualifiedTypeName_def isCustomType_def nativeName_def exampleAltitude_def)
  then show ?thesis
    using assms exampleFloat_found exampleAltitude_found
    by (auto simp: examplePlace_components findsCopy_def exampleAltitude_def)
qed

lemma examplePlace_made: "madeType examplePlace"
  by (simp add: examplePlace_def madeType_def structMake_ok name_eval memberName_def identifierName_def parentChain_def)


end
