(* ===== verification/Type_Compat.thy ===== *)
theory Type_Compat
  imports Type_Specs
begin

text \<open>
  Whether the type another process uses can be adapted to the local type of the same name
  (libs/kernel/src/type_specs_utils.cpp): conversions between numbers that can lose a value, the
  walk of runtimeCompatible over both types, and the compatibility modes.
\<close>

section \<open>Conversions of numbers\<close>

definition isNumeric :: "NativeKind \<Rightarrow> bool" where
  "isNumeric k \<longleftrightarrow> isIntegral k \<or> k = Float32Type \<or> k = Float64Type"

definition isReal :: "NativeKind \<Rightarrow> bool" where
  "isReal k \<longleftrightarrow> k = Float32Type \<or> k = Float64Type"

definition isSigned :: "NativeKind \<Rightarrow> bool" where
  "isSigned k \<longleftrightarrow> k \<in> {Int16Type, Int32Type, Int64Type, Float32Type, Float64Type}"

definition getByteSize :: "NativeKind \<Rightarrow> nat" where
  "getByteSize k = (case k of
     UInt8Type \<Rightarrow> 1 | Int16Type \<Rightarrow> 2 | UInt16Type \<Rightarrow> 2 | Int32Type \<Rightarrow> 4 | UInt32Type \<Rightarrow> 4
   | Int64Type \<Rightarrow> 8 | UInt64Type \<Rightarrow> 8 | Float32Type \<Rightarrow> 4 | Float64Type \<Rightarrow> 8 | _ \<Rightarrow> 0)"

definition valueDigits :: "NativeKind \<Rightarrow> nat" where
  "valueDigits k =
     (if k = BoolType then 1 else if k = Float32Type then 24 else if k = Float64Type then 53
      else if isNumeric k then getByteSize k * 8 - (if isSigned k then 1 else 0) else 0)"

definition kindLosesData :: "NativeKind \<Rightarrow> NativeKind \<Rightarrow> bool" where
  "kindLosesData from to =
     (if \<not> (isNumeric from \<or> from = BoolType) \<or> \<not> (isNumeric to \<or> to = BoolType) then False
      else if from = BoolType then False
      else if to = BoolType then True
      else if isReal to then valueDigits to < valueDigits from
      else if isReal from then True
      else if isSigned from \<and> \<not> isSigned to then True
      else valueDigits to < valueDigits from)"

text \<open>Types that are not native are no numbers.\<close>

definition conversionLosesData :: "Type \<Rightarrow> Type \<Rightarrow> bool" where
  "conversionLosesData from to = (case (from, to) of
     (NativeType k, NativeType k') \<Rightarrow> kindLosesData k k'
   | _ \<Rightarrow> False)"

datatype CompatibilityMode = CompatDisabled | CompatStrict | CompatRelaxed

definition acceptsUnderCompatibilityMode :: "CompatibilityMode \<Rightarrow> bool \<Rightarrow> bool \<Rightarrow> bool" where
  "acceptsUnderCompatibilityMode mode typesAreEquivalent anyConversionLosesData = (case mode of
     CompatDisabled \<Rightarrow> typesAreEquivalent
   | CompatStrict \<Rightarrow> \<not> anyConversionLosesData
   | CompatRelaxed \<Rightarrow> True)"

definition equivalent :: "Type \<Rightarrow> Type \<Rightarrow> bool" where
  "equivalent l r \<longleftrightarrow> getHash l = getHash r"

section \<open>The walk\<close>

text \<open>
  A walk gives the problems it found and, when it grades, the conversions that may lose a value.
  The visitors below take the walk itself, for the types they descend to; \<open>r\<close> is the remote type.
\<close>

type_synonym verdict = "string list \<times> string list"
type_synonym walker = "bool \<Rightarrow> Type \<Rightarrow> Type \<Rightarrow> verdict"

definition logIncompatible :: "string \<Rightarrow> string" where
  "logIncompatible name = ''Type with name '' @ name @ '' has an incompatible remote implementation. ''"

abbreviation incompatible :: "string \<Rightarrow> verdict" where
  "incompatible name \<equiv> ([logIncompatible name], [])"

definition checkForLoss :: "bool \<Rightarrow> Type \<Rightarrow> Type \<Rightarrow> string list" where
  "checkForLoss grade from to =
     (if \<not> grade \<or> \<not> conversionLosesData from to then []
      else [''reading '' @ getName from @ '' as '' @ getName to @ '' can lose a value''])"

definition collectVerdicts :: "verdict list \<Rightarrow> verdict" where
  "collectVerdicts vs = (concat (map fst vs), concat (map snd vs))"

text \<open>Problems of a part are reported after a message that names the part.\<close>

definition explained :: "string \<Rightarrow> verdict \<Rightarrow> verdict" where
  "explained message v = (if fst v \<noteq> [] then message # fst v else [], snd v)"

definition isNativeType :: "Type \<Rightarrow> bool" where
  "isNativeType t = (case t of NativeType k \<Rightarrow> k \<noteq> VoidType | _ \<Rightarrow> False)"

definition isEnumType :: "Type \<Rightarrow> bool" where
  "isEnumType t = (case t of EnumType a n es st \<Rightarrow> True | _ \<Rightarrow> False)"

definition isQuantityType :: "Type \<Rightarrow> bool" where
  "isQuantityType t = (case t of QuantityType a k n e u mn mx \<Rightarrow> True | _ \<Rightarrow> False)"

definition isTimestampType :: "Type \<Rightarrow> bool" where
  "isTimestampType t = (case t of QuantityType a k n e u mn mx \<Rightarrow> k = TimestampQuantity | _ \<Rightarrow> False)"

definition isDurationType :: "Type \<Rightarrow> bool" where
  "isDurationType t = (case t of QuantityType a k n e u mn mx \<Rightarrow> k = DurationQuantity | _ \<Rightarrow> False)"

definition compatNative :: "bool \<Rightarrow> NativeKind \<Rightarrow> Type \<Rightarrow> verdict" where
  "compatNative grade k r =
     (if k = VoidType then if r = NativeType VoidType then ([], []) else incompatible (nativeName k)
      else if \<not> (isNativeType r \<or> isEnumType r \<or> isQuantityType r) then incompatible (nativeName k)
      else ([], checkForLoss grade r (NativeType k)))"

definition compatEnum :: "bool \<Rightarrow> TypeNames \<Rightarrow> NativeKind \<Rightarrow> Type \<Rightarrow> verdict" where
  "compatEnum grade n storage r =
     (if \<not> isNativeType r \<and> \<not> isEnumType r then incompatible (tn_name n)
      else case r of
        EnumType a' n' es' st' \<Rightarrow> ([], checkForLoss grade (NativeType st') (NativeType storage))
      | _ \<Rightarrow> ([], []))"

definition compatStruct :: "walker \<Rightarrow> bool \<Rightarrow> Type \<Rightarrow> Type \<Rightarrow> verdict" where
  "compatStruct f grade l r =
     (if \<not> isStructType r then incompatible (getName l)
      else collectVerdicts (map (\<lambda>rf. case getFieldFromName l (field_name rf) of
             None \<Rightarrow> ([], [])
           | Some lf \<Rightarrow> explained (''Found incompatible matching fields with name '' @ field_name lf
                                   @ '' in struct type '' @ getName l)
                          (f grade (field_type lf) (field_type rf)))
         (getAllFields r)))"

definition compatVariant :: "walker \<Rightarrow> bool \<Rightarrow> TypeNames \<Rightarrow> Type VariantField list \<Rightarrow> Type \<Rightarrow> verdict" where
  "compatVariant f grade n fs r = (case r of
     VariantType a' n' fs' \<Rightarrow>
       collectVerdicts (map (\<lambda>lf. case getFieldFromKey r (variant_key lf) of
           None \<Rightarrow> ([], [])
         | Some rf \<Rightarrow> explained (''Found incompatible matching variant fields with key '' @ keyText (variant_key lf)
                                 @ '' in variant type '' @ tn_name n)
                        (f grade (variant_type lf) (variant_type rf)))
         fs)
   | _ \<Rightarrow> incompatible (tn_name n))"

definition compatSequence :: "walker \<Rightarrow> bool \<Rightarrow> TypeNames \<Rightarrow> Type \<Rightarrow> Type \<Rightarrow> verdict" where
  "compatSequence f grade n e r = (case r of
     SequenceType a' n' e' mx' fx' \<Rightarrow> f grade e e'
   | _ \<Rightarrow> incompatible (tn_name n))"

definition localAndRemote :: "Type \<Rightarrow> Type \<Rightarrow> string" where
  "localAndRemote lt rt = ''. Local type is '' @ getName lt @ '' and remote type is '' @ getName rt"

definition compatProperties :: "walker \<Rightarrow> bool \<Rightarrow> Type \<Rightarrow> Type \<Rightarrow> verdict" where
  "compatProperties f grade l r =
     collectVerdicts (map (\<lambda>rp. case searchPropertyByName (prop_name rp) IncludeParents l of
         None \<Rightarrow> ([], [])
       | Some lp \<Rightarrow> explained (''Found incompatible property with name '' @ prop_name lp @ '' in class '' @ getName l
                               @ localAndRemote (prop_type lp) (prop_type rp))
                      (f grade (prop_type lp) (prop_type rp)))
       (getProperties IncludeParents r))"

definition argMessage :: "string \<Rightarrow> string \<Rightarrow> string \<Rightarrow> Type \<Rightarrow> Type \<Rightarrow> Type \<Rightarrow> string" where
  "argMessage arg kind member l lt rt =
     ''Found incompatible argument with name '' @ arg @ '' in '' @ kind @ '' '' @ member @ '' in class ''
       @ getName l @ localAndRemote lt rt"

definition compatEvents :: "walker \<Rightarrow> bool \<Rightarrow> Type \<Rightarrow> Type \<Rightarrow> verdict" where
  "compatEvents f grade l r =
     collectVerdicts (map (\<lambda>re. case searchEventByName (eventName re) IncludeParents l of
         None \<Rightarrow> ([], [])
       | Some le \<Rightarrow>
           collectVerdicts (map (\<lambda>ra. case getArgFromName (event_callable le) (arg_name ra) of
               None \<Rightarrow> ([], [])
             | Some la \<Rightarrow> explained (argMessage (arg_name la) ''event'' (eventName le) l (arg_type la) (arg_type ra))
                            (f grade (arg_type la) (arg_type ra)))
             (callable_args (event_callable re))))
       (getEvents IncludeParents r))"

text \<open>
  The arguments of a method travel to the owner of the object, so the loss of their conversion is
  graded in that direction, by a second walk whose problems are ignored.
\<close>

definition compatMethodArgs :: "walker \<Rightarrow> bool \<Rightarrow> Type \<Rightarrow> Type MethodSpec \<Rightarrow> Type MethodSpec \<Rightarrow> verdict" where
  "compatMethodArgs f grade l lm rm =
     collectVerdicts (map (\<lambda>la. case getArgFromName (method_callable rm) (arg_name la) of
         None \<Rightarrow> ([], [])
       | Some ra \<Rightarrow> collectVerdicts
           [([], if grade then snd (f True (arg_type ra) (arg_type la)) else []),
            explained (argMessage (arg_name la) ''method'' (methodName lm) l (arg_type la) (arg_type ra))
              (f False (arg_type la) (arg_type ra))])
       (callable_args (method_callable lm)))"

definition compatMethods :: "walker \<Rightarrow> bool \<Rightarrow> Type \<Rightarrow> Type \<Rightarrow> verdict" where
  "compatMethods f grade l r =
     collectVerdicts (map (\<lambda>rm. case searchMethodByName (methodName rm) IncludeParents l of
         None \<Rightarrow> ([], [])
       | Some lm \<Rightarrow> collectVerdicts
           [f grade (method_returnType lm) (method_returnType rm), compatMethodArgs f grade l lm rm])
       (getMethods IncludeParents r))"

definition compatClass :: "walker \<Rightarrow> bool \<Rightarrow> Type \<Rightarrow> Type \<Rightarrow> verdict" where
  "compatClass f grade l r =
     (if \<not> isClassType r then incompatible (getName l)
      else collectVerdicts [compatProperties f grade l r, compatEvents f grade l r, compatMethods f grade l r])"

definition getCategoryString :: "u32 \<Rightarrow> string" where
  "getCategoryString c =
     (if c = 0 then ''length'' else if c = 1 then ''mass'' else if c = 2 then ''time'' else if c = 3 then ''angle''
      else if c = 4 then ''temperature'' else if c = 5 then ''density'' else if c = 6 then ''pressure''
      else if c = 7 then ''area'' else if c = 8 then ''force'' else if c = 9 then ''frequency''
      else if c = 10 then ''velocity'' else if c = 11 then ''angular velocity''
      else if c = 12 then ''acceleration'' else if c = 13 then ''angular acceleration''
      else if c = 14 then ''torque'' else ''unknown'')"

text \<open>The units of two quantities; a difference in dimension ends the visit.\<close>

definition compatUnits :: "string \<Rightarrow> Unit option \<Rightarrow> Unit option \<Rightarrow> string list \<times> bool" where
  "compatUnits name lu ru = (case (lu, ru) of
     (None, Some v) \<Rightarrow> ([''Found incompatible local unit (non-dimensional) and remote unit ''
                        @ unit_name (unitSpec v) @ '' in type '' @ name], True)
   | (Some u, None) \<Rightarrow> ([''Found incompatible local unit '' @ name
                        @ '' and remote unit (non-dimensional) in type '' @ name], True)
   | (Some u, Some v) \<Rightarrow>
       (if unit_category (unitSpec u) \<noteq> unit_category (unitSpec v)
        then [''Found incompatible local unit category '' @ getCategoryString (unit_category (unitSpec u))
              @ '' and remote unit category '' @ getCategoryString (unit_category (unitSpec v))
              @ '' in type '' @ name]
        else [], False)
   | (None, None) \<Rightarrow> ([], False))"

definition isNumericType :: "Type \<Rightarrow> bool" where
  "isNumericType t = (case t of NativeType k \<Rightarrow> isNumeric k | _ \<Rightarrow> False)"

definition compatQuantity :: "bool \<Rightarrow> TypeNames \<Rightarrow> NativeKind \<Rightarrow> Unit option \<Rightarrow> Type \<Rightarrow> verdict" where
  "compatQuantity grade n e u r = (case r of
     QuantityType a' k' n' e' u' mn' mx' \<Rightarrow>
       (case compatUnits (tn_name n) u u' of (problems, stop) \<Rightarrow>
          (problems, if stop then [] else checkForLoss grade (NativeType e') (NativeType e)))
   | _ \<Rightarrow> if \<not> isNumericType r \<and> r \<noteq> NativeType StringType then incompatible (tn_name n) else ([], []))"

text \<open>The visit of an alias reports no problem at all.\<close>

definition compatAlias :: "bool \<Rightarrow> Type \<Rightarrow> Type \<Rightarrow> verdict" where
  "compatAlias grade e r =
     ([], checkForLoss grade (case r of AliasType a' n' e' \<Rightarrow> e' | _ \<Rightarrow> r) e)"

definition compatVisit :: "walker \<Rightarrow> bool \<Rightarrow> Type \<Rightarrow> Type \<Rightarrow> verdict" where
  "compatVisit f grade l r = (case l of
     NativeType k \<Rightarrow> compatNative grade k r
   | EnumType a n es st \<Rightarrow> compatEnum grade n st r
   | QuantityType a k n e u mn mx \<Rightarrow>
       (case k of
          PlainQuantity \<Rightarrow> compatQuantity grade n e u r
        | DurationQuantity \<Rightarrow> if isDurationType r then ([], []) else incompatible (tn_name n)
        | TimestampQuantity \<Rightarrow> if isTimestampType r then ([], []) else incompatible (tn_name n))
   | SequenceType a n e mx fx \<Rightarrow> compatSequence f grade n e r
   | AliasType a n e \<Rightarrow> compatAlias grade e r
   | OptionalType a n e \<Rightarrow> f grade e r
   | VariantType a n fs \<Rightarrow> compatVariant f grade n fs r
   | StructType a n fs p \<Rightarrow> compatStruct f grade l r
   | ClassType a c \<Rightarrow> compatClass f grade l r)"

definition compatStep :: "walker \<Rightarrow> bool \<Rightarrow> Type \<Rightarrow> Type \<Rightarrow> verdict" where
  "compatStep f grade l r =
     (if equivalent l r then ([], [])
      else case r of
        OptionalType a n e \<Rightarrow> f grade l e
      | _ \<Rightarrow>
          if isTimestampType r \<and> \<not> isTimestampType l then incompatible (getName l)
          else if isDurationType r \<and> isDurationType l then incompatible (getName l)
          else compatVisit f grade l r)"

section \<open>The walk ends\<close>

text \<open>Every step goes on with types that are smaller together.\<close>

lemma member_sizes:
  "x \<in> set_StructField f \<Longrightarrow> size x < size_StructField size f"
  "x \<in> set_VariantField v \<Longrightarrow> size x < size_VariantField size v"
  "x \<in> set_Arg b \<Longrightarrow> size x < size_Arg size b"
  "x \<in> set_CallableSpec c \<Longrightarrow> size x < size_CallableSpec size c"
proof -
  show arg: "size x < size_Arg size b" if "x \<in> set_Arg b" for b
    using that by (cases b) simp
  show "x \<in> set_StructField f \<Longrightarrow> size x < size_StructField size f"
    by (cases f) simp
  show "x \<in> set_VariantField v \<Longrightarrow> size x < size_VariantField size v"
    by (cases v) simp
  show "x \<in> set_CallableSpec c \<Longrightarrow> size x < size_CallableSpec size c"
    by (cases c) (auto dest: arg intro: size_list_estimation less_SucI)
qed

lemma class_sizes:
  "x \<in> set_PropertySpec p \<Longrightarrow> size x < size_PropertySpec size p"
  "x \<in> set_EventSpec e \<Longrightarrow> size x < size_EventSpec size e"
  "x \<in> set_MethodSpec m \<Longrightarrow> size x < size_MethodSpec size m"
proof -
  show "x \<in> set_PropertySpec p \<Longrightarrow> size x < size_PropertySpec size p"
    by (cases p) auto
  show "x \<in> set_EventSpec e \<Longrightarrow> size x < size_EventSpec size e"
    by (cases e) (auto dest: member_sizes(4))
  show "x \<in> set_MethodSpec m \<Longrightarrow> size x < size_MethodSpec size m"
    by (cases m) (auto dest: member_sizes(4))
qed

lemma size_class: "x \<in> set_ClassSpec c \<Longrightarrow> size x < size_ClassSpec size c"
proof (cases c)
  case (ClassSpec n ps ms es ctor qs i ab)
  have "p \<in> set ps \<Longrightarrow> x \<in> set_PropertySpec p \<Longrightarrow> size x < size_list (size_PropertySpec size) ps" for p
    by (rule size_list_estimation) (auto intro: class_sizes)
  moreover have "m \<in> set ms \<Longrightarrow> x \<in> set_MethodSpec m \<Longrightarrow> size x < size_list (size_MethodSpec size) ms" for m
    by (rule size_list_estimation) (auto intro: class_sizes)
  moreover have "e \<in> set es \<Longrightarrow> x \<in> set_EventSpec e \<Longrightarrow> size x < size_list (size_EventSpec size) es" for e
    by (rule size_list_estimation) (auto intro: class_sizes)
  moreover have "x \<in> set qs \<Longrightarrow> size x \<le> size_list size qs"
    by (rule size_list_estimation') auto
  moreover have "ctor = Some m \<Longrightarrow> x \<in> set_MethodSpec m \<Longrightarrow> size x < size_option (size_MethodSpec size) ctor" for m
    by (auto dest: class_sizes(3))
  ultimately show "x \<in> set_ClassSpec c \<Longrightarrow> size x < size_ClassSpec size c"
    unfolding ClassSpec by (cases ctor) (simp_all, (elim disjE bexE; fastforce)+)
qed

lemma component_size: "x \<in> components t \<Longrightarrow> size x < size t"
proof (cases t)
  case (StructType a n fs p)
  have "f \<in> set fs \<Longrightarrow> size (field_type f) < size_list (size_StructField size) fs" for f
    by (rule size_list_estimation) (auto intro: member_sizes StructField.set_sel)
  then show "x \<in> components t \<Longrightarrow> size x < size t"
    by (cases p) (auto simp: StructType components_def intro: trans_less_add1 less_SucI)
next
  case (VariantType a n fs)
  have "f \<in> set fs \<Longrightarrow> size (variant_type f) < size_list (size_VariantField size) fs" for f
    by (rule size_list_estimation) (auto intro: member_sizes VariantField.set_sel)
  then show "x \<in> components t \<Longrightarrow> size x < size t"
    by (auto simp: VariantType components_def intro: less_SucI)
next
  case (ClassType a c)
  then show "x \<in> components t \<Longrightarrow> size x < size t"
    using size_class [of x c] by (simp add: components_def)
qed (auto simp: components_def)

lemma findSomeD: "find P xs = Some x \<Longrightarrow> x \<in> set xs \<and> P x"
  by (auto simp: find_Some_iff)

lemma structChain_size: "q \<in> set (structChain t) \<Longrightarrow> size q \<le> size t"
proof (induction t)
  case (StructType a n fs p)
  then show ?case
    using component_size [of _ "StructType a n fs p"]
    by (cases p) (auto simp: components_def dest!: StructType.IH(2) intro: order_trans less_imp_le)
qed auto

lemma ownFields_size: "f \<in> set (ownFields q) \<Longrightarrow> size (field_type f) < size q"
  by (cases q) (auto intro!: component_size simp: components_def simp del: Type.size)

lemma fieldInChain_mem: "fieldInChain ts n = Some f \<Longrightarrow> \<exists>t \<in> set ts. f \<in> set (ownFields t)"
  by (induction ts) (auto split: option.splits dest: findSomeD)

lemma field_sizes:
  "getFieldFromName t n = Some f \<Longrightarrow> size (field_type f) < size t"
  "f \<in> set (getAllFields t) \<Longrightarrow> size (field_type f) < size t"
proof -
  have chain: "q \<in> set (structChain t) \<Longrightarrow> g \<in> set (ownFields q) \<Longrightarrow> size (field_type g) < size t" for q g
    using structChain_size ownFields_size less_le_trans by blast
  show "getFieldFromName t n = Some f \<Longrightarrow> size (field_type f) < size t"
    by (auto simp: getFieldFromName_def split: if_splits dest!: fieldInChain_mem intro: chain)
  show "f \<in> set (getAllFields t) \<Longrightarrow> size (field_type f) < size t"
    by (auto simp: getAllFields_def intro: chain)
qed

lemma variant_sizes: "getFieldFromKey t k = Some f \<Longrightarrow> size (variant_type f) < size t"
  by (auto simp: getFieldFromKey_def components_def split: Type.splits intro!: component_size simp del: Type.size
      dest!: findSomeD)

lemma ancestor_size: "ancestor t x \<Longrightarrow> size x \<le> size t"
proof (induction rule: ancestor.induct)
  case (parent p c t a)
  then have "size p < size (ClassType a c)"
    by (intro component_size) (simp add: components_def ClassSpec.set_sel(5))
  then show ?case
    using parent.IH by simp
qed simp

lemma firstSome_mem: "firstSome rs = Some x \<Longrightarrow> Some x \<in> set rs"
  by (induction rs) (auto split: option.splits)

lemma searchClass_ancestor: "searchClass own t = Some r \<Longrightarrow> \<exists>a c. ancestor t (ClassType a c) \<and> own c = Some r"
proof (induction t)
  case (ClassType a c)
  show ?case
  proof (cases "own c")
    case None
    then obtain p where "p \<in> set (class_parents c)" "searchClass own p = Some r"
      using ClassType.prems by (auto dest!: firstSome_mem)
    then show ?thesis
      using ClassType.IH ClassSpec.set_sel(5) ancestor.parent by metis
  next
    case (Some x)
    then show ?thesis
      using ClassType.prems by (auto intro: ancestor.self)
  qed
qed simp_all

lemma class_member_size: "ancestor t (ClassType a c) \<Longrightarrow> x \<in> set_ClassSpec c \<Longrightarrow> size x < size t"
  using ancestor_size [of t "ClassType a c"] component_size [of x "ClassType a c"] by (simp add: components_def)

lemma propertyMethods_types: "m \<in> set (propertyMethods p) \<Longrightarrow> x \<in> set_MethodSpec m \<Longrightarrow> x = prop_type p \<or> x = NativeType VoidType"
  by (auto simp: propertyMethods_def getterMethod_def setterMethod_def split: if_splits)

lemma ownMethods_types: "m \<in> set (ownMethods c) \<Longrightarrow> x \<in> set_MethodSpec m \<Longrightarrow> x \<in> set_ClassSpec c \<or> x = NativeType VoidType"
  by (auto simp: ownMethods_def dest!: propertyMethods_types intro: ClassSpec.set_sel PropertySpec.set_sel)

lemma ownEvents_types: "e \<in> set (ownEvents c) \<Longrightarrow> x \<in> set_EventSpec e \<Longrightarrow> x \<in> set_ClassSpec c"
  by (auto simp: ownEvents_def changeEvent_def intro: ClassSpec.set_sel)

lemma class_search_sizes:
  "searchPropertyByName n IncludeParents t = Some p \<Longrightarrow> size (prop_type p) < size t"
  "p \<in> set (getProperties IncludeParents t) \<Longrightarrow> size (prop_type p) < size t"
  "searchEventByName n IncludeParents t = Some e \<Longrightarrow> x \<in> set_EventSpec e \<Longrightarrow> size x < size t"
  "e \<in> set (getEvents IncludeParents t) \<Longrightarrow> x \<in> set_EventSpec e \<Longrightarrow> size x < size t"
  "searchMethodByName n IncludeParents t = Some m \<Longrightarrow> x \<in> set_MethodSpec m \<Longrightarrow> size x < size t"
  "m \<in> set (getMethods IncludeParents t) \<Longrightarrow> x \<in> set_MethodSpec m \<Longrightarrow> size x < size t"
proof -
  have void: "ancestor t (ClassType a c) \<Longrightarrow> size (NativeType VoidType) < size t" for a c
    using ancestor_size [of t "ClassType a c"] by simp
  show "searchPropertyByName n IncludeParents t = Some p \<Longrightarrow> size (prop_type p) < size t"
    by (auto simp: searchPropertyByName_def withMode_def dest!: searchClass_ancestor findSomeD
        intro!: class_member_size intro: ClassSpec.set_sel PropertySpec.set_sel)
  show "p \<in> set (getProperties IncludeParents t) \<Longrightarrow> size (prop_type p) < size t"
    by (auto simp: getProperties_def membersOf_def collectClass_iff
        intro!: class_member_size intro: ClassSpec.set_sel PropertySpec.set_sel)
  show "searchEventByName n IncludeParents t = Some e \<Longrightarrow> x \<in> set_EventSpec e \<Longrightarrow> size x < size t"
    by (auto simp: searchEventByName_def withMode_def dest!: searchClass_ancestor findSomeD
        intro: class_member_size ownEvents_types)
  show "e \<in> set (getEvents IncludeParents t) \<Longrightarrow> x \<in> set_EventSpec e \<Longrightarrow> size x < size t"
    by (auto simp: getEvents_def membersOf_def collectClass_iff intro: class_member_size ClassSpec.set_sel)
  show "searchMethodByName n IncludeParents t = Some m \<Longrightarrow> x \<in> set_MethodSpec m \<Longrightarrow> size x < size t"
    using void by (auto simp: searchMethodByName_def withMode_def dest!: searchClass_ancestor findSomeD
        intro: class_member_size dest: ownMethods_types)
  show "m \<in> set (getMethods IncludeParents t) \<Longrightarrow> x \<in> set_MethodSpec m \<Longrightarrow> size x < size t"
    by (auto simp: getMethods_def membersOf_def collectClass_iff intro: class_member_size ClassSpec.set_sel)
qed

text \<open>A visitor uses the walk only below the types it visits.\<close>

definition sameBelow :: "Type \<Rightarrow> Type \<Rightarrow> walker \<Rightarrow> walker \<Rightarrow> bool" where
  "sameBelow l r f f' \<longleftrightarrow> (\<forall>h x y. size x + size y < size l + size r \<longrightarrow> f h x y = f' h x y)"

lemma sameBelowD:
  "sameBelow l r f f' \<Longrightarrow> size x < size l \<Longrightarrow> size y < size r \<Longrightarrow> f h x y = f' h x y"
  "sameBelow l r f f' \<Longrightarrow> size x < size l \<Longrightarrow> size y < size r \<Longrightarrow> f h y x = f' h y x"
  by (simp_all add: sameBelow_def)

lemma compatStruct_below:
  assumes "sameBelow l r f f'"
  shows "compatStruct f g l r = compatStruct f' g l r"
proof -
  have "f g (field_type y) (field_type x) = f' g (field_type y) (field_type x)"
    if "x \<in> set (getAllFields r)" "getFieldFromName l (field_name x) = Some y" for x y
    using field_sizes that by (intro sameBelowD(1) [OF assms]) blast+
  then show ?thesis
    by (auto simp: compatStruct_def intro!: arg_cong [where f = collectVerdicts] split: option.split)
qed

lemma compatVariant_below:
  assumes "sameBelow (VariantType a n fs) r f f'"
  shows "compatVariant f g n fs r = compatVariant f' g n fs r"
proof (cases r)
  case (VariantType a' n' fs')
  have "f g (variant_type x) (variant_type y) = f' g (variant_type x) (variant_type y)"
    if "x \<in> set fs" "getFieldFromKey r (variant_key x) = Some y" for x y
    using that component_size [of "variant_type x" "VariantType a n fs"] variant_sizes [of r]
    by (intro sameBelowD(1) [OF assms]) (auto simp: components_def simp del: Type.size)
  then show ?thesis
    using VariantType
    by (auto simp: compatVariant_def intro!: arg_cong [where f = collectVerdicts] split: option.split)
qed (simp_all add: compatVariant_def)

lemma compatClass_below: "sameBelow l r f f' \<Longrightarrow> compatClass f g l r = compatClass f' g l r"
proof -
  assume same: "sameBelow l r f f'"
  note below = sameBelowD [OF same]
  have "compatProperties f g l r = compatProperties f' g l r"
  proof -
    have "f g (prop_type y) (prop_type x) = f' g (prop_type y) (prop_type x)"
      if "x \<in> set (getProperties IncludeParents r)" "searchPropertyByName n IncludeParents l = Some y" for x y n
      using class_search_sizes(1,2) that by (intro below(1)) blast+
    then show ?thesis
      by (auto simp: compatProperties_def intro!: arg_cong [where f = collectVerdicts] split: option.split)
  qed
  moreover have "compatEvents f g l r = compatEvents f' g l r"
  proof -
    have "f g (arg_type la) (arg_type ra) = f' g (arg_type la) (arg_type ra)"
      if "re \<in> set (getEvents IncludeParents r)" "searchEventByName n IncludeParents l = Some le"
        "ra \<in> set (callable_args (event_callable re))" "getArgFromName (event_callable le) n' = Some la" for re n le ra n' la
    proof -
      have "arg_type ra \<in> set_EventSpec re"
        using that(3) by (auto intro: EventSpec.set_sel CallableSpec.set_sel Arg.set_sel)
      moreover have "arg_type la \<in> set_EventSpec le"
        using that(4) by (auto simp: getArgFromName_def dest!: findSomeD intro: EventSpec.set_sel CallableSpec.set_sel Arg.set_sel)
      ultimately show ?thesis
        using below(1) class_search_sizes(3,4) that(1,2) by blast
    qed
    then show ?thesis
      by (auto simp: compatEvents_def intro!: arg_cong [where f = collectVerdicts] arg_cong [where f = "explained m" for m]
          split: option.split)
  qed
  moreover have "compatMethods f g l r = compatMethods f' g l r"
  proof -
    have "f h x y = f' h x y \<and> f h y x = f' h y x"
      if "rm \<in> set (getMethods IncludeParents r)" "searchMethodByName n IncludeParents l = Some lm"
        "x \<in> set_MethodSpec lm" "y \<in> set_MethodSpec rm" for rm n lm x y h
      using below(1,2) [OF class_search_sizes(5) [OF that(2,3)] class_search_sizes(6) [OF that(1,4)]] by simp
    moreover have "arg_type a \<in> set_MethodSpec m" if "a \<in> set (callable_args (method_callable m))" for a and m :: "Type MethodSpec"
      using that by (auto intro: MethodSpec.set_sel CallableSpec.set_sel Arg.set_sel)
    moreover have "method_returnType m \<in> set_MethodSpec m" for m :: "Type MethodSpec"
      by (rule MethodSpec.set_sel)
    ultimately show ?thesis
      by (auto simp: compatMethods_def compatMethodArgs_def getArgFromName_def
          intro!: arg_cong [where f = collectVerdicts] arg_cong [where f = "explained m" for m]
          split: option.split dest!: findSomeD)
  qed
  ultimately show "compatClass f g l r = compatClass f' g l r"
    by (simp add: compatClass_def)
qed

lemma compatStep_cong [fundef_cong]:
  assumes "g = g'" "l = l'" "r = r'" "\<And>h x y. size x + size y < size l' + size r' \<Longrightarrow> f h x y = f' h x y"
  shows "compatStep f g l r = compatStep f' g' l' r'"
proof -
  have same: "sameBelow l' r' f f'"
    using assms(4) by (simp add: sameBelow_def)
  have "compatVisit f g' l' r' = compatVisit f' g' l' r'"
    using assms(4) compatStruct_below [OF same] compatClass_below [OF same] same compatVariant_below
    by (cases l') (auto simp: compatVisit_def compatSequence_def split: Type.split)
  then show ?thesis
    using assms by (auto simp: compatStep_def split: Type.split)
qed

text \<open>\<open>runtimeCompatible grade l r\<close>: the loss of conversions is collected when \<open>grade\<close> is set.\<close>

function runtimeCompatible :: "bool \<Rightarrow> Type \<Rightarrow> Type \<Rightarrow> verdict" where
  "runtimeCompatible grade l r = compatStep runtimeCompatible grade l r"
  by pat_completeness auto
termination
  by (relation "measure (\<lambda>(g, l, r). size l + size r)") auto

declare runtimeCompatible.simps [simp del]

end
