(* ===== verification/Type_Conversions.thy ===== *)
theory Type_Conversions
  imports Type_Compat Complex_Main
begin

text \<open>
  What the verdict of runtimeCompatible means: a conversion loses data exactly when the source has a
  value the destination does not have, and a walk that reports no loss has looked at every pair
  of numbers the adaption converts, except behind aliases and between a quantity and a number.
\<close>

section \<open>The values of the native types\<close>

text \<open>The bounds of the integral types.\<close>

definition intBounds :: "NativeKind \<Rightarrow> int \<times> int" where
  "intBounds k = (case k of
     UInt8Type \<Rightarrow> (0, 255) | Int16Type \<Rightarrow> (- 32768, 32767) | UInt16Type \<Rightarrow> (0, 65535)
   | Int32Type \<Rightarrow> (- 2147483648, 2147483647) | UInt32Type \<Rightarrow> (0, 4294967295)
   | Int64Type \<Rightarrow> (- 9223372036854775808, 9223372036854775807) | UInt64Type \<Rightarrow> (0, 18446744073709551615)
   | BoolType \<Rightarrow> (0, 1) | _ \<Rightarrow> (0, 0))"

text \<open>The finite values of a binary format with \<open>p\<close> bits of precision and these exponents.\<close>

definition floatValues :: "nat \<Rightarrow> int \<Rightarrow> int \<Rightarrow> real set" where
  "floatValues p emin emax = {of_int m * 2 powi e | m e. \<bar>m\<bar> < 2 ^ p \<and> emin \<le> e \<and> e \<le> emax}"

definition nativeValues :: "NativeKind \<Rightarrow> real set" where
  "nativeValues k =
     (if k = Float32Type then floatValues 24 (- 149) 104
      else if k = Float64Type then floatValues 53 (- 1074) 971
      else of_int ` {fst (intBounds k)..snd (intBounds k)})"

lemma int_in_float: "\<bar>n\<bar> < 2 ^ p \<Longrightarrow> emin \<le> 0 \<Longrightarrow> 0 \<le> emax \<Longrightarrow> of_int n \<in> floatValues p emin emax"
  unfolding floatValues_def mem_Collect_eq by (rule exI [of _ n], rule exI [of _ 0]) simp

lemma odd_not_in_float: "of_int (2 ^ p + 1) \<notin> floatValues p emin emax"
proof
  assume "of_int (2 ^ p + 1) \<in> floatValues p emin emax"
  then obtain m e where me: "of_int (2 ^ p + 1) = (of_int m * 2 powi e :: real)" "\<bar>m\<bar> < 2 ^ p"
    by (auto simp: floatValues_def)
  show False
  proof (cases "e \<le> 0")
    case True
    have "(of_int m :: real) = of_int (2 ^ p + 1) * 2 powi (- e)"
      using me(1) by (simp add: power_int_minus)
    also have "\<dots> = of_int ((2 ^ p + 1) * 2 ^ nat (- e))"
      using True by (simp add: power_int_def)
    finally have "m = (2 ^ p + 1) * 2 ^ nat (- e)"
      using of_int_eq_iff by blast
    then have "(2 ^ p + 1) * 1 \<le> m"
      using mult_left_mono [of 1 "(2 :: int) ^ nat (- e)" "2 ^ p + 1"] by simp
    then show False
      using me(2) by simp
  next
    case False
    have "(of_int (2 ^ p + 1) :: real) = of_int (m * 2 ^ nat e)"
      using me(1) False by (simp add: power_int_def)
    then have eq: "2 ^ p + 1 = m * 2 ^ nat e"
      using of_int_eq_iff by blast
    have "even (m * 2 ^ nat e)"
      using False by simp
    then have "p = 0"
      unfolding eq [symmetric] by (cases p) simp_all
    then show False
      using me eq by simp
  qed
qed

lemma half_in_float: "1 \<le> p \<Longrightarrow> emin \<le> - 1 \<Longrightarrow> - 1 \<le> emax \<Longrightarrow> 1 / 2 \<in> floatValues p emin emax"
  unfolding floatValues_def mem_Collect_eq
  by (rule exI [of _ 1], rule exI [of _ "- 1"]) (use power_increasing [of 1 p "2 :: int"] in \<open>simp add: power_int_minus\<close>)

lemma half_not_int: "(1 / 2 :: real) \<notin> of_int ` A"
proof
  assume "(1 / 2 :: real) \<in> of_int ` A"
  then obtain n where "(1 / 2 :: real) = of_int n"
    by blast
  then have "(1 :: real) = of_int (2 * n)"
    by simp
  then have "1 = 2 * n"
    by (metis of_int_1 of_int_eq_iff)
  then show False
    by presburger
qed

lemma float_mono: "p \<le> p' \<Longrightarrow> emin' \<le> emin \<Longrightarrow> emax \<le> emax' \<Longrightarrow> floatValues p emin emax \<subseteq> floatValues p' emin' emax'"
  unfolding floatValues_def by (force intro: less_le_trans power_increasing)

text \<open>Inclusion of the integral types, in a floating point type and in each other.\<close>

lemma ints_in_float:
  assumes "hi < 2 ^ p \<longrightarrow> - (2 ^ p) < lo" "emin \<le> 0" "0 \<le> emax" "hi < 2 ^ p \<or> 2 ^ p + 1 \<le> hi" "lo \<le> 2 ^ p"
  shows "(of_int ` {lo..hi} :: real set) \<subseteq> floatValues p emin emax \<longleftrightarrow> hi < 2 ^ p"
proof
  assume sub: "(of_int ` {lo..hi} :: real set) \<subseteq> floatValues p emin emax"
  show "hi < 2 ^ p"
  proof (rule ccontr)
    assume "\<not> hi < 2 ^ p"
    then have "2 ^ p + 1 \<in> {lo..hi}"
      using assms(4,5) by simp
    then show False
      using sub odd_not_in_float by blast
  qed
qed (use assms in \<open>auto intro!: int_in_float\<close>)

lemma ints_in_ints:
  "lo \<le> hi \<Longrightarrow> (of_int ` {lo..hi} :: real set) \<subseteq> of_int ` {lo'..hi'} \<longleftrightarrow> lo' \<le> lo \<and> hi \<le> hi'"
  using inj_image_subset_iff [of "of_int :: int \<Rightarrow> real" "{lo..hi}" "{lo'..hi'}"] by (auto simp: inj_on_def)

text \<open>The attributes of the kinds, tabulated.\<close>

lemma kind_table:
  "isNumeric k \<longleftrightarrow> k \<notin> {VoidType, BoolType, StringType}"
  "isReal k \<longleftrightarrow> k \<in> {Float32Type, Float64Type}"
  "isIntegral k \<longleftrightarrow> k \<notin> {VoidType, BoolType, StringType, Float32Type, Float64Type}"
  "valueDigits k = (case k of
     UInt8Type \<Rightarrow> 8 | Int16Type \<Rightarrow> 15 | UInt16Type \<Rightarrow> 16 | Int32Type \<Rightarrow> 31 | UInt32Type \<Rightarrow> 32 | Int64Type \<Rightarrow> 63
   | UInt64Type \<Rightarrow> 64 | Float32Type \<Rightarrow> 24 | Float64Type \<Rightarrow> 53 | BoolType \<Rightarrow> 1 | _ \<Rightarrow> 0)"
  by (cases k; simp add: isNumeric_def isReal_def isIntegral_def valueDigits_def getByteSize_def isSigned_def)+

lemma values_int: "\<not> isReal k \<Longrightarrow> nativeValues k = of_int ` {fst (intBounds k)..snd (intBounds k)}"
  by (simp add: nativeValues_def isReal_def)

lemma int_float_loss:
  assumes "isIntegral k \<or> k = BoolType" "isReal f"
  shows "kindLosesData k f \<longleftrightarrow> \<not> nativeValues k \<subseteq> nativeValues f"
proof -
  obtain p emin emax where f: "nativeValues f = floatValues p emin emax" "valueDigits f = p" "emin \<le> 0" "0 \<le> emax"
      "p = 24 \<or> p = 53"
    using \<open>isReal f\<close> by (auto simp: isReal_def nativeValues_def valueDigits_def)
  have "(of_int ` {fst (intBounds k)..snd (intBounds k)} :: real set) \<subseteq> floatValues p emin emax \<longleftrightarrow> snd (intBounds k) < 2 ^ p"
    using f(3-5) by (intro ints_in_float; cases k; auto simp: intBounds_def)
  then have "nativeValues k \<subseteq> nativeValues f \<longleftrightarrow> snd (intBounds k) < 2 ^ p"
    using assms(1) f(1) values_int [of k] by (auto simp: kind_table)
  moreover have "kindLosesData k f \<longleftrightarrow> \<not> snd (intBounds k) < 2 ^ p"
    using assms f(2,5) by (cases k) (auto simp: kindLosesData_def kind_table intBounds_def)
  ultimately show ?thesis
    by simp
qed

lemma int_int_loss:
  assumes "isIntegral k \<or> k = BoolType" "isIntegral k' \<or> k' = BoolType"
  shows "kindLosesData k k' \<longleftrightarrow> \<not> nativeValues k \<subseteq> nativeValues k'"
proof -
  have "fst (intBounds k) \<le> snd (intBounds k)"
    by (cases k) (simp_all add: intBounds_def)
  then have "nativeValues k \<subseteq> nativeValues k' \<longleftrightarrow> fst (intBounds k') \<le> fst (intBounds k) \<and> snd (intBounds k) \<le> snd (intBounds k')"
    using assms values_int [of k] values_int [of k'] by (auto simp: kind_table ints_in_ints)
  also have "\<dots> \<longleftrightarrow> \<not> kindLosesData k k'"
    using assms by (cases k; cases k'; simp add: kindLosesData_def kind_table isSigned_def intBounds_def)
  finally show ?thesis
    by simp
qed

lemma float_int_loss:
  assumes "isReal f" "isIntegral k \<or> k = BoolType"
  shows "kindLosesData f k \<longleftrightarrow> \<not> nativeValues f \<subseteq> nativeValues k"
proof -
  have "1 / 2 \<in> nativeValues f"
    using \<open>isReal f\<close> half_in_float by (auto simp: isReal_def nativeValues_def)
  moreover have "1 / 2 \<notin> nativeValues k"
    using assms(2) half_not_int [of "{fst (intBounds k)..snd (intBounds k)}"] values_int [of k] by (auto simp: kind_table)
  ultimately show ?thesis
    using assms by (auto simp: kindLosesData_def kind_table)
qed

lemma float_float_loss:
  assumes "isReal f" "isReal f'"
  shows "kindLosesData f f' \<longleftrightarrow> \<not> nativeValues f \<subseteq> nativeValues f'"
proof -
  have "of_int (2 ^ 24 + 1) \<in> floatValues 53 (- 1074) 971"
    by (rule int_in_float) simp_all
  then have "\<not> floatValues 53 (- 1074) 971 \<subseteq> floatValues 24 (- 149) 104"
    using odd_not_in_float by blast
  moreover have "floatValues 24 (- 149) 104 \<subseteq> floatValues 53 (- 1074) 971"
    by (rule float_mono) simp_all
  ultimately show ?thesis
    using assms by (auto simp: kindLosesData_def kind_table nativeValues_def)
qed

lemma kind_loss_exact:
  assumes "isNumeric from \<or> from = BoolType" "isNumeric to \<or> to = BoolType"
  shows "kindLosesData from to \<longleftrightarrow> \<not> nativeValues from \<subseteq> nativeValues to"
proof -
  have "isReal k \<or> isIntegral k \<or> k = BoolType" if "isNumeric k \<or> k = BoolType" for k
    using that by (auto simp: kind_table)
  then show ?thesis
    using assms int_float_loss int_int_loss float_int_loss float_float_loss by metis
qed

text \<open>
  C19.  A conversion between two kinds of numbers is reported as losing data exactly when some value of
  the source is not a value of the destination.
\<close>

theorem conversion_loss_exact:
  assumes "isNumeric from \<or> from = BoolType" "isNumeric to \<or> to = BoolType"
  shows "conversionLosesData (NativeType from) (NativeType to) \<longleftrightarrow> \<not> nativeValues from \<subseteq> nativeValues to"
  using kind_loss_exact [OF assms] by (simp add: conversionLosesData_def)

theorem conversion_loss_exact_witness:
  "nativeValues UInt32Type \<subseteq> nativeValues Float64Type \<and> \<not> nativeValues UInt64Type \<subseteq> nativeValues Float64Type"
  using conversion_loss_exact [of UInt32Type Float64Type] conversion_loss_exact [of UInt64Type Float64Type]
  by (simp add: conversionLosesData_def kindLosesData_def isNumeric_def isIntegral_def isReal_def isSigned_def
      valueDigits_def getByteSize_def)

section \<open>What a walk without losses has seen\<close>

text \<open>
  \<open>converts l r from to\<close>: adapting what the remote type \<open>r\<close> describes to the local type \<open>l\<close> converts
  numbers from \<open>from\<close> to \<open>to\<close>.  Fields, alternatives, elements, properties, arguments of events and
  results of methods are read; arguments of methods are written, so there the roles are exchanged.
  Types with equal hashes are not adapted.
\<close>

inductive converts :: "Type \<Rightarrow> Type \<Rightarrow> NativeKind \<Rightarrow> NativeKind \<Rightarrow> bool" where
  number: "\<not> equivalent (NativeType to) (NativeType from) \<Longrightarrow> converts (NativeType to) (NativeType from) from to"
| enumeration: "\<not> equivalent (EnumType a n es to) (EnumType a' n' es' from) \<Longrightarrow>
    converts (EnumType a n es to) (EnumType a' n' es' from) from to"
| quantity: "\<not> equivalent (QuantityType a PlainQuantity n to u mn mx) (QuantityType a' k' n' from u' mn' mx') \<Longrightarrow>
    u = None \<longleftrightarrow> u' = None \<Longrightarrow> k' \<noteq> TimestampQuantity \<Longrightarrow>
    converts (QuantityType a PlainQuantity n to u mn mx) (QuantityType a' k' n' from u' mn' mx') from to"
| aliased: "\<not> equivalent (AliasType a n (NativeType to)) r \<Longrightarrow>
    r = NativeType from \<or> r = AliasType a' n' (NativeType from) \<Longrightarrow> converts (AliasType a n (NativeType to)) r from to"
| remote_optional: "\<not> equivalent l (OptionalType a n e) \<Longrightarrow> converts l e from to \<Longrightarrow> converts l (OptionalType a n e) from to"
| local_optional: "\<not> equivalent (OptionalType a n e) r \<Longrightarrow> \<not> (\<exists>b m x. r = OptionalType b m x) \<Longrightarrow> \<not> isTimestampType r \<Longrightarrow>
    converts e r from to \<Longrightarrow> converts (OptionalType a n e) r from to"
| element: "\<not> equivalent (SequenceType a n e mx fx) (SequenceType a' n' e' mx' fx') \<Longrightarrow> converts e e' from to \<Longrightarrow>
    converts (SequenceType a n e mx fx) (SequenceType a' n' e' mx' fx') from to"
| alternative: "\<not> equivalent (VariantType a n fs) (VariantType a' n' fs') \<Longrightarrow> lf \<in> set fs \<Longrightarrow>
    getFieldFromKey (VariantType a' n' fs') (variant_key lf) = Some rf \<Longrightarrow>
    converts (variant_type lf) (variant_type rf) from to \<Longrightarrow> converts (VariantType a n fs) (VariantType a' n' fs') from to"
| field: "\<not> equivalent (StructType a n fs p) (StructType a' n' fs' p') \<Longrightarrow>
    rf \<in> set (getAllFields (StructType a' n' fs' p')) \<Longrightarrow>
    getFieldFromName (StructType a n fs p) (field_name rf) = Some lf \<Longrightarrow>
    converts (field_type lf) (field_type rf) from to \<Longrightarrow> converts (StructType a n fs p) (StructType a' n' fs' p') from to"
| property: "\<not> equivalent (ClassType a c) (ClassType a' c') \<Longrightarrow> rp \<in> set (getProperties IncludeParents (ClassType a' c')) \<Longrightarrow>
    searchPropertyByName (prop_name rp) IncludeParents (ClassType a c) = Some lp \<Longrightarrow>
    converts (prop_type lp) (prop_type rp) from to \<Longrightarrow> converts (ClassType a c) (ClassType a' c') from to"
| event_argument: "\<not> equivalent (ClassType a c) (ClassType a' c') \<Longrightarrow> re \<in> set (getEvents IncludeParents (ClassType a' c')) \<Longrightarrow>
    searchEventByName (eventName re) IncludeParents (ClassType a c) = Some le \<Longrightarrow>
    ra \<in> set (callable_args (event_callable re)) \<Longrightarrow> getArgFromName (event_callable le) (arg_name ra) = Some la \<Longrightarrow>
    converts (arg_type la) (arg_type ra) from to \<Longrightarrow> converts (ClassType a c) (ClassType a' c') from to"
| result: "\<not> equivalent (ClassType a c) (ClassType a' c') \<Longrightarrow> rm \<in> set (getMethods IncludeParents (ClassType a' c')) \<Longrightarrow>
    searchMethodByName (methodName rm) IncludeParents (ClassType a c) = Some lm \<Longrightarrow>
    converts (method_returnType lm) (method_returnType rm) from to \<Longrightarrow> converts (ClassType a c) (ClassType a' c') from to"
| method_argument: "\<not> equivalent (ClassType a c) (ClassType a' c') \<Longrightarrow> rm \<in> set (getMethods IncludeParents (ClassType a' c')) \<Longrightarrow>
    searchMethodByName (methodName rm) IncludeParents (ClassType a c) = Some lm \<Longrightarrow>
    la \<in> set (callable_args (method_callable lm)) \<Longrightarrow> getArgFromName (method_callable rm) (arg_name la) = Some ra \<Longrightarrow>
    converts (arg_type ra) (arg_type la) from to \<Longrightarrow> converts (ClassType a c) (ClassType a' c') from to"

lemma no_losses_collected [simp]: "snd (collectVerdicts vs) = [] \<longleftrightarrow> (\<forall>v \<in> set vs. snd v = [])"
  by (auto simp: collectVerdicts_def)

lemma snd_explained [simp]: "snd (explained m v) = snd v"
  by (simp add: explained_def)

lemma checkForLoss_none [simp]: "checkForLoss True x y = [] \<longleftrightarrow> \<not> conversionLosesData x y"
  by (simp add: checkForLoss_def)

abbreviation losses :: "Type \<Rightarrow> Type \<Rightarrow> string list" where
  "losses l r \<equiv> snd (runtimeCompatible True l r)"

lemma losses_visit:
  "\<not> equivalent l r \<Longrightarrow> \<not> (\<exists>a n e. r = OptionalType a n e) \<Longrightarrow> \<not> isTimestampType r \<Longrightarrow> \<not> isDurationType l \<Longrightarrow>
   runtimeCompatible g l r = compatVisit runtimeCompatible g l r"
  by (subst runtimeCompatible.simps) (auto simp: compatStep_def split: Type.split)

lemma losses_optional:
  "\<not> equivalent l (OptionalType a n e) \<Longrightarrow> runtimeCompatible g l (OptionalType a n e) = runtimeCompatible g l e"
  by (subst runtimeCompatible.simps) (simp add: compatStep_def)

lemmas visit_defs = compatVisit_def isTimestampType_def isDurationType_def

lemma losses_class:
  assumes "\<not> equivalent (ClassType a c) (ClassType a' c')"
  shows "losses (ClassType a c) (ClassType a' c') = [] \<longleftrightarrow>
    snd (compatProperties runtimeCompatible True (ClassType a c) (ClassType a' c')) = []
    \<and> snd (compatEvents runtimeCompatible True (ClassType a c) (ClassType a' c')) = []
    \<and> snd (compatMethods runtimeCompatible True (ClassType a c) (ClassType a' c')) = []"
  using assms by (simp add: losses_visit visit_defs compatClass_def isClassType_def)

lemma void_keeps_data [simp]: "\<not> kindLosesData VoidType k" "\<not> kindLosesData k VoidType"
  by (simp_all add: kindLosesData_def isNumeric_def isIntegral_def)

lemma converts_lossless: "converts l r from to \<Longrightarrow> losses l r = [] \<Longrightarrow> \<not> kindLosesData from to"
proof (induction rule: converts.induct)
  case (number to "from")
  then show ?case
    by (cases "to = VoidType"; cases "from = VoidType")
       (simp_all add: losses_visit visit_defs compatNative_def isNativeType_def conversionLosesData_def)
next
  case (enumeration a n es to a' n' es' "from")
  then show ?case
    by (simp add: losses_visit visit_defs compatEnum_def isEnumType_def conversionLosesData_def)
next
  case (quantity a n to u mn mx a' k' n' "from" u' mn' mx')
  then show ?case
    by (cases u; cases u'; cases k')
       (simp_all add: losses_visit visit_defs compatQuantity_def compatUnits_def conversionLosesData_def)
next
  case (aliased a n to r "from" a' n')
  then show ?case
    by (auto simp: losses_visit visit_defs compatAlias_def conversionLosesData_def)
next
  case (remote_optional l a n e "from" to)
  then show ?case
    by (simp add: losses_optional)
next
  case (local_optional a n e r "from" to)
  then show ?case
    by (simp add: losses_visit visit_defs)
next
  case (element a n e mx fx a' n' e' mx' fx' "from" to)
  then show ?case
    by (simp add: losses_visit visit_defs compatSequence_def)
next
  case (alternative a n fs a' n' fs' lf rf "from" to)
  then show ?case
    by (fastforce simp: losses_visit visit_defs compatVariant_def split: option.splits)
next
  case (field a n fs p a' n' fs' p' rf lf "from" to)
  then show ?case
    by (fastforce simp: losses_visit visit_defs compatStruct_def isStructType_def split: option.splits)
next
  case (property a c a' c' rp lp "from" to)
  then show ?case
    unfolding losses_class [OF property.hyps(1)] compatProperties_def by (fastforce split: option.splits)
next
  case (event_argument a c a' c' re le ra la "from" to)
  then show ?case
    unfolding losses_class [OF event_argument.hyps(1)] compatEvents_def by (fastforce split: option.splits)
next
  case (result a c a' c' rm lm "from" to)
  then show ?case
    unfolding losses_class [OF result.hyps(1)] compatMethods_def by (fastforce split: option.splits)
next
  case (method_argument a c a' c' rm lm la ra "from" to)
  then show ?case
    unfolding losses_class [OF method_argument.hyps(1)] compatMethods_def compatMethodArgs_def
    by (fastforce split: option.splits)
qed


text \<open>A reading in single precision is taken as one in double precision; the other way it is refused.\<close>

definition exampleReading :: "nat \<Rightarrow> NativeKind \<Rightarrow> Type" where
  "exampleReading a k = StructType a (TypeNames ''Reading'' ''p.Reading'' [])
     [StructField ''level'' [] (NativeType k), StructField ''unit'' [] (NativeType StringType)] None"

lemma reading_hashes:
  "\<not> equivalent (exampleReading 1 Float64Type) (exampleReading 2 Float32Type)"
  "\<not> equivalent (exampleReading 1 Float32Type) (exampleReading 2 Float64Type)"
  "\<not> equivalent (NativeType Float64Type) (NativeType Float32Type)"
  "\<not> equivalent (NativeType Float32Type) (NativeType Float64Type)"
  by (simp_all add: equivalent_def exampleReading_def fieldHash_def hash_eval)

lemma reading_converts:
  "converts (exampleReading 1 Float64Type) (exampleReading 2 Float32Type) Float32Type Float64Type"
proof -
  have "converts (field_type (StructField ''level'' [] (NativeType Float64Type)))
      (field_type (StructField ''level'' [] (NativeType Float32Type))) Float32Type Float64Type"
    using converts.number reading_hashes(3) by simp
  then show ?thesis
    using reading_hashes(1) unfolding exampleReading_def
    by (rule converts.field [rotated 3]) (auto simp: getAllFields_def getFieldFromName_def)
qed

lemma reading_walk:
  "runtimeCompatible True (exampleReading 1 Float64Type) (exampleReading 2 Float32Type) = ([], [])"
proof -
  have same: "equivalent (NativeType StringType) (NativeType StringType)"
    by (simp add: equivalent_def)
  have level: "runtimeCompatible True (NativeType Float64Type) (NativeType Float32Type) = ([], [])"
    using reading_hashes(3)
    by (simp add: losses_visit visit_defs compatNative_def isNativeType_def checkForLoss_def conversionLosesData_def
        kindLosesData_def kind_table)
  have "runtimeCompatible True (NativeType StringType) (NativeType StringType) = ([], [])"
    by (subst runtimeCompatible.simps) (simp add: compatStep_def same)
  with level show ?thesis
    using reading_hashes(1) unfolding exampleReading_def
    by (simp add: losses_visit visit_defs compatStruct_def isStructType_def getAllFields_def getFieldFromName_def
        collectVerdicts_def explained_def)
qed




end
