(* ===== verification/Type_Exchange.thy ===== *)
theory Type_Exchange
  imports Type_Compat
begin

text \<open>
  How a process learns the types of another one (libs/kernel/src/bus/remote_participant.cpp): the
  answer to a request for types, the handling of that answer with the classes that wait for the types
  they depend on, and the registration of a type with its check against the local one.

  Log messages are left out, and so is what happens to the objects of a class once it is resolved.
\<close>

section \<open>State and messages\<close>

datatype ClassSpecResponse = ClassSpecResponse (csr_classHash: u32) (csr_spec: CustomTypeSpec)
  (csr_dependentTypes: "u32 list")

datatype TypeSpecResponse = ClassResponse ClassSpecResponse | NonClassResponse CustomTypeSpec

text \<open>What the participant uses of its kernel and of its bus.\<close>

record Kernel =
  kernelNs :: Unit
  kernelUnits :: "Unit list"
  kernelTypes :: Registry
  compatibilityMode :: CompatibilityMode
  searchForTypeInRemoteParticipants :: "u32 \<Rightarrow> (Type \<times> bool) option"

text \<open>
  The map of pending classes is an index into their list, by hash; the addresses of the types that are
  built are their positions in the storage.
\<close>

record RemoteTypes =
  remoteTypesRegistry :: Registry
  remoteTypesStorage :: "Type list"
  incompatibleClassHashes :: "u32 set"
  pendingClassSpecs :: "ClassSpecResponse list"

definition emptyRemoteTypes :: RemoteTypes where
  "emptyRemoteTypes = \<lparr>remoteTypesRegistry = emptyRegistry, remoteTypesStorage = [],
     incompatibleClassHashes = {}, pendingClassSpecs = []\<rparr>"

text \<open>Exceptions are caught by some callers; a failed assertion ends the process.\<close>

datatype Failure = Thrown string | AssertionFailed

section \<open>Answering a request\<close>

definition dependentTypeHashes :: "Type \<Rightarrow> u32 list" where
  "dependentTypeHashes t = map getHash (filter isCustomType (iterateOverDependentTypes t))"

definition typeResponse :: "Type \<Rightarrow> string + TypeSpecResponse" where
  "typeResponse t = rbind (makeCustomTypeSpec t) (\<lambda>spec.
     Inr (if isClassType t then ClassResponse (ClassSpecResponse (getHash t) spec (dependentTypeHashes t))
          else NonClassResponse spec))"

definition rejectionText :: "u32 \<Rightarrow> string" where
  "rejectionText h = ''Type with hash '' @ keyText h
     @ '' not found in the local registry. This is an unexpected logic error and could result in remote class resolution issues.''"

text \<open>The responses and the rejections.\<close>

fun typesInfoRequest :: "Unit \<Rightarrow> Registry \<Rightarrow> u32 list \<Rightarrow> string + TypeSpecResponse list \<times> string list" where
  "typesInfoRequest ns r [] = Inr ([], [])"
| "typesInfoRequest ns r (h # hs) =
    (case registryGetByHash ns r h of
       None \<Rightarrow> rbind (typesInfoRequest ns r hs) (\<lambda>(resps, rejs). Inr (resps, rejectionText h # rejs))
     | Some t \<Rightarrow>
         if \<not> isCustomType t then typesInfoRequest ns r hs
         else rbind (typeResponse t) (\<lambda>resp.
              rbind (typesInfoRequest ns r hs) (\<lambda>(resps, rejs). Inr (resp # resps, rejs))))"

section \<open>Registering a type\<close>

definition lookupOf :: "Kernel \<Rightarrow> RemoteTypes \<Rightarrow> Lookup" where
  "lookupOf K st = \<lparr>nsUnit = kernelNs K, unitTable = kernelUnits K, nativeTypes = kernelTypes K,
     nonNativeTypes = remoteTypesRegistry st\<rparr>"

definition storeType :: "Type \<Rightarrow> RemoteTypes \<Rightarrow> Failure + RemoteTypes" where
  "storeType t st = (case registryAdd t (remoteTypesRegistry st) of
     None \<Rightarrow> Inl AssertionFailed
   | Some r \<Rightarrow> Inr (st\<lparr>remoteTypesRegistry := r, remoteTypesStorage := remoteTypesStorage st @ [t]\<rparr>))"

definition markIncompatible :: "u32 \<Rightarrow> RemoteTypes \<Rightarrow> RemoteTypes" where
  "markIncompatible h st = st\<lparr>incompatibleClassHashes := insert h (incompatibleClassHashes st)\<rparr>"

text \<open>The verdict on a type whose name the kernel knows; only classes are remembered as incompatible.\<close>

definition checkAgainstLocal :: "Kernel \<Rightarrow> Type \<Rightarrow> Type \<Rightarrow> RemoteTypes \<Rightarrow> RemoteTypes" where
  "checkAgainstLocal K localType remoteType st =
    (case runtimeCompatible True localType remoteType of (problems, lossyConversions) \<Rightarrow>
       if problems = [] \<and> acceptsUnderCompatibilityMode (compatibilityMode K) (equivalent localType remoteType)
                            (lossyConversions \<noteq> [])
       then st
       else if isClassType remoteType then markIncompatible (getHash remoteType) st
       else st)"

definition registerRemoteType :: "Kernel \<Rightarrow> CustomTypeSpec \<Rightarrow> RemoteTypes \<Rightarrow> Failure + RemoteTypes" where
  "registerRemoteType K spec st =
    (case buildNonNativeType (lookupOf K st) (length (remoteTypesStorage st)) spec of
       Inl e \<Rightarrow> Inl (Thrown e)
     | Inr remoteType \<Rightarrow>
         rbind (storeType remoteType st) (\<lambda>st'.
           case registryGet (kernelNs K) (kernelTypes K) (cts_qualifiedName spec) of
             None \<Rightarrow> Inr st'
           | Some localType \<Rightarrow> Inr (checkAgainstLocal K localType remoteType st')))"

definition registerRemoteTypeFoundInBus :: "Type \<Rightarrow> bool \<Rightarrow> RemoteTypes \<Rightarrow> Failure + RemoteTypes" where
  "registerRemoteTypeFoundInBus t isIncompatible st =
     rbind (storeType t st) (\<lambda>st'. Inr (if isIncompatible then markIncompatible (getHash t) st' else st'))"

definition searchForRemoteType :: "Unit \<Rightarrow> RemoteTypes \<Rightarrow> u32 \<Rightarrow> (Type \<times> bool) option" where
  "searchForRemoteType ns st h =
     map_option (\<lambda>t. (t, h \<in> incompatibleClassHashes st)) (registryGetByHash ns (remoteTypesRegistry st) h)"

section \<open>Handling an answer\<close>

definition isKnown :: "Kernel \<Rightarrow> RemoteTypes \<Rightarrow> u32 \<Rightarrow> bool" where
  "isKnown K st h \<longleftrightarrow> registryGetByHash (kernelNs K) (kernelTypes K) h \<noteq> None
     \<or> registryGetByHash (kernelNs K) (remoteTypesRegistry st) h \<noteq> None"

definition isPending :: "RemoteTypes \<Rightarrow> u32 \<Rightarrow> bool" where
  "isPending st h \<longleftrightarrow> h \<in> csr_classHash ` set (pendingClassSpecs st)"

definition insertUnique :: "'a \<Rightarrow> 'a list \<Rightarrow> 'a list" where
  "insertUnique x xs = (if x \<in> set xs then xs else xs @ [x])"

text \<open>The dependencies of a class: unknown ones are taken from the bus or will be requested.\<close>

fun checkDependencies :: "Kernel \<Rightarrow> u32 list \<Rightarrow> u32 list \<Rightarrow> RemoteTypes \<Rightarrow> Failure + u32 list \<times> RemoteTypes" where
  "checkDependencies K [] missing st = Inr (missing, st)"
| "checkDependencies K (h # hs) missing st =
    (if isKnown K st h \<or> isPending st h then checkDependencies K hs missing st
     else case searchForTypeInRemoteParticipants K h of
       Some (t, isIncompatible) \<Rightarrow>
         if \<not> isCustomType t then Inl AssertionFailed
         else rbind (registerRemoteTypeFoundInBus t isIncompatible st) (checkDependencies K hs missing)
     | None \<Rightarrow> checkDependencies K hs (insertUnique h missing) st)"

definition addPending :: "Kernel \<Rightarrow> ClassSpecResponse \<Rightarrow> RemoteTypes \<Rightarrow> RemoteTypes" where
  "addPending K c st =
     (if isKnown K st (csr_classHash c) \<or> isPending st (csr_classHash c) then st
      else st\<lparr>pendingClassSpecs := pendingClassSpecs st @ [c]\<rparr>)"

fun receiveTypes :: "Kernel \<Rightarrow> TypeSpecResponse list \<Rightarrow> u32 list \<Rightarrow> RemoteTypes \<Rightarrow> Failure + u32 list \<times> RemoteTypes" where
  "receiveTypes K [] missing st = Inr (missing, st)"
| "receiveTypes K (ClassResponse c # ts) missing st =
     rbind (checkDependencies K (csr_dependentTypes c) missing st) (\<lambda>(missing', st').
       receiveTypes K ts missing' (addPending K c st'))"
| "receiveTypes K (NonClassResponse spec # ts) missing st =
    (case registerRemoteType K spec st of
       Inr st' \<Rightarrow> receiveTypes K ts missing st'
     | Inl (Thrown e) \<Rightarrow> receiveTypes K ts missing st
     | Inl AssertionFailed \<Rightarrow> Inl AssertionFailed)"

text \<open>
  One pass over the pending classes gives the hashes of those that were resolved.  A class whose
  registration throws is remembered as incompatible, and counts as resolved.
\<close>

fun resolvePass :: "Kernel \<Rightarrow> ClassSpecResponse list \<Rightarrow> RemoteTypes \<Rightarrow> Failure + u32 list \<times> RemoteTypes" where
  "resolvePass K [] st = Inr ([], st)"
| "resolvePass K (c # cs) st =
    (if \<not> list_all (isKnown K st) (csr_dependentTypes c) then resolvePass K cs st
     else case registerRemoteType K (csr_spec c) st of
       Inl AssertionFailed \<Rightarrow> Inl AssertionFailed
     | Inl (Thrown e) \<Rightarrow>
         rbind (resolvePass K cs (markIncompatible (csr_classHash c) st)) (\<lambda>(hs, st'). Inr (csr_classHash c # hs, st'))
     | Inr st1 \<Rightarrow> rbind (resolvePass K cs st1) (\<lambda>(hs, st'). Inr (csr_classHash c # hs, st')))"

definition removePending :: "u32 list \<Rightarrow> RemoteTypes \<Rightarrow> RemoteTypes" where
  "removePending hs st =
     st\<lparr>pendingClassSpecs := filter (\<lambda>c. csr_classHash c \<notin> set hs) (pendingClassSpecs st)\<rparr>"

definition tryResolvePendingClasses :: "Kernel \<Rightarrow> RemoteTypes \<Rightarrow> Failure + u32 list \<times> RemoteTypes" where
  "tryResolvePendingClasses K st =
     rbind (resolvePass K (pendingClassSpecs st) st) (\<lambda>(hs, st'). Inr (hs, removePending hs st'))"

text \<open>The passes leave the list of pending classes alone until its resolved ones are removed.\<close>

lemma storeType_pending: "storeType t st = Inr st' \<Longrightarrow> pendingClassSpecs st' = pendingClassSpecs st"
  by (auto simp: storeType_def split: option.splits)

lemma markIncompatible_sel [simp]:
  "pendingClassSpecs (markIncompatible h st) = pendingClassSpecs st"
  "remoteTypesRegistry (markIncompatible h st) = remoteTypesRegistry st"
  by (simp_all add: markIncompatible_def)

lemma checkAgainstLocal_sel [simp]:
  "pendingClassSpecs (checkAgainstLocal K l r st) = pendingClassSpecs st"
  "remoteTypesRegistry (checkAgainstLocal K l r st) = remoteTypesRegistry st"
  by (simp_all add: checkAgainstLocal_def split: prod.split)

lemma registerRemoteType_pending: "registerRemoteType K s st = Inr st' \<Longrightarrow> pendingClassSpecs st' = pendingClassSpecs st"
  by (auto simp: registerRemoteType_def rbind_Inr_conv split: sum.splits option.splits dest!: storeType_pending)

lemma resolvePass_pending:
  "resolvePass K cs st = Inr (hs, st') \<Longrightarrow> pendingClassSpecs st' = pendingClassSpecs st \<and> set hs \<subseteq> csr_classHash ` set cs"
proof (induction cs arbitrary: st hs st')
  case (Cons c cs)
  show ?case
  proof (cases "list_all (isKnown K st) (csr_dependentTypes c)")
    case False
    then show ?thesis
      using Cons by auto
  next
    case True
    then obtain st1 hs1 where "resolvePass K cs st1 = Inr (hs1, st')" "hs = csr_classHash c # hs1"
        "pendingClassSpecs st1 = pendingClassSpecs st"
      using Cons.prems registerRemoteType_pending [of K "csr_spec c" st]
      by (cases "registerRemoteType K (csr_spec c) st") (auto simp: rbind_Inr_conv split: Failure.splits)
    then show ?thesis
      using Cons.IH by auto
  qed
qed simp

lemma tryResolve_decreases:
  "tryResolvePendingClasses K st = Inr (hs, st') \<Longrightarrow> hs \<noteq> [] \<Longrightarrow> length (pendingClassSpecs st') < length (pendingClassSpecs st)"
  by (cases hs) (auto simp: tryResolvePendingClasses_def rbind_Inr_conv removePending_def dest!: resolvePass_pending
      intro!: length_filter_less)

text \<open>The loop goes on while something was resolved; it gives all the hashes that were.\<close>

function resolvePending :: "Kernel \<Rightarrow> RemoteTypes \<Rightarrow> Failure + u32 list \<times> RemoteTypes" where
  "resolvePending K st =
    (case tryResolvePendingClasses K st of
       Inl e \<Rightarrow> Inl e
     | Inr (hs, st') \<Rightarrow>
         if hs = [] then Inr ([], st')
         else rbind (resolvePending K st') (\<lambda>(hs', st''). Inr (hs @ hs', st'')))"
  by pat_completeness auto
termination
  by (relation "measure (\<lambda>(K, st). length (pendingClassSpecs st))") (auto dest: tryResolve_decreases)

declare resolvePending.simps [simp del]

text \<open>The request for missing types it sends, the classes it resolved, and the state.\<close>

definition typesInfoResponse :: "Kernel \<Rightarrow> TypeSpecResponse list \<Rightarrow> RemoteTypes \<Rightarrow> Failure + u32 list \<times> u32 list \<times> RemoteTypes" where
  "typesInfoResponse K msg st =
     rbind (receiveTypes K msg [] st) (\<lambda>(missing, st').
     rbind (resolvePending K st') (\<lambda>(resolved, st''). Inr (missing, resolved, st'')))"

end
