(* ===== verification/Type_Walks.thy ===== *)
theory Type_Walks
  imports Type_Compat
begin

text \<open>
  The types a type is put together from, at every depth, and the walk over its dependent types
  (core/src/meta/type_registry.cpp): it stays below the type, and each type comes after those it depends on.
\<close>

section \<open>The types a type mentions\<close>

lemma mentions_components: "mentions t = insert t (\<Union> (mentions ` components t))"
  by (cases t) (auto simp: components_def StructField.set_map VariantField.set_map ClassSpec.set_map
      StructField.map_sel VariantField.map_sel image_image)

lemma components_erase: "components (erase t) = erase ` components t"
proof -
  have "set_ClassSpec (concreteClass c) = set_ClassSpec c" for c :: "Type ClassSpec"
    by (cases c) (simp add: concreteClass_def)
  then show ?thesis
    by (cases t) (auto simp: components_def image_image StructField.map_sel VariantField.map_sel ClassSpec.set_map
        option.set_map)
qed

lemma mentions_erase: "mentions (erase t) = erase ` mentions t"
proof (induction "size t" arbitrary: t rule: less_induct)
  case less
  then have "mentions (erase c) = erase ` mentions c" if "c \<in> components t" for c
    using component_size [OF that] by blast
  then show ?case
    by (subst mentions_components, subst mentions_components) (simp add: components_erase image_UN image_image)
qed

lemma mentions_size: "d \<in> mentions t \<Longrightarrow> size d \<le> size t"
proof (induction "size t" arbitrary: t rule: less_induct)
  case less
  show ?case
  proof (cases "d = t")
    case False
    then obtain c where c: "c \<in> components t" "d \<in> mentions c"
      using less.prems mentions_components [of t] by blast
    then have "size d \<le> size c"
      using less.hyps component_size by blast
    then show ?thesis
      using component_size [OF c(1)] by simp
  qed simp
qed

text \<open>The types strictly below a type.\<close>

definition below :: "Type \<Rightarrow> Type set" where
  "below t = \<Union> (mentions ` components t)"

lemma mentions_below: "mentions t = insert t (below t)"
  unfolding below_def by (rule mentions_components)

lemma below_size: "d \<in> below t \<Longrightarrow> size d < size t"
  using component_size mentions_size by (fastforce simp: below_def intro: le_less_trans)

lemma below_erase: "below (erase t) = erase ` below t"
  by (simp add: below_def components_erase image_UN mentions_erase image_image)

text \<open>The walk over the dependent types stays below the type.\<close>

definition walkBelow :: "Type \<Rightarrow> bool" where
  "walkBelow t \<longleftrightarrow> (\<forall>d \<in> set (fst (walks t)). isCustomType d \<longrightarrow> d \<in> below t)
     \<and> (\<forall>d \<in> set (snd (walks t)). isCustomType d \<longrightarrow> d \<in> mentions t)"

lemma discovered_below:
  assumes "\<And>x. x \<in> set xs \<Longrightarrow> walkBelow x" "set xs \<subseteq> components t"
    and "d \<in> set (concat (map (\<lambda>x. typeDiscovered (x, walks x)) xs))" "isCustomType d"
  shows "d \<in> below t"
proof -
  obtain x where "x \<in> set xs" "d \<in> set (typeDiscovered (x, walks x))"
    using assms(3) by auto
  then have "x \<in> components t" "d \<in> mentions x"
    using assms(1,2,4) mentions_below [of x] by (auto simp: typeDiscovered_def walkBelow_def)
  then show ?thesis
    by (auto simp: below_def)
qed

lemma walks_below: "walkBelow t"
proof (induction t)
  case (ClassType a c)
  let ?ts = "classTypes (\<lambda>x. x = NativeType VoidType) c"
  have ts: "set ?ts \<subseteq> components (ClassType a c)"
    using classTypes_subset by (simp add: components_def)
  have "fst (walks (ClassType a c)) = concat (map (\<lambda>x. typeDiscovered (x, walks x)) ?ts)"
    by (simp add: classTypes_map walkIsVoid_def o_def)
  then show ?case
    using discovered_below [OF _ ts] ClassType ts by (fastforce simp: walkBelow_def components_def)
next
  case (StructType a n fs p)
  let ?t = "StructType a n fs p" and ?up = "ancestorsWalk (map_option walks p)"
  have ts: "set (map field_type fs) \<subseteq> components ?t"
    by (auto simp: components_def)
  have w: "fst (walks ?t) = ?up @ concat (map (\<lambda>x. typeDiscovered (x, walks x)) (map field_type fs))"
    by (simp add: Let_def o_def StructField.map_sel)
  have fields: "d \<in> below ?t" if "d \<in> set (concat (map (\<lambda>x. typeDiscovered (x, walks x)) (map field_type fs)))" "isCustomType d" for d
    by (rule discovered_below [OF _ ts that]) (use StructType.IH(1) StructField.set_sel in auto)
  have up: "d \<in> below ?t" if "d \<in> set ?up" "isCustomType d" for d
    using that StructType.IH(2) by (cases p) (auto simp: ancestorsWalk_def below_def components_def walkBelow_def)
  have "d \<in> below ?t" if "d \<in> set (fst (walks ?t))" "isCustomType d" for d
    using that fields up unfolding w by auto
  moreover have "snd (walks ?t) = fst (walks ?t) @ ?t # ?up"
    by (simp add: Let_def)
  ultimately show ?case
    using up mentions_below [of ?t] unfolding walkBelow_def by auto
next
  case (VariantType a n fs)
  let ?t = "VariantType a n fs"
  have ts: "set (map variant_type fs) \<subseteq> components ?t"
    by (auto simp: components_def)
  have "d \<in> below ?t" if "d \<in> set (concat (map (\<lambda>x. typeDiscovered (x, walks x)) (map variant_type fs)))" "isCustomType d" for d
    by (rule discovered_below [OF _ ts that]) (use VariantType VariantField.set_sel in auto)
  then show ?case
    by (simp add: walkBelow_def o_def VariantField.map_sel)
qed (auto simp: walkBelow_def typeDiscovered_def below_def components_def isCustomType_def
      intro: mentions_below [THEN equalityD2, THEN subsetD])

lemma iterate_below: "d \<in> set (iterateOverDependentTypes t) \<Longrightarrow> isCustomType d \<Longrightarrow> d \<in> below t"
  using walks_below [of t] by (simp add: walkBelow_def iterateOverDependentTypes_def)

text \<open>Each dependent type comes after all the types it depends on in turn.\<close>

lemma chain_walk:
  "d \<in> set (snd (walks t)) \<Longrightarrow> d \<in> set (structChain t) \<or> (\<exists>q \<in> set (structChain t). d \<in> set (iterateOverDependentTypes q))"
proof (induction t)
  case (StructType a n fs p)
  then show ?case
    by (cases p) (auto simp: Let_def ancestorsWalk_def iterateOverDependentTypes_def)
qed simp_all

lemma iterate_trans:
  assumes "d \<in> set (iterateOverDependentTypes t)"
  shows "d \<in> set (deps t) \<or> (\<exists>e \<in> set (deps t). d \<in> set (iterateOverDependentTypes e))"
proof -
  have each: "d \<in> set xs \<or> (\<exists>e \<in> set xs. d \<in> set (iterateOverDependentTypes e))"
    if "d \<in> set (concat (map (\<lambda>x. typeDiscovered (x, walks x)) xs))" for xs
    using that by (auto simp: typeDiscovered_def iterateOverDependentTypes_def)
  show ?thesis
  proof (cases t)
    case (ClassType a c)
    let ?ts = "classTypes (\<lambda>x. x = NativeType VoidType) c"
    have "fst (walks (ClassType a c)) = concat (map (\<lambda>x. typeDiscovered (x, walks x)) ?ts)"
      by (simp add: classTypes_map walkIsVoid_def o_def)
    then show ?thesis
      using assms each [of ?ts] by (simp add: ClassType iterateOverDependentTypes_def deps_def)
  next
    case (StructType a n fs p)
    let ?up = "ancestorsWalk (map_option walks p)"
    have w: "fst (walks t) = ?up @ concat (map (\<lambda>x. typeDiscovered (x, walks x)) (map field_type fs))"
      by (simp add: StructType Let_def o_def StructField.map_sel)
    have "d \<in> set (parentChain p) \<or> (\<exists>q \<in> set (parentChain p). d \<in> set (iterateOverDependentTypes q))" if "d \<in> set ?up"
      using that chain_walk by (cases p) (auto simp: ancestorsWalk_def parentChain_def)
    then show ?thesis
      using assms each [of "map field_type fs"] w by (auto simp: StructType iterateOverDependentTypes_def deps_def)
  next
    case (VariantType a n fs)
    then show ?thesis
      using assms each [of "map variant_type fs"]
      by (simp add: iterateOverDependentTypes_def deps_def o_def VariantField.map_sel)
  qed (use assms in \<open>auto simp: iterateOverDependentTypes_def deps_def typeDiscovered_def\<close>)
qed

lemma closedAfter_nth: "closedAfter S ts \<Longrightarrow> i < length ts \<Longrightarrow> set (deps (ts ! i)) \<subseteq> S \<union> set (take i ts)"
proof (induction ts arbitrary: S i)
  case (Cons t ts)
  show ?case
  proof (cases i)
    case (Suc j)
    then have "set (deps (ts ! j)) \<subseteq> insert t S \<union> set (take j ts)"
      using Cons.prems by (intro Cons.IH) simp_all
    then show ?thesis
      using Suc by auto
  qed (use Cons.prems in auto)
qed simp

lemma iterate_before:
  "closedAfter {} ts \<Longrightarrow> i < length ts \<Longrightarrow> d \<in> set (iterateOverDependentTypes (ts ! i)) \<Longrightarrow> d \<in> set (take i ts)"
proof (induction i rule: less_induct)
  case (less i)
  have deps: "set (deps (ts ! i)) \<subseteq> set (take i ts)"
    using closedAfter_nth [OF less.prems(1,2)] by simp
  show ?case
  proof (cases "d \<in> set (deps (ts ! i))")
    case False
    then obtain e where "e \<in> set (take i ts)" "d \<in> set (iterateOverDependentTypes e)"
      using iterate_trans [OF less.prems(3)] deps by blast
    moreover obtain j where "j < i" "e = ts ! j"
      using \<open>e \<in> set (take i ts)\<close> by (auto simp: in_set_conv_nth)
    ultimately have j: "j < i" "d \<in> set (iterateOverDependentTypes (ts ! j))"
      by simp_all
    then have "d \<in> set (take j ts)"
      using less by simp
    then show ?thesis
      using j(1) set_take_subset_set_take [of j i ts] by auto
  qed (use deps in blast)
qed

section \<open>Additions to a registry\<close>

lemma callbacks_order:
  "callbacks ts r = Some r' \<Longrightarrow>
   set (typesInDependencyOrder r') \<subseteq> set (typesInDependencyOrder r) \<union> {d \<in> set ts. isCustomType d}"
proof (induction ts arbitrary: r)
  case (Cons t ts)
  then obtain r1 where r1: "dependentCallback t r = Some r1" "callbacks ts r1 = Some r'"
    by (auto simp: bind_eq_Some_conv)
  have "set (typesInDependencyOrder r1) \<subseteq> set (typesInDependencyOrder r) \<union> {d \<in> {t}. isCustomType d}"
    using r1(1) by (auto simp: dependentCallback_def uncheckedAdd_def split: if_splits)
  then show ?case
    using Cons.IH [OF r1(2)] by auto
qed simp

lemma registryAdd_new:
  assumes ok: "registryOk r" and t: "isCustomType t" "\<not> isTimeType t"
    and names: "\<And>d. d \<in> set (iterateOverDependentTypes t) \<Longrightarrow> isCustomType d \<Longrightarrow> getQualifiedName d \<noteq> getQualifiedName t"
  shows "\<exists>r'. registryAdd t r = Some r' \<and> registryOk r' \<and> getQualifiedName t \<in> dom (types r')
    \<and> set (typesInDependencyOrder r) \<subseteq> set (typesInDependencyOrder r')
    \<and> set (typesInDependencyOrder r') \<subseteq>
        set (typesInDependencyOrder r) \<union> {d \<in> set (iterateOverDependentTypes t). isCustomType d} \<union> {t}"
proof (cases "getQualifiedName t \<in> dom (types r)")
  case True
  then show ?thesis
    using ok t by (auto simp: registryAdd_def)
next
  case False
  have "closedAfter {} (iterateOverDependentTypes t)"
    using walks_sound [of t] by (simp add: soundWalk_def iterateOverDependentTypes_def)
  then obtain r1 where r1: "callbacks (iterateOverDependentTypes t) r = Some r1" "registryOk r1"
    using callbacks_ok [of "{}" "iterateOverDependentTypes t" r] ok by auto
  have "getQualifiedName t \<notin> dom (types r1)"
  proof
    assume "getQualifiedName t \<in> dom (types r1)"
    then obtain d where d: "d \<in> set (typesInDependencyOrder r1)" "getQualifiedName d = getQualifiedName t"
      using registryOk_dom [OF r1(2)] by auto
    then consider "d \<in> set (typesInDependencyOrder r)" | "d \<in> set (iterateOverDependentTypes t)" "isCustomType d"
      using callbacks_order [OF r1(1)] by blast
    then show False
      using d(2) names False registryOk_dom [OF ok] by cases (metis imageI, blast)
  qed
  then obtain r' where r': "uncheckedAdd t r1 = Some r'" "typesInDependencyOrder r' = typesInDependencyOrder r1 @ [t]"
    by (simp add: uncheckedAdd_def)
  then have add: "registryAdd t r = Some r'"
    using False t r1(1) by (simp add: registryAdd_def)
  show ?thesis
  proof (intro exI conjI)
    note added = registryAdd_ok [OF add ok]
    show "registryAdd t r = Some r'"
      by (rule add)
    show "registryOk r'"
      using added by (rule conjunct1)
    show "getQualifiedName t \<in> dom (types r')"
      using added t by blast
    obtain us where "typesInDependencyOrder r' = typesInDependencyOrder r @ us"
      using added by blast
    then show "set (typesInDependencyOrder r) \<subseteq> set (typesInDependencyOrder r')"
      by simp
    show "set (typesInDependencyOrder r') \<subseteq>
        set (typesInDependencyOrder r) \<union> {d \<in> set (iterateOverDependentTypes t). isCustomType d} \<union> {t}"
      using callbacks_order [OF r1(1)] r'(2) by auto
  qed
qed

end
