(* ===== verification/Type_Exchange_Correct.thy ===== *)
theory Type_Exchange_Correct
  imports Type_Exchange Type_Walks
begin

text \<open>
  The exchange of types works: a class another process announces is built here, as it is there, after
  one request for the class and one for the types it depends on.
\<close>

section \<open>What both sides rely on\<close>

abbreviation typesOf :: "Registry \<Rightarrow> Type set" where
  "typesOf r \<equiv> set (typesInDependencyOrder r)"

text \<open>
  The registry of the sender: different types have different hashes, the factories made them, none is named
  like a built-in type, their custom components are registered and among their dependent types, and only
  classes refer to classes.
\<close>

definition sendable :: "Kernel \<Rightarrow> Registry \<Rightarrow> bool" where
  "sendable K R \<longleftrightarrow> registryOk R \<and> inj_on getHash (typesOf R)
     \<and> (\<forall>t \<in> typesOf R. madeType t \<and> unitListed (kernelUnits K) t
          \<and> getQualifiedName t \<notin> insert [] (getName ` set (getNativeTypes (kernelNs K)))
          \<and> (\<forall>d \<in> components t. isCustomType d \<longrightarrow>
               d \<in> typesOf R \<and> d \<in> set (iterateOverDependentTypes t) \<and> (isClassType d \<longrightarrow> isClassType t)))"

text \<open>
  The receiver: a type of its own with the hash of one of these types, or a type another participant
  gives for that hash, is a copy of it.
\<close>

definition agreeing :: "Kernel \<Rightarrow> Registry \<Rightarrow> bool" where
  "agreeing K R \<longleftrightarrow> (\<forall>t \<in> typesOf R.
     (registryGetByHash (kernelNs K) (kernelTypes K) (getHash t) \<noteq> None \<longrightarrow> findsCopy (lookupOf K emptyRemoteTypes) t)
     \<and> (\<forall>x inc. searchForTypeInRemoteParticipants K (getHash t) = Some (x, inc) \<longrightarrow>
          erase x = erase t \<and> \<not> isTimeType x))"

text \<open>The types received so far are copies of those of the sender.\<close>

definition mirrors :: "Registry \<Rightarrow> RemoteTypes \<Rightarrow> bool" where
  "mirrors R st \<longleftrightarrow> registryOk (remoteTypesRegistry st)
     \<and> (\<forall>x \<in> typesOf (remoteTypesRegistry st). \<exists>t \<in> typesOf R. erase x = erase t)"

lemma mirrors_empty: "mirrors R emptyRemoteTypes"
  by (simp add: mirrors_def emptyRemoteTypes_def emptyRegistry_ok) (simp add: emptyRegistry_def)

section \<open>What is known\<close>

lemma registryOk_hashes: "registryOk r \<Longrightarrow> dom (typesByHash r) = getHash ` typesOf r"
  by (force simp: registryOk_def)

lemma registryOk_byHash: "registryOk r \<Longrightarrow> typesByHash r h = Some t \<Longrightarrow> t \<in> typesOf r \<and> getHash t = h"
  by (auto simp: registryOk_def)

lemma registryOk_byName: "registryOk r \<Longrightarrow> types r n = Some t \<Longrightarrow> t \<in> typesOf r \<and> getQualifiedName t = n"
  unfolding registryOk_def by (auto dest: map_of_SomeD)

lemma same_name: "registryOk r \<Longrightarrow> t \<in> typesOf r \<Longrightarrow> t' \<in> typesOf r \<Longrightarrow> getQualifiedName t = getQualifiedName t' \<Longrightarrow> t = t'"
  unfolding registryOk_def distinct_map by (auto dest: inj_onD)

lemma isKnown_iff:
  assumes "registryOk (remoteTypesRegistry st)"
  shows "isKnown K st h \<longleftrightarrow> registryGetByHash (kernelNs K) (kernelTypes K) h \<noteq> None
    \<or> h \<in> getHash ` typesOf (remoteTypesRegistry st)"
proof -
  have "h \<in> dom (typesByHash (remoteTypesRegistry st)) \<longleftrightarrow> h \<in> getHash ` typesOf (remoteTypesRegistry st)"
    using registryOk_hashes [OF assms] by simp
  then show ?thesis
    by (auto simp: isKnown_def registryGetByHash_def split: option.splits)
qed

lemma native_found:
  assumes "\<forall>x \<in> typesOf (remoteTypesRegistry st). getQualifiedName x \<notin> getName ` set (getNativeTypes (kernelNs K))"
    "registryOk (remoteTypesRegistry st)"
  shows "findsCopy (lookupOf K st) (NativeType k)"
proof -
  have "nativeName k \<in> getName ` set (getNativeTypes (kernelNs K))"
    by (cases k) (simp_all add: getNativeTypes_def)
  then have "types (remoteTypesRegistry st) (nativeName k) = None"
    using assms registryOk_byName [OF assms(2), of "nativeName k"] by (cases "types (remoteTypesRegistry st) (nativeName k)") auto
  moreover have "find (\<lambda>t. getName t = nativeName k) (getNativeTypes (kernelNs K)) = Some (NativeType k)"
    by (cases k) (simp_all add: getNativeTypes_def nativeName_def timestampType_def durationType_def)
  ultimately show ?thesis
    by (simp add: findsCopy_def findType_def lookupOf_def registryGet_def getQualifiedTypeName_def isCustomType_def)
qed

text \<open>The name of a known type leads to a copy of it.\<close>

lemma known_found:
  assumes "sendable K R" "agreeing K R" "mirrors R st" "t \<in> typesOf R" "isCustomType t" "isKnown K st (getHash t)"
  shows "findsCopy (lookupOf K st) t"
proof (cases "types (remoteTypesRegistry st) (getQualifiedName t)")
  case (Some x)
  then obtain t' where t': "t' \<in> typesOf R" "erase x = erase t'" "getQualifiedName x = getQualifiedName t"
    using assms(3) registryOk_byName unfolding mirrors_def by blast
  then have "t' = t"
    using assms(1,4) copy_names(3) [OF t'(2)] by (auto simp: sendable_def intro: same_name)
  then show ?thesis
    using Some t'(2) assms(5) by (simp add: findsCopy_def findType_def lookupOf_def registryGet_def getQualifiedTypeName_def)
next
  case None
  have "getHash t \<notin> getHash ` typesOf (remoteTypesRegistry st)"
  proof
    assume "getHash t \<in> getHash ` typesOf (remoteTypesRegistry st)"
    then obtain x where x: "x \<in> typesOf (remoteTypesRegistry st)" "getHash x = getHash t"
      by auto
    then obtain t' where t': "t' \<in> typesOf R" "erase x = erase t'"
      using assms(3) by (auto simp: mirrors_def)
    then have "t' = t"
      using assms(1,4) x(2) copy_names(6) [OF t'(2)] by (auto simp: sendable_def dest: inj_onD)
    then have "getQualifiedName t \<in> dom (types (remoteTypesRegistry st))"
      using registryOk_dom [of "remoteTypesRegistry st"] x(1) copy_names(3) [OF t'(2)] assms(3)
      unfolding mirrors_def by (metis imageI)
    then show False
      using None by auto
  qed
  then have "findsCopy (lookupOf K emptyRemoteTypes) t"
    using assms isKnown_iff [of st K] by (auto simp: agreeing_def mirrors_def)
  moreover have "findType (lookupOf K st) (getQualifiedName t) = findType (lookupOf K emptyRemoteTypes) (getQualifiedName t)"
    using None by (simp add: findType_def lookupOf_def registryGet_def emptyRemoteTypes_def emptyRegistry_def cong: option.case_cong)
  ultimately show ?thesis
    using assms(5) by (simp add: findsCopy_def getQualifiedTypeName_def)
qed

section \<open>Registering what was received\<close>

lemma sendable_type: "sendable K R \<Longrightarrow> t \<in> typesOf R \<Longrightarrow> isCustomType t"
  by (auto simp: sendable_def registryOk_def)

lemma component_sent: "sendable K R \<Longrightarrow> t \<in> typesOf R \<Longrightarrow> c \<in> components t \<Longrightarrow> isCustomType c \<Longrightarrow>
  c \<in> typesOf R \<and> c \<in> set (iterateOverDependentTypes t) \<and> (isClassType c \<longrightarrow> isClassType t)"
  by (auto simp: sendable_def)

lemma native_below: "\<not> isCustomType c \<Longrightarrow> below c = {}"
  by (cases c) (simp_all add: isCustomType_def below_def components_def)

lemma below_sent:
  assumes "sendable K R" "t \<in> typesOf R" "d \<in> below t" "isCustomType d"
  shows "d \<in> typesOf R \<and> (isClassType d \<longrightarrow> isClassType t)"
  using assms(2,3)
proof (induction "size t" arbitrary: t rule: less_induct)
  case less
  obtain c where "c \<in> components t" "d \<in> mentions c"
    using less.prems(2) unfolding below_def by blast
  then have c: "c \<in> components t" "d = c \<or> d \<in> below c"
    using mentions_below [of c] by blast+
  then have "isCustomType c"
    using assms(4) native_below by blast
  note sent = component_sent [OF assms(1) less.prems(1) c(1) this]
  show ?case
    using c(2) sent less.hyps [OF component_size [OF c(1)]] by blast
qed

lemma dependent_sent:
  "sendable K R \<Longrightarrow> t \<in> typesOf R \<Longrightarrow> d \<in> set (iterateOverDependentTypes t) \<Longrightarrow> isCustomType d \<Longrightarrow>
   d \<in> typesOf R \<and> size d < size t \<and> (isClassType d \<longrightarrow> isClassType t)"
  using below_sent iterate_below below_size by blast

text \<open>A copy of a type of the sender is stored together with copies of what it depends on.\<close>

definition growsTo :: "RemoteTypes \<Rightarrow> RemoteTypes \<Rightarrow> bool" where
  "growsTo st st' \<longleftrightarrow> typesOf (remoteTypesRegistry st) \<subseteq> typesOf (remoteTypesRegistry st')"

lemma growsTo_trans [trans]: "growsTo a b \<Longrightarrow> growsTo b c \<Longrightarrow> growsTo a c"
  by (auto simp: growsTo_def)

lemma growsTo_refl [simp]: "growsTo a a"
  by (simp add: growsTo_def)

lemma known_extends:
  "mirrors R st \<Longrightarrow> mirrors R st' \<Longrightarrow> growsTo st st' \<Longrightarrow> isKnown K st h \<Longrightarrow> isKnown K st' h"
  by (auto simp: mirrors_def isKnown_iff growsTo_def)

lemma copy_below:
  assumes "erase x = erase t" "d \<in> below x"
  obtains d' where "d' \<in> below t" "erase d = erase d'"
  using assms below_erase by (metis imageE imageI)

lemma store_copy:
  assumes s: "sendable K R" and m: "mirrors R st" and t: "t \<in> typesOf R" "erase x = erase t" "\<not> isTimeType x"
  shows "\<exists>st'. storeType x st = Inr st' \<and> mirrors R st' \<and> growsTo st st'
    \<and> getHash t \<in> getHash ` typesOf (remoteTypesRegistry st') \<and> pendingClassSpecs st' = pendingClassSpecs st"
proof -
  let ?r = "remoteTypesRegistry st"
  have ok: "registryOk R" "registryOk ?r" and custom: "isCustomType x"
    using s m sendable_type [OF s t(1)] copy_names(4) [OF t(2)] by (auto simp: sendable_def mirrors_def)
  have dep: "\<exists>d' \<in> typesOf R. erase d = erase d' \<and> size d' < size t"
    if d: "d \<in> set (iterateOverDependentTypes x)" "isCustomType d" for d
  proof -
    obtain d' where d': "d' \<in> below t" "erase d = erase d'"
      by (rule copy_below [OF t(2) iterate_below [OF d]])
    then show ?thesis
      using below_sent [OF s t(1) d'(1)] below_size [OF d'(1)] copy_names(4) [OF d'(2)] d(2) by auto
  qed
  have "getQualifiedName d \<noteq> getQualifiedName x" if d: "d \<in> set (iterateOverDependentTypes x)" "isCustomType d" for d
  proof
    assume same: "getQualifiedName d = getQualifiedName x"
    obtain d' where d': "d' \<in> typesOf R" "erase d = erase d'" "size d' < size t"
      using dep [OF d] by blast
    then have "d' = t"
      using same_name [OF ok(1) _ t(1)] same copy_names(3) [OF d'(2)] copy_names(3) [OF t(2)] by simp
    then show False
      using d'(3) by simp
  qed
  from registryAdd_new [OF ok(2) custom t(3) this]
  obtain r' where r': "registryAdd x ?r = Some r'" "registryOk r'" "getQualifiedName x \<in> dom (types r')"
      "typesOf ?r \<subseteq> typesOf r'"
      "typesOf r' \<subseteq> typesOf ?r \<union> {d \<in> set (iterateOverDependentTypes x). isCustomType d} \<union> {x}"
    by blast
  have copies: "\<exists>t \<in> typesOf R. erase y = erase t" if "y \<in> typesOf r'" for y
    using that r'(5) m dep t unfolding mirrors_def by blast
  obtain y where y: "y \<in> typesOf r'" "getQualifiedName y = getQualifiedName t"
    using r'(3) registryOk_dom [OF r'(2)] copy_names(3) [OF t(2)] by auto
  obtain t' where t': "t' \<in> typesOf R" "erase y = erase t'"
    using copies [OF y(1)] by blast
  then have "t' = t"
    using same_name [OF ok(1) _ t(1)] y(2) copy_names(3) [OF t'(2)] by simp
  then have "getHash t \<in> getHash ` typesOf r'"
    using y(1) copy_names(6) [OF t'(2)] by (metis imageI)
  then show ?thesis
    using r' copies by (auto simp: storeType_def mirrors_def growsTo_def)
qed

lemma built_plain: "buildNonNativeType k a s = Inr t \<Longrightarrow> \<not> isTimeType t"
  by (auto simp: buildNonNativeType_def isTimeType_def makeNonNativeEnum_def enumMake_def makeNonNativeQuantity_def
      quantityMake_def makeNonNativeSequence_def sequenceMake_def makeNonNativeStruct_def structMake_def
      makeNonNativeVariant_def variantMake_def makeNonNativeAlias_def aliasMake_def makeNonNativeOptional_def
      optionalMake_def makeNonNativeClass_def classMake_def rbind_Inr_conv split: CustomTypeData.splits if_splits)

lemma register_copy:
  assumes s: "sendable K R" and a: "agreeing K R" and m: "mirrors R st" and t: "t \<in> typesOf R" "makeCustomTypeSpec t = Inr spec"
    and known: "\<And>d. d \<in> set (iterateOverDependentTypes t) \<Longrightarrow> isCustomType d \<Longrightarrow> isKnown K st (getHash d)"
  shows "\<exists>st'. registerRemoteType K spec st = Inr st' \<and> mirrors R st' \<and> growsTo st st'
    \<and> isKnown K st' (getHash t) \<and> pendingClassSpecs st' = pendingClassSpecs st"
proof -
  have made: "madeType t" "unitListed (unitTable (lookupOf K st)) t"
    using s t(1) by (simp_all add: sendable_def lookupOf_def)
  have "findsCopy (lookupOf K st) d \<and> getQualifiedTypeName d \<noteq> []" if "d \<in> components t" for d
  proof (cases "isCustomType d")
    case True
    note sent = component_sent [OF s t(1) that True]
    then have "getQualifiedName d \<noteq> []"
      using s by (auto simp: sendable_def)
    moreover have "findsCopy (lookupOf K st) d"
      using known_found [OF s a m _ True known [OF _ True]] sent by blast
    ultimately show ?thesis
      using True by (simp add: getQualifiedTypeName_def)
  next
    case False
    then obtain k where k: "d = NativeType k"
      by (cases d) (auto simp: isCustomType_def)
    have "getQualifiedName x \<notin> getName ` set (getNativeTypes (kernelNs K))" if "x \<in> typesOf (remoteTypesRegistry st)" for x
      using that s m copy_names(3) [of x] unfolding sendable_def mirrors_def by (metis insert_iff)
    then have "findsCopy (lookupOf K st) d"
      using native_found m unfolding k mirrors_def by blast
    moreover have "nativeName k \<noteq> []"
      by (simp add: nativeName_def split: NativeKind.split)
    ultimately show ?thesis
      by (simp add: k getQualifiedTypeName_def isCustomType_def)
  qed
  from build_copy [OF made t(2) this]
  obtain x where x: "buildNonNativeType (lookupOf K st) (length (remoteTypesStorage st)) spec = Inr x" "erase x = erase t"
    by blast
  obtain st' where st': "storeType x st = Inr st'" "mirrors R st'" "growsTo st st'"
      "getHash t \<in> getHash ` typesOf (remoteTypesRegistry st')" "pendingClassSpecs st' = pendingClassSpecs st"
    using store_copy [OF s m t(1) x(2) built_plain [OF x(1)]] by blast
  moreover have "isKnown K st' (getHash t)"
    using st'(2,4) by (simp add: isKnown_iff mirrors_def)
  moreover have "mirrors R (checkAgainstLocal K l x st')" "growsTo st (checkAgainstLocal K l x st')"
    "isKnown K (checkAgainstLocal K l x st') (getHash t)" for l
    using calculation by (simp_all add: mirrors_def growsTo_def isKnown_def)
  ultimately show ?thesis
    using x(1) by (auto simp: registerRemoteType_def split: option.split)
qed

section \<open>The answer of the sender\<close>

definition answer :: "Type \<Rightarrow> TypeSpecResponse" where
  "answer t = projr (typeResponse t)"

lemma answer_ok:
  assumes "sendable K R" "t \<in> typesOf R"
  obtains spec where "makeCustomTypeSpec t = Inr spec" "typeResponse t = Inr (answer t)"
    "answer t = (if isClassType t then ClassResponse (ClassSpecResponse (getHash t) spec (dependentTypeHashes t))
                 else NonClassResponse spec)"
proof -
  obtain spec where "makeCustomTypeSpec t = Inr spec"
    using spec_exists [of t "kernelUnits K"] assms by (auto simp: sendable_def)
  then show thesis
    using that by (simp add: typeResponse_def answer_def)
qed

lemma sent_byHash:
  assumes "sendable K R" "t \<in> typesOf R"
  shows "registryGetByHash ns R (getHash t) = Some t"
proof -
  have ok: "registryOk R" "inj_on getHash (typesOf R)"
    using assms(1) by (simp_all add: sendable_def)
  obtain t' where "typesByHash R (getHash t) = Some t'"
    using registryOk_hashes [OF ok(1)] assms(2) by blast
  then show ?thesis
    using registryOk_byHash [OF ok(1)] ok(2) assms(2) by (auto simp: registryGetByHash_def dest: inj_onD)
qed

lemma request_answered:
  assumes "sendable K R" "set ts \<subseteq> typesOf R"
  shows "typesInfoRequest ns R (map getHash ts) = Inr (map answer ts, [])"
  using assms(2)
proof (induction ts)
  case (Cons t ts)
  then have "typeResponse t = Inr (answer t)"
    using answer_ok [OF assms(1), of t] by (metis insert_subset list.simps(15))
  then show ?case
    using Cons sent_byHash [OF assms(1), of t] sendable_type [OF assms(1), of t] by simp
qed simp

lemma same_hash: "sendable K R \<Longrightarrow> t \<in> typesOf R \<Longrightarrow> t' \<in> typesOf R \<Longrightarrow> getHash t = getHash t' \<Longrightarrow> t = t'"
  by (auto simp: sendable_def dest: inj_onD)

section \<open>Requests in order\<close>

text \<open>What the type with a hash depends on, and requests that come after all they depend on.\<close>

definition needs :: "Registry \<Rightarrow> (u32 \<Rightarrow> bool) \<Rightarrow> u32 \<Rightarrow> bool" where
  "needs R P h \<longleftrightarrow> (\<forall>t \<in> typesOf R. getHash t = h \<longrightarrow> (\<forall>x \<in> set (dependentTypeHashes t). P x))"

fun ordered :: "Registry \<Rightarrow> (u32 \<Rightarrow> bool) \<Rightarrow> u32 list \<Rightarrow> bool" where
  "ordered R P [] = True"
| "ordered R P (h # hs) \<longleftrightarrow> needs R P h \<and> ordered R (\<lambda>x. P x \<or> x = h) hs"

lemma needs_mono: "needs R P h \<Longrightarrow> (\<And>x. P x \<Longrightarrow> Q x) \<Longrightarrow> needs R Q h"
  by (auto simp: needs_def)

lemma ordered_mono: "ordered R P hs \<Longrightarrow> (\<And>x. P x \<Longrightarrow> Q x) \<Longrightarrow> ordered R Q hs"
proof (induction hs arbitrary: P Q)
  case (Cons h hs)
  have "ordered R (\<lambda>x. Q x \<or> x = h) hs"
    by (rule Cons.IH [of "\<lambda>x. P x \<or> x = h"]) (use Cons.prems in auto)
  then show ?case
    using Cons.prems by (auto intro: needs_mono)
qed simp

lemma ordered_snoc: "ordered R P (hs @ [h]) \<longleftrightarrow> ordered R P hs \<and> needs R (\<lambda>x. P x \<or> x \<in> set hs) h"
  by (induction hs arbitrary: P) (simp_all add: disj_assoc disj_commute disj_left_commute)

text \<open>The hashes a class lists are in order.\<close>

lemma dependencies_ordered:
  assumes "sendable K R" "t \<in> typesOf R"
  shows "ordered R (\<lambda>x. False) (dependentTypeHashes t)"
proof -
  let ?ts = "iterateOverDependentTypes t"
  have closed: "closedAfter {} ?ts"
    using walks_sound [of t] by (simp add: soundWalk_def iterateOverDependentTypes_def)
  have "ordered R (\<lambda>x. False) (map getHash (filter isCustomType (take n ?ts)))" for n
  proof (induction n)
    case (Suc n)
    show ?case
    proof (cases "n < length ?ts \<and> isCustomType (?ts ! n)")
      case False
      then show ?thesis
        using Suc by (cases "n < length ?ts") (simp_all add: take_Suc_conv_app_nth)
    next
      case True
      have here: "?ts ! n \<in> typesOf R"
        using dependent_sent [OF assms(1,2)] True by simp
      have "needs R (\<lambda>x. x \<in> set (map getHash (filter isCustomType (take n ?ts)))) (getHash (?ts ! n))"
        unfolding needs_def
      proof (intro ballI impI)
        fix u x assume u: "u \<in> typesOf R" "getHash u = getHash (?ts ! n)" "x \<in> set (dependentTypeHashes u)"
        then have "u = ?ts ! n"
          using same_hash [OF assms(1) _ here] by blast
        then show "x \<in> set (map getHash (filter isCustomType (take n ?ts)))"
          using u(3) iterate_before [OF closed] True by (auto simp: dependentTypeHashes_def)
      qed
      then show ?thesis
        using Suc True by (simp add: take_Suc_conv_app_nth ordered_snoc)
    qed
  qed simp
  from this [of "length ?ts"] show ?thesis
    by (simp add: dependentTypeHashes_def)
qed

section \<open>Receiving\<close>

text \<open>Pending classes are classes of the sender.\<close>

definition pendingFrom :: "Registry \<Rightarrow> ClassSpecResponse list \<Rightarrow> bool" where
  "pendingFrom R cs \<longleftrightarrow> (\<forall>p \<in> set cs. \<exists>t \<in> typesOf R. isClassType t \<and> answer t = ClassResponse p)"

definition arrived :: "Kernel \<Rightarrow> RemoteTypes \<Rightarrow> u32 \<Rightarrow> bool" where
  "arrived K st h \<longleftrightarrow> isKnown K st h \<or> isPending st h"

lemma pendingFrom_type:
  assumes "sendable K R" "pendingFrom R cs" "p \<in> set cs"
  obtains t where "t \<in> typesOf R" "isClassType t" "csr_classHash p = getHash t"
    "csr_dependentTypes p = dependentTypeHashes t" "makeCustomTypeSpec t = Inr (csr_spec p)"
proof -
  obtain t where t: "t \<in> typesOf R" "isClassType t" "answer t = ClassResponse p"
    using assms(2,3) by (auto simp: pendingFrom_def)
  then show thesis
    using answer_ok [OF assms(1) t(1)] that [OF t(1,2)] by (metis ClassSpecResponse.sel TypeSpecResponse.inject(1))
qed

lemma dependentTypeHashes_iff:
  "x \<in> set (dependentTypeHashes t) \<longleftrightarrow> (\<exists>d \<in> set (iterateOverDependentTypes t). isCustomType d \<and> x = getHash d)"
  by (auto simp: dependentTypeHashes_def)

lemma arrived_extends:
  "mirrors R st \<Longrightarrow> mirrors R st' \<Longrightarrow> growsTo st st' \<Longrightarrow> set (pendingClassSpecs st) \<subseteq> set (pendingClassSpecs st') \<Longrightarrow>
   arrived K st h \<Longrightarrow> arrived K st' h"
  using known_extends by (auto simp: arrived_def isPending_def)

lemma checkDependencies_arrived:
  "\<forall>h \<in> set hs. arrived K st h \<Longrightarrow> checkDependencies K hs missing st = Inr (missing, st)"
  by (induction hs) (simp_all add: arrived_def)

text \<open>The dependencies of a class that have not arrived are requested, in order.\<close>

definition checked :: "Kernel \<Rightarrow> Registry \<Rightarrow> u32 list \<Rightarrow> u32 list \<Rightarrow> RemoteTypes \<Rightarrow> u32 list \<Rightarrow> RemoteTypes \<Rightarrow> bool" where
  "checked K R hs missing st missing' st' \<longleftrightarrow> checkDependencies K hs missing st = Inr (missing', st')
     \<and> mirrors R st' \<and> growsTo st st' \<and> pendingClassSpecs st' = pendingClassSpecs st
     \<and> set missing \<subseteq> set missing' \<and> set missing' \<subseteq> getHash ` typesOf R
     \<and> ordered R (arrived K st') missing' \<and> (\<forall>h \<in> set hs. arrived K st' h \<or> h \<in> set missing')"

lemma checkDependencies_ok:
  assumes s: "sendable K R" and a: "agreeing K R" and "mirrors R st" "set hs \<subseteq> getHash ` typesOf R"
    "set missing \<subseteq> getHash ` typesOf R" "ordered R (arrived K st) missing"
    "ordered R (\<lambda>x. arrived K st x \<or> x \<in> set missing) hs"
  shows "\<exists>missing' st'. checked K R hs missing st missing' st'"
  using assms(3-7)
proof (induction hs arbitrary: missing st)
  case Nil
  then show ?case
    by (auto simp: checked_def)
next
  case (Cons h hs)
  obtain t where t: "t \<in> typesOf R" "getHash t = h"
    using Cons.prems(2) by auto
  consider "arrived K st h" | x inc where "\<not> arrived K st h" "searchForTypeInRemoteParticipants K h = Some (x, inc)"
    | "\<not> arrived K st h" "searchForTypeInRemoteParticipants K h = None"
    by (metis not_Some_eq surj_pair)
  then show ?case
  proof cases
    case 1
    have "ordered R (\<lambda>x. arrived K st x \<or> x \<in> set missing) hs"
      using Cons.prems(5) by (auto elim!: ordered_mono simp: 1)
    then obtain missing' st' where r: "checked K R hs missing st missing' st'"
      using Cons.IH [OF Cons.prems(1) _ Cons.prems(3,4)] Cons.prems(2) by auto
    then have "arrived K st' h"
      using arrived_extends [OF Cons.prems(1) _ _ _ 1, of st'] by (simp add: checked_def)
    moreover have "checkDependencies K (h # hs) missing st = checkDependencies K hs missing st"
      using 1 by (simp add: arrived_def)
    ultimately have "checked K R (h # hs) missing st missing' st'"
      using r by (simp add: checked_def)
    then show ?thesis
      by blast
  next
    case 2
    have x: "erase x = erase t" "\<not> isTimeType x"
      using a t 2(2) by (auto simp: agreeing_def)
    obtain st1 where st1: "storeType x st = Inr st1" "mirrors R st1" "growsTo st st1"
        "h \<in> getHash ` typesOf (remoteTypesRegistry st1)" "pendingClassSpecs st1 = pendingClassSpecs st"
      using store_copy [OF s Cons.prems(1) t(1) x] t(2) by blast
    define st2 where "st2 = (if inc then markIncompatible (getHash x) st1 else st1)"
    have st2: "registerRemoteTypeFoundInBus x inc st = Inr st2" "mirrors R st2" "growsTo st st2"
        "pendingClassSpecs st2 = pendingClassSpecs st" "arrived K st2 h"
      using st1 by (auto simp: registerRemoteTypeFoundInBus_def st2_def mirrors_def growsTo_def arrived_def isKnown_iff)
    note later = arrived_extends [OF Cons.prems(1) st2(2,3), unfolded st2(4), OF order_refl]
    have o: "ordered R (arrived K st2) missing" "ordered R (\<lambda>x. arrived K st2 x \<or> x \<in> set missing) hs"
      using Cons.prems(4,5) later st2(5) by (auto elim!: ordered_mono)
    have "isCustomType x"
      using copy_names(4) [OF x(1)] sendable_type [OF s t(1)] by simp
    then have step: "checkDependencies K (h # hs) missing st = checkDependencies K hs missing st2"
      using 2 st2(1) by (simp add: arrived_def)
    obtain missing' st' where r: "checked K R hs missing st2 missing' st'"
      using Cons.IH [OF st2(2) _ Cons.prems(3) o] Cons.prems(2) by auto
    moreover have "arrived K st' h"
      using r arrived_extends [OF st2(2) _ _ _ st2(5), of st'] by (simp add: checked_def)
    ultimately have "checked K R (h # hs) missing st missing' st'"
      using st2(3,4) growsTo_trans [of st st2 st'] step by (simp add: checked_def)
    then show ?thesis
      by blast
  next
    case 3
    let ?m = "insertUnique h missing"
    have m: "set ?m = insert h (set missing)"
      by (auto simp: insertUnique_def)
    have o: "ordered R (arrived K st) ?m"
      using Cons.prems(4,5) by (simp add: insertUnique_def ordered_snoc)
    have "ordered R (\<lambda>x. arrived K st x \<or> x \<in> set ?m) hs" "set ?m \<subseteq> getHash ` typesOf R" "set hs \<subseteq> getHash ` typesOf R"
      using Cons.prems(2,3,5) t by (auto simp: m elim!: ordered_mono)
    from Cons.IH [OF Cons.prems(1) this(3,2) o this(1)]
    obtain missing' st' where r: "checked K R hs ?m st missing' st'"
      by blast
    moreover have "checkDependencies K (h # hs) missing st = checkDependencies K hs ?m st"
      using 3 by (simp add: arrived_def)
    ultimately have "checked K R (h # hs) missing st missing' st'"
      using m by (simp add: checked_def)
    then show ?thesis
      by blast
  qed
qed

text \<open>Types received in order: no further ones are missing, and each of them has arrived.\<close>

definition settled :: "Kernel \<Rightarrow> RemoteTypes \<Rightarrow> ClassSpecResponse \<Rightarrow> bool" where
  "settled K st p \<longleftrightarrow> (\<forall>h \<in> set (csr_dependentTypes p). arrived K st h)"

definition receipt :: "Kernel \<Rightarrow> Registry \<Rightarrow> RemoteTypes \<Rightarrow> RemoteTypes \<Rightarrow> bool" where
  "receipt K R st st' \<longleftrightarrow> mirrors R st' \<and> growsTo st st' \<and> pendingFrom R (pendingClassSpecs st')
     \<and> set (pendingClassSpecs st) \<subseteq> set (pendingClassSpecs st')
     \<and> (\<forall>p \<in> set (pendingClassSpecs st'). p \<in> set (pendingClassSpecs st) \<or> settled K st' p)"

lemma receipt_refl: "mirrors R st \<Longrightarrow> pendingFrom R (pendingClassSpecs st) \<Longrightarrow> receipt K R st st"
  by (simp add: receipt_def)

lemma receipt_arrived: "mirrors R st \<Longrightarrow> receipt K R st st' \<Longrightarrow> arrived K st h \<Longrightarrow> arrived K st' h"
  using arrived_extends by (auto simp: receipt_def)

lemma receipt_trans:
  assumes "receipt K R a b" "receipt K R b c"
  shows "receipt K R a c"
proof -
  have "settled K c p" if "settled K b p" for p
    using that receipt_arrived [OF _ assms(2)] assms(1) by (auto simp: settled_def receipt_def)
  then show ?thesis
    using assms growsTo_trans [of a b c] unfolding receipt_def by blast
qed

lemma receive_one:
  assumes s: "sendable K R" and a: "agreeing K R" and m: "mirrors R st" "pendingFrom R (pendingClassSpecs st)"
    and t: "t \<in> typesOf R" "needs R (arrived K st) (getHash t)"
  shows "\<exists>st'. receiveTypes K (answer t # rs) [] st = receiveTypes K rs [] st' \<and> receipt K R st st' \<and> arrived K st' (getHash t)"
proof -
  obtain spec where spec: "makeCustomTypeSpec t = Inr spec"
      "answer t = (if isClassType t then ClassResponse (ClassSpecResponse (getHash t) spec (dependentTypeHashes t))
                   else NonClassResponse spec)"
    using answer_ok [OF s t(1)] .
  have deps: "\<forall>h \<in> set (dependentTypeHashes t). arrived K st h"
    using t by (simp add: needs_def)
  show ?thesis
  proof (cases "isClassType t")
    case True
    define p where "p = ClassSpecResponse (getHash t) spec (dependentTypeHashes t)"
    define st' where "st' = addPending K p st"
    have ans: "answer t = ClassResponse p"
      using spec(2) True by (simp add: p_def)
    then have "receiveTypes K (answer t # rs) [] st = receiveTypes K rs [] st'"
      using checkDependencies_arrived deps by (simp add: p_def st'_def)
    moreover have p: "st' = st \<or> pendingClassSpecs st' = pendingClassSpecs st @ [p]"
        "remoteTypesRegistry st' = remoteTypesRegistry st" "arrived K st' (getHash t)"
      by (auto simp: st'_def addPending_def arrived_def isPending_def isKnown_def p_def)
    moreover have "mirrors R st'" "growsTo st st'"
      using m(1) p(2) by (simp_all add: mirrors_def growsTo_def)
    moreover have "pendingFrom R [p]"
      using t(1) True ans by (auto simp: pendingFrom_def)
    moreover have sub: "set (pendingClassSpecs st) \<subseteq> set (pendingClassSpecs st')"
      using p(1) by auto
    moreover have "settled K st' p"
      using deps arrived_extends [OF m(1) \<open>mirrors R st'\<close> \<open>growsTo st st'\<close> sub] by (simp add: settled_def p_def)
    ultimately have "receiveTypes K (answer t # rs) [] st = receiveTypes K rs [] st' \<and> receipt K R st st' \<and> arrived K st' (getHash t)"
      using m(2) by (auto simp: receipt_def pendingFrom_def)
    then show ?thesis ..
  next
    case False
    have "isKnown K st (getHash d)" if d: "d \<in> set (iterateOverDependentTypes t)" "isCustomType d" for d
    proof -
      have sent: "d \<in> typesOf R" "\<not> isClassType d"
        using dependent_sent [OF s t(1) d] False by simp_all
      have "\<not> isPending st (getHash d)"
      proof
        assume "isPending st (getHash d)"
        then obtain p where p: "p \<in> set (pendingClassSpecs st)" "csr_classHash p = getHash d"
          by (auto simp: isPending_def)
        obtain u where "u \<in> typesOf R" "isClassType u" "csr_classHash p = getHash u"
          using pendingFrom_type [OF s m(2) p(1)] by metis
        then show False
          using same_hash [OF s _ sent(1)] sent(2) p(2) by metis
      qed
      then show ?thesis
        using deps d by (auto simp: dependentTypeHashes_def arrived_def)
    qed
    from register_copy [OF s a m(1) t(1) spec(1) this]
    obtain st' where st': "registerRemoteType K spec st = Inr st'" "mirrors R st'" "growsTo st st'"
        "isKnown K st' (getHash t)" "pendingClassSpecs st' = pendingClassSpecs st"
      by blast
    then have "receiveTypes K (answer t # rs) [] st = receiveTypes K rs [] st'" "receipt K R st st'"
      using False spec(2) m(2) by (simp_all add: receipt_def)
    then show ?thesis
      using st'(4) by (auto simp: arrived_def)
  qed
qed

lemma receiveTypes_ok:
  assumes s: "sendable K R" and a: "agreeing K R"
    and "mirrors R st" "pendingFrom R (pendingClassSpecs st)" "set ts \<subseteq> typesOf R" "ordered R (arrived K st) (map getHash ts)"
  shows "\<exists>st'. receiveTypes K (map answer ts) [] st = Inr ([], st') \<and> receipt K R st st' \<and> (\<forall>t \<in> set ts. arrived K st' (getHash t))"
  using assms(3-6)
proof (induction ts arbitrary: st)
  case Nil
  then show ?case
    by (auto intro: receipt_refl)
next
  case (Cons t ts)
  obtain st1 where st1: "receiveTypes K (answer t # map answer ts) [] st = receiveTypes K (map answer ts) [] st1"
      "receipt K R st st1" "arrived K st1 (getHash t)"
    using receive_one [OF s a Cons.prems(1,2), of t] Cons.prems(3,4) by auto
  have "ordered R (arrived K st1) (map getHash ts)"
    using Cons.prems(4) st1(3) receipt_arrived [OF Cons.prems(1) st1(2)] by (auto elim!: ordered_mono)
  then obtain st' where st': "receiveTypes K (map answer ts) [] st1 = Inr ([], st')" "receipt K R st1 st'"
      "\<forall>t \<in> set ts. arrived K st' (getHash t)"
    using Cons.IH [of st1] Cons.prems(3) st1(2) by (auto simp: receipt_def)
  moreover have "arrived K st' (getHash t)"
    using receipt_arrived [OF _ st'(2) st1(3)] st1(2) by (simp add: receipt_def)
  ultimately show ?case
    using st1 receipt_trans [OF st1(2)] by auto
qed

section \<open>Resolving the pending classes\<close>

lemma resolvePass_ok:
  assumes s: "sendable K R" and a: "agreeing K R" and "mirrors R st" "pendingFrom R cs"
  shows "\<exists>hs st'. resolvePass K cs st = Inr (hs, st') \<and> mirrors R st' \<and> growsTo st st' \<and> pendingClassSpecs st' = pendingClassSpecs st
    \<and> (\<forall>h \<in> set hs. isKnown K st' h) \<and> (\<forall>c \<in> set cs. list_all (isKnown K st) (csr_dependentTypes c) \<longrightarrow> csr_classHash c \<in> set hs)
    \<and> (hs = [] \<longrightarrow> st' = st)"
  using assms(3,4)
proof (induction cs arbitrary: st)
  case (Cons c cs)
  have cs: "pendingFrom R cs"
    using Cons.prems(2) by (simp add: pendingFrom_def)
  show ?case
  proof (cases "list_all (isKnown K st) (csr_dependentTypes c)")
    case False
    then show ?thesis
      using Cons.IH [OF Cons.prems(1) cs] by auto
  next
    case True
    obtain t where t: "t \<in> typesOf R" "csr_classHash c = getHash t" "csr_dependentTypes c = dependentTypeHashes t"
        "makeCustomTypeSpec t = Inr (csr_spec c)"
      using pendingFrom_type [OF s Cons.prems(2), of c] by auto
    have "isKnown K st (getHash d)" if "d \<in> set (iterateOverDependentTypes t)" "isCustomType d" for d
      using True t(3) that by (auto simp: list_all_iff dependentTypeHashes_def)
    from register_copy [OF s a Cons.prems(1) t(1,4) this]
    obtain st1 where st1: "registerRemoteType K (csr_spec c) st = Inr st1" "mirrors R st1" "growsTo st st1"
        "isKnown K st1 (getHash t)" "pendingClassSpecs st1 = pendingClassSpecs st"
      by blast
    obtain hs st' where r: "resolvePass K cs st1 = Inr (hs, st')" "mirrors R st'" "growsTo st1 st'"
        "pendingClassSpecs st' = pendingClassSpecs st1" "\<forall>h \<in> set hs. isKnown K st' h"
        "\<forall>c \<in> set cs. list_all (isKnown K st1) (csr_dependentTypes c) \<longrightarrow> csr_classHash c \<in> set hs"
      using Cons.IH [OF st1(2) cs] by blast
    have "list_all (isKnown K st1) xs" if "list_all (isKnown K st) xs" for xs
      using that known_extends [OF Cons.prems(1) st1(2,3)] by (auto simp: list_all_iff)
    moreover have "resolvePass K (c # cs) st = Inr (csr_classHash c # hs, st')"
      using True st1(1) r(1) by simp
    moreover have "isKnown K st' (csr_classHash c)"
      using known_extends [OF st1(2) r(2,3) st1(4)] t(2) by simp
    ultimately show ?thesis
      using r st1(5) growsTo_trans [OF st1(3) r(3)] by auto
  qed
qed simp

definition resolvedTo :: "Kernel \<Rightarrow> Registry \<Rightarrow> RemoteTypes \<Rightarrow> RemoteTypes \<Rightarrow> bool" where
  "resolvedTo K R st st' \<longleftrightarrow> mirrors R st' \<and> growsTo st st' \<and> set (pendingClassSpecs st') \<subseteq> set (pendingClassSpecs st)
     \<and> (\<forall>p \<in> set (pendingClassSpecs st). p \<in> set (pendingClassSpecs st') \<or> isKnown K st' (csr_classHash p))"

lemma resolvedTo_trans: "resolvedTo K R a b \<Longrightarrow> resolvedTo K R b c \<Longrightarrow> resolvedTo K R a c"
  using growsTo_trans [of a b c] known_extends [of R b c] unfolding resolvedTo_def by blast

lemma resolvePending_ok:
  assumes s: "sendable K R" and a: "agreeing K R" and "mirrors R st" "pendingFrom R (pendingClassSpecs st)"
  shows "\<exists>hs st'. resolvePending K st = Inr (hs, st') \<and> resolvedTo K R st st'
    \<and> (\<forall>p \<in> set (pendingClassSpecs st'). \<not> list_all (isKnown K st') (csr_dependentTypes p))"
  using assms(3,4)
proof (induction "length (pendingClassSpecs st)" arbitrary: st rule: less_induct)
  case less
  obtain hs st1 where r: "resolvePass K (pendingClassSpecs st) st = Inr (hs, st1)" "mirrors R st1" "growsTo st st1"
      "pendingClassSpecs st1 = pendingClassSpecs st" "\<forall>h \<in> set hs. isKnown K st1 h"
      "\<forall>c \<in> set (pendingClassSpecs st). list_all (isKnown K st) (csr_dependentTypes c) \<longrightarrow> csr_classHash c \<in> set hs"
      "hs = [] \<longrightarrow> st1 = st"
    using resolvePass_ok [OF s a less.prems] by blast
  define st2 where "st2 = removePending hs st1"
  have pass: "tryResolvePendingClasses K st = Inr (hs, st2)"
    using r(1) by (simp add: tryResolvePendingClasses_def st2_def)
  have st2: "mirrors R st2" "growsTo st st2" "isKnown K st2 h = isKnown K st1 h" for h
    using r(2,3) by (simp_all add: st2_def removePending_def mirrors_def growsTo_def isKnown_def)
  have first: "resolvedTo K R st st2"
    using r(4,5) st2 by (auto simp: resolvedTo_def st2_def removePending_def)
  show ?case
  proof (cases "hs = []")
    case True
    then have "resolvePending K st = Inr ([], st2)" "st2 = st"
      using pass r(7) by (simp_all add: resolvePending.simps [of K st] st2_def removePending_def)
    then show ?thesis
      using first r(6) True by auto
  next
    case False
    have "pendingFrom R (pendingClassSpecs st2)"
      using first less.prems(2) by (auto simp: resolvedTo_def pendingFrom_def)
    then obtain hs' st' where r': "resolvePending K st2 = Inr (hs', st')" "resolvedTo K R st2 st'"
        "\<forall>p \<in> set (pendingClassSpecs st'). \<not> list_all (isKnown K st') (csr_dependentTypes p)"
      using less.hyps [OF tryResolve_decreases [OF pass False] st2(1)] by blast
    then have "resolvePending K st = Inr (hs @ hs', st')"
      using pass False by (simp add: resolvePending.simps [of K st])
    then show ?thesis
      using r'(3) resolvedTo_trans [OF first r'(2)] by blast
  qed
qed

text \<open>When all that pending classes depend on has arrived, none of them stays pending.\<close>

lemma none_pending:
  assumes s: "sendable K R" and p: "pendingFrom R (pendingClassSpecs st)"
    and settled: "\<forall>p \<in> set (pendingClassSpecs st). settled K st p"
    and stuck: "\<forall>p \<in> set (pendingClassSpecs st). \<not> list_all (isKnown K st) (csr_dependentTypes p)"
  shows "pendingClassSpecs st = []"
proof -
  have False if "p \<in> set (pendingClassSpecs st)" "t \<in> typesOf R" "csr_classHash p = getHash t" for p t
    using that
  proof (induction "size t" arbitrary: p t rule: less_induct)
    case less
    obtain u where "u \<in> typesOf R" "csr_classHash p = getHash u" "csr_dependentTypes p = dependentTypeHashes u"
      using pendingFrom_type [OF s p less.prems(1)] by metis
    then have deps: "csr_dependentTypes p = dependentTypeHashes t"
      using same_hash [OF s _ less.prems(2)] less.prems(3) by metis
    obtain h where h: "h \<in> set (csr_dependentTypes p)" "\<not> isKnown K st h"
      using stuck less.prems(1) by (auto simp: list_all_iff)
    then have "isPending st h"
      using settled less.prems(1) by (auto simp: settled_def arrived_def)
    then obtain q where q: "q \<in> set (pendingClassSpecs st)" "csr_classHash q = h"
      by (auto simp: isPending_def)
    obtain d where "d \<in> set (iterateOverDependentTypes t)" "isCustomType d" "h = getHash d"
      using h(1) unfolding deps dependentTypeHashes_iff by blast
    then show False
      using less.hyps [OF _ q(1), of d] q(2) dependent_sent [OF s less.prems(2), of d] by simp
  qed
  then have "p \<notin> set (pendingClassSpecs st)" for p
    using pendingFrom_type [OF s p, of p] by metis
  then show ?thesis
    by (metis list.set_intros(1) neq_Nil_conv)
qed

lemma settled_resolved:
  assumes "mirrors R st" "resolvedTo K R st st'" "settled K st p"
  shows "settled K st' p"
proof -
  have "arrived K st' h" if "arrived K st h" for h
    using that assms(1,2) known_extends [of R st st' K h] by (auto simp: arrived_def resolvedTo_def isPending_def)
  then show ?thesis
    using assms(3) by (simp add: settled_def)
qed

text \<open>Both rounds of the exchange.\<close>

lemma class_requested:
  assumes s: "sendable K R" and a: "agreeing K R" and m: "mirrors R st" "pendingClassSpecs st = []"
    and c: "c \<in> typesOf R" "isClassType c"
  shows "\<exists>missing resolved st'. typesInfoResponse K [answer c] st = Inr (missing, resolved, st')
    \<and> mirrors R st' \<and> pendingFrom R (pendingClassSpecs st') \<and> set missing \<subseteq> getHash ` typesOf R
    \<and> ordered R (arrived K st') missing \<and> arrived K st' (getHash c)
    \<and> (\<forall>p \<in> set (pendingClassSpecs st'). \<forall>h \<in> set (csr_dependentTypes p). arrived K st' h \<or> h \<in> set missing)"
proof -
  obtain spec where spec: "answer c = ClassResponse (ClassSpecResponse (getHash c) spec (dependentTypeHashes c))"
    using answer_ok [OF s c(1)] c(2) by metis
  define p where "p = ClassSpecResponse (getHash c) spec (dependentTypeHashes c)"
  have "set (dependentTypeHashes c) \<subseteq> getHash ` typesOf R"
    using dependent_sent [OF s c(1)] by (auto simp: dependentTypeHashes_iff)
  moreover have "ordered R (\<lambda>x. arrived K st x \<or> x \<in> set []) (dependentTypeHashes c)"
    using dependencies_ordered [OF s c(1)] by (rule ordered_mono) simp
  ultimately obtain missing st1 where st1: "checked K R (dependentTypeHashes c) [] st missing st1"
    using checkDependencies_ok [OF s a m(1), of "dependentTypeHashes c" "[]"] by auto
  define st2 where "st2 = addPending K p st1"
  have st2: "mirrors R st2" "growsTo st1 st2" "pendingFrom R (pendingClassSpecs st2)" "arrived K st2 (getHash c)"
      "\<forall>q \<in> set (pendingClassSpecs st2). q = p" "arrived K st1 h \<Longrightarrow> arrived K st2 h" for h
    using st1 m c spec by (auto simp: st2_def addPending_def p_def checked_def mirrors_def growsTo_def pendingFrom_def
        arrived_def isPending_def isKnown_def)
  obtain resolved st' where st': "resolvePending K st2 = Inr (resolved, st')" "resolvedTo K R st2 st'"
    using resolvePending_ok [OF s a st2(1,3)] by blast
  have later: "arrived K st' h" if "arrived K st2 h" for h
    using that st'(2) known_extends [OF st2(1), of st' K h] by (auto simp: arrived_def resolvedTo_def isPending_def)
  have "ordered R (arrived K st1) missing"
    using st1 by (simp add: checked_def)
  then have "ordered R (arrived K st') missing"
    by (rule ordered_mono) (use later st2(6) in blast)
  moreover have "typesInfoResponse K [answer c] st = Inr (missing, resolved, st')"
    using st1 st'(1) by (simp add: typesInfoResponse_def spec checked_def st2_def p_def)
  moreover have "pendingFrom R (pendingClassSpecs st')"
    using st2(3) st'(2) by (auto simp: pendingFrom_def resolvedTo_def)
  moreover have "\<forall>q \<in> set (pendingClassSpecs st'). \<forall>h \<in> set (csr_dependentTypes q). arrived K st' h \<or> h \<in> set missing"
  proof (intro ballI)
    fix q h assume "q \<in> set (pendingClassSpecs st')" "h \<in> set (csr_dependentTypes q)"
    then have "q = p" "h \<in> set (csr_dependentTypes q)"
      using st2(5) st'(2) by (auto simp: resolvedTo_def)
    then have "h \<in> set (dependentTypeHashes c)"
      by (simp add: p_def)
    then show "arrived K st' h \<or> h \<in> set missing"
      using st1 st2(6) later by (auto simp: checked_def)
  qed
  ultimately show ?thesis
    using st1 st'(2) later [OF st2(4)] by (auto simp: checked_def resolvedTo_def)
qed

lemma types_requested:
  assumes s: "sendable K R" and a: "agreeing K R" and m: "mirrors R st" "pendingFrom R (pendingClassSpecs st)"
    and ts: "set ts \<subseteq> typesOf R" "ordered R (arrived K st) (map getHash ts)"
    and pending: "\<forall>p \<in> set (pendingClassSpecs st). \<forall>h \<in> set (csr_dependentTypes p). arrived K st h \<or> h \<in> getHash ` set ts"
  shows "\<exists>resolved st'. typesInfoResponse K (map answer ts) st = Inr ([], resolved, st')
    \<and> mirrors R st' \<and> pendingClassSpecs st' = [] \<and> (\<forall>h. arrived K st h \<longrightarrow> isKnown K st' h)"
proof -
  obtain st1 where st1: "receiveTypes K (map answer ts) [] st = Inr ([], st1)" "receipt K R st st1"
      "\<forall>t \<in> set ts. arrived K st1 (getHash t)"
    using receiveTypes_ok [OF s a m ts] by blast
  then have m1: "mirrors R st1" "pendingFrom R (pendingClassSpecs st1)"
    by (simp_all add: receipt_def)
  obtain resolved st' where st': "resolvePending K st1 = Inr (resolved, st')" "resolvedTo K R st1 st'"
      "\<forall>p \<in> set (pendingClassSpecs st'). \<not> list_all (isKnown K st') (csr_dependentTypes p)"
    using resolvePending_ok [OF s a m1] by blast
  have "settled K st1 p" if "p \<in> set (pendingClassSpecs st1)" for p
    using that st1(2,3) pending receipt_arrived [OF m(1) st1(2)] unfolding receipt_def settled_def by blast
  then have "\<forall>p \<in> set (pendingClassSpecs st'). settled K st' p"
    using settled_resolved [OF m1(1) st'(2)] st'(2) by (auto simp: resolvedTo_def)
  moreover have "pendingFrom R (pendingClassSpecs st')"
    using m1(2) st'(2) by (auto simp: pendingFrom_def resolvedTo_def)
  ultimately have none: "pendingClassSpecs st' = []"
    using none_pending [OF s _ _ st'(3)] by blast
  have "isKnown K st' h" if "arrived K st h" for h
    using receipt_arrived [OF m(1) st1(2) that] st'(2) none known_extends [OF m1(1), of st' K h]
    by (auto simp: arrived_def isPending_def resolvedTo_def)
  then show ?thesis
    using st1(1) st'(1,2) none by (auto simp: typesInfoResponse_def resolvedTo_def)
qed

text \<open>
  C17.  The exchange of types succeeds.  A process asks another one for a class and then for the types its answer says
  are missing; both requests are answered in full, no assertion fails and nothing is thrown, no third request is needed,
  no class stays pending, and the name of the class leads to a copy of the class of the sender.  The types received are
  copies throughout, so that the next class can be asked for in the same way.
\<close>

theorem class_types_negotiated:
  assumes "sendable K R" "agreeing K R" "mirrors R st" "pendingClassSpecs st = []" "c \<in> typesOf R" "isClassType c"
  shows "\<exists>first missing resolved st1 second resolved' st2.
    typesInfoRequest ns R [getHash c] = Inr (first, []) \<and> typesInfoResponse K first st = Inr (missing, resolved, st1)
    \<and> typesInfoRequest ns R missing = Inr (second, []) \<and> typesInfoResponse K second st1 = Inr ([], resolved', st2)
    \<and> pendingClassSpecs st2 = [] \<and> mirrors R st2 \<and> isKnown K st2 (getHash c) \<and> findsCopy (lookupOf K st2) c"
proof -
  obtain missing resolved st1 where st1: "typesInfoResponse K [answer c] st = Inr (missing, resolved, st1)" "mirrors R st1"
      "pendingFrom R (pendingClassSpecs st1)" "set missing \<subseteq> getHash ` typesOf R" "ordered R (arrived K st1) missing"
      "arrived K st1 (getHash c)"
      "\<forall>p \<in> set (pendingClassSpecs st1). \<forall>h \<in> set (csr_dependentTypes p). arrived K st1 h \<or> h \<in> set missing"
    using class_requested [OF assms] by blast
  have "missing \<in> map getHash ` lists (typesOf R)"
    using st1(4) by (simp flip: lists_image add: in_lists_conv_set subset_iff)
  then obtain ts where ts: "missing = map getHash ts" "set ts \<subseteq> typesOf R"
    by (auto simp: in_lists_conv_set)
  obtain resolved' st2 where st2: "typesInfoResponse K (map answer ts) st1 = Inr ([], resolved', st2)" "mirrors R st2"
      "pendingClassSpecs st2 = []" "isKnown K st2 (getHash c)"
    using types_requested [OF assms(1,2) st1(2,3) ts(2)] st1(5-7) ts(1) by auto
  have "findsCopy (lookupOf K st2) c"
    using known_found [OF assms(1,2) st2(2) assms(5) _ st2(4)] sendable_type [OF assms(1,5)] by blast
  then show ?thesis
    using request_answered [OF assms(1), of "[c]"] request_answered [OF assms(1) ts(2)] assms(5) st1(1) st2
    unfolding ts(1) by force
qed

text \<open>A class with a property of an alias type, which a process without types of its own asks for.\<close>

definition exampleRange :: Type where
  "exampleRange = AliasType 1 (TypeNames ''Range'' ''p.Range'' []) (NativeType Float64Type)"

definition exampleSonar :: Type where
  "exampleSonar = ClassType 2 (ClassSpec (TypeNames ''Sonar'' ''p.Sonar'' [])
     [PropertySpec ''range'' [] DynamicRO exampleRange Multicast [] False] [] []
     (Some (MethodSpec (CallableSpec ''create'' [] [] Confirmed) Constant (NativeType VoidType) NonPropertyRelated False False))
     [] False False)"

definition exampleSender :: Registry where
  "exampleSender = \<lparr>types = [''p.Range'' \<mapsto> exampleRange, ''p.Sonar'' \<mapsto> exampleSonar],
     typesByHash = [940565042 \<mapsto> exampleRange, 3286419056 \<mapsto> exampleSonar],
     typesInDependencyOrder = [exampleRange, exampleSonar]\<rparr>"

definition exampleReceiver :: Kernel where
  "exampleReceiver = \<lparr>kernelNs = exampleNs, kernelUnits = [], kernelTypes = emptyRegistry,
     compatibilityMode = CompatStrict, searchForTypeInRemoteParticipants = \<lambda>h. None\<rparr>"

lemma exampleSonar_walk: "iterateOverDependentTypes exampleSonar = [NativeType Float64Type, exampleRange]"
  by (simp add: exampleSonar_def exampleRange_def iterateOverDependentTypes_def classTypes_def typeDiscovered_def)

lemma exampleRange_walk: "iterateOverDependentTypes exampleRange = [NativeType Float64Type]"
  by (simp add: exampleRange_def iterateOverDependentTypes_def typeDiscovered_def)

lemma example_hashes:
  "getHash exampleRange = 940565042" "getHash exampleSonar = 3286419056"
  by (simp_all add: exampleRange_def exampleSonar_def hash_eval classHash_def propertyHash_def methodHash_def
      callableHash_def categoryValue_def transportByte_def constnessValue_def)

lemma exampleNatives_hashes: "map getHash (getNativeTypes exampleNs) =
  [94997622, 1363800459, 1913001039, 3310144965, 4263071153, 3245413124, 1913772112, 2094880674, 4171846779,
   3279924781, 271277622, 3835921985, 884267260, 1130316559]"
  by (simp add: getNativeTypes_def timestampType_def durationType_def exampleNs_def hash_eval)

lemma example_made: "madeType exampleRange" "madeType exampleSonar"
  by (simp_all add: exampleRange_def exampleSonar_def madeType_def aliasMake_def class_eval checkSpec_ok)


lemma exampleNatives_unlike:
  "find (\<lambda>t. getHash t = 940565042) (getNativeTypes exampleNs) = None"
  "find (\<lambda>t. getHash t = 3286419056) (getNativeTypes exampleNs) = None"
proof -
  have "h \<notin> getHash ` set (getNativeTypes exampleNs)" if "h = 940565042 \<or> h = 3286419056" for h
    using that unfolding set_map [symmetric] exampleNatives_hashes by auto
  then show "find (\<lambda>t. getHash t = 940565042) (getNativeTypes exampleNs) = None"
    "find (\<lambda>t. getHash t = 3286419056) (getNativeTypes exampleNs) = None"
    by (auto simp: find_None_iff)
qed

lemma example_names: "getQualifiedName exampleRange = ''p.Range''" "getQualifiedName exampleSonar = ''p.Sonar''"
  "isCustomType exampleRange" "isCustomType exampleSonar" "isClassType exampleSonar" "exampleRange \<noteq> exampleSonar"
  by (simp_all add: exampleRange_def exampleSonar_def isCustomType_def isClassType_def)

lemma exampleSender_ok: "registryOk exampleSender"
proof -
  have "deps exampleRange = [NativeType Float64Type]" "deps exampleSonar = [exampleRange]"
    by (simp_all add: exampleRange_def exampleSonar_def deps_def classTypes_def)
  then have "dependenciesFirst [exampleRange, exampleSonar]"
    by (auto simp: dependenciesFirst_def less_Suc_eq example_names isCustomType_def)
  then show ?thesis
    by (auto simp: registryOk_def exampleSender_def example_names example_hashes)
qed

lemma example_components: "components exampleRange = {NativeType Float64Type}"
  "components exampleSonar = {exampleRange, NativeType VoidType}"
  by (auto simp: exampleRange_def exampleSonar_def components_def)

lemma exampleSender_sendable: "sendable exampleReceiver exampleSender"
proof -
  have "typesOf exampleSender = {exampleRange, exampleSonar}"
    by (simp add: exampleSender_def)
  moreover have "unitListed us exampleRange" "unitListed us exampleSonar" for us
    by (simp_all add: exampleRange_def exampleSonar_def unitListed_def)
  moreover have "getName ` set (getNativeTypes exampleNs) \<inter> {''p.Range'', ''p.Sonar''} = {}"
    by (simp add: getNativeTypes_def nativeName_def timestampType_def durationType_def)
  moreover have "kernelNs exampleReceiver = exampleNs" "\<not> isCustomType (NativeType k)" for k
    by (simp_all add: exampleReceiver_def isCustomType_def)
  ultimately show ?thesis
    using exampleSender_ok example_made
    by (auto simp: sendable_def example_hashes example_names example_components exampleSonar_walk exampleRange_walk)
qed

lemma exampleReceiver_agreeing: "agreeing exampleReceiver exampleSender"
proof -
  have "typesOf exampleSender = {exampleRange, exampleSonar}"
    by (simp add: exampleSender_def)
  then show ?thesis
    by (simp add: agreeing_def exampleReceiver_def registryGetByHash_def emptyRegistry_def example_hashes exampleNatives_unlike)
qed

theorem class_types_negotiated_witness:
  "\<exists>first missing resolved st1 second resolved' st2.
    typesInfoRequest exampleNs exampleSender [getHash exampleSonar] = Inr (first, [])
    \<and> typesInfoResponse exampleReceiver first emptyRemoteTypes = Inr (missing, resolved, st1)
    \<and> typesInfoRequest exampleNs exampleSender missing = Inr (second, [])
    \<and> typesInfoResponse exampleReceiver second st1 = Inr ([], resolved', st2)
    \<and> pendingClassSpecs st2 = [] \<and> findsCopy (lookupOf exampleReceiver st2) exampleSonar"
proof -
  have "pendingClassSpecs emptyRemoteTypes = []" "exampleSonar \<in> typesOf exampleSender"
    by (simp_all add: emptyRemoteTypes_def exampleSender_def)
  from class_types_negotiated [OF exampleSender_sendable exampleReceiver_agreeing mirrors_empty this example_names(5)]
  show ?thesis
    by blast
qed

end
