(* ===== verification/Stl_Scanner.thy ===== *)
theory Stl_Scanner
  imports Stl_Token
begin

text \<open>
  The scanner of the STL language (\<^verbatim>\<open>stl_scanner.h\<close>, \<^verbatim>\<open>stl_scanner.cpp\<close>). The state is the program,
  the tokens found so far, the offset where the current token starts and the offset of the next
  character. An operation returns the new state or the exception it leaves with. The loops over
  characters are \<open>skipWhile\<close>: each of them stops at the end of the program, where \<^verbatim>\<open>peek()\<close> is the
  null character.
\<close>

section \<open>State and exceptions\<close>

record scanner =
  program :: string
  tokens :: "StlToken list"
  start :: nat
  current :: nat

text \<open>
  \<open>Reported m\<close> is what \<^verbatim>\<open>StlScanner::error(m)\<close> leaves with: it hands \<^verbatim>\<open>ErrorReporter::report\<close> an empty
  location, whose null \<^verbatim>\<open>src\<close> the report makes a \<^verbatim>\<open>std::string\<close> of, and the string's constructor
  throws \<^verbatim>\<open>std::logic_error\<close> before anything is printed. \<open>NumberOutOfRange\<close> is the
  \<^verbatim>\<open>std::out_of_range\<close> of \<^verbatim>\<open>std::stoll\<close> and \<^verbatim>\<open>std::stod\<close>, \<open>AtOutOfRange\<close> the one of \<^verbatim>\<open>std::string::at\<close>.
\<close>

datatype scan_exn =
    Reported string
  | NumberOutOfRange string
  | AtOutOfRange
  | UnknownTokenType StlTokenType
  | NotANumber string

section \<open>Characters\<close>

definition isDigit :: "char \<Rightarrow> bool" where
  "isDigit c \<longleftrightarrow> (48 :: nat) \<le> of_char c \<and> of_char c \<le> (57 :: nat)"

definition isAlpha :: "char \<Rightarrow> bool" where
  "isAlpha c \<longleftrightarrow>
     (97 :: nat) \<le> of_char c \<and> of_char c \<le> (122 :: nat) \<or>
     (65 :: nat) \<le> of_char c \<and> of_char c \<le> (90 :: nat) \<or> c = CHR ''_''"

definition isAlphaNumeric :: "char \<Rightarrow> bool" where
  "isAlphaNumeric c \<longleftrightarrow> isDigit c \<or> isAlpha c"

section \<open>Reading characters\<close>

definition atEnd :: "scanner \<Rightarrow> bool" where
  "atEnd s \<longleftrightarrow> length (program s) \<le> current s"

definition advanceChar :: "scanner \<Rightarrow> scan_exn + char \<times> scanner" where
  "advanceChar s =
     (if current s < length (program s)
      then Inr (program s ! current s, s\<lparr>current := Suc (current s)\<rparr>)
      else Inl AtOutOfRange)"

definition matchChar :: "char \<Rightarrow> scanner \<Rightarrow> bool \<times> scanner" where
  "matchChar expected s =
     (if atEnd s then (False, s)
      else if program s ! current s \<noteq> expected then (False, s)
      else (True, s\<lparr>current := Suc (current s)\<rparr>))"

definition peekChar :: "scanner \<Rightarrow> char" where
  "peekChar s = (if atEnd s then CHR 0x00 else program s ! current s)"

definition peekNextChar :: "scanner \<Rightarrow> char" where
  "peekNextChar s =
     (if length (program s) \<le> current s + 1 then CHR 0x00 else program s ! (current s + 1))"

definition skip :: "(char \<Rightarrow> bool) \<Rightarrow> scanner \<Rightarrow> scanner" where
  "skip P s = s\<lparr>current := skipWhile P (program s) (current s)\<rparr>"

section \<open>Adding tokens\<close>

definition here :: "scanner \<Rightarrow> CodeLocation" where
  "here s = \<lparr>src = Some (program s), offset = current s\<rparr>"

definition emplace :: "StlTokenType \<Rightarrow> string \<Rightarrow> Var \<Rightarrow> scanner \<Rightarrow> scanner" where
  "emplace ty lx v s =
     s\<lparr>tokens := tokens s @ [\<lparr>tokenType = ty, lexeme = lx, tokenValue = v, codeLocation = here s\<rparr>]\<rparr>"

definition lexemeMap :: "StlTokenType \<Rightarrow> string option" where
  "lexemeMap ty =
     (case ty of
        T_keywordFalse \<Rightarrow> Some ''false''
      | T_keywordTrue \<Rightarrow> Some ''true''
      | T_keywordFunction \<Rightarrow> Some ''fn''
      | T_keywordEvent \<Rightarrow> Some ''event''
      | T_keywordVar \<Rightarrow> Some ''var''
      | T_keywordAbstract \<Rightarrow> Some ''abstract''
      | T_keywordClass \<Rightarrow> Some ''class''
      | T_keywordInterface \<Rightarrow> Some ''interface''
      | T_keywordExtends \<Rightarrow> Some ''extends''
      | T_keywordImplements \<Rightarrow> Some ''implements''
      | T_keywordStruct \<Rightarrow> Some ''struct''
      | T_keywordVariant \<Rightarrow> Some ''variant''
      | T_keywordImport \<Rightarrow> Some ''import''
      | T_keywordPackage \<Rightarrow> Some ''package''
      | T_keywordEnum \<Rightarrow> Some ''enum''
      | T_keywordSequence \<Rightarrow> Some ''sequence''
      | T_keywordArray \<Rightarrow> Some ''array''
      | T_keywordQuantity \<Rightarrow> Some ''quantity''
      | T_keywordAlias \<Rightarrow> Some ''alias''
      | T_keywordOptional \<Rightarrow> Some ''optional''
      | T_keywordAnd \<Rightarrow> Some ''AND''
      | T_keywordOr \<Rightarrow> Some ''OR''
      | T_keywordNot \<Rightarrow> Some ''NOT''
      | T_keywordSelect \<Rightarrow> Some ''SELECT''
      | T_keywordWhere \<Rightarrow> Some ''WHERE''
      | T_keywordFrom \<Rightarrow> Some ''FROM''
      | T_keywordIn \<Rightarrow> Some ''IN''
      | T_keywordBetween \<Rightarrow> Some ''BETWEEN''
      | T_leftParen \<Rightarrow> Some ''(''
      | T_rightParen \<Rightarrow> Some '')''
      | T_leftBrace \<Rightarrow> Some ''{''
      | T_rightBrace \<Rightarrow> Some ''}''
      | T_leftBracket \<Rightarrow> Some ''[''
      | T_rightBracket \<Rightarrow> Some '']''
      | T_comma \<Rightarrow> Some '',''
      | T_dot \<Rightarrow> Some ''.''
      | T_colon \<Rightarrow> Some '':''
      | T_semicolon \<Rightarrow> Some '';''
      | T_minus \<Rightarrow> Some ''-''
      | T_plus \<Rightarrow> Some ''+''
      | T_star \<Rightarrow> Some ''*''
      | T_at \<Rightarrow> Some ''@''
      | T_slash \<Rightarrow> Some ''/''
      | T_bang \<Rightarrow> Some ''!''
      | T_bangEqual \<Rightarrow> Some ''!=''
      | T_equal \<Rightarrow> Some ''=''
      | T_equalEqual \<Rightarrow> Some ''==''
      | T_less \<Rightarrow> Some ''<''
      | T_lessEqual \<Rightarrow> Some ''<=''
      | T_greater \<Rightarrow> Some ''>''
      | T_greaterEqual \<Rightarrow> Some ''>=''
      | _ \<Rightarrow> None)"

definition addToken :: "StlTokenType \<Rightarrow> Var \<Rightarrow> scanner \<Rightarrow> scan_exn + scanner" where
  "addToken ty v s =
     (case lexemeMap ty of
        None \<Rightarrow> Inl (UnknownTokenType ty)
      | Some lx \<Rightarrow> Inr (emplace ty lx v s))"

section \<open>Literals, comments and identifiers\<close>

definition stringToken :: "char \<Rightarrow> scanner \<Rightarrow> scan_exn + scanner" where
  "stringToken endingChar s0 =
     (let s = skip (\<lambda>c. c \<noteq> endingChar) s0
      in if atEnd s then Inl (Reported ''Unterminated string.'')
         else rbind (advanceChar s) (\<lambda>(_, s).
           let lx = slice (program s) (start s + 1) (current s - start s - 2)
           in Inr (emplace T_string lx (VString lx) s)))"

definition isLineEnd :: "char \<Rightarrow> bool" where
  "isLineEnd c \<longleftrightarrow> c = CHR 0x0A \<or> c = CHR 0x0D"

definition isBlank :: "char \<Rightarrow> bool" where
  "isBlank c \<longleftrightarrow> c = CHR '' '' \<or> c = CHR 0x09 \<or> c = CHR 0x0A \<or> c = CHR 0x0D"

definition commentToken :: "scanner \<Rightarrow> scanner" where
  "commentToken s0 =
     (let s = skip (\<lambda>c. \<not> isLineEnd c) s0;
          lx = slice (program s) (start s + 2) (current s - start s - 2)
      in emplace T_comment (dropWhile isBlank lx) VEmpty s)"

definition ruler :: "scanner \<Rightarrow> scanner" where
  "ruler s = skip (\<lambda>c. \<not> isLineEnd c) s"

definition formatNumber :: "string \<Rightarrow> scan_exn + string" where
  "formatNumber lx =
     (let digits = dropWhile (\<lambda>c. \<not> isDigit c) lx
      in if digits = [] then Inl (NotANumber lx) else Inr digits)"

text \<open>
  \<^verbatim>\<open>std::stoll\<close> reads the digits at the front of the text and ignores what follows: the text \<^verbatim>\<open>1 23\<close> is one
  token of the value 1.
\<close>

definition stoll :: "string \<Rightarrow> scan_exn + int" where
  "stoll lx =
     (let v = digits_value (takeWhile isDigit lx) in if v < 2 ^ 63 then Inr v else Inl (NumberOutOfRange lx))"

definition stod :: "string \<Rightarrow> scan_exn + float64" where
  "stod lx = (case stod_decimal lx of None \<Rightarrow> Inl (NumberOutOfRange lx) | Some d \<Rightarrow> Inr d)"

text \<open>\<open>negative\<close> stands for \<^verbatim>\<open>Sign::negative\<close>.\<close>

definition number :: "bool \<Rightarrow> scanner \<Rightarrow> scan_exn + scanner" where
  "number negative s0 =
     (let s = skip isDigit (skip (\<lambda>c. c = CHR '' '') s0)
      in if peekChar s = CHR ''.'' \<and> isDigit (peekNextChar s)
         then rbind (advanceChar s) (\<lambda>(_, s).
                let s = skip isDigit s
                in rbind (formatNumber (slice (program s) (start s) (current s - start s))) (\<lambda>lx.
                   rbind (stod lx) (\<lambda>v.
                     Inr (if negative then emplace T_real (CHR ''-'' # lx) (VFloat64 (f64_uminus v)) s
                          else emplace T_real lx (VFloat64 v) s))))
         else rbind (formatNumber (slice (program s) (start s) (current s - start s))) (\<lambda>lx.
              rbind (stoll lx) (\<lambda>v.
                Inr (if negative
                     then emplace T_integral (CHR ''-'' # lx) (VInt64 (word_of_int (- v))) s
                     else emplace T_integral lx (VInt64 (word_of_int v)) s))))"

definition identifierMap :: "(string \<times> StlTokenType) list" where
  "identifierMap =
     [(''AND'', T_keywordAnd),
      (''OR'', T_keywordOr),
      (''fn'', T_keywordFunction),
      (''event'', T_keywordEvent),
      (''var'', T_keywordVar),
      (''abstract'', T_keywordAbstract),
      (''class'', T_keywordClass),
      (''interface'', T_keywordInterface),
      (''extends'', T_keywordExtends),
      (''implements'', T_keywordImplements),
      (''struct'', T_keywordStruct),
      (''variant'', T_keywordVariant),
      (''optional'', T_keywordOptional),
      (''import'', T_keywordImport),
      (''package'', T_keywordPackage),
      (''enum'', T_keywordEnum),
      (''sequence'', T_keywordSequence),
      (''array'', T_keywordArray),
      (''quantity'', T_keywordQuantity),
      (''alias'', T_keywordAlias),
      (''SELECT'', T_keywordSelect),
      (''FROM'', T_keywordFrom),
      (''WHERE'', T_keywordWhere),
      (''BETWEEN'', T_keywordBetween),
      (''IN'', T_keywordIn),
      (''NOT'', T_keywordNot)]"

definition identifierToken :: "scanner \<Rightarrow> scanner" where
  "identifierToken s =
     (let lx = slice (program s) (start s) (current s - start s)
      in if lx = ''true'' then emplace T_keywordTrue lx (VBool True) s
         else if lx = ''false'' then emplace T_keywordFalse lx (VBool False) s
         else case map_of identifierMap lx of
                None \<Rightarrow> emplace T_identifier lx (VString lx) s
              | Some ty \<Rightarrow> emplace ty lx (VString lx) s)"

definition scanIdentifier :: "scanner \<Rightarrow> scan_exn + scanner" where
  "scanIdentifier s = Inr (identifierToken (skip isAlphaNumeric s))"

section \<open>One token\<close>

text \<open>The lexemes of one or two characters: \<open>ty\<close> when \<^verbatim>\<open>=\<close> follows, \<open>ty'\<close> otherwise.\<close>

definition twoChars :: "StlTokenType \<Rightarrow> StlTokenType \<Rightarrow> scanner \<Rightarrow> scan_exn + scanner" where
  "twoChars ty ty' s0 =
     (let (eq, s) = matchChar (CHR ''='') s0
      in if eq then addToken ty VEmpty s else addToken ty' VEmpty s)"

definition slashToken :: "scanner \<Rightarrow> scan_exn + scanner" where
  "slashToken s0 =
     (let (slash, s1) = matchChar (CHR ''/'') s0
      in if \<not> slash then addToken T_slash VEmpty s1
         else let (dash, s2) = matchChar (CHR ''-'') s1
              in if dash \<and> peekChar s2 = CHR ''-'' then Inr (ruler s2)
                 else let (blank, s3) = matchChar (CHR '' '') s2
                      in if blank \<and> peekChar s3 = CHR ''-'' \<and> peekNextChar s3 = CHR ''-''
                         then Inr (ruler s3) else Inr (commentToken s3))"

definition scanToken :: "scanner \<Rightarrow> scan_exn + scanner" where
  "scanToken s0 =
     rbind (advanceChar s0) (\<lambda>(c, s).
         if c = CHR ''('' then addToken T_leftParen VEmpty s
         else if c = CHR '')'' then addToken T_rightParen VEmpty s
         else if c = CHR ''{'' then addToken T_leftBrace VEmpty s
         else if c = CHR ''}'' then addToken T_rightBrace VEmpty s
         else if c = CHR ''['' then addToken T_leftBracket VEmpty s
         else if c = CHR '']'' then addToken T_rightBracket VEmpty s
         else if c = CHR '','' then addToken T_comma VEmpty s
         else if c = CHR ''.'' then addToken T_dot VEmpty s
         else if c = CHR ''-'' then
           (if isDigit (peekChar s) then number True s else addToken T_minus VEmpty s)
         else if c = CHR ''+'' then addToken T_plus VEmpty s
         else if c = CHR '';'' then addToken T_semicolon VEmpty s
         else if c = CHR '':'' then addToken T_colon VEmpty s
         else if c = CHR ''*'' then addToken T_star VEmpty s
         else if c = CHR ''@'' then addToken T_at VEmpty s
         else if c = CHR ''!'' then twoChars T_bangEqual T_bang s
         else if c = CHR ''='' then twoChars T_equalEqual T_equal s
         else if c = CHR ''<'' then twoChars T_lessEqual T_less s
         else if c = CHR ''>'' then twoChars T_greaterEqual T_greater s
         else if c = CHR ''/'' then slashToken s
         else if c \<in> {CHR '' '', CHR 0x0D, CHR 0x09, CHR 0x0A} then Inr s
         else if c = CHR 0x22 then stringToken (CHR 0x22) s
         else if c = CHR 0x27 then stringToken (CHR 0x27) s
         else if isDigit c then number False s
         else if isAlpha c then scanIdentifier s
         else Inl (Reported ''unexpected character''))"

section \<open>What one step does to the state\<close>

text \<open>
  \<open>stepped s s'\<close>: the offset did not go back and did not leave the program, and at most one token
  was added, of a kind other than the end-of-file and the error kind, located at the new offset;
  a number's lexeme reads as a number.
\<close>

definition stepped :: "scanner \<Rightarrow> scanner \<Rightarrow> bool" where
  "stepped s s' \<longleftrightarrow>
     program s' = program s \<and> start s' = start s \<and> current s \<le> current s' \<and>
     (current s \<le> length (program s) \<longrightarrow> current s' \<le> length (program s)) \<and>
     (tokens s' = tokens s \<or>
      (\<exists>t. tokens s' = tokens s @ [t] \<and> tokenType t \<notin> {T_endOfFile, T_unknown} \<and>
           codeLocation t = here s' \<and> numericLexeme t \<and> plainValue (tokenValue t)))"

definition moved :: "scanner \<Rightarrow> scanner \<Rightarrow> bool" where
  "moved s s' \<longleftrightarrow>
     program s' = program s \<and> start s' = start s \<and> tokens s' = tokens s \<and>
     current s \<le> current s' \<and>
     (current s \<le> length (program s) \<longrightarrow> current s' \<le> length (program s))"

lemma moved_refl [simp]: "moved s s"
  by (simp add: moved_def)

lemma moved_skip: "moved s t \<Longrightarrow> moved s (skip P t)"
  by (auto simp: moved_def skip_def skipWhile_le intro: le_trans [OF _ skipWhile_ge])

lemma advanceChar_InrD:
  "advanceChar s = Inr (c, s') \<Longrightarrow>
     c = program s ! current s \<and> s' = s\<lparr>current := Suc (current s)\<rparr> \<and>
     current s < length (program s)"
  by (auto simp: advanceChar_def split: if_splits)

lemma moved_advance: "moved s t \<Longrightarrow> advanceChar t = Inr (c, u) \<Longrightarrow> moved s u"
  by (drule advanceChar_InrD) (auto simp: moved_def)

lemma moved_match: "moved s t \<Longrightarrow> matchChar c t = (b, u) \<Longrightarrow> moved s u"
  by (auto simp: moved_def matchChar_def atEnd_def split: if_splits)

lemma moved_skip_refl [simp]: "moved s (skip P s)"
  by (rule moved_skip) simp

lemma moved_skip_advance: "advanceChar (skip P s) = Inr (c, u) \<Longrightarrow> moved s u"
  by (rule moved_advance [OF moved_skip_refl])

lemma moved_stepped: "moved s t \<Longrightarrow> stepped s t"
  by (simp add: moved_def stepped_def)

lemma moved_stepped_trans: "moved s t \<Longrightarrow> stepped t u \<Longrightarrow> stepped s u"
  by (auto simp: moved_def stepped_def)

abbreviation plainKind :: "StlTokenType \<Rightarrow> bool" where
  "plainKind ty \<equiv> ty \<notin> {T_endOfFile, T_unknown, T_real, T_integral}"

lemma stepped_emplace:
  "moved s t \<Longrightarrow> plainKind ty \<Longrightarrow> plainValue v \<Longrightarrow> stepped s (emplace ty lx v t)"
  by (simp add: moved_def stepped_def emplace_def here_def numericLexeme_def)

lemmas moved_intros = moved_refl moved_skip moved_advance moved_match

lemma lexemeMap_kind: "lexemeMap ty = Some lx \<Longrightarrow> plainKind ty"
  by (auto simp: lexemeMap_def)

lemma stepped_addToken: "moved s t \<Longrightarrow> addToken ty VEmpty t = Inr s' \<Longrightarrow> stepped s s'"
  by (auto simp: addToken_def split: option.splits dest!: lexemeMap_kind intro: stepped_emplace)

lemma stepped_stringToken: "stringToken c s = Inr s' \<Longrightarrow> stepped s s'"
  by (auto simp: stringToken_def Let_def rbind_Inr_conv split: if_splits
      intro!: stepped_emplace dest: moved_skip_advance)

lemma stepped_commentToken: "moved s t \<Longrightarrow> stepped s (commentToken t)"
  by (auto simp: commentToken_def Let_def intro!: stepped_emplace intro: moved_skip)

text \<open>
  Where a number starts: after a digit or a minus sign. Between there and the end of an integer are
  only blanks and digits, so the lexeme has no point and reads as a number.
\<close>

definition atNumber :: "scanner \<Rightarrow> bool" where
  "atNumber s \<longleftrightarrow>
     current s = Suc (start s) \<and> current s \<le> length (program s) \<and>
     program s ! start s \<noteq> CHR ''.''"

lemma skip_simps [simp]:
  "program (skip P s) = program s" "tokens (skip P s) = tokens s" "start (skip P s) = start s"
  by (simp_all add: skip_def)

lemma integerText:
  assumes "atNumber s" "t = skip isDigit (skip (\<lambda>c. c = CHR '' '') s)"
  shows "CHR ''.'' \<notin> set (slice (program t) (start t) (current t - start t))"
proof
  assume "CHR ''.'' \<in> set (slice (program t) (start t) (current t - start t))"
  then obtain n where "n < current t - start s" "program s ! (start s + n) = CHR ''.''"
    using assms(2) by (auto simp: slice_def in_set_conv_nth)
  then obtain i where i: "start s \<le> i" "i < current t" "program s ! i = CHR ''.''"
    by (intro that [of "start s + n"]) auto
  with assms(1) have "current s \<le> i" by (auto simp: atNumber_def le_less Suc_le_eq)
  let ?k = "skipWhile (\<lambda>c. c = CHR '' '') (program s) (current s)"
  have "i < skipWhile isDigit (program s) ?k" using i(2) assms(2) by (simp add: skip_def)
  then have "isDigit (CHR ''.'') \<or> CHR ''.'' = CHR '' ''"
    using skipWhile_all [of ?k i isDigit "program s"] i(3)
      skipWhile_all [OF \<open>current s \<le> i\<close>, of "\<lambda>c. c = CHR '' ''" "program s"]
    by (cases "?k \<le> i") auto
  then show False by (simp add: isDigit_def)
qed

lemma formatNumber_digit:
  assumes "formatNumber lx = Inr ds"
  shows "takeWhile isDigit ds \<noteq> [] \<and> set ds \<subseteq> set lx"
proof -
  from assms have "ds = dropWhile (\<lambda>c. \<not> isDigit c) lx" "ds \<noteq> []"
    by (auto simp: formatNumber_def Let_def split: if_splits)
  then show ?thesis
    using hd_dropWhile [of "\<lambda>c. \<not> isDigit c" lx]
    by (auto simp: takeWhile_eq_Nil_iff dest: set_dropWhileD)
qed

lemma isDigit_eq: "isDigit = decimalDigit"
  by (simp add: fun_eq_iff isDigit_def decimalDigit_def)

lemma stod_signed_sign:
  assumes "takeWhile isDigit lx \<noteq> []"
  shows "stod_signed (if neg then CHR ''-'' # lx else lx) = None \<longleftrightarrow> stod_decimal lx = None"
  using assms by (cases lx) (auto simp: stod_signed_def isDigit_def split: if_splits)

lemma stepped_number:
  assumes "number neg s = Inr s'" "atNumber s"
  shows "stepped s s'"
proof -
  define t where "t = skip isDigit (skip (\<lambda>c. c = CHR '' '') s)"
  have t: "moved s t" by (simp add: t_def moved_skip)
  have "\<exists>u ty lx v. moved s u \<and> ty \<in> {T_real, T_integral} \<and> s' = emplace ty lx v u \<and>
      stod_signed lx \<noteq> None \<and> plainValue v"
  proof (cases "peekChar t = CHR ''.'' \<and> isDigit (peekNextChar t)")
    case True
    then obtain c u lx v where u: "advanceChar t = Inr (c, u)"
        "s' = emplace T_real (if neg then CHR ''-'' # lx else lx)
                (VFloat64 (if neg then f64_uminus v else v)) (skip isDigit u)"
        and lx: "\<exists>text. formatNumber text = Inr lx" "stod lx = Inr v"
      using assms(1) by (cases neg) (fastforce simp: number_def Let_def t_def [symmetric] rbind_Inr_conv)+
    have "stod_signed (if neg then CHR ''-'' # lx else lx) \<noteq> None"
      using lx stod_signed_sign [of lx neg]
      by (auto simp: stod_def dest: formatNumber_digit split: option.splits)
    then show ?thesis using t u plainValue.simps by (blast intro: moved_skip moved_advance)
  next
    case False
    then obtain lx v where s': "s' = emplace T_integral (if neg then CHR ''-'' # lx else lx)
                (VInt64 (word_of_int (if neg then - v else v))) t"
        and lx: "formatNumber (slice (program t) (start t) (current t - start t)) = Inr lx"
          "stoll lx = Inr v"
      using assms(1) by (cases neg) (auto simp: number_def Let_def t_def [symmetric] rbind_Inr_conv)
    have "takeWhile isDigit lx \<noteq> []" "CHR ''.'' \<notin> set lx"
      using formatNumber_digit [OF lx(1)] integerText [OF assms(2) t_def] by auto
    then have "stod_signed (if neg then CHR ''-'' # lx else lx) \<noteq> None"
      using lx(2) stod_decimal_integer [of lx] stod_signed_sign [of lx neg]
      by (auto simp: stoll_def Let_def isDigit_eq split: if_splits)
    then show ?thesis using t s' plainValue.simps by blast
  qed
  then show ?thesis
    by (auto simp: moved_def stepped_def emplace_def here_def numericLexeme_def)
qed

lemma identifierMap_kind:
  "map_of identifierMap lx = Some ty \<Longrightarrow> plainKind ty \<and> ty \<noteq> T_identifier"
  by (auto simp: identifierMap_def split: if_splits)

lemma stepped_scanIdentifier: "scanIdentifier s = Inr s' \<Longrightarrow> stepped s s'"
  by (auto simp: scanIdentifier_def identifierToken_def Let_def 
      split: option.splits if_splits dest: identifierMap_kind intro!: stepped_emplace)

lemma stepped_twoChars: "twoChars ty ty' s = Inr s' \<Longrightarrow> stepped s s'"
  by (auto simp: twoChars_def Let_def split: prod.splits if_splits
      elim!: stepped_addToken [rotated] intro: moved_intros)

lemma stepped_slashToken:
  assumes "slashToken s = Inr s'"
  shows "stepped s s'"
proof -
  obtain b1 s1 where s1: "matchChar (CHR ''/'') s = (b1, s1)" by fastforce
  obtain b2 s2 where s2: "matchChar (CHR ''-'') s1 = (b2, s2)" by fastforce
  obtain b3 s3 where s3: "matchChar (CHR '' '') s2 = (b3, s3)" by fastforce
  have m1: "moved s s1" using s1 by (rule moved_match [OF moved_refl])
  have m2: "moved s s2" using m1 s2 by (rule moved_match)
  have m3: "moved s s3" using m2 s3 by (rule moved_match)
  show ?thesis
    using assms m1 m2 m3
    by (auto simp: slashToken_def ruler_def s1 s2 s3 split: if_splits
        elim: stepped_addToken [rotated] intro: stepped_commentToken moved_stepped moved_skip)
qed

lemmas stepped_ops =
  stepped_addToken [OF moved_refl] stepped_stringToken stepped_number stepped_scanIdentifier
  stepped_twoChars stepped_slashToken

text \<open>Every token the scanner tries to take consumes at least one character.\<close>

lemma scanToken_progress:
  assumes "scanToken s = Inr s'" "start s = current s"
  shows "stepped (s\<lparr>current := Suc (current s)\<rparr>) s' \<and> current s < length (program s)"
proof -
  from assms obtain c s1 where adv: "advanceChar s = Inr (c, s1)"
    by (auto simp: scanToken_def rbind_Inr_conv)
  note s1 = advanceChar_InrD [OF adv]
  have "stepped s1 s'"
  proof (cases "c = CHR ''.''")
    case True
    then show ?thesis
      using assms(1) by (simp add: scanToken_def adv stepped_addToken [OF moved_refl])
  next
    case False
    then have "atNumber s1" using s1 assms(2) by (simp add: atNumber_def)
    then show ?thesis
      using assms(1) unfolding scanToken_def adv rbind_simps prod.case
      by (elim if_eqE) (auto dest: stepped_ops simp: moved_stepped)
  qed
  with s1 show ?thesis by simp
qed

section \<open>The whole program\<close>

function scanLoop :: "scanner \<Rightarrow> scan_exn + scanner" where
  "scanLoop s =
     (if atEnd s then Inr s else rbind (scanToken (s\<lparr>start := current s\<rparr>)) scanLoop)"
  by pat_completeness auto
termination
proof (relation "measure (\<lambda>s. length (program s) - current s)", simp)
  fix s s' assume "\<not> atEnd s" "scanToken (s\<lparr>start := current s\<rparr>) = Inr s'"
  from scanToken_progress [OF this(2)] this(1)
  show "(s', s) \<in> measure (\<lambda>s. length (program s) - current s)"
    by (auto simp: stepped_def)
qed

declare scanLoop.simps [simp del]

definition initScanner :: "string \<Rightarrow> scanner" where
  "initScanner prog = \<lparr>program = prog, tokens = [], start = 0, current = 0\<rparr>"

definition scanTokens :: "string \<Rightarrow> scan_exn + StlToken list" where
  "scanTokens prog =
     rbind (scanLoop (initScanner prog)) (\<lambda>s.
       Inr (tokens s @ [\<lparr>tokenType = T_endOfFile, lexeme = [], tokenValue = VEmpty,
                         codeLocation = here s\<rparr>]))"

section \<open>Invariant\<close>

text \<open>
  The tokens found so far: their offsets grow strictly and do not pass the scanner's, they point
  into the scanned program, and none is of the end-of-file or the error kind.
\<close>

definition scannerOk :: "scanner \<Rightarrow> bool" where
  "scannerOk s \<longleftrightarrow>
     current s \<le> length (program s) \<and>
     sorted_wrt (<) (map (offset \<circ> codeLocation) (tokens s)) \<and>
     (\<forall>t \<in> set (tokens s).
        tokenType t \<notin> {T_endOfFile, T_unknown} \<and> src (codeLocation t) = Some (program s) \<and>
        0 < offset (codeLocation t) \<and> offset (codeLocation t) \<le> current s \<and> numericLexeme t \<and>
        plainValue (tokenValue t))"

lemma scannerOk_init [simp]: "scannerOk (initScanner prog)"
  by (simp add: scannerOk_def initScanner_def)

lemma scannerOk_scanToken:
  assumes "scannerOk s" "scanToken (s\<lparr>start := current s\<rparr>) = Inr s'"
  shows "scannerOk s'"
proof -
  note prog = scanToken_progress [OF assms(2)]
  then have cur: "current s < current s'" "current s' \<le> length (program s)"
      and same: "program s' = program s"
    by (auto simp: stepped_def)
  from prog consider "tokens s' = tokens s"
    | t where "tokens s' = tokens s @ [t]" "tokenType t \<notin> {T_endOfFile, T_unknown}"
        "codeLocation t = here s'" "numericLexeme t" "plainValue (tokenValue t)"
    by (auto simp: stepped_def)
  then show ?thesis
  proof cases
    case 1
    with assms(1) cur same show ?thesis by (auto simp: scannerOk_def)
  next
    case 2
    with assms(1) cur same show ?thesis
      by (fastforce simp: scannerOk_def sorted_wrt_append here_def)
  qed
qed

lemma scanLoop_ok:
  "scannerOk s \<Longrightarrow> scanLoop s = Inr s' \<Longrightarrow>
     scannerOk s' \<and> program s' = program s \<and> current s' = length (program s)"
proof (induction s rule: scanLoop.induct)
  case (1 s)
  show ?case
  proof (cases "atEnd s")
    case True
    with 1 show ?thesis
      by (auto simp: scanLoop.simps [of s] atEnd_def scannerOk_def)
  next
    case False
    with "1.prems"(2) obtain s1 where s1: "scanToken (s\<lparr>start := current s\<rparr>) = Inr s1"
        and rest: "scanLoop s1 = Inr s'"
      by (auto simp: scanLoop.simps [of s] rbind_Inr_conv)
    have "scannerOk s1" using "1.prems"(1) s1 by (rule scannerOk_scanToken)
    with "1.IH" [OF False s1] rest have
      "scannerOk s' \<and> program s' = program s1 \<and> current s' = length (program s1)" by blast
    moreover have "program s1 = program s"
      using scanToken_progress [OF s1] by (simp add: stepped_def)
    ultimately show ?thesis by simp
  qed
qed

lemma scanTokens_shape:
  assumes "scanTokens prog = Inr ts"
  shows "\<exists>s. scannerOk s \<and> program s = prog \<and> current s = length prog \<and>
     ts = tokens s @ [\<lparr>tokenType = T_endOfFile, lexeme = [], tokenValue = VEmpty,
                       codeLocation = \<lparr>src = Some prog, offset = length prog\<rparr>\<rparr>]"
proof -
  from assms obtain s where s: "scanLoop (initScanner prog) = Inr s"
    and ts: "ts = tokens s @ [\<lparr>tokenType = T_endOfFile, lexeme = [], tokenValue = VEmpty,
                       codeLocation = here s\<rparr>]"
    by (auto simp: scanTokens_def rbind_Inr_conv)
  have "scannerOk s \<and> program s = program (initScanner prog) \<and>
      current s = length (program (initScanner prog))"
    by (rule scanLoop_ok [OF scannerOk_init s])
  then show ?thesis using ts by (auto simp: here_def initScanner_def)
qed

lemma scanTokens_wf: "scanTokens prog = Inr ts \<Longrightarrow> wfTokens ts"
  by (drule scanTokens_shape) (auto simp: wfTokens_def scannerOk_def)

text \<open>A program without null characters scans to a token list the parser can read.\<close>

lemma scanTokens_readable:
  assumes "scanTokens prog = Inr ts" "CHR 0x00 \<notin> set prog"
  shows "readableTokens prog ts"
  using scanTokens_wf [OF assms(1)] scanTokens_shape [OF assms(1)] assms(2)
  by (auto simp: readableTokens_def locatedIn_def scannerOk_def numericLexeme_def)

interpretation stl_scanner: token_source scanTokens
  by unfold_locales (rule scanTokens_readable)

section \<open>Errors\<close>

text \<open>
  The errors that can reach the caller: an error the scanner reports itself, and a literal too large
  for its type. The other exceptions of the model stand for checks of the library calls and never
  happen.
\<close>

definition lexicalError :: "scan_exn \<Rightarrow> bool" where
  "lexicalError e \<longleftrightarrow> (\<exists>m. e = Reported m) \<or> (\<exists>lx. e = NumberOutOfRange lx)"

lemma addToken_Inl: "addToken ty v s = Inl e \<Longrightarrow> lexemeMap ty = None"
  by (auto simp: addToken_def split: option.splits)

lemma advanceChar_InlD: "advanceChar s = Inl e \<Longrightarrow> atEnd s"
  by (auto simp: advanceChar_def atEnd_def split: if_splits)

lemma lexicalError_stringToken: "stringToken c s = Inl e \<Longrightarrow> lexicalError e"
  by (auto simp: stringToken_def Let_def rbind_Inl_conv lexicalError_def split: if_splits
      dest: advanceChar_InlD)

lemma lexicalError_twoChars:
  "twoChars ty ty' s = Inl e \<Longrightarrow> lexemeMap ty \<noteq> None \<Longrightarrow> lexemeMap ty' \<noteq> None \<Longrightarrow> lexicalError e"
  by (auto simp: twoChars_def split: prod.splits if_splits dest: addToken_Inl)

lemma lexicalError_slashToken: "slashToken s = Inl e \<Longrightarrow> lexicalError e"
  by (auto simp: slashToken_def Let_def split: prod.splits if_splits dest!: addToken_Inl)
    (simp add: lexemeMap_def)

lemma formatNumber_InrI: "c \<in> set lx \<Longrightarrow> isDigit c \<Longrightarrow> \<exists>ds. formatNumber lx = Inr ds"
  by (auto simp: formatNumber_def Let_def)

text \<open>There is a digit to read: the one the token starts with, or the one after the sign.\<close>

definition digitAhead :: "scanner \<Rightarrow> bool" where
  "digitAhead s \<longleftrightarrow>
     start s < current s \<and> current s \<le> length (program s) \<and>
     (isDigit (program s ! start s) \<or> isDigit (peekChar s))"

lemma digitAhead_text:
  assumes "digitAhead s" "current (skip isDigit (skip (\<lambda>c. c = CHR '' '') s)) \<le> k"
  shows "\<exists>ds. formatNumber (slice (program s) (start s) (k - start s)) = Inr ds"
proof -
  let ?t = "skip isDigit (skip (\<lambda>c. c = CHR '' '') s)"
  have cur: "current s \<le> current ?t"
    using moved_skip [OF moved_skip_refl] by (simp add: moved_def)
  have "\<exists>i. start s \<le> i \<and> i < k \<and> i < length (program s) \<and> isDigit (program s ! i)"
  proof (cases "isDigit (program s ! start s)")
    case True
    with assms cur show ?thesis by (intro exI [of _ "start s"]) (auto simp: digitAhead_def)
  next
    case False
    with assms(1) have d: "isDigit (program s ! current s)" "current s < length (program s)"
      by (auto simp: digitAhead_def peekChar_def atEnd_def isDigit_def split: if_splits)
    then have "skip (\<lambda>c. c = CHR '' '') s = s"
      by (auto simp: skip_def skipWhile.simps [of _ "program s" "current s"] isDigit_def)
    then have "Suc (current s) \<le> current ?t"
      using d skipWhile_ge [of "Suc (current s)" isDigit "program s"]
      by (simp add: skip_def skipWhile.simps [of _ "program s" "current s"])
    with assms d show ?thesis by (intro exI [of _ "current s"]) (auto simp: digitAhead_def)
  qed
  then obtain i where i: "start s \<le> i" "i < k" "i < length (program s)" "isDigit (program s ! i)"
    by blast
  then have "program s ! i = slice (program s) (start s) (k - start s) ! (i - start s)"
      "i - start s < length (slice (program s) (start s) (k - start s))"
    by (auto simp: slice_def)
  then show ?thesis using i(4) by (metis formatNumber_InrI nth_mem)
qed

lemma lexicalError_number:
  assumes "number neg s = Inl e" "digitAhead s"
  shows "lexicalError e"
proof -
  define t where "t = skip isDigit (skip (\<lambda>c. c = CHR '' '') s)"
  have st: "program t = program s" "start t = start s" by (simp_all add: t_def)
  have fmt: "\<exists>ds. formatNumber (slice (program s) (start s) (k - start s)) = Inr ds"
    if "current t \<le> k" for k
    using digitAhead_text [OF assms(2)] that by (simp add: t_def)
  show ?thesis
  proof (cases "peekChar t = CHR ''.'' \<and> isDigit (peekNextChar t)")
    case True
    then have "\<not> atEnd t" by (auto simp: peekChar_def split: if_splits)
    then have adv: "advanceChar t = Inr (program t ! current t, t\<lparr>current := Suc (current t)\<rparr>)"
      by (simp add: advanceChar_def atEnd_def)
    have "current t \<le> current (skip isDigit (t\<lparr>current := Suc (current t)\<rparr>))"
      using skipWhile_ge [of "Suc (current t)" isDigit "program t"] by (simp add: skip_def)
    from fmt [OF this] obtain ds where
      "formatNumber (slice (program s) (start s)
         (current (skip isDigit (t\<lparr>current := Suc (current t)\<rparr>)) - start s)) = Inr ds" ..
    then show ?thesis
      using assms(1) True adv st
      by (auto simp: number_def Let_def t_def [symmetric] stod_def lexicalError_def
          split: option.splits if_splits)
  next
    case False
    from fmt [OF order_refl] obtain ds where
      "formatNumber (slice (program s) (start s) (current t - start s)) = Inr ds" ..
    then show ?thesis
      using assms(1) False st
      by (auto simp: number_def Let_def t_def [symmetric] stoll_def lexicalError_def split: if_splits)
  qed
qed

lemma lexicalError_scanToken:
  assumes "scanToken s = Inl e" "start s = current s" "\<not> atEnd s"
  shows "lexicalError e"
proof -
  from assms(3) obtain c s1 where adv: "advanceChar s = Inr (c, s1)"
    by (auto simp: advanceChar_def atEnd_def)
  note s1 = advanceChar_InrD [OF adv]
  then have dig: "isDigit c \<or> isDigit (peekChar s1) \<Longrightarrow> digitAhead s1"
    using assms(2) by (auto simp: digitAhead_def)
  have ident: "scanIdentifier s1 \<noteq> Inl e" by (simp add: scanIdentifier_def)
  show ?thesis
    using assms(1) dig ident unfolding scanToken_def adv rbind_simps prod.case
    by (auto split: if_splits dest!: addToken_Inl
        dest: lexicalError_stringToken lexicalError_slashToken lexicalError_twoChars
          lexicalError_number simp: lexemeMap_def lexicalError_def)
qed

lemma scanLoop_errors: "scanLoop s = Inl e \<Longrightarrow> lexicalError e"
proof (induction s rule: scanLoop.induct)
  case (1 s)
  show ?case
  proof (cases "atEnd s")
    case True
    with "1.prems" show ?thesis by (simp add: scanLoop.simps [of s])
  next
    case False
    with "1.prems" 1 show ?thesis
      using lexicalError_scanToken [of "s\<lparr>start := current s\<rparr>"]
      by (auto simp: scanLoop.simps [of s] rbind_Inl_conv atEnd_def)
  qed
qed

lemma scanTokens_errors: "scanTokens prog = Inl e \<Longrightarrow> lexicalError e"
  by (auto simp: scanTokens_def rbind_Inl_conv dest: scanLoop_errors)

section \<open>Properties\<close>

text \<open>
  C16. The tokens of a program without null characters are what the parser relies on: one end-of-file
  token, the last one; every token located inside the program; a number's lexeme readable by \<^verbatim>\<open>std::stod\<close>;
  values of the types the compiler accepts. Their offsets grow strictly, so the tokens stand in the
  order of the program.
\<close>

theorem scanner_keeps_contract:
  assumes "scanTokens prog = Inr ts" "CHR 0x00 \<notin> set prog"
  shows "readableTokens prog ts \<and> sorted_wrt (<) (map (offset \<circ> codeLocation) (butlast ts))"
  using scanTokens_readable [OF assms] scanTokens_shape [OF assms(1)] by (auto simp: scannerOk_def)

theorem scanner_keeps_contract_witness:
  "\<exists>ts. scanTokens ''(-1'' = Inr ts \<and> readableTokens ''(-1'' ts \<and> length ts = 3"
proof -
  have three: "case scanTokens ''(-1'' of Inl _ \<Rightarrow> False | Inr ts \<Rightarrow> length ts = 3" by code_simp
  then obtain ts where "scanTokens ''(-1'' = Inr ts" by (cases "scanTokens ''(-1''") simp_all
  with scanner_keeps_contract [OF this] three show ?thesis by simp
qed

text \<open>
  Scanning a program fails only with an error the scanner reports itself (an unterminated string,
  an unexpected character) or with the range error of a literal: no index is out of range, no token
  kind lacks a lexeme and no number lacks a digit.
\<close>

theorem scanner_failures:
  assumes "scanTokens prog = Inl e"
  shows "(\<exists>m. e = Reported m) \<or> (\<exists>lx. e = NumberOutOfRange lx)"
  using scanTokens_errors [OF assms] by (simp add: lexicalError_def)

theorem scanner_failures_witness:
  "scanTokens ''a#'' = Inl (Reported ''unexpected character'') \<and>
   ((\<exists>m. Reported ''unexpected character'' = Reported m) \<or>
    (\<exists>lx. Reported ''unexpected character'' = NumberOutOfRange lx))"
proof -
  have "scanTokens ''a#'' = Inl (Reported ''unexpected character'')" by code_simp
  with scanner_failures [OF this] show ?thesis by blast
qed

end
