(* ===== verification/Stl_Ast.thy ===== *)
theory Stl_Ast
  imports Stl_Token
begin

text \<open>
  The syntax trees of the STL language: the expressions of a query (\<^verbatim>\<open>stl_expression.h\<close>) and the
  statements of a type definition file (\<^verbatim>\<open>stl_statement.h\<close>), one record or constructor per structure
  of the source. A field is named after its structure because the names of the source repeat.
\<close>

section \<open>Expressions\<close>

datatype StlUnaryOperator = UnLogicalNot | UnNegate

datatype StlBinaryOperator =
    BinAdd | BinSubtract | BinMultiply | BinDivide | BinLt | BinLe | BinGt | BinGe | BinEq | BinNe

datatype StlLogicalOperator = LogicalAnd | LogicalOr

text \<open>
  \<^verbatim>\<open>StlExpr\<close> with the alternatives of \<^verbatim>\<open>StlExprVal\<close>: nothing, a literal token, a unary operation, a
  binary operation, a group, a logical operation, a variable (its path and its dotted name), a
  \<^verbatim>\<open>BETWEEN\<close> (with its \<^verbatim>\<open>notBetween\<close> flag) and an \<^verbatim>\<open>IN\<close> (with its \<^verbatim>\<open>notIn\<close> flag).
\<close>

datatype StlExpr =
    EMonostate
  | ELiteral StlToken
  | EUnary StlUnaryOperator StlExpr
  | EBinary StlExpr StlBinaryOperator StlExpr
  | EGrouping StlExpr
  | ELogical StlExpr StlLogicalOperator StlExpr
  | EVariable "StlToken list" string
  | EBetween StlExpr StlExpr StlExpr bool
  | EIn StlExpr "StlExpr list" bool

section \<open>Queries\<close>

record StlTypeNameStatement =
  typeName_path :: "StlToken list"
  typeName_qualifiedName :: string

record BusNameStatement =
  busName_session :: StlToken
  busName_bus :: StlToken

record QueryStatement =
  query_type :: "StlTypeNameStatement option"
  query_bus :: BusNameStatement
  query_condition :: "StlExpr option"

section \<open>Declarations\<close>

record StlImportStatement =
  import_fileName :: StlToken

record StlPackageStatement =
  package_path :: "StlToken list"

record StlAttribute =
  attribute_name :: StlToken
  attribute_value :: StlToken

type_synonym StlAttributeList = "StlAttribute list"

record StlStructFieldStatement =
  structField_typeName :: StlTypeNameStatement
  structField_identifier :: StlToken
  structField_description :: "StlToken list"

record StlStructStatement =
  struct_identifier :: StlToken
  struct_description :: "StlToken list"
  struct_parentStructName :: "StlTypeNameStatement option"
  struct_fields :: "StlStructFieldStatement list"

record StlEnumeratorStatement =
  enumerator_identifier :: StlToken
  enumerator_description :: "StlToken list"
  enumerator_attributes :: StlAttributeList

record StlEnumStatement =
  enum_identifier :: StlToken
  enum_description :: "StlToken list"
  enum_storageTypeName :: StlTypeNameStatement
  enum_enumerators :: "StlEnumeratorStatement list"

record StlVariantElement =
  variantElement_typeName :: StlTypeNameStatement
  variantElement_description :: "StlToken list"

record StlVariantStatement =
  variant_identifier :: StlToken
  variant_description :: "StlToken list"
  variant_elements :: "StlVariantElement list"

record StlQuantityStatement =
  quantity_identifier :: StlToken
  quantity_description :: "StlToken list"
  quantity_valueTypeName :: StlTypeNameStatement
  quantity_unitName :: "StlToken option"
  quantity_attributes :: "StlAttributeList option"

record StlSequenceStatement =
  sequence_identifier :: StlToken
  sequence_description :: "StlToken list"
  sequence_elementTypeName :: StlTypeNameStatement
  sequence_maxSize :: "StlToken option"
  sequence_attributes :: "StlAttributeList option"

record StlArrayStatement =
  array_identifier :: StlToken
  array_description :: "StlToken list"
  array_elementTypeName :: StlTypeNameStatement
  array_size :: StlToken
  array_attributes :: "StlAttributeList option"

record StlTypeAliasStatement =
  alias_identifier :: StlToken
  alias_typeName :: StlTypeNameStatement
  alias_description :: "StlToken list"

record StlOptionalTypeStatement =
  optional_identifier :: StlToken
  optional_typeName :: StlTypeNameStatement
  optional_description :: "StlToken list"

record StlArgStatement =
  arg_identifier :: StlToken
  arg_typeName :: StlTypeNameStatement
  arg_description :: "StlToken list"

record StlVarStatement =
  var_identifier :: StlToken
  var_defaultValue :: StlToken
  var_description :: "StlToken list"
  var_attributes :: StlAttributeList
  var_typeName :: StlTypeNameStatement

record StlFunctionStatement =
  function_identifier :: StlToken
  function_description :: "StlToken list"
  function_attributes :: StlAttributeList
  function_returnTypeName :: StlTypeNameStatement
  function_arguments :: "StlArgStatement list"

record StlEventStatement =
  event_identifier :: StlToken
  event_description :: "StlToken list"
  event_attributes :: StlAttributeList
  event_arguments :: "StlArgStatement list"

record StlInterfaceStatement =
  interface_identifier :: StlToken
  interface_description :: "StlToken list"
  interface_properties :: "StlVarStatement list"
  interface_functions :: "StlFunctionStatement list"
  interface_events :: "StlEventStatement list"

record StlClassStatement =
  class_isAbstract :: bool
  class_members :: StlInterfaceStatement
  class_extends :: StlTypeNameStatement
  class_implements :: "StlTypeNameStatement list"

datatype (plugins only: code size) StlStatement =
    SNone
  | SImport StlImportStatement
  | SPackage StlPackageStatement
  | SStruct StlStructStatement
  | SEnum StlEnumStatement
  | SVariant StlVariantStatement
  | SSequence StlSequenceStatement
  | SArray StlArrayStatement
  | SQuantity StlQuantityStatement
  | STypeAlias StlTypeAliasStatement
  | SOptionalType StlOptionalTypeStatement
  | SClass StlClassStatement
  | SInterface StlInterfaceStatement

end
