(* ===== verification/Stl_Parser_State.thy ===== *)
theory Stl_Parser_State
  imports Stl_Ast "HOL-Library.List_Lexorder" "HOL-Library.Char_ord"
begin

text \<open>
  The state of the STL parser (\<^verbatim>\<open>stl_parser.h\<close>) and the operations every production is made of: a
  parser is a function from the parser's state to its result and the new state, or to the exception
  it leaves with. The text that \<^verbatim>\<open>error\<close> prints through \<^verbatim>\<open>ErrorReporter\<close> is not modelled; the message
  of the exception is.
\<close>

section \<open>State, exceptions and sequencing\<close>

record parser =
  toks :: "StlToken list"
  pos :: nat
  previousComment :: "StlToken list"

text \<open>
  \<open>TokenOutOfRange\<close> is the \<^verbatim>\<open>std::out_of_range\<close> of \<^verbatim>\<open>tokens_.at\<close>, \<open>SourceOutOfRange\<close> the one of
  \<^verbatim>\<open>std::string_view::substr\<close>, \<open>NullSource\<close> the use of a token without a source, \<open>StodOutOfRange\<close> the one
  of \<^verbatim>\<open>std::stod\<close>. \<open>FuelExhausted\<close> is not behaviour of the code: a bounded loop of the model ran out of
  its bound.
\<close>

datatype parse_exn =
    ParseError string
  | TokenOutOfRange
  | SourceOutOfRange
  | NullSource
  | StodOutOfRange
  | FuelExhausted

type_synonym 'a parse = "parser \<Rightarrow> parse_exn + 'a \<times> parser"

definition pret :: "'a \<Rightarrow> 'a parse" where
  "pret x s = Inr (x, s)"

definition pthrow :: "parse_exn \<Rightarrow> 'a parse" where
  "pthrow e s = Inl e"

definition pbind :: "'a parse \<Rightarrow> ('a \<Rightarrow> 'b parse) \<Rightarrow> 'b parse" where
  "pbind p f s = rbind (p s) (\<lambda>(x, s'). f x s')"

text \<open>A loop: the body says whether to go round again. Every turn spends one unit of fuel.\<close>

fun ploop :: "nat \<Rightarrow> ('b \<Rightarrow> (bool \<times> 'b) parse) \<Rightarrow> 'b \<Rightarrow> 'b parse" where
  "ploop 0 body x s = Inl FuelExhausted"
| "ploop (Suc n) body x s =
     rbind (body x s) (\<lambda>((again, x'), s'). if again then ploop n body x' s' else Inr (x', s'))"

text \<open>The number of tokens from the current one on.\<close>

definition remaining :: "parser \<Rightarrow> nat" where
  "remaining s = length (toks s) - pos s"

text \<open>
  The loops of the parser consume a token in every turn but the last, so one more turn than there
  are tokens left is enough.
\<close>

definition loop :: "('b \<Rightarrow> (bool \<times> 'b) parse) \<Rightarrow> 'b \<Rightarrow> 'b parse" where
  "loop body x s = ploop (Suc (remaining s)) body x s"

section \<open>Looking at tokens\<close>

definition tokenAt :: "nat \<Rightarrow> StlToken parse" where
  "tokenAt i s = (if i < length (toks s) then Inr (toks s ! i, s) else Inl TokenOutOfRange)"

definition peek :: "StlToken parse" where
  "peek s = tokenAt (pos s) s"

definition peekNext :: "StlToken parse" where
  "peekNext s =
     (if length (toks s) \<le> pos s + 1 then Inr (defaultToken, s) else tokenAt (pos s + 1) s)"

text \<open>At position 0 the index \<^verbatim>\<open>current_ - 1U\<close> wraps around and is out of range.\<close>

definition previous :: "StlToken parse" where
  "previous s = (if pos s = 0 then Inl TokenOutOfRange else tokenAt (pos s - 1) s)"

definition isAtEnd :: "bool parse" where
  "isAtEnd = pbind peek (\<lambda>t. pret (tokenType t = T_endOfFile))"

definition advance :: "StlToken parse" where
  "advance = pbind isAtEnd (\<lambda>end s. previous (if end then s else s\<lparr>pos := Suc (pos s)\<rparr>))"

definition check :: "StlTokenType \<Rightarrow> bool parse" where
  "check ty = pbind isAtEnd (\<lambda>end.
     if end then pret False else pbind peek (\<lambda>t. pret (tokenType t = ty)))"

fun matchAny :: "StlTokenType list \<Rightarrow> bool parse" where
  "matchAny [] = pret False"
| "matchAny (ty # tys) = pbind (check ty) (\<lambda>b.
     if b then pbind advance (\<lambda>_. pret True) else matchAny tys)"

definition parseError :: "string \<Rightarrow> 'a parse" where
  "parseError m = pthrow (ParseError m)"

definition consume :: "StlTokenType \<Rightarrow> string list \<Rightarrow> StlToken parse" where
  "consume ty message = pbind (check ty) (\<lambda>b.
     if b then advance else pbind peek (\<lambda>_. parseError (concat message)))"

section \<open>Comments\<close>

definition getPreviousComment :: "StlToken list parse" where
  "getPreviousComment s = Inr (previousComment s, s)"

definition setPreviousComment :: "StlToken list \<Rightarrow> unit parse" where
  "setPreviousComment c s = Inr ((), s\<lparr>previousComment := c\<rparr>)"

text \<open>
  The text between two offsets of the source of the current token. The source is a C string: it
  stops at its first null character. A length that would be negative wraps around and takes all of
  the rest.
\<close>

definition sourceRange :: "nat \<Rightarrow> nat \<Rightarrow> string parse" where
  "sourceRange startOffset endOffset = pbind peek (\<lambda>t.
     case src (codeLocation t) of
       None \<Rightarrow> pthrow NullSource
     | Some text \<Rightarrow>
         (let view = takeWhile (\<lambda>c. c \<noteq> CHR 0x00) text
          in if length view < startOffset then pthrow SourceOutOfRange
             else if endOffset < startOffset then pret (drop startOffset view)
             else pret (slice view startOffset (endOffset - startOffset))))"

definition containsNewLine :: "nat \<Rightarrow> nat \<Rightarrow> bool parse" where
  "containsNewLine startOffset endOffset =
     pbind (sourceRange startOffset endOffset) (\<lambda>text. pret (CHR 0x0A \<in> set text))"

definition containsBlankLine :: "nat \<Rightarrow> nat \<Rightarrow> bool parse" where
  "containsBlankLine startOffset endOffset =
     pbind (sourceRange startOffset endOffset) (\<lambda>text. pret (1 < count_list text (CHR 0x0A)))"

abbreviation tokenOffset :: "StlToken \<Rightarrow> nat" where
  "tokenOffset t \<equiv> offset (codeLocation t)"

definition collectAttachedComments :: "StlToken list \<Rightarrow> StlToken list parse" where
  "collectAttachedComments = loop (\<lambda>bucket. pbind (check T_comment) (\<lambda>c.
     if \<not> c then pret (False, bucket)
     else pbind (consume T_comment [''expecting comment'']) (\<lambda>next.
       if bucket = [] then pret (True, [next])
       else pbind (containsBlankLine (tokenOffset (last bucket)) (tokenOffset next)) (\<lambda>blank.
         pret (True, if blank then [next] else bucket @ [next])))))"

text \<open>The loop \<^verbatim>\<open>while (check(comment)) previousComment_.push_back(consume(comment))\<close>.\<close>

definition collectPreviousComments :: "unit parse" where
  "collectPreviousComments = pbind (setPreviousComment []) (\<lambda>_. loop (\<lambda>_. pbind (check T_comment) (\<lambda>c.
     if \<not> c then pret (False, ())
     else pbind (consume T_comment [''expecting comment'']) (\<lambda>t.
       pbind getPreviousComment (\<lambda>cs.
       pbind (setPreviousComment (cs @ [t])) (\<lambda>_. pret (True, ())))))) ())"

text \<open>
  The comment that may follow a declaration in its line: it is appended to the description. The
  flag says whether there was one.
\<close>

definition inlineComment :: "StlToken list \<Rightarrow> (bool \<times> StlToken list) parse" where
  "inlineComment description = pbind previous (\<lambda>prev. pbind (check T_comment) (\<lambda>c.
     if \<not> c then pret (False, description)
     else pbind peek (\<lambda>next. pbind (containsNewLine (tokenOffset prev) (tokenOffset next)) (\<lambda>nl.
       if nl then pret (False, description)
       else pbind (consume T_comment [''Expecting inline comment.'']) (\<lambda>t.
         pret (True, description @ [t]))))))"

section \<open>Reserved words\<close>

definition reservedWords :: "string list" where
  "reservedWords =
     [''alignas'', ''alignof'', ''and'', ''and_eq'', ''asm'', ''atomic_cancel'',
      ''atomic_commit'', ''atomic_noexcept'', ''auto'', ''bitand'', ''bitor'', ''bool'',
      ''break'', ''case'', ''catch'', ''char'', ''char8_t'', ''char16_t'', ''char32_t'',
      ''class'', ''compl'', ''concept'', ''const'', ''consteval'', ''constexpr'',
      ''constinit'', ''const_cast'', ''continue'', ''contract_assert'', ''co_await'',
      ''co_return'', ''co_yield'', ''decltype'', ''default'', ''delete'', ''do'',
      ''double'', ''dynamic_cast'', ''else'', ''enum'', ''explicit'', ''export'',
      ''extern'', ''false'', ''float'', ''for'', ''friend'', ''goto'', ''if'', ''inline'',
      ''int'', ''long'', ''mutable'', ''namespace'', ''new'', ''noexcept'', ''not'',
      ''not_eq'', ''nullptr'', ''operator'', ''or'', ''or_eq'', ''private'',
      ''protected'', ''public'', ''reflexpr'', ''register'', ''reinterpret_cast'',
      ''requires'', ''return'', ''short'', ''signed'', ''sizeof'', ''static'',
      ''static_assert'', ''static_cast'', ''struct'', ''switch'', ''synchronized'',
      ''template'', ''this'', ''thread_local'', ''throw'', ''true'', ''try'', ''typedef'',
      ''typeid'', ''typename'', ''union'', ''unsigned'', ''using'', ''virtual'', ''void'',
      ''volatile'', ''wchar_t'', ''while'', ''xor'', ''xor_eq'', ''final'', ''override'',
      ''transaction_safe'', ''transaction_safe_dynamic'', ''import'', ''pre'', ''post'',
      ''trivially_relocatable_if_eligible'', ''replaceable_if_eligible'', ''_Pragma'']"

definition checkNotReserved :: "StlToken \<Rightarrow> unit parse" where
  "checkNotReserved token =
     (if lexeme token \<in> set reservedWords then parseError ''usage of reserved word'' else pret ())"

section \<open>Reasoning about parsers\<close>

text \<open>
  \<open>ptriple P p Q\<close>: from a state in \<open>P\<close> the parser ends in \<open>Q\<close> or with a parse error, never with one
  of the other exceptions.
\<close>

definition inputError :: "parse_exn \<Rightarrow> bool" where
  "inputError e \<longleftrightarrow> (\<exists>m. e = ParseError m)"

definition ptriple :: "(parser \<Rightarrow> bool) \<Rightarrow> 'a parse \<Rightarrow> ('a \<Rightarrow> parser \<Rightarrow> bool) \<Rightarrow> bool" where
  "ptriple P p Q \<longleftrightarrow>
     (\<forall>s. P s \<longrightarrow> (case p s of Inl e \<Rightarrow> inputError e | Inr (x, s') \<Rightarrow> Q x s'))"

text \<open>The state reads the token list \<open>ts\<close> and stands at position \<open>k\<close> or later.\<close>

definition onTrack :: "string \<Rightarrow> StlToken list \<Rightarrow> nat \<Rightarrow> parser \<Rightarrow> bool" where
  "onTrack prog ts k s \<longleftrightarrow>
     readableTokens prog ts \<and> toks s = ts \<and> pos s < length ts \<and> k \<le> pos s \<and>
     set (previousComment s) \<subseteq> set ts"

lemma ptripleI:
  "(\<And>s. P s \<Longrightarrow> (case p s of Inl e \<Rightarrow> inputError e | Inr (x, s') \<Rightarrow> Q x s')) \<Longrightarrow> ptriple P p Q"
  by (simp add: ptriple_def)

lemma ptriple_Inr: "ptriple P p Q \<Longrightarrow> P s \<Longrightarrow> p s = Inr (x, s') \<Longrightarrow> Q x s'"
  by (fastforce simp: ptriple_def)

lemma ptriple_Inl: "ptriple P p Q \<Longrightarrow> P s \<Longrightarrow> p s = Inl e \<Longrightarrow> inputError e"
  by (fastforce simp: ptriple_def)

lemma pt_bind:
  assumes "ptriple P p R" "\<And>x. ptriple (R x) (f x) Q"
  shows "ptriple P (pbind p f) Q"
proof (rule ptripleI)
  fix s assume s: "P s"
  show "case pbind p f s of Inl e \<Rightarrow> inputError e | Inr (x, s') \<Rightarrow> Q x s'"
  proof (cases "p s")
    case (Inl e)
    then show ?thesis using ptriple_Inl [OF assms(1) s] by (simp add: pbind_def)
  next
    case (Inr r)
    obtain x s' where r: "r = (x, s')" by fastforce
    have "R x s'" using ptriple_Inr [OF assms(1) s] Inr r by simp
    then show ?thesis using assms(2) [of x] Inr r by (simp add: pbind_def ptriple_def)
  qed
qed

lemma pt_weaken: "ptriple P p Q \<Longrightarrow> (\<And>x s. Q x s \<Longrightarrow> Q' x s) \<Longrightarrow> ptriple P p Q'"
  by (fastforce simp: ptriple_def split: sum.splits)

lemma pt_pre: "ptriple P p Q \<Longrightarrow> (\<And>s. P' s \<Longrightarrow> P s) \<Longrightarrow> ptriple P' p Q"
  by (fastforce simp: ptriple_def)

lemma pt_pre_conj: "(A \<Longrightarrow> ptriple P p Q) \<Longrightarrow> ptriple (\<lambda>s. P s \<and> A) p Q"
  by (fastforce simp: ptriple_def)

lemma pt_if:
  "(b \<Longrightarrow> ptriple P p Q) \<Longrightarrow> (\<not> b \<Longrightarrow> ptriple P q Q) \<Longrightarrow> ptriple P (if b then p else q) Q"
  by simp

lemma pt_prod:
  "(\<And>a b. x = (a, b) \<Longrightarrow> ptriple P (f a b) Q) \<Longrightarrow> ptriple P (case x of (a, b) \<Rightarrow> f a b) Q"
  by (simp split: prod.splits)

lemma onTrack_mono: "onTrack prog ts k s \<Longrightarrow> k' \<le> k \<Longrightarrow> onTrack prog ts k' s"
  by (simp add: onTrack_def)

lemma pt_ret:
  "k' \<le> k \<Longrightarrow> ptriple (onTrack prog ts k) (pret x) (\<lambda>_. onTrack prog ts k')"
  by (auto simp: ptriple_def pret_def elim: onTrack_mono)

lemma pt_ret_loop:
  "(if again then Suc k0 else k0) \<le> k \<Longrightarrow>
     ptriple (onTrack prog ts k) (pret (again, x))
       (\<lambda>r. onTrack prog ts (if fst r then Suc k0 else k0))"
  by (auto simp: ptriple_def pret_def elim: onTrack_mono)

lemma pt_tail:
  "ptriple P p (\<lambda>_. onTrack prog ts k) \<Longrightarrow> k' \<le> k \<Longrightarrow> ptriple P p (\<lambda>_. onTrack prog ts k')"
  by (erule pt_weaken) (rule onTrack_mono)

lemma pt_error: "ptriple P (parseError m) Q"
  by (simp add: ptriple_def parseError_def pthrow_def inputError_def)

lemma tokenAt_onTrack:
  "onTrack prog ts k s \<Longrightarrow> i < length ts \<Longrightarrow> tokenAt i s = Inr (ts ! i, s)"
  by (simp add: onTrack_def tokenAt_def)

lemma peek_onTrack: "onTrack prog ts k s \<Longrightarrow> peek s = Inr (ts ! pos s, s)"
  by (simp add: onTrack_def tokenAt_def peek_def)

lemma previous_onTrack: "onTrack prog ts (Suc k) s \<Longrightarrow> previous s = Inr (ts ! (pos s - 1), s)"
  by (auto simp: onTrack_def tokenAt_def previous_def)

lemma isAtEnd_onTrack:
  "onTrack prog ts k s \<Longrightarrow> isAtEnd s = Inr (tokenType (ts ! pos s) = T_endOfFile, s)"
  by (simp add: isAtEnd_def pbind_def peek_onTrack pret_def)

lemma check_onTrack:
  "onTrack prog ts k s \<Longrightarrow>
     check ty s = Inr (tokenType (ts ! pos s) = ty \<and> ty \<noteq> T_endOfFile, s)"
  by (auto simp: check_def pbind_def peek_onTrack isAtEnd_onTrack pret_def)

text \<open>Only the last token is the end-of-file token, so a parser can step over any other one.\<close>

lemma onTrack_step:
  assumes "onTrack prog ts k s" "tokenType (ts ! pos s) \<noteq> T_endOfFile"
  shows "onTrack prog ts (Suc k) (s\<lparr>pos := Suc (pos s)\<rparr>)"
proof -
  have "pos s \<noteq> length ts - 1"
  proof
    assume "pos s = length ts - 1"
    then have "ts ! pos s = last ts"
      using assms(1) by (simp add: onTrack_def readableTokens_def wfTokens_def last_conv_nth)
    then show False
      using assms by (simp add: onTrack_def readableTokens_def wfTokens_def)
  qed
  then show ?thesis using assms(1) by (auto simp: onTrack_def)
qed

lemma advance_onTrack:
  assumes "onTrack prog ts k s" "tokenType (ts ! pos s) \<noteq> T_endOfFile"
  shows "advance s = Inr (ts ! pos s, s\<lparr>pos := Suc (pos s)\<rparr>)"
  using onTrack_step [OF assms] assms
  by (simp add: advance_def pbind_def isAtEnd_onTrack previous_onTrack)

lemma pt_peek: "ptriple (onTrack prog ts k) peek (\<lambda>_. onTrack prog ts k)"
  by (rule ptripleI) (simp add: peek_onTrack)

lemma pt_peekNext: "ptriple (onTrack prog ts k) peekNext (\<lambda>_. onTrack prog ts k)"
  by (rule ptripleI) (auto simp: peekNext_def tokenAt_onTrack onTrack_def tokenAt_def)

lemma pt_previous_token:
  "ptriple (onTrack prog ts (Suc k)) previous (\<lambda>t s. onTrack prog ts (Suc k) s \<and> t \<in> set ts)"
  by (rule ptripleI) (auto simp: previous_onTrack onTrack_def)

lemma pt_previous: "ptriple (onTrack prog ts (Suc k)) previous (\<lambda>_. onTrack prog ts (Suc k))"
  by (rule pt_weaken [OF pt_previous_token]) simp

lemma pt_isAtEnd: "ptriple (onTrack prog ts k) isAtEnd (\<lambda>_. onTrack prog ts k)"
  by (rule ptripleI) (simp add: isAtEnd_onTrack)

lemma pt_check: "ptriple (onTrack prog ts k) (check ty) (\<lambda>_. onTrack prog ts k)"
  by (rule ptripleI) (simp add: check_onTrack)

lemma pt_consume_token:
  "ptriple (onTrack prog ts k) (consume ty m) (\<lambda>t s. onTrack prog ts (Suc k) s \<and> t \<in> set ts)"
proof (rule ptripleI)
  fix s assume s: "onTrack prog ts k s"
  show "case consume ty m s of Inl e \<Rightarrow> inputError e
        | Inr (t, s') \<Rightarrow> onTrack prog ts (Suc k) s' \<and> t \<in> set ts"
  proof (cases "tokenType (ts ! pos s) = ty \<and> ty \<noteq> T_endOfFile")
    case True
    then have "consume ty m s = Inr (ts ! pos s, s\<lparr>pos := Suc (pos s)\<rparr>)"
      using s by (simp add: consume_def pbind_def check_onTrack advance_onTrack [OF s])
    moreover have "ts ! pos s \<in> set ts" using s by (simp add: onTrack_def)
    ultimately show ?thesis using True onTrack_step [OF s] by simp
  next
    case False
    then have "consume ty m s = Inl (ParseError (concat m))"
      using s by (auto simp: consume_def pbind_def check_onTrack peek_onTrack parseError_def pthrow_def)
    then show ?thesis by (simp add: inputError_def)
  qed
qed

lemma pt_consume: "ptriple (onTrack prog ts k) (consume ty m) (\<lambda>_. onTrack prog ts (Suc k))"
  by (rule pt_weaken [OF pt_consume_token]) simp

lemma pt_matchAny:
  "ptriple (onTrack prog ts k) (matchAny tys) (\<lambda>b. onTrack prog ts (if b then Suc k else k))"
proof (induction tys)
  case Nil
  show ?case by (rule ptripleI) (simp add: pret_def)
next
  case (Cons ty tys)
  show ?case
  proof (rule ptripleI)
    fix s assume s: "onTrack prog ts k s"
    show "case matchAny (ty # tys) s of Inl e \<Rightarrow> inputError e
          | Inr (b, s') \<Rightarrow> onTrack prog ts (if b then Suc k else k) s'"
    proof (cases "tokenType (ts ! pos s) = ty \<and> ty \<noteq> T_endOfFile")
      case True
      then show ?thesis
        using s onTrack_step [OF s]
        by (simp add: pbind_def check_onTrack advance_onTrack [OF s] pret_def)
    next
      case False
      then have "matchAny (ty # tys) s = matchAny tys s"
        using s by (auto simp: pbind_def check_onTrack)
      then show ?thesis using Cons s by (simp add: ptriple_def)
    qed
  qed
qed

declare matchAny.simps [simp del]

lemma pt_match:
  assumes "ptriple (onTrack prog ts (Suc k)) p Q" "ptriple (onTrack prog ts k) q Q"
  shows "ptriple (onTrack prog ts k) (pbind (matchAny tys) (\<lambda>b. if b then p else q)) Q"
proof (rule pt_bind [OF pt_matchAny])
  fix b
  show "ptriple (onTrack prog ts (if b then Suc k else k)) (if b then p else q) Q"
    using assms by simp
qed

lemma pt_match_ignore:
  assumes "ptriple (onTrack prog ts k) p Q"
  shows "ptriple (onTrack prog ts k) (pbind (matchAny tys) (\<lambda>_. p)) Q"
proof (rule pt_bind [OF pt_matchAny])
  fix b
  show "ptriple (onTrack prog ts (if b then Suc k else k)) p Q"
    by (rule pt_pre [OF assms]) (auto elim: onTrack_mono)
qed

text \<open>After a match, the previous token is of one of the kinds asked for.\<close>

lemma matchAny_onTrack:
  assumes "onTrack prog ts k s" "T_endOfFile \<notin> set tys"
  shows "matchAny tys s =
     (if tokenType (ts ! pos s) \<in> set tys then Inr (True, s\<lparr>pos := Suc (pos s)\<rparr>) else Inr (False, s))"
  using assms
proof (induction tys)
  case Nil
  then show ?case by (simp add: matchAny.simps pret_def)
next
  case (Cons ty tys)
  show ?case
  proof (cases "tokenType (ts ! pos s) = ty")
    case True
    then show ?thesis
      using Cons.prems advance_onTrack [OF Cons.prems(1)]
      by (auto simp: matchAny.simps pbind_def check_onTrack pret_def)
  next
    case False
    then show ?thesis
      using Cons by (simp add: matchAny.simps pbind_def check_onTrack)
  qed
qed

lemma pt_match_previous:
  assumes "\<And>t. t \<in> set ts \<Longrightarrow> tokenType t \<in> set tys \<Longrightarrow> ptriple (onTrack prog ts (Suc k)) (f t) Q"
    "ptriple (onTrack prog ts k) q Q" "T_endOfFile \<notin> set tys"
  shows "ptriple (onTrack prog ts k)
     (pbind (matchAny tys) (\<lambda>b. if b then pbind previous f else q)) Q"
proof (rule ptripleI)
  fix s assume s: "onTrack prog ts k s"
  show "case pbind (matchAny tys) (\<lambda>b. if b then pbind previous f else q) s of
      Inl e \<Rightarrow> inputError e | Inr (x, s') \<Rightarrow> Q x s'"
  proof (cases "tokenType (ts ! pos s) \<in> set tys")
    case True
    then have eof: "tokenType (ts ! pos s) \<noteq> T_endOfFile" using assms(3) by auto
    have "ts ! pos s \<in> set ts" using s by (simp add: onTrack_def)
    then show ?thesis
      using True matchAny_onTrack [OF s assms(3)] onTrack_step [OF s eof] assms(1) [of "ts ! pos s"]
      by (simp add: pbind_def previous_onTrack [OF onTrack_step [OF s eof]] ptriple_def)
  next
    case False
    then show ?thesis
      using matchAny_onTrack [OF s assms(3)] assms(2) s by (simp add: pbind_def ptriple_def)
  qed
qed

text \<open>
  A loop whose body advances whenever it goes round again never runs out of fuel; the invariant
  \<open>J\<close> is about the value the loop carries, and \<open>R\<close> about what every turn leaves.
\<close>

lemma pt_loop_post:
  assumes body: "\<And>x j. J x \<Longrightarrow> k \<le> j \<Longrightarrow> ptriple (onTrack prog ts j) (body x)
      (\<lambda>r s'. onTrack prog ts (if fst r then Suc j else j) s' \<and> J (snd r) \<and> R (snd r))"
    and "J x"
  shows "ptriple (onTrack prog ts k) (loop body x) (\<lambda>y s'. onTrack prog ts k s' \<and> R y)"
proof (rule ptripleI)
  fix s assume s: "onTrack prog ts k s"
  have "case ploop n body x s of Inl e \<Rightarrow> inputError e
        | Inr (y, s') \<Rightarrow> onTrack prog ts (pos s) s' \<and> R y"
    if "onTrack prog ts (pos s) s" "J x" "length ts - pos s < n" "k \<le> pos s" for n x s
    using that
  proof (induction n arbitrary: x s)
    case 0
    then show ?case by simp
  next
    case (Suc n)
    show ?case
    proof (cases "body x s")
      case (Inl e)
      then show ?thesis
        using ptriple_Inl [OF body [OF Suc.prems(2,4)] Suc.prems(1)] by simp
    next
      case (Inr r)
      then obtain again x' s' where b: "body x s = Inr ((again, x'), s')"
        by (metis prod.collapse)
      have s': "onTrack prog ts (if again then Suc (pos s) else pos s) s'" and J: "J x'" "R x'"
        using ptriple_Inr [OF body [OF Suc.prems(2,4)] Suc.prems(1) b] by auto
      show ?thesis
      proof (cases again)
        case True
        with s' have "pos s < pos s'" "pos s' < length ts" by (auto simp: onTrack_def)
        moreover from s' True have "onTrack prog ts (pos s') s'" by (simp add: onTrack_def)
        ultimately have "case ploop n body x' s' of Inl e \<Rightarrow> inputError e
            | Inr (y, s'') \<Rightarrow> onTrack prog ts (pos s') s'' \<and> R y"
          using Suc.IH [OF _ J(1)] Suc.prems(3,4) by simp
        then show ?thesis
          using b True \<open>pos s < pos s'\<close>
          by (auto split: sum.splits elim: onTrack_mono)
      next
        case False
        then show ?thesis using b s' J by simp
      qed
    qed
  qed
  note this [of s x "Suc (remaining s)"]
  moreover have "onTrack prog ts (pos s) s" "remaining s = length ts - pos s" "k \<le> pos s"
    using s by (auto simp: onTrack_def remaining_def)
  ultimately show "case loop body x s of Inl e \<Rightarrow> inputError e
      | Inr (y, s') \<Rightarrow> onTrack prog ts k s' \<and> R y"
    using assms(2) by (auto simp: loop_def split: sum.splits elim: onTrack_mono)
qed

lemma pt_loop_inv:
  assumes "\<And>x j. J x \<Longrightarrow> k \<le> j \<Longrightarrow> ptriple (onTrack prog ts j) (body x)
      (\<lambda>r s'. onTrack prog ts (if fst r then Suc j else j) s' \<and> J (snd r))"
    and "J x"
  shows "ptriple (onTrack prog ts k) (loop body x) (\<lambda>y s'. onTrack prog ts k s' \<and> J y)"
  using assms by (intro pt_loop_post [where J = J]) auto

lemma pt_loop:
  assumes "\<And>x k. ptriple (onTrack prog ts k) (body x)
      (\<lambda>r. onTrack prog ts (if fst r then Suc k else k))"
  shows "ptriple (onTrack prog ts k) (loop body x) (\<lambda>_. onTrack prog ts k)"
  using pt_loop_inv [where J = "\<lambda>_. True" and body = body and x = x] assms by simp

text \<open>The comment operations: the offsets they compare lie in the program.\<close>

lemma pt_getPreviousComment:
  "ptriple (onTrack prog ts k) getPreviousComment
     (\<lambda>cs s. onTrack prog ts k s \<and> set cs \<subseteq> set ts)"
  by (rule ptripleI) (simp add: getPreviousComment_def onTrack_def)

lemma pt_setPreviousComment:
  "set cs \<subseteq> set ts \<Longrightarrow>
     ptriple (onTrack prog ts k) (setPreviousComment cs) (\<lambda>_. onTrack prog ts k)"
  by (rule ptripleI) (simp add: setPreviousComment_def onTrack_def)

lemma takeWhile_all: "x \<notin> set xs \<Longrightarrow> takeWhile (\<lambda>c. c \<noteq> x) xs = xs"
  by (induction xs) auto

lemma pt_sourceRange:
  assumes "t \<in> set ts"
  shows "ptriple (onTrack prog ts k) (sourceRange (tokenOffset t) e) (\<lambda>_. onTrack prog ts k)"
proof (rule ptripleI)
  fix s assume s: "onTrack prog ts k s"
  then have nz: "CHR 0x00 \<notin> set prog" and loc: "locatedIn prog t" "locatedIn prog (ts ! pos s)"
    using assms by (auto simp: onTrack_def readableTokens_def)
  then show "case sourceRange (tokenOffset t) e s of Inl e \<Rightarrow> inputError e
      | Inr (x, s') \<Rightarrow> onTrack prog ts k s'"
    using s by (auto simp: sourceRange_def pbind_def peek_onTrack locatedIn_def takeWhile_all
        pret_def Let_def)
qed

lemma pt_containsNewLine:
  "t \<in> set ts \<Longrightarrow>
     ptriple (onTrack prog ts k) (containsNewLine (tokenOffset t) e) (\<lambda>_. onTrack prog ts k)"
  unfolding containsNewLine_def by (rule pt_bind [OF pt_sourceRange]) (simp_all add: pt_ret)

lemma pt_containsBlankLine:
  "t \<in> set ts \<Longrightarrow>
     ptriple (onTrack prog ts k) (containsBlankLine (tokenOffset t) e) (\<lambda>_. onTrack prog ts k)"
  unfolding containsBlankLine_def by (rule pt_bind [OF pt_sourceRange]) (simp_all add: pt_ret)

lemma pt_checkNotReserved:
  "ptriple (onTrack prog ts k) (checkNotReserved t) (\<lambda>_. onTrack prog ts k)"
  unfolding checkNotReserved_def by (rule pt_if) (simp_all add: pt_error pt_ret)

lemma pt_ret_inv:
  "J x \<Longrightarrow> (if again then Suc k0 else k0) \<le> k \<Longrightarrow>
     ptriple (onTrack prog ts k) (pret (again, x))
       (\<lambda>r s. onTrack prog ts (if fst r then Suc k0 else k0) s \<and> J (snd r))"
  by (auto simp: ptriple_def pret_def elim: onTrack_mono)

lemma pt_collectAttachedComments:
  assumes "set cs \<subseteq> set ts"
  shows "ptriple (onTrack prog ts k) (collectAttachedComments cs)
     (\<lambda>ds s. onTrack prog ts k s \<and> set ds \<subseteq> set ts)"
  unfolding collectAttachedComments_def
proof (rule pt_loop_inv [where J = "\<lambda>ds. set ds \<subseteq> set ts", OF _ assms])
  fix bucket :: "StlToken list" and k assume b: "set bucket \<subseteq> set ts"
  then have last: "bucket \<noteq> [] \<Longrightarrow> last bucket \<in> set ts" by auto
  show "ptriple (onTrack prog ts k)
     (pbind (check T_comment) (\<lambda>c. if \<not> c then pret (False, bucket)
       else pbind (consume T_comment [''expecting comment'']) (\<lambda>next.
         if bucket = [] then pret (True, [next])
         else pbind (containsBlankLine (tokenOffset (last bucket)) (tokenOffset next)) (\<lambda>blank.
           pret (True, if blank then [next] else bucket @ [next])))))
     (\<lambda>r s'. onTrack prog ts (if fst r then Suc k else k) s' \<and> set (snd r) \<subseteq> set ts)"
    using b last
    by (auto intro!: pt_bind [OF pt_check] pt_if pt_bind [OF pt_consume_token] pt_pre_conj
        pt_ret_inv [where J = "\<lambda>ds. set ds \<subseteq> set ts"] pt_bind [OF pt_containsBlankLine]
        split: if_splits)
qed

lemma pt_collectPreviousComments:
  "ptriple (onTrack prog ts k) collectPreviousComments (\<lambda>_. onTrack prog ts k)"
  unfolding collectPreviousComments_def
proof (rule pt_bind [OF pt_setPreviousComment pt_loop])
  fix x :: unit and k
  show "ptriple (onTrack prog ts k)
     (pbind (check T_comment) (\<lambda>c. if \<not> c then pret (False, ())
       else pbind (consume T_comment [''expecting comment'']) (\<lambda>t.
         pbind getPreviousComment (\<lambda>cs.
         pbind (setPreviousComment (cs @ [t])) (\<lambda>_. pret (True, ()))))))
     (\<lambda>r. onTrack prog ts (if fst r then Suc k else k))"
    by (auto intro!: pt_bind [OF pt_check] pt_if pt_bind [OF pt_consume_token] pt_pre_conj
        pt_ret_loop pt_bind [OF pt_getPreviousComment] pt_bind [OF pt_setPreviousComment])
qed simp

lemma pt_inlineComment:
  "ptriple (onTrack prog ts (Suc k)) (inlineComment cs) (\<lambda>_. onTrack prog ts (Suc k))"
  unfolding inlineComment_def
  by (auto intro!: pt_bind [OF pt_previous_token] pt_pre_conj pt_bind [OF pt_check] pt_if
      pt_bind [OF pt_peek] pt_bind [OF pt_consume] pt_ret pt_bind [OF pt_containsNewLine])

text \<open>
  The rules a production is checked with. Each one steps over the first parser of a sequence; the
  components that define further productions add theirs.
\<close>

named_theorems pt_intros

lemmas pt_state_intros [pt_intros] =
  pt_match pt_match_ignore pt_if pt_prod pt_ret pt_ret_loop pt_error pt_pre_conj
  pt_loop pt_consume pt_previous pt_check pt_isAtEnd
  pt_bind [OF pt_consume] pt_bind [OF pt_peek] pt_bind [OF pt_check] pt_bind [OF pt_isAtEnd]
  pt_bind [OF pt_previous] pt_bind [OF pt_checkNotReserved] pt_bind [OF pt_getPreviousComment]
  pt_bind [OF pt_setPreviousComment] pt_bind [OF pt_collectAttachedComments]
  pt_bind [OF pt_collectPreviousComments] pt_bind [OF pt_inlineComment] pt_bind [OF pt_loop]

end
