(* ===== verification/Stl_Parser.thy ===== *)
theory Stl_Parser
  imports Stl_Parser_State
begin

text \<open>
  The productions of the STL parser for type definition files (\<^verbatim>\<open>StlParser::parse\<close> and everything it
  calls in \<^verbatim>\<open>stl_parser.cpp\<close>), one definition per member function and one more per loop body. A bind is
  a statement of the source, in its order.
\<close>

section \<open>Names, literals and attributes\<close>

definition typeNameBody ::
    "string list \<Rightarrow> StlTypeNameStatement \<Rightarrow> (bool \<times> StlTypeNameStatement) parse" where
  "typeNameBody messages st = pbind (matchAny [T_dot]) (\<lambda>dot.
     if dot then pbind (consume T_identifier messages) (\<lambda>t.
       pret (True, \<lparr>typeName_path = typeName_path st @ [t],
                    typeName_qualifiedName = typeName_qualifiedName st @ ''.'' @ lexeme t\<rparr>))
     else pret (False, st))"

definition typeNameStatement :: "string list \<Rightarrow> StlTypeNameStatement parse" where
  "typeNameStatement messages = pbind (consume T_identifier messages) (\<lambda>t.
     loop (typeNameBody messages) \<lparr>typeName_path = [t], typeName_qualifiedName = lexeme t\<rparr>)"

definition emptyTypeName :: StlTypeNameStatement where
  "emptyTypeName = \<lparr>typeName_path = [], typeName_qualifiedName = []\<rparr>"

definition literal :: "StlToken parse" where
  "literal = pbind (matchAny [T_integral, T_real, T_string, T_keywordTrue, T_keywordFalse]) (\<lambda>b.
     if b then previous else pbind peek (\<lambda>_. parseError ''Expecting literal''))"

definition attributeValue :: "StlToken parse" where
  "attributeValue = pbind (check T_identifier) (\<lambda>b.
     if b then consume T_identifier [''Expected attribute value''] else literal)"

definition attributeSuffix :: "StlToken \<Rightarrow> StlToken parse" where
  "attributeSuffix name = pbind (check T_colon) (\<lambda>colon.
     if colon
     then pbind (consume T_colon [''Expected '' @ quote @ '':'' @ quote @ '' after attribute name '', lexeme name]) (\<lambda>_.
            attributeValue)
     else pret defaultToken)"

definition attributeBody :: "StlAttributeList \<Rightarrow> (bool \<times> StlAttributeList) parse" where
  "attributeBody attributes = pbind (check T_rightBracket) (\<lambda>close. pbind isAtEnd (\<lambda>end.
     if close \<or> end then pret (False, attributes)
     else pbind (consume T_identifier [''Expected attribute name'']) (\<lambda>name.
       pbind (attributeSuffix name) (\<lambda>v.
       pbind (matchAny [T_comma]) (\<lambda>comma.
         if comma then pret (True, attributes @ [\<lparr>attribute_name = name, attribute_value = v\<rparr>])
         else pret (False, attributes @ [\<lparr>attribute_name = name, attribute_value = v\<rparr>]))))))"

definition attributeList :: "string \<Rightarrow> StlAttributeList parse" where
  "attributeList subjectName =
     pbind (consume T_leftBracket [''Expected '' @ quote @ ''['' @ quote @ '' to start attribute list for '', subjectName]) (\<lambda>_.
     pbind (loop attributeBody []) (\<lambda>attributes.
     pbind (consume T_rightBracket [''Expected '' @ quote @ '']'' @ quote @ '' to end attribute list for '', subjectName]) (\<lambda>_.
     pret attributes)))"

definition maybeAttributeList :: "string \<Rightarrow> StlAttributeList option parse" where
  "maybeAttributeList subjectName = pbind peek (\<lambda>t.
     if tokenType t = T_leftBracket
     then pbind (attributeList subjectName) (\<lambda>attributes. pret (Some attributes))
     else pret None)"

section \<open>Imports and packages\<close>

definition importDeclaration :: "StlImportStatement parse" where
  "importDeclaration = pbind (consume T_string [''Expected file name to import'']) (\<lambda>t.
     pret \<lparr>import_fileName = t\<rparr>)"

definition packageBody :: "StlToken list \<Rightarrow> (bool \<times> StlToken list) parse" where
  "packageBody path = pbind (matchAny [T_dot]) (\<lambda>dot.
     if dot then pbind (consume T_identifier [''Expected package identifier'']) (\<lambda>t.
       pret (True, path @ [t]))
     else pret (False, path))"

definition packageDeclaration :: "StlPackageStatement parse" where
  "packageDeclaration = pbind (consume T_identifier [''Expected package identifier'']) (\<lambda>t.
     pbind (loop packageBody [t]) (\<lambda>path.
     pbind (consume T_semicolon [''Expected ; after package statement'']) (\<lambda>_.
     pret \<lparr>package_path = path\<rparr>)))"

section \<open>Structures\<close>

definition structFieldStatement :: "StlStructFieldStatement parse" where
  "structFieldStatement = pbind getPreviousComment (\<lambda>prev.
     pbind (setPreviousComment []) (\<lambda>_.
     pbind (collectAttachedComments prev) (\<lambda>description.
     pbind (consume T_identifier [''Expected struct field name'']) (\<lambda>name.
     pbind (checkNotReserved name) (\<lambda>_.
     pbind (consume T_colon [''Expected : after struct field '', lexeme name]) (\<lambda>_.
     pbind (typeNameStatement [''Expected struct field type'']) (\<lambda>ty.
     pbind (inlineComment description) (\<lambda>(inline, description).
     if inline
     then pbind (check T_rightBrace) (\<lambda>close.
       if \<not> close then pbind peek (\<lambda>_. parseError ''Expecting } to end struct definition'')
       else pret \<lparr>structField_typeName = ty, structField_identifier = name,
                  structField_description = description\<rparr>)
     else pbind (check T_rightBrace) (\<lambda>close. pbind isAtEnd (\<lambda>end.
       if close \<or> end
       then pret \<lparr>structField_typeName = ty, structField_identifier = name,
                  structField_description = description\<rparr>
       else pbind (consume T_comma [''Expected , after struct field '', lexeme name]) (\<lambda>_.
         pbind (inlineComment description) (\<lambda>(_, description).
         pret \<lparr>structField_typeName = ty, structField_identifier = name,
               structField_description = description\<rparr>))))))))))))"

text \<open>The end of a body that only held comments.\<close>

definition onlyCommentsLeft :: "bool parse" where
  "onlyCommentsLeft = pbind getPreviousComment (\<lambda>cs. pbind (check T_rightBrace) (\<lambda>close.
     pbind isAtEnd (\<lambda>end. pret (cs \<noteq> [] \<and> (close \<or> end)))))"

definition bodyEnds :: "bool parse" where
  "bodyEnds = pbind (check T_rightBrace) (\<lambda>close. pbind isAtEnd (\<lambda>end. pret (close \<or> end)))"

definition structBody ::
    "StlStructFieldStatement list \<Rightarrow> (bool \<times> StlStructFieldStatement list) parse" where
  "structBody fs = pbind bodyEnds (\<lambda>done.
     if done then pret (False, fs)
     else pbind collectPreviousComments (\<lambda>_. pbind onlyCommentsLeft (\<lambda>stop.
       if stop then pret (False, fs)
       else pbind structFieldStatement (\<lambda>f. pret (True, fs @ [f])))))"

definition structParent :: "string \<Rightarrow> StlTypeNameStatement option parse" where
  "structParent name = pbind (matchAny [T_colon]) (\<lambda>colon.
     if colon then pbind (typeNameStatement [''Expected parent struct name for '', name]) (\<lambda>ty.
       pret (Some ty))
     else pret None)"

definition structDeclaration :: "StlStructStatement parse" where
  "structDeclaration = pbind getPreviousComment (\<lambda>description.
     pbind (consume T_identifier [''Expected struct name'']) (\<lambda>name.
     pbind (checkNotReserved name) (\<lambda>_.
     pbind (structParent (lexeme name)) (\<lambda>parent.
     pbind (matchAny [T_semicolon]) (\<lambda>semicolon.
     if semicolon
     then pret \<lparr>struct_identifier = name, struct_description = description,
                struct_parentStructName = parent, struct_fields = []\<rparr>
     else pbind (consume T_leftBrace [''Expected '' @ quote @ ''{'' @ quote @ '' before struct body for '', lexeme name]) (\<lambda>_.
       pbind (loop structBody []) (\<lambda>fs.
       pbind (consume T_rightBrace [''Expected '' @ quote @ ''}'' @ quote @ '' after struct body for '', lexeme name]) (\<lambda>_.
       pret \<lparr>struct_identifier = name, struct_description = description,
             struct_parentStructName = parent, struct_fields = fs\<rparr>))))))))"

section \<open>Enumerations\<close>

definition enumeratorDeclaration :: "StlEnumeratorStatement parse" where
  "enumeratorDeclaration = pbind getPreviousComment (\<lambda>prev.
     pbind (setPreviousComment []) (\<lambda>_.
     pbind (collectAttachedComments prev) (\<lambda>description.
     pbind (consume T_identifier [''Expected enum name'']) (\<lambda>name.
     pbind (checkNotReserved name) (\<lambda>_.
     pret \<lparr>enumerator_identifier = name, enumerator_description = description,
           enumerator_attributes = []\<rparr>)))))"

definition describeEnumerator ::
    "StlToken list \<Rightarrow> StlEnumeratorStatement \<Rightarrow> StlEnumeratorStatement" where
  "describeEnumerator description e = e\<lparr>enumerator_description := description\<rparr>"

definition enumBody ::
    "string \<Rightarrow> StlEnumeratorStatement list \<Rightarrow> (bool \<times> StlEnumeratorStatement list) parse" where
  "enumBody name es = pbind bodyEnds (\<lambda>done.
     if done then pret (False, es)
     else pbind collectPreviousComments (\<lambda>_. pbind onlyCommentsLeft (\<lambda>stop.
       if stop then pret (False, es)
       else pbind enumeratorDeclaration (\<lambda>e.
         pbind (inlineComment (enumerator_description e)) (\<lambda>(inline, description).
         if inline then pret (False, es @ [describeEnumerator description e])
         else pbind (check T_rightBrace) (\<lambda>close.
           if close then pret (False, es @ [e])
           else pbind (consume T_comma [''Expected '' @ quote @ '','' @ quote @ '' after enumerator for '', name]) (\<lambda>_.
             pbind (inlineComment (enumerator_description e)) (\<lambda>(_, description).
             pret (True, es @ [describeEnumerator description e])))))))))"

definition enumDeclaration :: "StlEnumStatement parse" where
  "enumDeclaration = pbind getPreviousComment (\<lambda>description.
     pbind (consume T_identifier [''Expected enum name'']) (\<lambda>name.
     pbind (checkNotReserved name) (\<lambda>_.
     pbind (consume T_colon [''Expected '' @ quote @ '':'' @ quote @ '' after enum name for '', lexeme name]) (\<lambda>_.
     pbind (typeNameStatement [''Expected enum storage type name for '', lexeme name]) (\<lambda>storage.
     pbind (consume T_leftBrace [''Expected '' @ quote @ ''{'' @ quote @ '' before enum body for '', lexeme name]) (\<lambda>_.
     pbind (loop (enumBody (lexeme name)) []) (\<lambda>es.
     pbind (consume T_rightBrace [''Expected '' @ quote @ ''}'' @ quote @ '' after enum body for '', lexeme name]) (\<lambda>_.
     pret \<lparr>enum_identifier = name, enum_description = description,
           enum_storageTypeName = storage, enum_enumerators = es\<rparr>))))))))"

section \<open>Variants\<close>

definition variantElementDeclaration :: "StlVariantElement parse" where
  "variantElementDeclaration = pbind getPreviousComment (\<lambda>prev.
     pbind (setPreviousComment []) (\<lambda>_.
     pbind (collectAttachedComments prev) (\<lambda>description.
     pbind (typeNameStatement [''Expected type name for variant'']) (\<lambda>ty.
     pbind (inlineComment description) (\<lambda>(inline, description).
     if inline
     then pbind (check T_rightBrace) (\<lambda>close.
       if \<not> close then pbind peek (\<lambda>_. parseError ''Expecting } to end variant definition'')
       else pret \<lparr>variantElement_typeName = ty, variantElement_description = description\<rparr>)
     else pbind (check T_rightBrace) (\<lambda>close. pbind isAtEnd (\<lambda>end.
       if close \<or> end
       then pret \<lparr>variantElement_typeName = ty, variantElement_description = description\<rparr>
       else pbind (consume T_comma [''Expected , after variant element '', typeName_qualifiedName ty]) (\<lambda>_.
         pbind (inlineComment description) (\<lambda>(_, description).
         pret \<lparr>variantElement_typeName = ty, variantElement_description = description\<rparr>)))))))))"

definition variantBody :: "StlVariantElement list \<Rightarrow> (bool \<times> StlVariantElement list) parse" where
  "variantBody elements = pbind bodyEnds (\<lambda>done.
     if done then pret (False, elements)
     else pbind collectPreviousComments (\<lambda>_. pbind onlyCommentsLeft (\<lambda>stop.
       if stop then pret (False, elements)
       else pbind variantElementDeclaration (\<lambda>e. pret (True, elements @ [e])))))"

definition variantDeclaration :: "StlVariantStatement parse" where
  "variantDeclaration = pbind getPreviousComment (\<lambda>description.
     pbind (consume T_identifier [''Expected variant name'']) (\<lambda>name.
     pbind (consume T_leftBrace [''Expected '' @ quote @ ''{'' @ quote @ '' before variant body for '', lexeme name]) (\<lambda>_.
     pbind (loop variantBody []) (\<lambda>elements.
     pbind (consume T_rightBrace [''Expected '' @ quote @ ''}'' @ quote @ '' after variant body for '', lexeme name]) (\<lambda>_.
     pret \<lparr>variant_identifier = name, variant_description = description,
           variant_elements = elements\<rparr>)))))"

section \<open>Sequences, arrays, quantities, aliases and optionals\<close>

definition sequenceMaxSize :: "StlToken option parse" where
  "sequenceMaxSize = pbind (matchAny [T_comma]) (\<lambda>comma.
     if comma then pbind (consume T_integral [''Expected maximum size for sequence'']) (\<lambda>t. pret (Some t))
     else pret None)"

definition sequenceStatement :: "StlSequenceStatement parse" where
  "sequenceStatement = pbind getPreviousComment (\<lambda>description.
     pbind (consume T_less [''Expected < to start sequence definition '']) (\<lambda>_.
     pbind (typeNameStatement [''Expected element type name for sequence '']) (\<lambda>ty.
     pbind sequenceMaxSize (\<lambda>maxSize.
     pbind (consume T_greater [''Expected > to end sequence definition '']) (\<lambda>_.
     pbind (consume T_identifier [''Expected type name'']) (\<lambda>name.
     pbind (checkNotReserved name) (\<lambda>_.
     pbind (maybeAttributeList (lexeme name)) (\<lambda>attributes.
     pbind (consume T_semicolon [''Expected ; after sequence statement'']) (\<lambda>_.
     pbind (inlineComment description) (\<lambda>(_, description).
     pret \<lparr>sequence_identifier = name, sequence_description = description,
           sequence_elementTypeName = ty, sequence_maxSize = maxSize,
           sequence_attributes = attributes\<rparr>))))))))))"

definition arrayStatement :: "StlArrayStatement parse" where
  "arrayStatement = pbind getPreviousComment (\<lambda>description.
     pbind (consume T_less [''Expected < to start array definition '']) (\<lambda>_.
     pbind (typeNameStatement [''Expected element type name for array '']) (\<lambda>ty.
     pbind (consume T_comma [''Expected '' @ quote @ '','' @ quote @ '' after array element type'']) (\<lambda>_.
     pbind (consume T_integral [''Expected size for array'']) (\<lambda>size.
     pbind (consume T_greater [''Expected > to end array definition '']) (\<lambda>_.
     pbind (consume T_identifier [''Expected type name'']) (\<lambda>name.
     pbind (checkNotReserved name) (\<lambda>_.
     pbind (maybeAttributeList (lexeme name)) (\<lambda>attributes.
     pbind (consume T_semicolon [''Expected ; after array statement'']) (\<lambda>_.
     pbind (inlineComment description) (\<lambda>(_, description).
     pret \<lparr>array_identifier = name, array_description = description,
           array_elementTypeName = ty, array_size = size, array_attributes = attributes\<rparr>)))))))))))"

definition quantityUnit :: "StlToken option parse" where
  "quantityUnit = pbind (matchAny [T_comma]) (\<lambda>comma.
     if comma then pbind (consume T_identifier [''Expected unit name for quantity '']) (\<lambda>t. pret (Some t))
     else pret None)"

definition quantityStatement :: "StlQuantityStatement parse" where
  "quantityStatement = pbind getPreviousComment (\<lambda>description.
     pbind (consume T_less [''Expected < to start quantity definition '']) (\<lambda>_.
     pbind (typeNameStatement [''Expected value type name for quantity '']) (\<lambda>ty.
     pbind quantityUnit (\<lambda>unitName.
     pbind (consume T_greater [''Expected > to end quantity definition '']) (\<lambda>_.
     pbind (consume T_identifier [''Expected type name'']) (\<lambda>name.
     pbind (checkNotReserved name) (\<lambda>_.
     pbind (maybeAttributeList (lexeme name)) (\<lambda>attributes.
     pbind (consume T_semicolon [''Expected ; after quantity statement'']) (\<lambda>_.
     pbind (inlineComment description) (\<lambda>(_, description).
     pret \<lparr>quantity_identifier = name, quantity_description = description,
           quantity_valueTypeName = ty, quantity_unitName = unitName,
           quantity_attributes = attributes\<rparr>))))))))))"

definition aliasStatement :: "StlTypeAliasStatement parse" where
  "aliasStatement = pbind getPreviousComment (\<lambda>description.
     pbind (consume T_identifier [''Expected type name for alias '']) (\<lambda>name.
     pbind (checkNotReserved name) (\<lambda>_.
     pbind (typeNameStatement [''Expected type for alias '']) (\<lambda>ty.
     pbind (consume T_semicolon [''Expected ; after alias statement'']) (\<lambda>_.
     pbind (inlineComment description) (\<lambda>(_, description).
     pret \<lparr>alias_identifier = name, alias_typeName = ty, alias_description = description\<rparr>))))))"

definition optionalTypeStatement :: "StlOptionalTypeStatement parse" where
  "optionalTypeStatement = pbind getPreviousComment (\<lambda>description.
     pbind (consume T_less [''Expected < to start optional definition '']) (\<lambda>_.
     pbind (typeNameStatement [''Expected type name for optional '']) (\<lambda>ty.
     pbind (consume T_greater [''Expected > to end optional definition '']) (\<lambda>_.
     pbind (consume T_identifier [''Expected type name'']) (\<lambda>name.
     pbind (checkNotReserved name) (\<lambda>_.
     pbind (consume T_semicolon [''Expected ; after optional statement'']) (\<lambda>_.
     pbind (inlineComment description) (\<lambda>(_, description).
     pret \<lparr>optional_identifier = name, optional_typeName = ty,
           optional_description = description\<rparr>))))))))"

section \<open>Members of classes and interfaces\<close>

definition varDefault :: "StlToken parse" where
  "varDefault = pbind (check T_equal) (\<lambda>equal.
     if equal then pbind (consume T_equal []) (\<lambda>_. literal) else pret defaultToken)"

definition varStatement :: "StlVarStatement parse" where
  "varStatement = pbind (consume T_identifier [''Expected var name'']) (\<lambda>name.
     pbind (checkNotReserved name) (\<lambda>_.
     pbind (consume T_colon [''Expected : after var '', lexeme name]) (\<lambda>_.
     pbind (typeNameStatement [''Expected var type'']) (\<lambda>ty.
     pbind varDefault (\<lambda>def.
     pbind (maybeAttributeList (lexeme name)) (\<lambda>attributes.
     pbind (consume T_semicolon [''Expected ; after var '', lexeme name]) (\<lambda>_.
     pbind getPreviousComment (\<lambda>prev.
     pbind (inlineComment prev) (\<lambda>(_, description).
     pret \<lparr>var_identifier = name, var_defaultValue = def, var_description = description,
           var_attributes = (case attributes of None \<Rightarrow> [] | Some as \<Rightarrow> as),
           var_typeName = ty\<rparr>)))))))))"

definition argDescription :: "StlToken list parse" where
  "argDescription = pbind (check T_comment) (\<lambda>c.
     if c then pbind (consume T_comment [''expecting comment'']) (\<lambda>t. pret [t]) else pret [])"

definition argStatement :: "StlArgStatement parse" where
  "argStatement = pbind (consume T_identifier [''Expected argument name'']) (\<lambda>name.
     pbind (checkNotReserved name) (\<lambda>_.
     pbind (consume T_colon [''Expected '' @ quote @ '':'' @ quote @ '' after argument '', lexeme name]) (\<lambda>_.
     pbind (typeNameStatement [''Expected argument type'']) (\<lambda>ty.
     pbind argDescription (\<lambda>description.
     pret \<lparr>arg_identifier = name, arg_typeName = ty, arg_description = description\<rparr>)))))"

definition argumentsBody :: "StlArgStatement list \<Rightarrow> (bool \<times> StlArgStatement list) parse" where
  "argumentsBody args = pbind (check T_rightParen) (\<lambda>close. pbind isAtEnd (\<lambda>end.
     if close \<or> end then pret (False, args)
     else pbind argStatement (\<lambda>a. pbind (matchAny [T_comma]) (\<lambda>comma.
       if comma then pret (True, args @ [a]) else pret (False, args @ [a])))))"

text \<open>
  The word that \<^verbatim>\<open>std::regex_search\<close> captures with \<^verbatim>\<open>@param\s+([a-zA-Z_][a-zA-z0-9_]*)\<close>: the leftmost
  place where the tag, white space and a first letter follow each other. The range \<^verbatim>\<open>A-z\<close> of the source
  also holds the six characters between the two alphabets.
\<close>

definition isRegexSpace :: "char \<Rightarrow> bool" where
  "isRegexSpace c \<longleftrightarrow> c \<in> {CHR '' '', CHR 0x09, CHR 0x0A, CHR 0x0B, CHR 0x0C, CHR 0x0D}"

definition inRange :: "nat \<Rightarrow> nat \<Rightarrow> char \<Rightarrow> bool" where
  "inRange lo hi c \<longleftrightarrow> lo \<le> of_char c \<and> of_char c \<le> hi"

definition paramFirst :: "char \<Rightarrow> bool" where
  "paramFirst c \<longleftrightarrow> inRange 97 122 c \<or> inRange 65 90 c \<or> c = CHR ''_''"

definition paramRest :: "char \<Rightarrow> bool" where
  "paramRest c \<longleftrightarrow> inRange 97 122 c \<or> inRange 65 122 c \<or> inRange 48 57 c \<or> c = CHR ''_''"

definition paramMatch :: "string \<Rightarrow> string option" where
  "paramMatch cs =
     (let gap = drop 6 cs; word = dropWhile isRegexSpace gap
      in if startsWith cs ''@param'' \<and> gap \<noteq> [] \<and> isRegexSpace (hd gap) \<and>
            word \<noteq> [] \<and> paramFirst (hd word)
         then Some (hd word # takeWhile paramRest (tl word)) else None)"

fun paramSearch :: "string \<Rightarrow> string option" where
  "paramSearch [] = None"
| "paramSearch (c # cs) =
     (case paramMatch (c # cs) of Some w \<Rightarrow> Some w | None \<Rightarrow> paramSearch cs)"

text \<open>The loop over the comments: the kept ones, the documented names and the end-of-description flag.\<close>

fun filterComments ::
    "StlToken list \<Rightarrow> StlToken list \<Rightarrow> string list \<Rightarrow> bool \<Rightarrow> string + StlToken list \<times> string list" where
  "filterComments [] kept documented endOfDescription = Inr (kept, documented)"
| "filterComments (c # cs) kept documented endOfDescription =
     (case paramSearch (lexeme c) of
        Some name \<Rightarrow>
          (if name \<in> set documented
           then Inl (''Parameter '' @ quote @ name @ quote @ '' is documented more than once.'')
           else filterComments cs kept (documented @ [name]) True)
      | None \<Rightarrow>
          filterComments cs (if endOfDescription then kept else kept @ [c]) documented endOfDescription)"

text \<open>The documented names are in a \<^verbatim>\<open>std::set\<close>, so the first unknown one in text order is reported.\<close>

definition validateComments :: "StlArgStatement list \<Rightarrow> unit parse" where
  "validateComments arguments = pbind getPreviousComment (\<lambda>cs.
     case filterComments cs [] [] False of
       Inl m \<Rightarrow> parseError m
     | Inr (kept, documented) \<Rightarrow>
         (case filter (\<lambda>p. p \<notin> set (map (lexeme \<circ> arg_identifier) arguments)) (sort documented) of
            p # _ \<Rightarrow> parseError (''Documented parameter '' @ quote @ p @ quote @ '' was not found in the argument list.'')
          | [] \<Rightarrow> setPreviousComment kept))"

definition functionReturnType :: "string \<Rightarrow> StlTypeNameStatement parse" where
  "functionReturnType name = pbind (matchAny [T_minus]) (\<lambda>minus.
     if minus then pbind (consume T_greater [''expecting -> for return type of function '', name]) (\<lambda>_.
       typeNameStatement [''Expected function return type''])
     else pret \<lparr>typeName_path = [], typeName_qualifiedName = ''void''\<rparr>)"

definition functionStatement :: "StlFunctionStatement parse" where
  "functionStatement = pbind (consume T_identifier [''Expected function name'']) (\<lambda>name.
     pbind (checkNotReserved name) (\<lambda>_.
     pbind (consume T_leftParen [''Expected ( to start args for function '', lexeme name]) (\<lambda>_.
     pbind (loop argumentsBody []) (\<lambda>arguments.
     pbind (consume T_rightParen [''Expected ) to close args for function '', lexeme name]) (\<lambda>_.
     pbind (functionReturnType (lexeme name)) (\<lambda>ret.
     pbind (maybeAttributeList (lexeme name)) (\<lambda>attributes.
     pbind (consume T_semicolon [''Expected ; after function '', lexeme name]) (\<lambda>_.
     pbind (validateComments arguments) (\<lambda>_.
     pbind getPreviousComment (\<lambda>prev.
     pbind (inlineComment prev) (\<lambda>(_, description).
     pret \<lparr>function_identifier = name, function_description = description,
           function_attributes = (case attributes of None \<Rightarrow> [] | Some as \<Rightarrow> as),
           function_returnTypeName = ret, function_arguments = arguments\<rparr>)))))))))))"

definition eventStatement :: "StlEventStatement parse" where
  "eventStatement = pbind (consume T_identifier [''Expected event name'']) (\<lambda>name.
     pbind (checkNotReserved name) (\<lambda>_.
     pbind (consume T_leftParen [''Expected ( to start args for event '', lexeme name]) (\<lambda>_.
     pbind (loop argumentsBody []) (\<lambda>arguments.
     pbind (consume T_rightParen [''Expected ) to close args for event '', lexeme name]) (\<lambda>_.
     pbind (maybeAttributeList (lexeme name)) (\<lambda>attributes.
     pbind (consume T_semicolon [''Expected ; after event '', lexeme name]) (\<lambda>_.
     pbind (validateComments arguments) (\<lambda>_.
     pbind getPreviousComment (\<lambda>prev.
     pbind (inlineComment prev) (\<lambda>(_, description).
     pret \<lparr>event_identifier = name, event_description = description,
           event_attributes = (case attributes of None \<Rightarrow> [] | Some as \<Rightarrow> as),
           event_arguments = arguments\<rparr>))))))))))"

section \<open>Classes and interfaces\<close>

definition membersBody :: "StlInterfaceStatement \<Rightarrow> (bool \<times> StlInterfaceStatement) parse" where
  "membersBody st = pbind bodyEnds (\<lambda>done.
     if done then pret (False, st)
     else pbind (setPreviousComment []) (\<lambda>_.
       pbind (collectAttachedComments []) (\<lambda>cs.
       pbind (setPreviousComment cs) (\<lambda>_.
       pbind onlyCommentsLeft (\<lambda>stop.
       if stop then pret (False, st)
       else pbind (matchAny [T_keywordVar]) (\<lambda>isVar.
         if isVar then pbind varStatement (\<lambda>v.
           pret (True, st\<lparr>interface_properties := interface_properties st @ [v]\<rparr>))
         else pbind (matchAny [T_keywordFunction]) (\<lambda>isFunction.
         if isFunction then pbind functionStatement (\<lambda>f.
           pret (True, st\<lparr>interface_functions := interface_functions st @ [f]\<rparr>))
         else pbind (matchAny [T_keywordEvent]) (\<lambda>isEvent.
         if isEvent then pbind eventStatement (\<lambda>e.
           pret (True, st\<lparr>interface_events := interface_events st @ [e]\<rparr>))
         else pbind peek (\<lambda>_. parseError (''Expected class member or '' @ quote @ ''}'' @ quote))))))))))"

definition classOrInterfaceMembers :: "StlInterfaceStatement \<Rightarrow> StlInterfaceStatement parse" where
  "classOrInterfaceMembers = loop membersBody"

definition emptyInterface :: "StlToken \<Rightarrow> StlToken list \<Rightarrow> StlInterfaceStatement" where
  "emptyInterface name description =
     \<lparr>interface_identifier = name, interface_description = description,
      interface_properties = [], interface_functions = [], interface_events = []\<rparr>"

definition interfaceStatement :: "StlInterfaceStatement parse" where
  "interfaceStatement = pbind (consume T_identifier [''Expected type name'']) (\<lambda>name.
     pbind (checkNotReserved name) (\<lambda>_.
     pbind getPreviousComment (\<lambda>description.
     pbind (checkNotReserved name) (\<lambda>_.
     pbind (consume T_leftBrace [''Expected '' @ quote @ ''{'' @ quote @ '' before interface body for '', lexeme name]) (\<lambda>_.
     pbind (classOrInterfaceMembers (emptyInterface name description)) (\<lambda>st.
     pbind (consume T_rightBrace [''Expected '' @ quote @ ''}'' @ quote @ '' after interface body for '', lexeme name]) (\<lambda>_.
     pret st)))))))"

definition parentsBody :: "string \<Rightarrow> StlClassStatement \<Rightarrow> (bool \<times> StlClassStatement) parse" where
  "parentsBody name st = pbind isAtEnd (\<lambda>end. pbind (check T_leftBrace) (\<lambda>open.
     if end \<or> open then pret (False, st)
     else pbind (matchAny [T_keywordExtends]) (\<lambda>ext.
       if ext then
         (if typeName_qualifiedName (class_extends st) \<noteq> []
          then pbind previous (\<lambda>_. parseError
            ''Cannot inherit from more than one class. Consider using interfaces.'')
          else pbind (typeNameStatement [''Expected parent class name for '', name]) (\<lambda>ty.
            pbind (matchAny [T_comma]) (\<lambda>_. pret (True, st\<lparr>class_extends := ty\<rparr>))))
       else pbind (matchAny [T_keywordImplements]) (\<lambda>impl.
         if impl then pbind (typeNameStatement [''Expected parent interface for '', name]) (\<lambda>ty.
           pbind (matchAny [T_comma]) (\<lambda>_.
             pret (True, st\<lparr>class_implements := class_implements st @ [ty]\<rparr>)))
         else pbind peek (\<lambda>_. parseError (''Expected parent for class '' @ name))))))"

definition classParents :: "StlClassStatement \<Rightarrow> StlClassStatement parse" where
  "classParents st = pbind (matchAny [T_colon]) (\<lambda>colon.
     if colon then loop (parentsBody (lexeme (interface_identifier (class_members st)))) st
     else pret st)"

definition classStatement :: "bool \<Rightarrow> StlClassStatement parse" where
  "classStatement isAbstract = pbind (consume T_identifier [''Expected type name'']) (\<lambda>name.
     pbind getPreviousComment (\<lambda>description.
     pbind (classParents \<lparr>class_isAbstract = isAbstract, class_members = emptyInterface name description,
                          class_extends = emptyTypeName, class_implements = []\<rparr>) (\<lambda>st.
     pbind (consume T_leftBrace [''Expected '' @ quote @ ''{'' @ quote @ '' before class body for '', lexeme name]) (\<lambda>_.
     pbind (classOrInterfaceMembers (class_members st)) (\<lambda>members.
     pbind (consume T_rightBrace [''Expected '' @ quote @ ''}'' @ quote @ '' after class body for '', lexeme name]) (\<lambda>_.
     pret (st\<lparr>class_members := members\<rparr>)))))))"

section \<open>Files\<close>

text \<open>
  The kinds of declaration by the keyword they start with, in the order in which \<^verbatim>\<open>declaration\<close> tries
  them.
\<close>

definition abstractClass :: "StlStatement parse" where
  "abstractClass = pbind (consume T_keywordClass [''Expected class keyword'']) (\<lambda>_.
     pbind (classStatement True) (\<lambda>st. pret (SClass st)))"

definition declarationKinds :: "(StlTokenType \<times> StlStatement parse) list" where
  "declarationKinds =
     [(T_keywordImport, pbind importDeclaration (\<lambda>st. pret (SImport st))),
      (T_keywordPackage, pbind packageDeclaration (\<lambda>st. pret (SPackage st))),
      (T_keywordStruct, pbind structDeclaration (\<lambda>st. pret (SStruct st))),
      (T_keywordEnum, pbind enumDeclaration (\<lambda>st. pret (SEnum st))),
      (T_keywordVariant, pbind variantDeclaration (\<lambda>st. pret (SVariant st))),
      (T_keywordSequence, pbind sequenceStatement (\<lambda>st. pret (SSequence st))),
      (T_keywordArray, pbind arrayStatement (\<lambda>st. pret (SArray st))),
      (T_keywordQuantity, pbind quantityStatement (\<lambda>st. pret (SQuantity st))),
      (T_keywordAlias, pbind aliasStatement (\<lambda>st. pret (STypeAlias st))),
      (T_keywordOptional, pbind optionalTypeStatement (\<lambda>st. pret (SOptionalType st))),
      (T_keywordClass, pbind (classStatement False) (\<lambda>st. pret (SClass st))),
      (T_keywordAbstract, abstractClass),
      (T_keywordInterface, pbind interfaceStatement (\<lambda>st. pret (SInterface st)))]"

fun dispatch :: "(StlTokenType \<times> 'a parse) list \<Rightarrow> 'a parse" where
  "dispatch [] = pbind peek (\<lambda>_. parseError ''Expected statement'')"
| "dispatch ((ty, p) # rest) = pbind (matchAny [ty]) (\<lambda>b. if b then p else dispatch rest)"

definition parseDeclaration :: "StlStatement parse" where
  "parseDeclaration = pbind (setPreviousComment []) (\<lambda>_.
     pbind (collectAttachedComments []) (\<lambda>cs.
     pbind (setPreviousComment cs) (\<lambda>_. dispatch declarationKinds)))"

definition parseBody :: "StlStatement list \<Rightarrow> (bool \<times> StlStatement list) parse" where
  "parseBody sts = pbind isAtEnd (\<lambda>end.
     if end then pret (False, sts)
     else pbind parseDeclaration (\<lambda>st. pret (True, sts @ [st])))"

definition initParser :: "StlToken list \<Rightarrow> parser" where
  "initParser ts = \<lparr>toks = ts, pos = 0, previousComment = []\<rparr>"

definition parse :: "StlToken list \<Rightarrow> parse_exn + StlStatement list" where
  "parse ts = rbind (loop parseBody [] (initParser ts)) (\<lambda>(sts, _). Inr sts)"

section \<open>No production leaves with an internal exception\<close>

lemma pt_typeNameBody:
  "ptriple (onTrack prog ts k) (typeNameBody m st) (\<lambda>r. onTrack prog ts (if fst r then Suc k else k))"
  unfolding typeNameBody_def by (intro pt_intros; auto)

lemmas [pt_intros] = pt_typeNameBody

lemma pt_typeNameStatement:
  "ptriple (onTrack prog ts k) (typeNameStatement m) (\<lambda>_. onTrack prog ts (Suc k))"
  unfolding typeNameStatement_def by (intro pt_intros; auto)

lemmas [pt_intros] = pt_tail [OF pt_typeNameStatement] pt_bind [OF pt_typeNameStatement]

lemma pt_literal:
  "ptriple (onTrack prog ts k) literal (\<lambda>_. onTrack prog ts (Suc k))"
  unfolding literal_def by (intro pt_intros; auto)

lemmas [pt_intros] = pt_tail [OF pt_literal] pt_bind [OF pt_literal]

lemma pt_attributeValue:
  "ptriple (onTrack prog ts k) attributeValue (\<lambda>_. onTrack prog ts (Suc k))"
  unfolding attributeValue_def by (intro pt_intros; auto)

lemmas [pt_intros] = pt_tail [OF pt_attributeValue] pt_bind [OF pt_attributeValue]

lemma pt_attributeSuffix:
  "ptriple (onTrack prog ts k) (attributeSuffix n) (\<lambda>_. onTrack prog ts k)"
  unfolding attributeSuffix_def by (intro pt_intros; auto)

lemmas [pt_intros] = pt_attributeSuffix pt_bind [OF pt_attributeSuffix]

lemma pt_attributeBody:
  "ptriple (onTrack prog ts k) (attributeBody as) (\<lambda>r. onTrack prog ts (if fst r then Suc k else k))"
  unfolding attributeBody_def by (intro pt_intros; auto)

lemmas [pt_intros] = pt_attributeBody

lemma pt_attributeList:
  "ptriple (onTrack prog ts k) (attributeList n) (\<lambda>_. onTrack prog ts (Suc k))"
  unfolding attributeList_def by (intro pt_intros; auto)

lemmas [pt_intros] = pt_attributeList pt_bind [OF pt_attributeList]

lemma pt_maybeAttributeList:
  "ptriple (onTrack prog ts k) (maybeAttributeList n) (\<lambda>_. onTrack prog ts k)"
  unfolding maybeAttributeList_def by (intro pt_intros; auto)

lemmas [pt_intros] = pt_maybeAttributeList pt_bind [OF pt_maybeAttributeList]

lemma pt_importDeclaration:
  "ptriple (onTrack prog ts k) importDeclaration (\<lambda>_. onTrack prog ts k)"
  unfolding importDeclaration_def by (intro pt_intros; auto)

lemmas [pt_intros] = pt_importDeclaration pt_bind [OF pt_importDeclaration]

lemma pt_packageBody:
  "ptriple (onTrack prog ts k) (packageBody path) (\<lambda>r. onTrack prog ts (if fst r then Suc k else k))"
  unfolding packageBody_def by (intro pt_intros; auto)

lemmas [pt_intros] = pt_packageBody

lemma pt_packageDeclaration:
  "ptriple (onTrack prog ts k) packageDeclaration (\<lambda>_. onTrack prog ts k)"
  unfolding packageDeclaration_def by (intro pt_intros; auto)

lemmas [pt_intros] = pt_packageDeclaration pt_bind [OF pt_packageDeclaration]

lemma pt_structFieldStatement:
  "ptriple (onTrack prog ts k) structFieldStatement (\<lambda>_. onTrack prog ts (Suc k))"
  unfolding structFieldStatement_def by (intro pt_intros; auto)

lemmas [pt_intros] = pt_structFieldStatement pt_bind [OF pt_structFieldStatement]

lemma pt_onlyCommentsLeft:
  "ptriple (onTrack prog ts k) onlyCommentsLeft (\<lambda>_. onTrack prog ts k)"
  unfolding onlyCommentsLeft_def by (intro pt_intros; auto)

lemmas [pt_intros] = pt_onlyCommentsLeft pt_bind [OF pt_onlyCommentsLeft]

lemma pt_bodyEnds:
  "ptriple (onTrack prog ts k) bodyEnds (\<lambda>_. onTrack prog ts k)"
  unfolding bodyEnds_def by (intro pt_intros; auto)

lemmas [pt_intros] = pt_bodyEnds pt_bind [OF pt_bodyEnds]

lemma pt_structBody:
  "ptriple (onTrack prog ts k) (structBody fs) (\<lambda>r. onTrack prog ts (if fst r then Suc k else k))"
  unfolding structBody_def by (intro pt_intros; auto)

lemmas [pt_intros] = pt_structBody

lemma pt_structParent:
  "ptriple (onTrack prog ts k) (structParent n) (\<lambda>_. onTrack prog ts k)"
  unfolding structParent_def by (intro pt_intros; auto)

lemmas [pt_intros] = pt_structParent pt_bind [OF pt_structParent]

lemma pt_structDeclaration:
  "ptriple (onTrack prog ts k) structDeclaration (\<lambda>_. onTrack prog ts k)"
  unfolding structDeclaration_def by (intro pt_intros; auto)

lemmas [pt_intros] = pt_structDeclaration pt_bind [OF pt_structDeclaration]

lemma pt_enumeratorDeclaration:
  "ptriple (onTrack prog ts k) enumeratorDeclaration (\<lambda>_. onTrack prog ts (Suc k))"
  unfolding enumeratorDeclaration_def by (intro pt_intros; auto)

lemmas [pt_intros] = pt_enumeratorDeclaration pt_bind [OF pt_enumeratorDeclaration]

lemma pt_enumBody:
  "ptriple (onTrack prog ts k) (enumBody n es) (\<lambda>r. onTrack prog ts (if fst r then Suc k else k))"
  unfolding enumBody_def by (intro pt_intros; auto)

lemmas [pt_intros] = pt_enumBody

lemma pt_enumDeclaration:
  "ptriple (onTrack prog ts k) enumDeclaration (\<lambda>_. onTrack prog ts k)"
  unfolding enumDeclaration_def by (intro pt_intros; auto)

lemmas [pt_intros] = pt_enumDeclaration pt_bind [OF pt_enumDeclaration]

lemma pt_variantElementDeclaration:
  "ptriple (onTrack prog ts k) variantElementDeclaration (\<lambda>_. onTrack prog ts (Suc k))"
  unfolding variantElementDeclaration_def by (intro pt_intros; auto)

lemmas [pt_intros] = pt_variantElementDeclaration pt_bind [OF pt_variantElementDeclaration]

lemma pt_variantBody:
  "ptriple (onTrack prog ts k) (variantBody es) (\<lambda>r. onTrack prog ts (if fst r then Suc k else k))"
  unfolding variantBody_def by (intro pt_intros; auto)

lemmas [pt_intros] = pt_variantBody

lemma pt_variantDeclaration:
  "ptriple (onTrack prog ts k) variantDeclaration (\<lambda>_. onTrack prog ts k)"
  unfolding variantDeclaration_def by (intro pt_intros; auto)

lemmas [pt_intros] = pt_variantDeclaration pt_bind [OF pt_variantDeclaration]

lemma pt_sequenceMaxSize:
  "ptriple (onTrack prog ts k) sequenceMaxSize (\<lambda>_. onTrack prog ts k)"
  unfolding sequenceMaxSize_def by (intro pt_intros; auto)

lemmas [pt_intros] = pt_sequenceMaxSize pt_bind [OF pt_sequenceMaxSize]

lemma pt_sequenceStatement:
  "ptriple (onTrack prog ts k) sequenceStatement (\<lambda>_. onTrack prog ts k)"
  unfolding sequenceStatement_def by (intro pt_intros; auto)

lemmas [pt_intros] = pt_sequenceStatement pt_bind [OF pt_sequenceStatement]

lemma pt_arrayStatement:
  "ptriple (onTrack prog ts k) arrayStatement (\<lambda>_. onTrack prog ts k)"
  unfolding arrayStatement_def by (intro pt_intros; auto)

lemmas [pt_intros] = pt_arrayStatement pt_bind [OF pt_arrayStatement]

lemma pt_quantityUnit:
  "ptriple (onTrack prog ts k) quantityUnit (\<lambda>_. onTrack prog ts k)"
  unfolding quantityUnit_def by (intro pt_intros; auto)

lemmas [pt_intros] = pt_quantityUnit pt_bind [OF pt_quantityUnit]

lemma pt_quantityStatement:
  "ptriple (onTrack prog ts k) quantityStatement (\<lambda>_. onTrack prog ts k)"
  unfolding quantityStatement_def by (intro pt_intros; auto)

lemmas [pt_intros] = pt_quantityStatement pt_bind [OF pt_quantityStatement]

lemma pt_aliasStatement:
  "ptriple (onTrack prog ts k) aliasStatement (\<lambda>_. onTrack prog ts k)"
  unfolding aliasStatement_def by (intro pt_intros; auto)

lemmas [pt_intros] = pt_aliasStatement pt_bind [OF pt_aliasStatement]

lemma pt_optionalTypeStatement:
  "ptriple (onTrack prog ts k) optionalTypeStatement (\<lambda>_. onTrack prog ts k)"
  unfolding optionalTypeStatement_def by (intro pt_intros; auto)

lemmas [pt_intros] = pt_optionalTypeStatement pt_bind [OF pt_optionalTypeStatement]

lemma pt_varDefault:
  "ptriple (onTrack prog ts k) varDefault (\<lambda>_. onTrack prog ts k)"
  unfolding varDefault_def by (intro pt_intros; auto)

lemmas [pt_intros] = pt_varDefault pt_bind [OF pt_varDefault]

lemma pt_varStatement:
  "ptriple (onTrack prog ts k) varStatement (\<lambda>_. onTrack prog ts k)"
  unfolding varStatement_def by (intro pt_intros; auto)

lemmas [pt_intros] = pt_varStatement pt_bind [OF pt_varStatement]

lemma pt_argDescription:
  "ptriple (onTrack prog ts k) argDescription (\<lambda>_. onTrack prog ts k)"
  unfolding argDescription_def by (intro pt_intros; auto)

lemmas [pt_intros] = pt_argDescription pt_bind [OF pt_argDescription]

lemma pt_argStatement:
  "ptriple (onTrack prog ts k) argStatement (\<lambda>_. onTrack prog ts (Suc k))"
  unfolding argStatement_def by (intro pt_intros; auto)

lemmas [pt_intros] = pt_argStatement pt_bind [OF pt_argStatement]

lemma pt_argumentsBody:
  "ptriple (onTrack prog ts k) (argumentsBody args) (\<lambda>r. onTrack prog ts (if fst r then Suc k else k))"
  unfolding argumentsBody_def by (intro pt_intros; auto)

lemmas [pt_intros] = pt_argumentsBody

lemma filterComments_subset:
  "filterComments cs kept docs fin = Inr (kept', docs') \<Longrightarrow> set kept' \<subseteq> set cs \<union> set kept"
proof (induction cs kept docs fin rule: filterComments.induct)
  case (2 c cs kept docs fin)
  then show ?case
    by (cases "paramSearch (lexeme c)") (fastforce split: if_splits)+
qed simp

lemma pt_validateComments:
  "ptriple (onTrack prog ts k) (validateComments args) (\<lambda>_. onTrack prog ts k)"
  unfolding validateComments_def
  by (auto intro!: pt_bind [OF pt_getPreviousComment] pt_pre_conj pt_error pt_setPreviousComment
      dest!: filterComments_subset split: sum.splits list.splits) blast

lemmas [pt_intros] = pt_validateComments pt_bind [OF pt_validateComments]

lemma pt_functionReturnType:
  "ptriple (onTrack prog ts k) (functionReturnType n) (\<lambda>_. onTrack prog ts k)"
  unfolding functionReturnType_def by (intro pt_intros; auto)

lemmas [pt_intros] = pt_functionReturnType pt_bind [OF pt_functionReturnType]

lemma pt_functionStatement:
  "ptriple (onTrack prog ts k) functionStatement (\<lambda>_. onTrack prog ts k)"
  unfolding functionStatement_def by (intro pt_intros; auto)

lemmas [pt_intros] = pt_functionStatement pt_bind [OF pt_functionStatement]

lemma pt_eventStatement:
  "ptriple (onTrack prog ts k) eventStatement (\<lambda>_. onTrack prog ts k)"
  unfolding eventStatement_def by (intro pt_intros; auto)

lemmas [pt_intros] = pt_eventStatement pt_bind [OF pt_eventStatement]

lemma pt_membersBody:
  "ptriple (onTrack prog ts k) (membersBody st) (\<lambda>r. onTrack prog ts (if fst r then Suc k else k))"
  unfolding membersBody_def by (intro pt_intros; auto)

lemmas [pt_intros] = pt_membersBody

lemma pt_classOrInterfaceMembers:
  "ptriple (onTrack prog ts k) (classOrInterfaceMembers st) (\<lambda>_. onTrack prog ts k)"
  unfolding classOrInterfaceMembers_def by (intro pt_intros; auto)

lemmas [pt_intros] = pt_classOrInterfaceMembers pt_bind [OF pt_classOrInterfaceMembers]

lemma pt_interfaceStatement:
  "ptriple (onTrack prog ts k) interfaceStatement (\<lambda>_. onTrack prog ts k)"
  unfolding interfaceStatement_def by (intro pt_intros; auto)

lemmas [pt_intros] = pt_interfaceStatement pt_bind [OF pt_interfaceStatement]

lemma pt_parentsBody:
  "ptriple (onTrack prog ts k) (parentsBody n st) (\<lambda>r. onTrack prog ts (if fst r then Suc k else k))"
  unfolding parentsBody_def by (intro pt_intros; auto)

lemmas [pt_intros] = pt_parentsBody pt_tail [OF pt_loop [OF pt_parentsBody]]

lemma pt_classParents:
  "ptriple (onTrack prog ts k) (classParents st) (\<lambda>_. onTrack prog ts k)"
  unfolding classParents_def by (intro pt_intros; auto)

lemmas [pt_intros] = pt_classParents pt_bind [OF pt_classParents]

lemma pt_classStatement:
  "ptriple (onTrack prog ts k) (classStatement b) (\<lambda>_. onTrack prog ts k)"
  unfolding classStatement_def by (intro pt_intros; auto)

lemmas [pt_intros] = pt_classStatement pt_bind [OF pt_classStatement]

lemma pt_abstractClass:
  "ptriple (onTrack prog ts k) abstractClass (\<lambda>_. onTrack prog ts k)"
  unfolding abstractClass_def by (intro pt_intros; auto)

lemmas [pt_intros] = pt_abstractClass pt_bind [OF pt_abstractClass]

lemma pt_dispatch:
  assumes "\<And>ty p. (ty, p) \<in> set kinds \<Longrightarrow>
    ptriple (onTrack prog ts (Suc k)) p (\<lambda>_. onTrack prog ts (Suc k))"
  shows "ptriple (onTrack prog ts k) (dispatch kinds) (\<lambda>_. onTrack prog ts (Suc k))"
  using assms
proof (induction kinds)
  case Nil
  show ?case by (simp, intro pt_intros)
next
  case (Cons kind kinds)
  then show ?case by (cases kind) (auto intro!: pt_match)
qed

lemma pt_declarationKinds:
  "(ty, p) \<in> set declarationKinds \<Longrightarrow>
     ptriple (onTrack prog ts (Suc k)) p (\<lambda>_. onTrack prog ts (Suc k))"
  unfolding declarationKinds_def
  by (simp, elim disjE conjE, simp_all) (intro pt_intros; simp)+

lemma pt_parseDeclaration:
  "ptriple (onTrack prog ts k) parseDeclaration (\<lambda>_. onTrack prog ts (Suc k))"
  unfolding parseDeclaration_def
  by (intro pt_intros pt_dispatch pt_declarationKinds) auto

lemma pt_parseBody:
  "ptriple (onTrack prog ts k) (parseBody sts) (\<lambda>r. onTrack prog ts (if fst r then Suc k else k))"
  unfolding parseBody_def by (intro pt_intros pt_bind [OF pt_parseDeclaration]; simp)

lemma onTrack_initParser: "readableTokens prog ts \<Longrightarrow> onTrack prog ts 0 (initParser ts)"
  by (auto simp: onTrack_def initParser_def readableTokens_def wfTokens_def)

lemma parse_outcome:
  assumes "readableTokens prog ts"
  shows "(\<exists>sts. parse ts = Inr sts) \<or> (\<exists>m. parse ts = Inl (ParseError m))"
proof -
  have "ptriple (onTrack prog ts 0) (loop parseBody []) (\<lambda>_. onTrack prog ts 0)"
    by (rule pt_loop) (rule pt_parseBody)
  then show ?thesis
    using onTrack_initParser [OF assms]
    by (cases "loop parseBody [] (initParser ts)")
      (auto simp: parse_def ptriple_def inputError_def split: sum.splits)
qed

end
