(* ===== verification/Stl_Query_Parser.thy ===== *)
theory Stl_Query_Parser
  imports Stl_Parser
begin

text \<open>
  The productions of the STL parser for queries (\<^verbatim>\<open>StlParser::parseQuery\<close> and everything it calls in
  \<^verbatim>\<open>stl_parser.cpp\<close>). The productions of an expression take the parser of the expressions one level of
  parentheses down as an argument, so that \<open>expression\<close> is the only recursion over them; its fuel bounds
  the depth of parentheses, which is less than the number of tokens.
\<close>

section \<open>Expressions\<close>

definition variableBody :: "StlToken list \<times> string \<Rightarrow> (bool \<times> StlToken list \<times> string) parse" where
  "variableBody v = pbind (matchAny [T_dot]) (\<lambda>dot.
     if dot then pbind (consume T_identifier [''Expecting identifier for variable name'']) (\<lambda>t.
       pret (True, fst v @ [t], snd v @ ''.'' @ lexeme t))
     else pret (False, v))"

definition variable :: "StlExpr parse" where
  "variable = pbind (consume T_identifier [''Expecting identifier for variable name'']) (\<lambda>t.
     pbind (loop variableBody ([t], lexeme t)) (\<lambda>v. pret (EVariable (fst v) (snd v))))"

abbreviation literalKinds :: "StlTokenType list" where
  "literalKinds \<equiv> [T_integral, T_real, T_string, T_keywordTrue, T_keywordFalse]"

definition group :: "StlExpr parse \<Rightarrow> StlExpr parse" where
  "group ex = pbind (matchAny [T_leftParen]) (\<lambda>paren.
     if paren then pbind ex (\<lambda>e.
       pbind (consume T_rightParen [''expecting '' @ quote @ '')'' @ quote @ '' after expression.'']) (\<lambda>_.
       pret (EGrouping e)))
     else pbind peek (\<lambda>_. parseError ''Expecting primary expression''))"

definition primary :: "StlExpr parse \<Rightarrow> StlExpr parse" where
  "primary ex = pbind (matchAny literalKinds) (\<lambda>lit.
     if lit then pbind previous (\<lambda>t. pret (ELiteral t))
     else pbind (check T_identifier) (\<lambda>ident. if ident then variable else group ex))"

fun unaryFuel :: "nat \<Rightarrow> StlExpr parse \<Rightarrow> StlExpr parse" where
  "unaryFuel 0 ex = pthrow FuelExhausted"
| "unaryFuel (Suc n) ex = pbind (matchAny [T_bang, T_minus, T_keywordNot]) (\<lambda>b.
     if b then pbind previous (\<lambda>t.
       pbind (unaryFuel n ex) (\<lambda>rhs.
       pret (EUnary (if tokenType t = T_minus then UnNegate else UnLogicalNot) rhs)))
     else primary ex)"

definition unary :: "StlExpr parse \<Rightarrow> StlExpr parse" where
  "unary ex s = unaryFuel (Suc (remaining s)) ex s"

definition factorBody :: "StlExpr parse \<Rightarrow> StlExpr \<Rightarrow> (bool \<times> StlExpr) parse" where
  "factorBody ex e = pbind (matchAny [T_slash, T_star]) (\<lambda>b.
     if b then pbind previous (\<lambda>t. pbind (unary ex) (\<lambda>rhs.
       pret (True, EBinary e (if tokenType t = T_slash then BinDivide else BinMultiply) rhs)))
     else pret (False, e))"

definition factor :: "StlExpr parse \<Rightarrow> StlExpr parse" where
  "factor ex = pbind (unary ex) (loop (factorBody ex))"

definition termBody :: "StlExpr parse \<Rightarrow> StlExpr \<Rightarrow> (bool \<times> StlExpr) parse" where
  "termBody ex e = pbind (matchAny [T_minus, T_plus]) (\<lambda>b.
     if b then pbind previous (\<lambda>t. pbind (factor ex) (\<lambda>rhs.
       pret (True, EBinary e (if tokenType t = T_minus then BinSubtract else BinAdd) rhs)))
     else pret (False, e))"

definition termExpr :: "StlExpr parse \<Rightarrow> StlExpr parse" where
  "termExpr ex = pbind (factor ex) (loop (termBody ex))"

text \<open>The \<^verbatim>\<open>NOT\<close> before \<^verbatim>\<open>BETWEEN\<close> or \<^verbatim>\<open>IN\<close>.\<close>

definition notInBetween :: "bool parse" where
  "notInBetween = pbind peek (\<lambda>t. pbind peekNext (\<lambda>u.
     if tokenType t = T_keywordNot \<and> (tokenType u = T_keywordBetween \<or> tokenType u = T_keywordIn)
     then pbind advance (\<lambda>_. pret True) else pret False))"

definition isNumberToken :: "StlToken \<Rightarrow> bool" where
  "isNumberToken t \<longleftrightarrow> tokenType t = T_real \<or> tokenType t = T_integral"

definition betweenMessage :: "string \<Rightarrow> string \<Rightarrow> string" where
  "betweenMessage lo hi =
     quote @ ''BETWEEN'' @ quote @ '' statement requires min value '' @ quote @ lo @ quote @
     '' to be less or equal than max value '' @ quote @ hi @ quote"

definition checkBetweenBounds :: "StlExpr \<Rightarrow> StlExpr \<Rightarrow> unit parse" where
  "checkBetweenBounds lo hi =
     (case (lo, hi) of
        (ELiteral a, ELiteral b) \<Rightarrow>
          (if isNumberToken a \<and> isNumberToken b
           then (case (stod_signed (lexeme a), stod_signed (lexeme b)) of
                   (Some x, Some y) \<Rightarrow>
                     (if fp_less (f64_dec y) (f64_dec x)
                      then pbind peek (\<lambda>_. parseError (betweenMessage (lexeme a) (lexeme b)))
                      else pret ())
                 | _ \<Rightarrow> pthrow StodOutOfRange)
           else pret ())
      | _ \<Rightarrow> pret ())"

definition betweenExpr :: "StlExpr parse \<Rightarrow> StlExpr \<Rightarrow> bool \<Rightarrow> StlExpr parse" where
  "betweenExpr ex e negated = pbind (termExpr ex) (\<lambda>lo.
     pbind (consume T_keywordAnd [''Expecting '' @ quote @ ''AND'' @ quote @ '' after the minimum term of the BETWEEN expression'']) (\<lambda>_.
     pbind (termExpr ex) (\<lambda>hi.
     pbind (checkBetweenBounds lo hi) (\<lambda>_. pret (EBetween e lo hi negated)))))"

definition inBody :: "StlExpr parse \<Rightarrow> StlExpr list \<Rightarrow> (bool \<times> StlExpr list) parse" where
  "inBody ex es = pbind (termExpr ex) (\<lambda>e. pbind (matchAny [T_rightParen]) (\<lambda>close.
     if close then pret (False, es @ [e])
     else pbind (consume T_comma [''Expecting '' @ quote @ '','' @ quote @ '' or '' @ quote @ '')'' @ quote @ '' to continue with IN expression'']) (\<lambda>_.
       pret (True, es @ [e]))))"

definition inExpr :: "StlExpr parse \<Rightarrow> StlExpr \<Rightarrow> bool \<Rightarrow> StlExpr parse" where
  "inExpr ex e negated =
     pbind (consume T_leftParen [''Expecting '' @ quote @ ''('' @ quote @ '' after the IN keyword'']) (\<lambda>_.
     pbind (loop (inBody ex) []) (\<lambda>es. pret (EIn e es negated)))"

definition comparisonOperator :: "StlTokenType \<Rightarrow> StlBinaryOperator" where
  "comparisonOperator ty =
     (if ty = T_greater then BinGt else if ty = T_greaterEqual then BinGe
      else if ty = T_less then BinLt else if ty = T_lessEqual then BinLe else BinAdd)"

definition comparisonBody :: "StlExpr parse \<Rightarrow> StlExpr \<Rightarrow> (bool \<times> StlExpr) parse" where
  "comparisonBody ex e = pbind (matchAny [T_greater, T_greaterEqual, T_less, T_lessEqual]) (\<lambda>b.
     if b then pbind previous (\<lambda>t. pbind (termExpr ex) (\<lambda>rhs.
       pret (True, EBinary e (comparisonOperator (tokenType t)) rhs)))
     else pret (False, e))"

definition comparison :: "StlExpr parse \<Rightarrow> StlExpr parse" where
  "comparison ex = pbind (termExpr ex) (\<lambda>e. pbind notInBetween (\<lambda>negated.
     pbind (matchAny [T_keywordBetween]) (\<lambda>between.
     if between then betweenExpr ex e negated
     else pbind (matchAny [T_keywordIn]) (\<lambda>isIn.
       if isIn then inExpr ex e negated else loop (comparisonBody ex) e))))"

definition equalityBody :: "StlExpr parse \<Rightarrow> StlExpr \<Rightarrow> (bool \<times> StlExpr) parse" where
  "equalityBody ex e = pbind (matchAny [T_bangEqual, T_equal, T_equalEqual]) (\<lambda>b.
     if b then pbind previous (\<lambda>t. pbind (comparison ex) (\<lambda>rhs.
       pret (True, EBinary e (if tokenType t = T_bangEqual then BinNe else BinEq) rhs)))
     else pret (False, e))"

definition equality :: "StlExpr parse \<Rightarrow> StlExpr parse" where
  "equality ex = pbind (comparison ex) (loop (equalityBody ex))"

definition logicAndBody :: "StlExpr parse \<Rightarrow> StlExpr \<Rightarrow> (bool \<times> StlExpr) parse" where
  "logicAndBody ex e = pbind (matchAny [T_keywordAnd]) (\<lambda>b.
     if b then pbind (equality ex) (\<lambda>rhs. pret (True, ELogical e LogicalAnd rhs))
     else pret (False, e))"

definition logicAnd :: "StlExpr parse \<Rightarrow> StlExpr parse" where
  "logicAnd ex = pbind (equality ex) (loop (logicAndBody ex))"

definition logicOrBody :: "StlExpr parse \<Rightarrow> StlExpr \<Rightarrow> (bool \<times> StlExpr) parse" where
  "logicOrBody ex e = pbind (matchAny [T_keywordOr]) (\<lambda>b.
     if b then pbind (logicAnd ex) (\<lambda>rhs. pret (True, ELogical e LogicalOr rhs))
     else pret (False, e))"

definition logicOr :: "StlExpr parse \<Rightarrow> StlExpr parse" where
  "logicOr ex = pbind (logicAnd ex) (loop (logicOrBody ex))"

fun expression :: "nat \<Rightarrow> StlExpr parse" where
  "expression 0 = pthrow FuelExhausted"
| "expression (Suc n) = logicOr (expression n)"

section \<open>Queries\<close>

definition busNameStatement :: "BusNameStatement parse" where
  "busNameStatement = pbind (matchAny [T_star]) (\<lambda>star.
     if star then pret \<lparr>busName_session = defaultToken, busName_bus = defaultToken\<rparr>
     else pbind (consume T_identifier [''Expecting session name'']) (\<lambda>session.
       pbind (consume T_dot [''Expecting '' @ quote @ ''.'' @ quote @ '' after session name'']) (\<lambda>_.
       pbind (consume T_identifier [''Expecting bus name'']) (\<lambda>bus.
       pret \<lparr>busName_session = session, busName_bus = bus\<rparr>))))"

definition queryType :: "StlTypeNameStatement option parse" where
  "queryType = pbind (matchAny [T_star]) (\<lambda>star.
     if star then pret None
     else pbind (typeNameStatement [''Expecting class name for SELECT statement'']) (\<lambda>ty.
       pret (Some ty)))"

definition queryCondition :: "StlExpr option parse" where
  "queryCondition = pbind isAtEnd (\<lambda>end.
     if end then pret None
     else pbind (consume T_keywordWhere [''Expected WHERE keyword in query'']) (\<lambda>_.
       pbind (\<lambda>s. expression (Suc (length (toks s))) s) (\<lambda>e. pret (Some e))))"

definition queryEnd :: "unit parse" where
  "queryEnd = pbind isAtEnd (\<lambda>end.
     if end then pret ()
     else pbind peek (\<lambda>t.
       parseError (''Unexpected '' @ quote @ lexeme t @ quote @ '' after the query condition'')))"

definition queryStatement :: "QueryStatement parse" where
  "queryStatement = pbind (consume T_keywordSelect [''Expected SELECT keyword in query'']) (\<lambda>_.
     pbind queryType (\<lambda>ty.
     pbind (consume T_keywordFrom [''Expected FROM keyword in query'']) (\<lambda>_.
     pbind busNameStatement (\<lambda>bus.
     pbind queryCondition (\<lambda>condition.
     pbind queryEnd (\<lambda>_.
     pret \<lparr>query_type = ty, query_bus = bus, query_condition = condition\<rparr>))))))"

definition parseQuery :: "StlToken list \<Rightarrow> parse_exn + QueryStatement" where
  "parseQuery ts = rbind (queryStatement (initParser ts)) (\<lambda>(q, _). Inr q)"

section \<open>No production leaves with an internal exception\<close>

lemma pt_variableBody:
  "ptriple (onTrack prog ts k) (variableBody v) (\<lambda>r. onTrack prog ts (if fst r then Suc k else k))"
  unfolding variableBody_def by (intro pt_intros; auto)

lemma pt_variable: "ptriple (onTrack prog ts k) variable (\<lambda>_. onTrack prog ts (Suc k))"
  unfolding variable_def by (intro pt_intros pt_variableBody; auto)

lemma pt_notInBetween: "ptriple (onTrack prog ts k) notInBetween (\<lambda>_. onTrack prog ts k)"
proof (rule ptripleI)
  fix s assume s: "onTrack prog ts k s"
  obtain u where "peekNext s = Inr (u, s)"
    using tokenAt_onTrack [OF s, of "pos s + 1"] s
    by (cases "length ts \<le> pos s + 1") (auto simp: peekNext_def onTrack_def simp del: add_Suc_right)
  then show "case notInBetween s of Inl e \<Rightarrow> inputError e | Inr (x, s') \<Rightarrow> onTrack prog ts k s'"
    using s onTrack_step [OF s] advance_onTrack [OF s]
    by (auto simp: notInBetween_def pbind_def peek_onTrack pret_def intro: onTrack_mono [of _ _ "Suc k"])
qed

text \<open>
  The trees the parser builds: no empty alternative, literals that are tokens of the list of a literal
  kind, and sets with at least one element.
\<close>

fun wellBuilt :: "StlToken list \<Rightarrow> StlExpr \<Rightarrow> bool" where
  "wellBuilt ts EMonostate \<longleftrightarrow> False"
| "wellBuilt ts (ELiteral t) \<longleftrightarrow> t \<in> set ts \<and> tokenType t \<in> set literalKinds"
| "wellBuilt ts (EUnary op e) \<longleftrightarrow> wellBuilt ts e"
| "wellBuilt ts (EBinary l op r) \<longleftrightarrow> wellBuilt ts l \<and> wellBuilt ts r"
| "wellBuilt ts (EGrouping e) \<longleftrightarrow> wellBuilt ts e"
| "wellBuilt ts (ELogical l op r) \<longleftrightarrow> wellBuilt ts l \<and> wellBuilt ts r"
| "wellBuilt ts (EVariable path name) \<longleftrightarrow> True"
| "wellBuilt ts (EBetween e lo hi n) \<longleftrightarrow> wellBuilt ts e \<and> wellBuilt ts lo \<and> wellBuilt ts hi"
| "wellBuilt ts (EIn e es n) \<longleftrightarrow> wellBuilt ts e \<and> es \<noteq> [] \<and> (\<forall>x \<in> set es. wellBuilt ts x)"

lemma pt_checkBetweenBounds:
  assumes "wellBuilt ts lo" "wellBuilt ts hi"
  shows "ptriple (onTrack prog ts k) (checkBetweenBounds lo hi) (\<lambda>_. onTrack prog ts k)"
proof (cases "\<exists>a b. lo = ELiteral a \<and> hi = ELiteral b \<and> isNumberToken a \<and> isNumberToken b")
  case True
  then obtain a b where ab: "lo = ELiteral a" "hi = ELiteral b" "isNumberToken a" "isNumberToken b"
    by blast
  show ?thesis
  proof (rule ptripleI)
    fix s assume s: "onTrack prog ts k s"
    then have "numericLexeme a" "numericLexeme b"
      using assms ab by (auto simp: onTrack_def readableTokens_def)
    then obtain x y where "stod_signed (lexeme a) = Some x" "stod_signed (lexeme b) = Some y"
      using ab by (auto simp: numericLexeme_def isNumberToken_def)
    then show "case checkBetweenBounds lo hi s of Inl e \<Rightarrow> inputError e
        | Inr (x, s') \<Rightarrow> onTrack prog ts k s'"
      using s ab
      by (auto simp: checkBetweenBounds_def pbind_def peek_onTrack parseError_def pthrow_def
          pret_def inputError_def)
  qed
next
  case False
  then have "checkBetweenBounds lo hi = pret ()"
    by (auto simp: checkBetweenBounds_def split: StlExpr.splits)
  then show ?thesis by (simp add: pt_ret)
qed

text \<open>An expression was parsed and at least one token consumed after position \<open>k\<close>.\<close>

definition parsesAt :: "string \<Rightarrow> StlToken list \<Rightarrow> nat \<Rightarrow> StlExpr \<Rightarrow> parser \<Rightarrow> bool" where
  "parsesAt prog ts k e s \<longleftrightarrow> onTrack prog ts (Suc k) s \<and> wellBuilt ts e"

lemma parsesAt_mono: "parsesAt prog ts j e s \<Longrightarrow> k \<le> j \<Longrightarrow> parsesAt prog ts k e s"
  by (auto simp: parsesAt_def elim: onTrack_mono)

lemma pt_ret_expr:
  "k \<le> j \<Longrightarrow> wellBuilt ts e \<Longrightarrow> ptriple (onTrack prog ts (Suc j)) (pret e) (parsesAt prog ts k)"
  by (auto simp: ptriple_def pret_def parsesAt_def elim: onTrack_mono)

lemma pt_bind_expr:
  assumes "ptriple P p (parsesAt prog ts k)"
    and "\<And>e. wellBuilt ts e \<Longrightarrow> ptriple (onTrack prog ts (Suc k)) (f e) Q"
  shows "ptriple P (pbind p f) Q"
proof (rule pt_bind [OF assms(1)])
  fix e show "ptriple (parsesAt prog ts k e) (f e) Q"
    unfolding parsesAt_def by (rule pt_pre_conj) (rule assms(2))
qed

lemma pt_parsesAt_mono:
  "ptriple P p (parsesAt prog ts j) \<Longrightarrow> k \<le> j \<Longrightarrow> ptriple P p (parsesAt prog ts k)"
  by (erule pt_weaken) (rule parsesAt_mono)

lemma pt_parsesAt: "ptriple P p (parsesAt prog ts k) \<Longrightarrow> ptriple P p (\<lambda>_. onTrack prog ts (Suc k))"
  by (erule pt_weaken) (simp add: parsesAt_def)

text \<open>A level of binary operators: an operand, then a loop over an operator and an operand.\<close>

lemma pt_loop_expr:
  assumes "wellBuilt ts e"
    and "\<And>e j. wellBuilt ts e \<Longrightarrow> Suc k \<le> j \<Longrightarrow> ptriple (onTrack prog ts j) (body e)
      (\<lambda>r s'. onTrack prog ts (if fst r then Suc j else j) s' \<and> wellBuilt ts (snd r))"
  shows "ptriple (onTrack prog ts (Suc k)) (loop body e) (parsesAt prog ts k)"
  using pt_loop_inv [where J = "wellBuilt ts" and body = body, OF assms(2,1)]
  by (rule pt_weaken) (auto simp: parsesAt_def)

lemma pt_level:
  assumes "ptriple (onTrack prog ts k) p (parsesAt prog ts k)"
    and "\<And>e j. wellBuilt ts e \<Longrightarrow> k \<le> j \<Longrightarrow> ptriple (onTrack prog ts j) (body e)
      (\<lambda>r s'. onTrack prog ts (if fst r then Suc j else j) s' \<and> wellBuilt ts (snd r))"
  shows "ptriple (onTrack prog ts k) (pbind p (loop body)) (parsesAt prog ts k)"
  using assms(2) by (intro pt_bind_expr [OF assms(1)] pt_loop_expr) auto

lemma pt_ret_level:
  "(if again then Suc j else j) \<le> i \<Longrightarrow> wellBuilt ts e \<Longrightarrow>
     ptriple (onTrack prog ts i) (pret (again, e))
       (\<lambda>r s'. onTrack prog ts (if fst r then Suc j else j) s' \<and> wellBuilt ts (snd r))"
  by (rule pt_ret_inv [where J = "wellBuilt ts"])

text \<open>
  What a production asks of the parser of the expressions one level of parentheses down: after
  position \<open>k0\<close> it consumes at least one token, builds a good tree and fails with parse errors only.
\<close>

locale subexpression =
  fixes prog :: string and ts :: "StlToken list" and ex :: "StlExpr parse" and k0 :: nat
  assumes ex: "k0 < k \<Longrightarrow> ptriple (onTrack prog ts k) ex (parsesAt prog ts k)"
begin

lemma pt_group:
  assumes "k0 \<le> k" shows "ptriple (onTrack prog ts k) (group ex) (parsesAt prog ts k)"
  unfolding group_def
  by (rule pt_match, rule pt_bind_expr [OF ex])
    (use assms in \<open>auto intro!: pt_bind [OF pt_consume] pt_ret_expr pt_bind [OF pt_peek] pt_error\<close>)

lemma pt_variable_expr: "ptriple (onTrack prog ts k) variable (parsesAt prog ts k)"
  unfolding variable_def
  by (auto intro!: pt_bind [OF pt_consume] pt_bind [OF pt_loop [OF pt_variableBody]] pt_ret_expr
     )

lemma pt_primary:
  assumes "k0 \<le> k" shows "ptriple (onTrack prog ts k) (primary ex) (parsesAt prog ts k)"
  unfolding primary_def
  using assms
  by (auto intro!: pt_match_previous pt_ret_expr pt_bind [OF pt_check] pt_if pt_variable_expr pt_group)

lemma pt_unaryFuel:
  "k0 \<le> k \<Longrightarrow> length ts - k < n \<Longrightarrow> ptriple (onTrack prog ts k) (unaryFuel n ex) (parsesAt prog ts k)"
proof (induction n arbitrary: k)
  case (Suc n)
  have "ptriple (onTrack prog ts (Suc k)) (unaryFuel n ex) (parsesAt prog ts (Suc k))"
  proof (cases "Suc k < length ts")
    case True
    then show ?thesis using Suc by simp
  next
    case False
    then show ?thesis by (auto simp: ptriple_def onTrack_def)
  qed
  then show ?case
    using Suc.prems
    by (auto intro!: pt_match pt_bind [OF pt_previous] pt_bind_expr pt_ret_expr pt_primary
       )
qed simp

lemma pt_unary:
  assumes "k0 \<le> k" shows "ptriple (onTrack prog ts k) (unary ex) (parsesAt prog ts k)"
proof (rule ptripleI)
  fix s assume s: "onTrack prog ts k s"
  then have at: "onTrack prog ts (pos s) s" "k \<le> pos s" "remaining s = length ts - pos s"
    by (auto simp: onTrack_def remaining_def)
  have "ptriple (onTrack prog ts (pos s)) (unaryFuel (Suc (remaining s)) ex) (parsesAt prog ts k)"
    using assms at by (intro pt_parsesAt_mono [OF pt_unaryFuel]) auto
  then show "case unary ex s of Inl e \<Rightarrow> inputError e | Inr (e, s') \<Rightarrow> parsesAt prog ts k e s'"
    using at by (auto simp: ptriple_def unary_def simp del: unaryFuel.simps)
qed

lemma pt_factor:
  assumes "k0 \<le> k" shows "ptriple (onTrack prog ts k) (factor ex) (parsesAt prog ts k)"
  unfolding factor_def
proof (rule pt_level [OF pt_unary [OF assms]])
  fix e j assume "wellBuilt ts e" "k \<le> j"
  then show "ptriple (onTrack prog ts j) (factorBody ex e)
      (\<lambda>r s'. onTrack prog ts (if fst r then Suc j else j) s' \<and> wellBuilt ts (snd r))"
    unfolding factorBody_def using assms
    by (intro pt_match pt_bind [OF pt_previous] pt_bind_expr [OF pt_unary] pt_ret_level)
      (auto)
qed

lemma pt_term:
  assumes "k0 \<le> k" shows "ptriple (onTrack prog ts k) (termExpr ex) (parsesAt prog ts k)"
  unfolding termExpr_def
proof (rule pt_level [OF pt_factor [OF assms]])
  fix e j assume "wellBuilt ts e" "k \<le> j"
  then show "ptriple (onTrack prog ts j) (termBody ex e)
      (\<lambda>r s'. onTrack prog ts (if fst r then Suc j else j) s' \<and> wellBuilt ts (snd r))"
    unfolding termBody_def using assms
    by (intro pt_match pt_bind [OF pt_previous] pt_bind_expr [OF pt_factor] pt_ret_level)
      (auto)
qed

lemma pt_betweenExpr:
  assumes "k0 \<le> k" "wellBuilt ts e"
  shows "ptriple (onTrack prog ts (Suc k)) (betweenExpr ex e negated) (parsesAt prog ts k)"
  unfolding betweenExpr_def using assms
  by (intro pt_bind_expr [OF pt_term] pt_bind [OF pt_consume] pt_bind [OF pt_checkBetweenBounds]
      pt_ret_expr) (auto)

lemma pt_inBody:
  assumes "k0 \<le> k" "\<forall>x \<in> set es. wellBuilt ts x"
  shows "ptriple (onTrack prog ts k) (inBody ex es)
     (\<lambda>r s'. onTrack prog ts (if fst r then Suc k else k) s' \<and>
        (\<forall>x \<in> set (snd r). wellBuilt ts x) \<and> snd r \<noteq> [])"
  unfolding inBody_def using assms
  by (intro pt_bind_expr [OF pt_term] pt_match pt_bind [OF pt_consume]
      pt_ret_inv [where J = "\<lambda>es. (\<forall>x \<in> set es. wellBuilt ts x) \<and> es \<noteq> []"]) auto

lemma pt_inExpr:
  assumes "k0 \<le> k" "wellBuilt ts e"
  shows "ptriple (onTrack prog ts (Suc k)) (inExpr ex e negated) (parsesAt prog ts k)"
  unfolding inExpr_def
proof (rule pt_bind [OF pt_consume])
  fix t
  have "ptriple (onTrack prog ts (Suc (Suc k))) (loop (inBody ex) [])
      (\<lambda>es s. onTrack prog ts (Suc (Suc k)) s \<and> (\<forall>x \<in> set es. wellBuilt ts x) \<and> es \<noteq> [])"
    using assms(1)
    by (intro pt_loop_post [where J = "\<lambda>es. \<forall>x \<in> set es. wellBuilt ts x"] pt_weaken [OF pt_inBody]) auto
  then show "ptriple (onTrack prog ts (Suc (Suc k)))
      (pbind (loop (inBody ex) []) (\<lambda>es. pret (EIn e es negated))) (parsesAt prog ts k)"
    using assms(2)
    by (auto simp: conj_commute intro!: pt_bind pt_pre_conj pt_ret_expr)
qed

lemma pt_comparisonBody:
  assumes "k0 \<le> k" "wellBuilt ts e"
  shows "ptriple (onTrack prog ts k) (comparisonBody ex e)
      (\<lambda>r s'. onTrack prog ts (if fst r then Suc k else k) s' \<and> wellBuilt ts (snd r))"
  unfolding comparisonBody_def using assms
  by (intro pt_match pt_bind [OF pt_previous] pt_bind_expr [OF pt_term] pt_ret_level)
    (auto)

lemma pt_comparison:
  assumes "k0 \<le> k" shows "ptriple (onTrack prog ts k) (comparison ex) (parsesAt prog ts k)"
  unfolding comparison_def
proof (rule pt_bind_expr [OF pt_term [OF assms]], rule pt_bind [OF pt_notInBetween],
    rule pt_match, goal_cases)
  case (1 e negated)
  have "ptriple (onTrack prog ts (Suc (Suc k))) (betweenExpr ex e negated) (parsesAt prog ts (Suc k))"
    using assms 1 by (intro pt_betweenExpr) simp_all
  then show ?case by (rule pt_weaken) (auto elim: parsesAt_mono)
next
  case (2 e negated)
  have "ptriple (onTrack prog ts (Suc (Suc k))) (inExpr ex e negated) (parsesAt prog ts (Suc k))"
    using assms 2 by (intro pt_inExpr) simp_all
  moreover have "ptriple (onTrack prog ts (Suc k)) (loop (comparisonBody ex) e) (parsesAt prog ts k)"
    using 2 assms by (intro pt_loop_expr pt_comparisonBody) auto
  ultimately show ?case
    by (intro pt_match) (auto intro: pt_parsesAt_mono)
qed

lemma pt_equality:
  assumes "k0 \<le> k" shows "ptriple (onTrack prog ts k) (equality ex) (parsesAt prog ts k)"
  unfolding equality_def
proof (rule pt_level [OF pt_comparison [OF assms]])
  fix e j assume "wellBuilt ts e" "k \<le> j"
  then show "ptriple (onTrack prog ts j) (equalityBody ex e)
      (\<lambda>r s'. onTrack prog ts (if fst r then Suc j else j) s' \<and> wellBuilt ts (snd r))"
    unfolding equalityBody_def using assms
    by (intro pt_match pt_bind [OF pt_previous] pt_bind_expr [OF pt_comparison] pt_ret_level)
      (auto)
qed

lemma pt_logicAnd:
  assumes "k0 \<le> k" shows "ptriple (onTrack prog ts k) (logicAnd ex) (parsesAt prog ts k)"
  unfolding logicAnd_def
proof (rule pt_level [OF pt_equality [OF assms]])
  fix e j assume "wellBuilt ts e" "k \<le> j"
  then show "ptriple (onTrack prog ts j) (logicAndBody ex e)
      (\<lambda>r s'. onTrack prog ts (if fst r then Suc j else j) s' \<and> wellBuilt ts (snd r))"
    unfolding logicAndBody_def using assms
    by (intro pt_match pt_bind_expr [OF pt_equality] pt_ret_level) (auto)
qed

lemma pt_logicOr:
  assumes "k0 \<le> k" shows "ptriple (onTrack prog ts k) (logicOr ex) (parsesAt prog ts k)"
  unfolding logicOr_def
proof (rule pt_level [OF pt_logicAnd [OF assms]])
  fix e j assume "wellBuilt ts e" "k \<le> j"
  then show "ptriple (onTrack prog ts j) (logicOrBody ex e)
      (\<lambda>r s'. onTrack prog ts (if fst r then Suc j else j) s' \<and> wellBuilt ts (snd r))"
    unfolding logicOrBody_def using assms
    by (intro pt_match pt_bind_expr [OF pt_logicAnd] pt_ret_level) (auto)
qed

end

text \<open>
  \<open>expression n\<close> meets the contract after the position from which on fewer than \<open>n\<close> tokens are left:
  every level of parentheses costs one unit of fuel and consumes a token.
\<close>

lemma subexpression_expression: "subexpression prog ts (expression n) (length ts - n)"
proof (induction n)
  case 0
  show ?case by unfold_locales (auto simp: ptriple_def onTrack_def)
next
  case (Suc n)
  show ?case
  proof
    fix k assume "length ts - Suc n < k"
    then have "length ts - n \<le> k" by simp
    from subexpression.pt_logicOr [OF Suc this]
    show "ptriple (onTrack prog ts k) (expression (Suc n)) (parsesAt prog ts k)"
      by simp
  qed
qed

interpretation nested: subexpression prog ts "expression n" "length ts - n" for prog ts n
  by (rule subexpression_expression)

lemma pt_queryType: "ptriple (onTrack prog ts k) queryType (\<lambda>_. onTrack prog ts k)"
  unfolding queryType_def by (intro pt_intros; auto)

lemma pt_busNameStatement: "ptriple (onTrack prog ts k) busNameStatement (\<lambda>_. onTrack prog ts k)"
  unfolding busNameStatement_def by (intro pt_intros; auto)

definition goodCondition :: "StlToken list \<Rightarrow> StlExpr option \<Rightarrow> bool" where
  "goodCondition ts c \<longleftrightarrow> (\<forall>e. c = Some e \<longrightarrow> wellBuilt ts e)"

lemma pt_queryCondition:
  "ptriple (onTrack prog ts k) queryCondition (\<lambda>c s. onTrack prog ts k s \<and> goodCondition ts c)"
proof -
  let ?Q = "\<lambda>c s. onTrack prog ts k s \<and> goodCondition ts c"
  have "ptriple (onTrack prog ts (Suc k)) (expression (Suc (length ts))) (parsesAt prog ts (Suc k))"
    by (rule nested.ex) simp
  then have "ptriple (onTrack prog ts (Suc k)) (\<lambda>s. expression (Suc (length (toks s))) s)
      (parsesAt prog ts (Suc k))"
    by (auto simp: ptriple_def onTrack_def simp del: expression.simps)
  note condition = pt_bind_expr [OF this]
  have "ptriple (onTrack prog ts k) (pret None) ?Q"
    by (simp add: ptriple_def pret_def goodCondition_def)
  moreover have "ptriple (onTrack prog ts (Suc (Suc k))) (pret (Some e)) ?Q" if "wellBuilt ts e" for e
    using that by (auto simp: ptriple_def pret_def goodCondition_def elim: onTrack_mono)
  ultimately show ?thesis
    unfolding queryCondition_def
    by (intro pt_bind [OF pt_isAtEnd] pt_if pt_bind [OF pt_consume] condition)
qed

lemma pt_queryEnd: "ptriple (onTrack prog ts k) queryEnd (\<lambda>_. onTrack prog ts k)"
  unfolding queryEnd_def by (intro pt_intros; auto)

lemma pt_queryStatement:
  "ptriple (onTrack prog ts 0) queryStatement
     (\<lambda>q s. onTrack prog ts 0 s \<and> goodCondition ts (query_condition q))"
proof -
  have "ptriple (onTrack prog ts k) (pret \<lparr>query_type = ty, query_bus = b, query_condition = c\<rparr>)
      (\<lambda>q s. onTrack prog ts 0 s \<and> goodCondition ts (query_condition q))" if "goodCondition ts c" for k ty b c
    using that by (auto simp: ptriple_def pret_def elim: onTrack_mono)
  then show ?thesis
    unfolding queryStatement_def
    by (intro pt_bind [OF pt_consume] pt_bind [OF pt_queryType] pt_bind [OF pt_busNameStatement]
        pt_bind [OF pt_queryCondition] pt_pre_conj pt_bind [OF pt_queryEnd])
qed

lemma parseQuery_outcome:
  assumes "readableTokens prog ts"
  shows "(\<exists>q. parseQuery ts = Inr q \<and> goodCondition ts (query_condition q)) \<or>
     (\<exists>m. parseQuery ts = Inl (ParseError m))"
  using pt_queryStatement [of prog ts] onTrack_initParser [OF assms]
  by (cases "queryStatement (initParser ts)")
    (auto simp: parseQuery_def ptriple_def inputError_def split: sum.splits)

end
