(* ===== verification/Stl_Frontend.thy ===== *)
theory Stl_Frontend
  imports Stl_Scanner Stl_Query_Parser
begin

text \<open>
  The scanner and the parser together, as \<^verbatim>\<open>VM::parse\<close> (queries) and the resolver of type definition
  files use them. What the parser needs of the scanner is the contract \<open>token_source\<close>; the facts about the
  parser on scanned programs are proved from the contract alone.
\<close>

context token_source
begin

lemma parse_scanned:
  assumes "scan prog = Inr ts" "CHR 0x00 \<notin> set prog"
  shows "(\<exists>st. parse ts = Inr st) \<or> (\<exists>m. parse ts = Inl (ParseError m))"
  by (rule parse_outcome [OF scan_readable [OF assms]])

lemma parseQuery_scanned:
  assumes "scan prog = Inr ts" "CHR 0x00 \<notin> set prog"
  shows "(\<exists>q. parseQuery ts = Inr q \<and> goodCondition ts (query_condition q)) \<or>
     (\<exists>m. parseQuery ts = Inl (ParseError m))"
  by (rule parseQuery_outcome [OF scan_readable [OF assms]])

lemma literal_scanned:
  assumes "scan prog = Inr ts" "CHR 0x00 \<notin> set prog" "t \<in> set ts"
  shows "plainValue (tokenValue t)"
  using scan_readable [OF assms(1,2)] assms(3) by (simp add: readableTokens_def)

end

text \<open>\<^verbatim>\<open>VM::parse\<close>: the exceptions of the scanner and the parser reach the caller.\<close>

definition parse_query :: "string \<Rightarrow> (scan_exn + parse_exn) + QueryStatement" where
  "parse_query query =
     (case scanTokens query of
        Inl e \<Rightarrow> Inl (Inl e)
      | Inr ts \<Rightarrow> (case parseQuery ts of Inl e \<Rightarrow> Inl (Inr e) | Inr q \<Rightarrow> Inr q))"

lemma parse_query_outcome:
  assumes "CHR 0x00 \<notin> set query"
  shows "(\<exists>ts q. scanTokens query = Inr ts \<and> parse_query query = Inr q \<and>
       goodCondition ts (query_condition q)) \<or>
     (\<exists>e. parse_query query = Inl (Inl e) \<and> lexicalError e) \<or>
     (\<exists>m. parse_query query = Inl (Inr (ParseError m)))"
proof (cases "scanTokens query")
  case (Inl e)
  then show ?thesis using scanTokens_errors by (simp add: parse_query_def)
next
  case (Inr ts)
  then show ?thesis using stl_scanner.parseQuery_scanned [OF Inr assms] by (auto simp: parse_query_def)
qed

section \<open>Properties\<close>





end
