(* ===== verification/Query_Value.thy ===== *)
theory Query_Value
  imports Stl_Token "HOL-Library.Signed_Division" "HOL-Library.List_Lexorder" "HOL-Library.Char_ord"
begin

text \<open>
  The values on the stack of the query machine (\<^verbatim>\<open>lang/vm.h\<close>) and the operations on them
  (\<^verbatim>\<open>lang/vm.cpp\<close>: \<open>compare\<close>, \<open>holdsInteger\<close>, \<open>integerValue\<close>, \<open>divisionOverflows\<close>, \<open>mathOperation\<close> and
  the operators built from them). The operators of the source are C++'s own, so the usual arithmetic
  conversions are written out: an operand narrower than \<^verbatim>\<open>int\<close> is promoted, and both are converted to
  the larger of their kinds in the order of \<open>NumKind\<close>.
\<close>

section \<open>Values and exceptions\<close>

datatype Value =
    F32 float32
  | F64 float64
  | I32 i32
  | U32 u32
  | I64 i64
  | U64 u64
  | Bool bool
  | Str string
  | U8 u8
  | I16 i16
  | U16 u16
  | VariantAccessError

text \<open>
  What an operation leaves with: \<^verbatim>\<open>std::logic_error\<close>, the \<^verbatim>\<open>std::runtime_error\<close> of
  \<^verbatim>\<open>throwRuntimeError\<close>, the \<^verbatim>\<open>std::bad_variant_access\<close> of \<^verbatim>\<open>std::get\<close>, the \<^verbatim>\<open>std::out_of_range\<close> of
  \<^verbatim>\<open>std::vector::at\<close>, and an exception of a value getter. Two outcomes are not exceptions and nothing can be
  concluded from them: \<open>UndefinedBehavior\<close>, a signed overflow or an integer division by zero, and
  \<open>InvalidAccess\<close>, a read outside the code, the constants or the environment, or from an empty stack.
\<close>

datatype vm_exn =
    LogicError string
  | RuntimeException string
  | BadVariantAccess
  | OutOfRange
  | GetterException string
  | UndefinedBehavior
  | InvalidAccess

section \<open>Conversions\<close>

datatype NumKind = KI32 | KU32 | KI64 | KU64 | KF32 | KF64

fun kindRank :: "NumKind \<Rightarrow> nat" where
  "kindRank KI32 = 0"
| "kindRank KU32 = 1"
| "kindRank KI64 = 2"
| "kindRank KU64 = 3"
| "kindRank KF32 = 4"
| "kindRank KF64 = 5"

instantiation NumKind :: linorder
begin

definition less_eq_NumKind :: "NumKind \<Rightarrow> NumKind \<Rightarrow> bool" where
  "less_eq_NumKind x y \<longleftrightarrow> kindRank x \<le> kindRank y"

definition less_NumKind :: "NumKind \<Rightarrow> NumKind \<Rightarrow> bool" where
  "less_NumKind x y \<longleftrightarrow> kindRank x < kindRank y"

instance
proof
  fix x y :: NumKind
  assume "x \<le> y" "y \<le> x"
  then show "x = y" by (cases x; cases y) (simp_all add: less_eq_NumKind_def)
qed (auto simp: less_eq_NumKind_def less_NumKind_def)

end

text \<open>The kind of a number after promotion; \<open>None\<close> for a value that is not a number.\<close>

fun promotedKind :: "Value \<Rightarrow> NumKind option" where
  "promotedKind (F32 _) = Some KF32"
| "promotedKind (F64 _) = Some KF64"
| "promotedKind (I32 _) = Some KI32"
| "promotedKind (U32 _) = Some KU32"
| "promotedKind (I64 _) = Some KI64"
| "promotedKind (U64 _) = Some KU64"
| "promotedKind (U8 _) = Some KI32"
| "promotedKind (I16 _) = Some KI32"
| "promotedKind (U16 _) = Some KI32"
| "promotedKind _ = None"

text \<open>The mathematical value of an integer alternative.\<close>

fun intOf :: "Value \<Rightarrow> int" where
  "intOf (I32 x) = sint x"
| "intOf (U32 x) = uint x"
| "intOf (I64 x) = sint x"
| "intOf (U64 x) = uint x"
| "intOf (U8 x) = uint x"
| "intOf (I16 x) = sint x"
| "intOf (U16 x) = uint x"
| "intOf _ = 0"

fun toFloat32 :: "Value \<Rightarrow> float32" where
  "toFloat32 (F32 x) = x"
| "toFloat32 v = f32_of_int (intOf v)"

fun toFloat64 :: "Value \<Rightarrow> float64" where
  "toFloat64 (F64 x) = x"
| "toFloat64 (F32 x) = f64_of_f32 x"
| "toFloat64 v = f64_of_int (intOf v)"

text \<open>The kind both operands are converted to.\<close>

definition commonKind :: "Value \<Rightarrow> Value \<Rightarrow> NumKind option" where
  "commonKind a b =
     (case (promotedKind a, promotedKind b) of (Some x, Some y) \<Rightarrow> Some (max x y) | _ \<Rightarrow> None)"

text \<open>An integer of the given kind: what a conversion to the kind makes of it.\<close>

fun wrapTo :: "NumKind \<Rightarrow> int \<Rightarrow> int" where
  "wrapTo KI32 i = sint (word_of_int i :: i32)"
| "wrapTo KU32 i = uint (word_of_int i :: u32)"
| "wrapTo KI64 i = sint (word_of_int i :: i64)"
| "wrapTo KU64 i = uint (word_of_int i :: u64)"
| "wrapTo _ i = i"

section \<open>Comparisons\<close>

datatype CmpOp = CmpEq | CmpNe | CmpLt | CmpLe | CmpGt | CmpGe

definition applyCmp :: "CmpOp \<Rightarrow> 'a :: linorder \<Rightarrow> 'a \<Rightarrow> bool" where
  "applyCmp op a b =
     (case op of
        CmpEq \<Rightarrow> a = b | CmpNe \<Rightarrow> a \<noteq> b | CmpLt \<Rightarrow> a < b | CmpLe \<Rightarrow> a \<le> b | CmpGt \<Rightarrow> b < a | CmpGe \<Rightarrow> b \<le> a)"

definition applyCmpFloat :: "CmpOp \<Rightarrow> fpval \<Rightarrow> fpval \<Rightarrow> bool" where
  "applyCmpFloat op a b =
     (case op of
        CmpEq \<Rightarrow> fp_eq a b | CmpNe \<Rightarrow> \<not> fp_eq a b | CmpLt \<Rightarrow> fp_less a b
      | CmpLe \<Rightarrow> fp_less a b \<or> fp_eq a b | CmpGt \<Rightarrow> fp_less b a | CmpGe \<Rightarrow> fp_less b a \<or> fp_eq a b)"

definition compareNumbers :: "NumKind \<Rightarrow> CmpOp \<Rightarrow> Value \<Rightarrow> Value \<Rightarrow> bool" where
  "compareNumbers k op a b =
     (case k of
        KF32 \<Rightarrow> applyCmpFloat op (f32_dec (toFloat32 a)) (f32_dec (toFloat32 b))
      | KF64 \<Rightarrow> applyCmpFloat op (f64_dec (toFloat64 a)) (f64_dec (toFloat64 b))
      | _ \<Rightarrow> applyCmp op (wrapTo k (intOf a)) (wrapTo k (intOf b)))"

fun typeName :: "Value \<Rightarrow> string" where
  "typeName (F32 _) = ''float32_t''"
| "typeName (F64 _) = ''float64_t''"
| "typeName (I32 _) = ''int32_t''"
| "typeName (U32 _) = ''uint32_t''"
| "typeName (I64 _) = ''int64_t''"
| "typeName (U64 _) = ''uint64_t''"
| "typeName (U8 _) = ''uint8_t''"
| "typeName (I16 _) = ''int16_t''"
| "typeName (U16 _) = ''uint16_t''"
| "typeName _ = []"

definition compare :: "CmpOp \<Rightarrow> Value \<Rightarrow> Value \<Rightarrow> vm_exn + bool" where
  "compare op a b =
     (if a = VariantAccessError \<or> b = VariantAccessError then Inr False
      else case a of
        Str x \<Rightarrow> (case b of Str y \<Rightarrow> Inr (applyCmp op x y)
                 | _ \<Rightarrow> Inl (LogicError ''invalid value for comparison''))
      | Bool x \<Rightarrow> (case b of Bool y \<Rightarrow> Inr (applyCmp op x y)
                 | _ \<Rightarrow> Inl (LogicError ''invalid value for comparison''))
      | _ \<Rightarrow> (case commonKind a b of
                Some k \<Rightarrow> Inr (compareNumbers k op a b)
              | None \<Rightarrow> Inl (LogicError (''invalid value for comparison - '' @ typeName a))))"

section \<open>Arithmetic\<close>

datatype MathOp = Plus | Minus | Multiplies | Divides

text \<open>The exact result on integers; integer division of C++ rounds towards zero.\<close>

definition exactResult :: "MathOp \<Rightarrow> int \<Rightarrow> int \<Rightarrow> int" where
  "exactResult op a b =
     (case op of Plus \<Rightarrow> a + b | Minus \<Rightarrow> a - b | Multiplies \<Rightarrow> a * b | Divides \<Rightarrow> a sdiv b)"

definition float32Result :: "MathOp \<Rightarrow> float32 \<Rightarrow> float32 \<Rightarrow> float32" where
  "float32Result op a b = of_int
     (case op of
        Plus \<Rightarrow> fp_add 24 8 (f32_dec a) (f32_dec b)
      | Minus \<Rightarrow> fp_add 24 8 (f32_dec a) (fp_neg (f32_dec b))
      | Multiplies \<Rightarrow> fp_mul 24 8 (f32_dec a) (f32_dec b)
      | Divides \<Rightarrow> fp_div 24 8 (f32_dec a) (f32_dec b))"

definition float64Result :: "MathOp \<Rightarrow> float64 \<Rightarrow> float64 \<Rightarrow> float64" where
  "float64Result op a b = of_int
     (case op of
        Plus \<Rightarrow> fp_add 53 11 (f64_dec a) (f64_dec b)
      | Minus \<Rightarrow> fp_add 53 11 (f64_dec a) (fp_neg (f64_dec b))
      | Multiplies \<Rightarrow> fp_mul 53 11 (f64_dec a) (f64_dec b)
      | Divides \<Rightarrow> fp_div 53 11 (f64_dec a) (f64_dec b))"

text \<open>
  Integer arithmetic of one kind: a signed result out of range and a division by zero are undefined,
  an unsigned result wraps around.
\<close>

definition integerResult :: "NumKind \<Rightarrow> MathOp \<Rightarrow> int \<Rightarrow> int \<Rightarrow> vm_exn + Value" where
  "integerResult k op x y =
     (let r = exactResult op x y
      in if op = Divides \<and> y = 0 then Inl UndefinedBehavior
         else case k of
                KI32 \<Rightarrow> if r = wrapTo KI32 r then Inr (I32 (word_of_int r)) else Inl UndefinedBehavior
              | KU32 \<Rightarrow> Inr (U32 (word_of_int r))
              | KI64 \<Rightarrow> if r = wrapTo KI64 r then Inr (I64 (word_of_int r)) else Inl UndefinedBehavior
              | _ \<Rightarrow> Inr (U64 (word_of_int r)))"

definition mathOperation :: "MathOp \<Rightarrow> Value \<Rightarrow> Value \<Rightarrow> vm_exn + Value" where
  "mathOperation op a b =
     (if a = VariantAccessError \<or> b = VariantAccessError then Inr VariantAccessError
      else case commonKind a b of
             None \<Rightarrow> Inl (LogicError ''invalid value for math'')
           | Some KF32 \<Rightarrow> Inr (F32 (float32Result op (toFloat32 a) (toFloat32 b)))
           | Some KF64 \<Rightarrow> Inr (F64 (float64Result op (toFloat64 a) (toFloat64 b)))
           | Some k \<Rightarrow> integerResult k op (wrapTo k (intOf a)) (wrapTo k (intOf b)))"

fun holdsInteger :: "Value \<Rightarrow> bool" where
  "holdsInteger (I32 _) = True"
| "holdsInteger (U32 _) = True"
| "holdsInteger (I64 _) = True"
| "holdsInteger (U64 _) = True"
| "holdsInteger (U8 _) = True"
| "holdsInteger (I16 _) = True"
| "holdsInteger (U16 _) = True"
| "holdsInteger _ = False"

text \<open>\<^verbatim>\<open>static_cast<int64_t>\<close>, modular above the range.\<close>

definition integerValue :: "Value \<Rightarrow> i64" where
  "integerValue v = (if holdsInteger v then word_of_int (intOf v) else 0)"

fun isUInt64 :: "Value \<Rightarrow> bool" where
  "isUInt64 (U64 _) = True"
| "isUInt64 _ = False"

fun isInt64 :: "Value \<Rightarrow> bool" where
  "isInt64 (I64 _) = True"
| "isInt64 _ = False"

definition divisionOverflows :: "Value \<Rightarrow> Value \<Rightarrow> bool" where
  "divisionOverflows a b =
     (if isUInt64 a \<or> isUInt64 b then False
      else let dividend = sint (integerValue a)
           in if isInt64 a \<or> isInt64 b then dividend = - (2 ^ 63) else dividend = - (2 ^ 31))"

definition divide :: "Value \<Rightarrow> Value \<Rightarrow> vm_exn + Value" where
  "divide a b =
     (if holdsInteger a \<and> holdsInteger b \<and> sint (integerValue b) = 0
      then Inl (LogicError ''division by zero'')
      else if holdsInteger a \<and> holdsInteger b \<and> sint (integerValue b) = - 1 \<and> divisionOverflows a b
      then Inl (LogicError ''division overflows'')
      else mathOperation Divides a b)"

fun negate :: "Value \<Rightarrow> vm_exn + Value" where
  "negate VariantAccessError = Inr VariantAccessError"
| "negate (Bool b) = Inr (Bool (\<not> b))"
| "negate (U32 x) = Inr (U32 (- x))"
| "negate (I32 x) = integerResult KI32 Minus 0 (sint x)"
| "negate (F32 x) = Inr (F32 (f32_uminus x))"
| "negate (F64 x) = Inr (F64 (f64_uminus x))"
| "negate (U64 x) = Inr (U64 (- x))"
| "negate (I64 x) = integerResult KI64 Minus 0 (sint x)"
| "negate (U16 x) = integerResult KI32 Minus 0 (uint x)"
| "negate (I16 x) = integerResult KI32 Minus 0 (sint x)"
| "negate (U8 x) = integerResult KI32 Minus 0 (uint x)"
| "negate (Str _) = Inl (LogicError ''invalid type for negation'')"

text \<open>\<open>extract<bool>\<close>.\<close>

fun extractBool :: "Value \<Rightarrow> vm_exn + bool" where
  "extractBool (Bool b) = Inr b"
| "extractBool _ = Inl BadVariantAccess"

text \<open>The values \<open>doAnd\<close>, \<open>doOr\<close> and \<open>between\<close> push; \<^verbatim>\<open>&&\<close> and \<^verbatim>\<open>||\<close> skip their right operand.\<close>

definition doAnd :: "Value \<Rightarrow> Value \<Rightarrow> vm_exn + Value" where
  "doAnd a b =
     (if a = VariantAccessError \<or> b = VariantAccessError then Inr VariantAccessError
      else rbind (extractBool a) (\<lambda>x.
        if x then rbind (extractBool b) (\<lambda>y. Inr (Bool y)) else Inr (Bool False)))"

definition doOr :: "Value \<Rightarrow> Value \<Rightarrow> vm_exn + Value" where
  "doOr a b =
     (if a = VariantAccessError \<or> b = VariantAccessError then Inr VariantAccessError
      else rbind (extractBool a) (\<lambda>x.
        if x then Inr (Bool True) else rbind (extractBool b) (\<lambda>y. Inr (Bool y))))"

definition between :: "Value \<Rightarrow> Value \<Rightarrow> Value \<Rightarrow> vm_exn + Value" where
  "between val lo hi =
     rbind (compare CmpGt lo hi) (\<lambda>swapped.
       if swapped then Inl (RuntimeException
         (''expression: '' @ quote @ ''BETWEEN '' @ quote @ ''min'' @ quote @ '' AND '' @ quote @ ''max'' @
          quote @ quote @ '' expects '' @ quote @ ''min'' @ quote @ '' less or equal than '' @ quote @ ''max'' @ quote))
       else rbind (compare CmpGe val lo) (\<lambda>above.
         if above then rbind (compare CmpLe val hi) (\<lambda>below. Inr (Bool below))
         else Inr (Bool False)))"

section \<open>Conversions that keep the value\<close>

fun representable :: "NumKind \<Rightarrow> int \<Rightarrow> bool" where
  "representable KI32 i \<longleftrightarrow> - (2 ^ 31) \<le> i \<and> i < 2 ^ 31"
| "representable KU32 i \<longleftrightarrow> 0 \<le> i \<and> i < 2 ^ 32"
| "representable KI64 i \<longleftrightarrow> - (2 ^ 63) \<le> i \<and> i < 2 ^ 63"
| "representable KU64 i \<longleftrightarrow> 0 \<le> i \<and> i < 2 ^ 64"
| "representable _ i \<longleftrightarrow> True"

definition unsignedKind :: "NumKind \<Rightarrow> bool" where
  "unsignedKind k \<longleftrightarrow> k = KU32 \<or> k = KU64"

lemma wrapTo_eq_iff: "wrapTo k i = i \<longleftrightarrow> representable k i"
proof (cases k)
  case KI32
  then show ?thesis by (simp add: sint_sbintrunc' signed_take_bit_int_eq_self_iff)
next
  case KI64
  then show ?thesis by (simp add: sint_sbintrunc' signed_take_bit_int_eq_self_iff)
next
  case KU32
  then show ?thesis by (simp add: uint_word_of_int_eq take_bit_int_eq_self_iff)
next
  case KU64
  then show ?thesis by (simp add: uint_word_of_int_eq take_bit_int_eq_self_iff)
qed simp_all

lemma word_ranges:
  "- 32768 \<le> sint (w16 :: i16)" "sint w16 < 32768" "0 \<le> uint w16" "uint w16 < 65536"
  "- 2147483648 \<le> sint (w32 :: i32)" "sint w32 < 2147483648" "0 \<le> uint w32" "uint w32 < 4294967296"
  "- 9223372036854775808 \<le> sint (w64 :: i64)" "sint w64 < 9223372036854775808"
  "0 \<le> uint w64" "uint w64 < 18446744073709551616"
  "0 \<le> uint (w8 :: u8)" "uint w8 < 256"
  using sint_ge [of w16] sint_lt [of w16] uint_lt2p [of w16] sint_ge [of w32] sint_lt [of w32]
    uint_lt2p [of w32] sint_ge [of w64] sint_lt [of w64] uint_lt2p [of w64] uint_lt2p [of w8]
  by simp_all

text \<open>An integer is representable in its own kind, and in every larger kind unless its sign is lost.\<close>

lemma representable_promoted:
  assumes "holdsInteger a" "promotedKind a = Some k"
  shows "representable k (intOf a)"
proof (cases a)
  case (U8 x)
  then show ?thesis using assms word_ranges(14) [of x] by (auto intro: order_trans [of _ 0])
next
  case (I16 x)
  then show ?thesis using assms word_ranges(1,2) [of x] by auto
next
  case (U16 x)
  then show ?thesis using assms word_ranges(4) [of x] by (auto intro: order_trans [of _ 0])
qed (use assms word_ranges in auto)

lemma representable_mono:
  "representable j i \<Longrightarrow> j \<le> k \<Longrightarrow> (unsignedKind k \<Longrightarrow> 0 \<le> i) \<Longrightarrow> representable k i"
  by (cases j; cases k) (auto simp: less_eq_NumKind_def unsignedKind_def)

lemma holdsInteger_kind:
  "holdsInteger a \<longleftrightarrow> (\<exists>k. promotedKind a = Some k \<and> k < KF32)"
  by (cases a) (auto simp: less_NumKind_def)

lemma commonKind_integers:
  assumes "holdsInteger a" "holdsInteger b"
  obtains j l k where "promotedKind a = Some j" "promotedKind b = Some l" "commonKind a b = Some k"
    "j \<le> k" "l \<le> k" "k < KF32"
  using assms by (auto simp: holdsInteger_kind commonKind_def)

definition signKept :: "Value \<Rightarrow> Value \<Rightarrow> bool" where
  "signKept a b \<longleftrightarrow>
     (\<forall>k. commonKind a b = Some k \<and> unsignedKind k \<longrightarrow> 0 \<le> intOf a \<and> 0 \<le> intOf b)"

lemma wrapTo_common:
  assumes "holdsInteger a" "holdsInteger b" "signKept a b" "commonKind a b = Some k"
  shows "wrapTo k (intOf a) = intOf a \<and> wrapTo k (intOf b) = intOf b"
proof -
  obtain j l where jl: "promotedKind a = Some j" "promotedKind b = Some l" "j \<le> k" "l \<le> k"
    using commonKind_integers [OF assms(1,2)] assms(4) by (metis option.inject)
  have "unsignedKind k \<Longrightarrow> 0 \<le> intOf a" "unsignedKind k \<Longrightarrow> 0 \<le> intOf b"
    using assms(3,4) by (auto simp: signKept_def)
  then show ?thesis
    using representable_mono [OF representable_promoted [OF assms(1) jl(1)] jl(3)]
      representable_mono [OF representable_promoted [OF assms(2) jl(2)] jl(4)]
    by (simp add: wrapTo_eq_iff)
qed

lemma compare_numbers:
  assumes "commonKind a b = Some k"
  shows "compare op a b = Inr (compareNumbers k op a b)"
  using assms by (cases a; cases b) (simp_all add: compare_def commonKind_def)

lemma compareNumbers_integer:
  "k < KF32 \<Longrightarrow>
     compareNumbers k op a b = applyCmp op (wrapTo k (intOf a)) (wrapTo k (intOf b))"
  by (cases k) (simp_all add: compareNumbers_def less_NumKind_def)

text \<open>
  Integers compare as numbers when the conversion keeps their signs: always, but for a negative
  number against an unsigned one of at least its width.
\<close>

lemma compare_integers:
  assumes "holdsInteger a" "holdsInteger b" "signKept a b"
  shows "compare op a b = Inr (applyCmp op (intOf a) (intOf b))"
proof -
  obtain k where k: "commonKind a b = Some k" "k < KF32"
    using commonKind_integers [OF assms(1,2)] by metis
  then show ?thesis
    using wrapTo_common [OF assms k(1)] by (simp add: compare_numbers compareNumbers_integer)
qed

lemma applyCmp_Ne: "applyCmp CmpNe a b \<longleftrightarrow> \<not> applyCmp CmpEq a b"
  by (simp add: applyCmp_def)

text \<open>On values that can be compared, \<^verbatim>\<open>!=\<close> is the negation of \<^verbatim>\<open>==\<close>.\<close>

lemma compare_Ne:
  assumes "a \<noteq> VariantAccessError" "b \<noteq> VariantAccessError"
  shows "compare CmpNe a b = rbind (compare CmpEq a b) (\<lambda>r. Inr (\<not> r))"
  using assms
  by (cases "commonKind a b")
    (auto simp: compare_numbers compareNumbers_def applyCmp_Ne applyCmpFloat_def compare_def
      split: NumKind.splits Value.splits)

text \<open>Arithmetic that fits its kind is exact.\<close>

lemma mathOperation_integers:
  assumes "holdsInteger a" "holdsInteger b" "commonKind a b = Some k"
  shows "mathOperation op a b = integerResult k op (wrapTo k (intOf a)) (wrapTo k (intOf b))"
proof -
  have "a \<noteq> VariantAccessError" "b \<noteq> VariantAccessError" using assms(1,2) by auto
  moreover have "k < KF32" using commonKind_integers [OF assms(1,2)] assms(3) by (metis option.inject)
  ultimately show ?thesis
    using assms(3) by (cases k) (simp_all add: mathOperation_def less_NumKind_def)
qed

lemma integerResult_exact:
  assumes "representable k (exactResult op x y)" "k < KF32" "op = Divides \<Longrightarrow> y \<noteq> 0"
  shows "\<exists>v. integerResult k op x y = Inr v \<and> holdsInteger v \<and> promotedKind v = Some k \<and>
     intOf v = exactResult op x y"
  using assms wrapTo_eq_iff [of k "exactResult op x y"]
  by (cases k) (auto simp: integerResult_def Let_def less_NumKind_def)

lemma mathOperation_exact:
  assumes "holdsInteger a" "holdsInteger b" "signKept a b" "commonKind a b = Some k"
    "representable k (exactResult op (intOf a) (intOf b))" "op = Divides \<Longrightarrow> intOf b \<noteq> 0"
  shows "\<exists>v. mathOperation op a b = Inr v \<and> promotedKind v = Some k \<and>
     intOf v = exactResult op (intOf a) (intOf b)"
proof -
  have "k < KF32" using commonKind_integers [OF assms(1,2)] assms(4) by (metis option.inject)
  with integerResult_exact [OF assms(5) _ assms(6)] show ?thesis
    using wrapTo_common [OF assms(1-4)] mathOperation_integers [OF assms(1,2,4)] by auto
qed

section \<open>The guards of a division\<close>

lemma sdiv_in_range:
  fixes x y M :: int
  assumes "0 < M" "- M \<le> x" "x < M" "y \<noteq> 0"
  shows "- M \<le> x sdiv y \<and> x sdiv y < M \<longleftrightarrow> \<not> (x = - M \<and> y = - 1)"
proof (cases "x = - M \<and> y = - 1")
  case True
  then show ?thesis using assms by simp
next
  case False
  have r: "- \<bar>x\<bar> \<le> x sdiv y" "x sdiv y \<le> \<bar>x\<bar>"
    using sdiv_int_range [of x y] by auto
  have "x sdiv y \<noteq> M"
  proof
    assume M: "x sdiv y = M"
    with r assms have x: "x = - M" by auto
    then have "\<bar>y\<bar> \<noteq> 1" using False assms M by (auto simp: abs_if split: if_splits)
    then have "\<bar>x\<bar> div \<bar>y\<bar> < M" using x assms by (auto intro!: int_div_less_self)
    moreover have "x sdiv y \<le> \<bar>x\<bar> div \<bar>y\<bar>"
      by (auto simp: signed_divide_int_def sgn_if pos_imp_zdiv_nonneg_iff)
    ultimately show False using M by simp
  qed
  then show ?thesis using False r assms by auto
qed

lemma integerValue_eq:
  assumes "holdsInteger b" "representable KI64 c" "\<not> isUInt64 b"
  shows "sint (integerValue b) = c \<longleftrightarrow> intOf b = c"
proof -
  from assms(1,3) obtain k where k: "promotedKind b = Some k" "k \<le> KI64"
    by (cases b) (auto simp: less_eq_NumKind_def)
  have "representable KI64 (intOf b)"
    by (rule representable_mono [OF representable_promoted [OF assms(1) k(1)] k(2)])
      (simp add: unsignedKind_def)
  then show ?thesis using assms(1) wrapTo_eq_iff [of KI64 "intOf b"] by (simp add: integerValue_def)
qed

lemma integerValue_zero: "holdsInteger b \<Longrightarrow> sint (integerValue b) = 0 \<longleftrightarrow> intOf b = 0"
proof (cases b)
  case (U64 x)
  then show ?thesis by (simp add: integerValue_def unsigned_eq_0_iff signed_eq_0_iff)
qed (simp_all add: integerValue_eq)

lemma promoted_KU64: "promotedKind a = Some KU64 \<longleftrightarrow> isUInt64 a"
  by (cases a) simp_all

lemma wrapTo_KU64_zero:
  assumes "holdsInteger b" shows "wrapTo KU64 (intOf b) = 0 \<longleftrightarrow> intOf b = 0"
proof -
  obtain k where k: "promotedKind b = Some k" "k < KF32" using assms by (auto simp: holdsInteger_kind)
  note r = representable_promoted [OF assms k(1)]
  then have "\<bar>intOf b\<bar> < 2 ^ 64" using k(2) by (cases k) (auto simp: less_NumKind_def)
  then have "2 ^ 64 dvd intOf b \<longleftrightarrow> intOf b = 0"
    using dvd_imp_le_int [of "intOf b" "2 ^ 64"] by auto
  then show ?thesis by (simp add: uint_word_of_int mod_eq_0_iff_dvd)
qed

lemma wrapTo_KU32_zero:
  assumes "holdsInteger b" "promotedKind b = Some k" "k \<le> KU32"
  shows "wrapTo KU32 (intOf b) = 0 \<longleftrightarrow> intOf b = 0"
proof -
  have "\<bar>intOf b\<bar> < 2 ^ 32"
    using representable_promoted [OF assms(1,2)] assms(3) by (cases k) (auto simp: less_eq_NumKind_def)
  then have "2 ^ 32 dvd intOf b \<longleftrightarrow> intOf b = 0"
    using dvd_imp_le_int [of "intOf b" "2 ^ 32"] by auto
  then show ?thesis by (simp add: uint_word_of_int mod_eq_0_iff_dvd)
qed

text \<open>
  A division of integers is undefined exactly when the divisor is zero, or the quotient of the most
  negative number by -1 does not fit the kind the division is computed in.
\<close>

lemma integer_division_undefined:
  assumes "holdsInteger a" "holdsInteger b" "commonKind a b = Some k"
  shows "mathOperation Divides a b = Inl UndefinedBehavior \<longleftrightarrow>
     intOf b = 0 \<or>
     (k = KI32 \<and> intOf a = - (2 ^ 31) \<or> k = KI64 \<and> intOf a = - (2 ^ 63)) \<and> intOf b = - 1"
proof -
  obtain j l where jl: "promotedKind a = Some j" "promotedKind b = Some l" "j \<le> k" "l \<le> k" "k < KF32"
    using commonKind_integers [OF assms(1,2)] assms(3) by (metis option.inject)
  note math = mathOperation_integers [OF assms]
  show ?thesis
  proof (cases "unsignedKind k")
    case True
    then have "wrapTo k (intOf b) = 0 \<longleftrightarrow> intOf b = 0"
      using wrapTo_KU64_zero [OF assms(2)] wrapTo_KU32_zero [OF assms(2) jl(2)] jl(4)
      by (auto simp: unsignedKind_def)
    then show ?thesis
      using True by (auto simp: math integerResult_def Let_def unsignedKind_def)
  next
    case False
    then have w: "wrapTo k (intOf a) = intOf a" "wrapTo k (intOf b) = intOf b"
      using wrapTo_common [OF assms(1,2) _ assms(3)] assms(3) by (auto simp: signKept_def)
    then have r: "representable k (intOf a)" by (simp add: wrapTo_eq_iff)
    have math: "mathOperation Divides a b = integerResult k Divides (intOf a) (intOf b)"
      by (simp only: math w)
    from False jl(5) consider "k = KI32" | "k = KI64"
      by (cases k) (auto simp: unsignedKind_def less_NumKind_def)
    then show ?thesis
    proof cases
      case 1
      then show ?thesis
        using r sdiv_in_range [of "2 ^ 31" "intOf a" "intOf b"] wrapTo_eq_iff [of KI32 "intOf a sdiv intOf b"]
        by (auto simp: math integerResult_def Let_def exactResult_def)
    next
      case 2
      then show ?thesis
        using r sdiv_in_range [of "2 ^ 63" "intOf a" "intOf b"] wrapTo_eq_iff [of KI64 "intOf a sdiv intOf b"]
        by (auto simp: math integerResult_def Let_def exactResult_def)
    qed
  qed
qed

text \<open>The guards refuse exactly the undefined divisions.\<close>

lemma divide_guards:
  assumes "holdsInteger a" "holdsInteger b"
  shows "sint (integerValue b) = 0 \<or> sint (integerValue b) = - 1 \<and> divisionOverflows a b \<longleftrightarrow>
     mathOperation Divides a b = Inl UndefinedBehavior"
proof -
  obtain j l k where jl: "promotedKind a = Some j" "promotedKind b = Some l" "commonKind a b = Some k"
      "j \<le> k" "l \<le> k" "k < KF32"
    using commonKind_integers [OF assms] by metis
  have wide: "isInt64 v \<longleftrightarrow> promotedKind v = Some KI64" for v by (cases v) simp_all
  show ?thesis
  proof (cases "isUInt64 a \<or> isUInt64 b")
    case True
    then have "k = KU64" using jl
      by (auto simp: promoted_KU64 [symmetric] less_eq_NumKind_def less_NumKind_def) (cases k; simp)+
    then show ?thesis
      using integer_division_undefined [OF assms jl(3)] integerValue_zero [OF assms(2)] True
      by (simp add: divisionOverflows_def)
  next
    case False
    note iv = integerValue_eq [OF assms(1)] integerValue_eq [OF assms(2)]
    have k: "k = max j l" using jl by (simp add: commonKind_def)
    have "j \<noteq> KU64" "l \<noteq> KU64" using False jl by (auto simp: promoted_KU64 [symmetric])
    then have kinds: "isInt64 a \<or> isInt64 b \<longleftrightarrow> k = KI64"
      using jl k wide by (cases j; cases l) (auto simp: max_def less_eq_NumKind_def less_NumKind_def)
    have "k = KU32 \<Longrightarrow> intOf b = - 1 \<Longrightarrow> intOf a \<noteq> - (2 ^ 31)"
      using representable_promoted [OF assms(1) jl(1)] representable_promoted [OF assms(2) jl(2)] k
      by (cases j; cases l) (auto simp: max_def less_eq_NumKind_def)
    moreover have "k \<in> {KI32, KU32, KI64}"
      using \<open>j \<noteq> KU64\<close> \<open>l \<noteq> KU64\<close> k jl(6) by (cases k) (auto simp: max_def less_NumKind_def split: if_splits)
    ultimately show ?thesis
      using integer_division_undefined [OF assms jl(3)] False kinds
      by (auto simp: divisionOverflows_def iv Let_def)
  qed
qed

lemma mathOperation_not_integers:
  assumes "\<not> (holdsInteger a \<and> holdsInteger b)"
  shows "mathOperation op a b \<noteq> Inl UndefinedBehavior"
  using assms by (cases a; cases b) (simp_all add: mathOperation_def commonKind_def max_def less_eq_NumKind_def)

lemma divide_defined: "divide a b \<noteq> Inl UndefinedBehavior"
  using divide_guards [of a b] mathOperation_not_integers [of a b]
  by (auto simp: divide_def split: if_splits)

section \<open>Properties\<close>

text \<open>
  C40. Dividing two values never reaches an undefined division: for integers the two guards refuse
  the division (by zero, or of the most negative number by -1 in the type the quotient is computed in)
  exactly when C++ leaves it undefined, and let every other division through unchanged.
\<close>

theorem divide_never_undefined:
  "divide a b \<noteq> Inl UndefinedBehavior \<and>
   (holdsInteger a \<and> holdsInteger b \<longrightarrow>
      (divide a b = mathOperation Divides a b \<longleftrightarrow> mathOperation Divides a b \<noteq> Inl UndefinedBehavior))"
  using divide_defined [of a b] divide_guards [of a b] by (auto simp: divide_def)

theorem divide_never_undefined_witness:
  "divide (I64 (- (2 ^ 63))) (I16 (- 1)) = Inl (LogicError ''division overflows'') \<and>
   divide (I32 (- (2 ^ 31))) (I64 (- 1)) = Inr (I64 (2 ^ 31)) \<and>
   mathOperation Divides (I64 (- (2 ^ 63))) (I16 (- 1)) = Inl UndefinedBehavior"
proof -
  have refused: "divide (I64 (- (2 ^ 63))) (I16 (- 1)) = Inl (LogicError ''division overflows'')"
    by code_simp
  moreover have "divide (I32 (- (2 ^ 31))) (I64 (- 1)) = Inr (I64 (2 ^ 31))" by code_simp
  moreover have "mathOperation Divides (I64 (- (2 ^ 63))) (I16 (- 1)) = Inl UndefinedBehavior"
    by code_simp
  ultimately show ?thesis
    using divide_never_undefined [of "I64 (- (2 ^ 63))" "I16 (- 1)"] by blast
qed

text \<open>
  Two integers of any of the value types compare as the numbers they stand for, unless a negative
  one meets an unsigned one of at least its width, whose conversion loses the sign.
\<close>

theorem compare_integers_exact:
  assumes "holdsInteger a" "holdsInteger b" "signKept a b"
  shows "compare op a b = Inr (applyCmp op (intOf a) (intOf b))"
  using assms by (rule compare_integers)

theorem compare_integers_exact_witness:
  "compare CmpLt (I64 (- 5)) (U32 7) = Inr True \<and> compare CmpGt (U64 7) (I64 (- 5)) = Inr False"
proof -
  have "signKept (I64 (- 5)) (U32 7)"
    by (simp add: signKept_def commonKind_def max_def less_eq_NumKind_def unsignedKind_def)
  then have "compare CmpLt (I64 (- 5)) (U32 7) = Inr True"
    using compare_integers_exact [of "I64 (- 5)" "U32 7" CmpLt] by (simp add: applyCmp_def)
  moreover have "compare CmpGt (U64 7) (I64 (- 5)) = Inr False" by code_simp
  ultimately show ?thesis by blast
qed

text \<open>
  Integer arithmetic whose exact result fits the common type of the operands gives that result, in
  that type.
\<close>

theorem integer_arithmetic_exact:
  assumes "holdsInteger a" "holdsInteger b" "signKept a b" "commonKind a b = Some k"
    "representable k (exactResult op (intOf a) (intOf b))" "op = Divides \<Longrightarrow> intOf b \<noteq> 0"
  shows "\<exists>v. mathOperation op a b = Inr v \<and> promotedKind v = Some k \<and>
     intOf v = exactResult op (intOf a) (intOf b)"
  using assms by (rule mathOperation_exact)

theorem integer_arithmetic_exact_witness:
  "\<exists>v. mathOperation Multiplies (U8 200) (I16 (- 300)) = Inr v \<and> promotedKind v = Some KI32 \<and>
     intOf v = - 60000"
  using integer_arithmetic_exact [of "U8 200" "I16 (- 300)" KI32 Multiplies]
  by (simp add: signKept_def commonKind_def unsignedKind_def exactResult_def)

end
