(* ===== verification/Query_Compiler.thy ===== *)
theory Query_Compiler
  imports Query_Value Stl_Ast
begin

text \<open>
  The byte code of a query (\<^verbatim>\<open>Chunk\<close> in \<^verbatim>\<open>lang/vm.h\<close> and \<^verbatim>\<open>lang/vm.cpp\<close>) and the compiler that fills it
  (class \<^verbatim>\<open>Compiler\<close> in \<^verbatim>\<open>lang/vm.cpp\<close>), one definition per visitor and emitter.
\<close>

section \<open>Instructions\<close>

definition stackMax :: nat where
  "stackMax = 256"

datatype OpCode =
    opReturn
  | opConstant
  | opNegate
  | opAdd
  | opSub
  | opMul
  | opDiv
  | opEqual
  | opNotEqual
  | opGreaterThan
  | opGreaterOrEqualThan
  | opLowerThan
  | opLowerOrEqualThan
  | opAnd
  | opOr
  | opJumpIfTrue
  | opJumpIfFalse
  | opFetchVariable
  | opBetween

fun opByte :: "OpCode \<Rightarrow> u8" where
  "opByte opReturn = 0"
| "opByte opConstant = 1"
| "opByte opNegate = 2"
| "opByte opAdd = 3"
| "opByte opSub = 4"
| "opByte opMul = 5"
| "opByte opDiv = 6"
| "opByte opEqual = 7"
| "opByte opNotEqual = 8"
| "opByte opGreaterThan = 9"
| "opByte opGreaterOrEqualThan = 10"
| "opByte opLowerThan = 11"
| "opByte opLowerOrEqualThan = 12"
| "opByte opAnd = 13"
| "opByte opOr = 14"
| "opByte opJumpIfTrue = 15"
| "opByte opJumpIfFalse = 16"
| "opByte opFetchVariable = 17"
| "opByte opBetween = 18"

section \<open>Chunks\<close>

record Chunk =
  code :: "u8 list"
  constants :: "Value list"
  variablesDef :: "string list"

definition emptyChunk :: Chunk where
  "emptyChunk = \<lparr>code = [], constants = [], variablesDef = []\<rparr>"

definition addCode :: "u8 \<Rightarrow> Chunk \<Rightarrow> Chunk" where
  "addCode b c = c\<lparr>code := code c @ [b]\<rparr>"

text \<open>\<^verbatim>\<open>code_.at(offset) = byte\<close>.\<close>

definition patch :: "nat \<Rightarrow> u8 \<Rightarrow> Chunk \<Rightarrow> vm_exn + Chunk" where
  "patch off b c =
     (if off < length (code c) then Inr (c\<lparr>code := (code c)[off := b]\<rparr>) else Inl OutOfRange)"

definition countCode :: "Chunk \<Rightarrow> nat" where
  "countCode c = length (code c)"

definition isValid :: "Chunk \<Rightarrow> bool" where
  "isValid c \<longleftrightarrow> code c \<noteq> []"

definition addConstant :: "Value \<Rightarrow> Chunk \<Rightarrow> vm_exn + u8 \<times> Chunk" where
  "addConstant v c =
     (if stackMax \<le> length (constants c) then Inl (RuntimeException ''too many constants'')
      else Inr (of_nat (length (constants c)), c\<lparr>constants := constants c @ [v]\<rparr>))"

text \<open>The loop over the registered names: the index of the first one that is equal.\<close>

fun findIndex :: "string \<Rightarrow> string list \<Rightarrow> nat option" where
  "findIndex name [] = None"
| "findIndex name (x # xs) = (if x = name then Some 0 else map_option Suc (findIndex name xs))"

definition getOrRegisterVariable :: "string \<Rightarrow> Chunk \<Rightarrow> vm_exn + u8 \<times> Chunk" where
  "getOrRegisterVariable name c =
     (if stackMax \<le> length (variablesDef c) then Inl (RuntimeException ''too many variables'')
      else case findIndex name (variablesDef c) of
             Some i \<Rightarrow> Inr (of_nat i, c)
           | None \<Rightarrow>
               Inr (of_nat (length (variablesDef c)), c\<lparr>variablesDef := variablesDef c @ [name]\<rparr>))"

section \<open>Emitting code\<close>

definition emitByte :: "u8 \<Rightarrow> Chunk \<Rightarrow> Chunk" where
  "emitByte b c = addCode b c"

definition emitBytes :: "u8 \<Rightarrow> u8 \<Rightarrow> Chunk \<Rightarrow> Chunk" where
  "emitBytes b1 b2 c = emitByte b2 (emitByte b1 c)"

definition emitConstant :: "Value \<Rightarrow> Chunk \<Rightarrow> vm_exn + Chunk" where
  "emitConstant v c = rbind (addConstant v c) (\<lambda>(i, c). Inr (emitBytes (opByte opConstant) i c))"

definition emitJump :: "OpCode \<Rightarrow> Chunk \<Rightarrow> nat \<times> Chunk" where
  "emitJump op c =
     (let c' = emitByte 0xff (emitByte 0xff (emitByte (opByte op) c)) in (countCode c' - 2, c'))"

definition patchJump :: "nat \<Rightarrow> Chunk \<Rightarrow> vm_exn + Chunk" where
  "patchJump off c =
     (let jump = countCode c - off - 2
      in if 65535 < jump then Inl (RuntimeException ''Too much code to jump over'')
         else rbind (patch off (of_nat (jump div 256)) c) (patch (off + 1) (of_nat (jump mod 256))))"

section \<open>The visitors\<close>

fun literalValue :: "string \<Rightarrow> Var \<Rightarrow> vm_exn + Value" where
  "literalValue lx (VUInt8 x) = Inr (U8 x)"
| "literalValue lx (VInt16 x) = Inr (I16 x)"
| "literalValue lx (VUInt16 x) = Inr (U16 x)"
| "literalValue lx (VInt32 x) = Inr (I32 x)"
| "literalValue lx (VUInt32 x) = Inr (U32 x)"
| "literalValue lx (VInt64 x) = Inr (I64 x)"
| "literalValue lx (VUInt64 x) = Inr (U64 x)"
| "literalValue lx (VFloat32 x) = Inr (F32 x)"
| "literalValue lx (VFloat64 x) = Inr (F64 x)"
| "literalValue lx (VBool x) = Inr (Bool x)"
| "literalValue lx (VString x) = Inr (Str x)"
| "literalValue lx VEmpty = Inr (Str lx)"
| "literalValue lx _ = Inl (RuntimeException ''invalid literal value'')"

fun binaryOpCode :: "StlBinaryOperator \<Rightarrow> OpCode" where
  "binaryOpCode BinEq = opEqual"
| "binaryOpCode BinNe = opNotEqual"
| "binaryOpCode BinGt = opGreaterThan"
| "binaryOpCode BinGe = opGreaterOrEqualThan"
| "binaryOpCode BinLt = opLowerThan"
| "binaryOpCode BinLe = opLowerOrEqualThan"
| "binaryOpCode BinAdd = opAdd"
| "binaryOpCode BinSubtract = opSub"
| "binaryOpCode BinMultiply = opMul"
| "binaryOpCode BinDivide = opDiv"

fun jumpOpCode :: "StlLogicalOperator \<Rightarrow> OpCode" where
  "jumpOpCode LogicalAnd = opJumpIfFalse"
| "jumpOpCode LogicalOr = opJumpIfTrue"

fun logicalOpCode :: "StlLogicalOperator \<Rightarrow> OpCode" where
  "logicalOpCode LogicalAnd = opAnd"
| "logicalOpCode LogicalOr = opOr"

definition compileLogical ::
  "StlLogicalOperator \<Rightarrow> (Chunk \<Rightarrow> vm_exn + Chunk) \<Rightarrow> (Chunk \<Rightarrow> vm_exn + Chunk) \<Rightarrow> Chunk \<Rightarrow> vm_exn + Chunk"
where
  "compileLogical op lhs rhs c =
     rbind (lhs c) (\<lambda>c.
       let (off, c) = emitJump (jumpOpCode op) c
       in rbind (rhs c) (\<lambda>c. patchJump off (emitByte (opByte (logicalOpCode op)) c)))"

text \<open>The first loop over the set of an \<^verbatim>\<open>IN\<close>: the offsets of the jumps to patch.\<close>

fun compileElements ::
  "bool \<Rightarrow> (Chunk \<Rightarrow> vm_exn + Chunk) \<Rightarrow> (Chunk \<Rightarrow> vm_exn + Chunk) list \<Rightarrow> Chunk \<Rightarrow> vm_exn + nat list \<times> Chunk"
where
  "compileElements notIn lhs [] c = Inr ([], c)"
| "compileElements notIn lhs (el # els) c =
     rbind (lhs c) (\<lambda>c. rbind (el c) (\<lambda>c.
       let (off, c) = emitJump (if notIn then opJumpIfFalse else opJumpIfTrue)
                        (emitByte (opByte (if notIn then opNotEqual else opEqual)) c)
       in rbind (compileElements notIn lhs els c) (\<lambda>(offs, c). Inr (off # offs, c))))"

fun patchJumps :: "nat list \<Rightarrow> Chunk \<Rightarrow> vm_exn + Chunk" where
  "patchJumps [] c = Inr c"
| "patchJumps (off # offs) c = rbind (patchJump off c) (patchJumps offs)"

definition compileIn ::
  "bool \<Rightarrow> (Chunk \<Rightarrow> vm_exn + Chunk) \<Rightarrow> (Chunk \<Rightarrow> vm_exn + Chunk) list \<Rightarrow> Chunk \<Rightarrow> vm_exn + Chunk"
where
  "compileIn notIn lhs els c =
     rbind (compileElements notIn lhs els c) (\<lambda>(offs, c). patchJumps offs c)"

fun compileExpr :: "StlExpr \<Rightarrow> Chunk \<Rightarrow> vm_exn + Chunk" where
  "compileExpr EMonostate c = Inr c"
| "compileExpr (ELiteral t) c =
     rbind (literalValue (lexeme t) (tokenValue t)) (\<lambda>v. emitConstant v c)"
| "compileExpr (EUnary op e) c =
     rbind (compileExpr e c) (\<lambda>c. Inr (emitByte (opByte opNegate) c))"
| "compileExpr (EBinary l op r) c =
     rbind (compileExpr l c) (\<lambda>c. rbind (compileExpr r c) (\<lambda>c.
       Inr (emitByte (opByte (binaryOpCode op)) c)))"
| "compileExpr (EGrouping e) c = compileExpr e c"
| "compileExpr (ELogical l op r) c = compileLogical op (compileExpr l) (compileExpr r) c"
| "compileExpr (EVariable path name) c =
     rbind (getOrRegisterVariable name c) (\<lambda>(i, c). Inr (emitBytes (opByte opFetchVariable) i c))"
| "compileExpr (EBetween e lo hi notBetween) c =
     rbind (compileExpr e c) (\<lambda>c. rbind (compileExpr lo c) (\<lambda>c. rbind (compileExpr hi c) (\<lambda>c.
       let c = emitByte (opByte opBetween) c
       in Inr (if notBetween then emitByte (opByte opNegate) c else c))))"
| "compileExpr (EIn e es notIn) c = compileIn notIn (compileExpr e) (map compileExpr es) c"

text \<open>
  \<^verbatim>\<open>Compiler::compile\<close> and \<^verbatim>\<open>VM::compile\<close>, which turns the exceptions into the error of its result. A
  query without a condition compiles to an empty chunk.
\<close>

definition compileQuery :: "QueryStatement \<Rightarrow> vm_exn + Chunk" where
  "compileQuery q =
     (case query_condition q of
        None \<Rightarrow> Inr emptyChunk
      | Some e \<Rightarrow> rbind (compileExpr e emptyChunk) (\<lambda>c. Inr (emitByte (opByte opReturn) c)))"

end
