(* ===== verification/Query_VM.thy ===== *)
theory Query_VM
  imports Query_Compiler
begin

text \<open>
  The query machine (class \<^verbatim>\<open>VM\<close> in \<^verbatim>\<open>lang/vm.h\<close> and \<^verbatim>\<open>lang/vm.cpp\<close>). The instruction pointer is an
  offset into the code and the stack a list with its top in front. The environment is the list of
  what the getters return, or throw, while the code runs.
\<close>

section \<open>State\<close>

datatype getter = Returns Value | ThrowsBadVariantAccess | Throws string

definition push :: "Value \<Rightarrow> Value list \<Rightarrow> vm_exn + Value list" where
  "push v st =
     (if stackMax \<le> length st then Inl (LogicError ''expression too deep to evaluate'') else Inr (v # st))"

definition pop :: "Value list \<Rightarrow> vm_exn + Value \<times> Value list" where
  "pop st = (case st of [] \<Rightarrow> Inl InvalidAccess | v # st \<Rightarrow> Inr (v, st))"

definition topOf :: "Value list \<Rightarrow> vm_exn + Value" where
  "topOf st = (case st of [] \<Rightarrow> Inl InvalidAccess | v # _ \<Rightarrow> Inr v)"

definition readByte :: "Chunk \<Rightarrow> nat \<Rightarrow> vm_exn + u8 \<times> nat" where
  "readByte c ip =
     (if ip < length (code c) then Inr (code c ! ip, Suc ip) else Inl InvalidAccess)"

definition readShort :: "Chunk \<Rightarrow> nat \<Rightarrow> vm_exn + nat \<times> nat" where
  "readShort c ip =
     (if ip + 1 < length (code c)
      then Inr (unat (code c ! ip) * 256 + unat (code c ! (ip + 1)), ip + 2)
      else Inl InvalidAccess)"

definition getConstant :: "u8 \<Rightarrow> Chunk \<Rightarrow> vm_exn + Value" where
  "getConstant i c =
     (if unat i < length (constants c) then Inr (constants c ! unat i) else Inl InvalidAccess)"

section \<open>Instructions\<close>

definition unaryOp :: "(Value \<Rightarrow> vm_exn + Value) \<Rightarrow> Value list \<Rightarrow> vm_exn + Value list" where
  "unaryOp f st = rbind (pop st) (\<lambda>(a, st). rbind (f a) (\<lambda>v. push v st))"

definition binaryOp :: "(Value \<Rightarrow> Value \<Rightarrow> vm_exn + Value) \<Rightarrow> Value list \<Rightarrow> vm_exn + Value list" where
  "binaryOp f st =
     rbind (pop st) (\<lambda>(b, st). rbind (pop st) (\<lambda>(a, st). rbind (f a b) (\<lambda>v. push v st)))"

definition comparisonOperation :: "CmpOp \<Rightarrow> Value \<Rightarrow> Value \<Rightarrow> vm_exn + Value" where
  "comparisonOperation op a b = rbind (compare op a b) (\<lambda>r. Inr (Bool r))"

definition betweenOp :: "Value list \<Rightarrow> vm_exn + Value list" where
  "betweenOp st =
     rbind (pop st) (\<lambda>(hi, st). rbind (pop st) (\<lambda>(lo, st). rbind (pop st) (\<lambda>(val, st).
       rbind (between val lo hi) (\<lambda>v. push v st))))"

text \<open>Whether \<open>jumpIfTrue\<close> (\<open>jumpIfFalse\<close>) jumps: not for a property without a value.\<close>

definition jumps :: "bool \<Rightarrow> Value list \<Rightarrow> vm_exn + bool" where
  "jumps wanted st = rbind (topOf st) (\<lambda>v.
     if v = VariantAccessError then Inr False else rbind (extractBool v) (\<lambda>b. Inr (b = wanted)))"

definition jumpIf :: "bool \<Rightarrow> Chunk \<Rightarrow> nat \<Rightarrow> Value list \<Rightarrow> vm_exn + nat \<times> Value list" where
  "jumpIf wanted c ip st =
     rbind (readShort c ip) (\<lambda>(off, ip). rbind (jumps wanted st) (\<lambda>j.
       Inr (if j then ip + off else ip, st)))"

definition fetchVariable :: "getter list \<Rightarrow> nat \<Rightarrow> Value list \<Rightarrow> vm_exn + Value list" where
  "fetchVariable env i st =
     (if i < length env
      then case env ! i of
             Returns v \<Rightarrow> push v st
           | ThrowsBadVariantAccess \<Rightarrow> push VariantAccessError st
           | Throws m \<Rightarrow> Inl (GetterException m)
      else Inl InvalidAccess)"

text \<open>An instruction that does not move the instruction pointer.\<close>

definition simpleOp :: "(Value list \<Rightarrow> vm_exn + Value list) \<Rightarrow> nat \<Rightarrow> Value list \<Rightarrow> vm_exn + nat \<times> Value list"
where
  "simpleOp f ip st = rbind (f st) (\<lambda>st. Inr (ip, st))"

definition exec ::
  "Chunk \<Rightarrow> getter list \<Rightarrow> OpCode \<Rightarrow> nat \<Rightarrow> Value list \<Rightarrow> vm_exn + nat \<times> Value list" where
  "exec c env op ip st =
     (case op of
        opReturn \<Rightarrow> Inr (ip, st)
      | opConstant \<Rightarrow>
          rbind (readByte c ip) (\<lambda>(i, ip). rbind (getConstant i c) (\<lambda>v. simpleOp (push v) ip st))
      | opNegate \<Rightarrow> simpleOp (unaryOp negate) ip st
      | opAdd \<Rightarrow> simpleOp (binaryOp (mathOperation Plus)) ip st
      | opEqual \<Rightarrow> simpleOp (binaryOp (comparisonOperation CmpEq)) ip st
      | opNotEqual \<Rightarrow> simpleOp (binaryOp (comparisonOperation CmpNe)) ip st
      | opGreaterThan \<Rightarrow> simpleOp (binaryOp (comparisonOperation CmpGt)) ip st
      | opGreaterOrEqualThan \<Rightarrow> simpleOp (binaryOp (comparisonOperation CmpGe)) ip st
      | opLowerThan \<Rightarrow> simpleOp (binaryOp (comparisonOperation CmpLt)) ip st
      | opLowerOrEqualThan \<Rightarrow> simpleOp (binaryOp (comparisonOperation CmpLe)) ip st
      | opAnd \<Rightarrow> simpleOp (binaryOp doAnd) ip st
      | opOr \<Rightarrow> simpleOp (binaryOp doOr) ip st
      | opSub \<Rightarrow> simpleOp (binaryOp (mathOperation Minus)) ip st
      | opMul \<Rightarrow> simpleOp (binaryOp (mathOperation Multiplies)) ip st
      | opDiv \<Rightarrow> simpleOp (binaryOp divide) ip st
      | opJumpIfFalse \<Rightarrow> jumpIf False c ip st
      | opJumpIfTrue \<Rightarrow> jumpIf True c ip st
      | opFetchVariable \<Rightarrow> rbind (readByte c ip) (\<lambda>(i, ip). simpleOp (fetchVariable env (unat i)) ip st)
      | opBetween \<Rightarrow> simpleOp betweenOp ip st)"

text \<open>The \<^verbatim>\<open>switch\<close> on the instruction byte.\<close>

definition decode :: "u8 \<Rightarrow> OpCode option" where
  "decode b = find (\<lambda>op. opByte op = b)
     [opReturn, opConstant, opNegate, opAdd, opSub, opMul, opDiv, opEqual, opNotEqual, opGreaterThan,
      opGreaterOrEqualThan, opLowerThan, opLowerOrEqualThan, opAnd, opOr, opJumpIfTrue,
      opJumpIfFalse, opFetchVariable, opBetween]"

lemma decode_opByte [simp]: "decode (opByte op) = Some op"
  by (cases op) (simp_all add: decode_def)

lemma decode_zero: "decode b = Some opReturn \<longleftrightarrow> b = 0"
  by (auto simp: decode_def split: if_splits)

text \<open>Every instruction moves the instruction pointer forward only, so the dispatch loop ends.\<close>

lemma simpleOp_ip: "simpleOp f ip st = Inr (ip', st') \<Longrightarrow> ip' = ip"
  by (auto simp: simpleOp_def rbind_Inr_conv)

lemma jumpIf_ip: "jumpIf wanted c ip st = Inr (ip', st') \<Longrightarrow> ip \<le> ip'"
  by (auto simp: jumpIf_def readShort_def rbind_Inr_conv split: if_splits)

lemma readByte_ip: "readByte c ip = Inr (b, ip') \<Longrightarrow> ip < ip' \<and> ip < length (code c)"
  by (auto simp: readByte_def split: if_splits)

lemma exec_ip: "exec c env op ip st = Inr (ip', st') \<Longrightarrow> ip \<le> ip'"
  by (cases op) (auto simp: exec_def rbind_Inr_conv dest!: simpleOp_ip jumpIf_ip readByte_ip)

function run :: "Chunk \<Rightarrow> getter list \<Rightarrow> nat \<Rightarrow> Value list \<Rightarrow> vm_exn + (string + Value)" where
  "run c env ip st =
     rbind (readByte c ip) (\<lambda>(b, ip').
       case decode b of
         None \<Rightarrow> Inr (Inl ''invalid instruction'')
       | Some op \<Rightarrow>
           if op = opReturn then rbind (pop st) (\<lambda>(v, _). Inr (Inr v))
           else rbind (exec c env op ip' st) (\<lambda>(ip'', st'). run c env ip'' st'))"
  by pat_completeness auto
termination
proof (relation "measure (\<lambda>(c, env, ip, st). length (code c) - ip)", simp, goal_cases)
  case (1 c env ip st _ b ip' op _ ip'' st')
  then have "ip < ip'" "ip < length (code c)" "ip' \<le> ip''"
    using readByte_ip exec_ip by metis+
  then show ?case by simp
qed

declare run.simps [simp del]

text \<open>
  \<^verbatim>\<open>VM::interpret\<close> starts with an empty stack and turns every exception into the error of its result.
\<close>

datatype RuntimeError = What string | WhatOf vm_exn

datatype vm_result = Ok Value | Err RuntimeError | Undefined

definition interpret_chunk :: "Chunk \<Rightarrow> getter list \<Rightarrow> vm_result" where
  "interpret_chunk c env =
     (case run c env 0 [] of
        Inl e \<Rightarrow> if e = UndefinedBehavior \<or> e = InvalidAccess then Undefined else Err (WhatOf e)
      | Inr (Inl m) \<Rightarrow> Err (What m)
      | Inr (Inr v) \<Rightarrow> Ok v)"

end
