(* ===== verification/Query_Compile_Correct.thy ===== *)
theory Query_Compile_Correct
  imports Query_VM
begin

text \<open>
  What compiled code does. \<open>evalStack\<close> says what the code of an expression does to the stack, without
  bytes, offsets and jumps; \<open>compileExpr_correct\<close> shows that running the bytes the compiler emits does
  exactly that, wherever they stand in the code and whatever follows them.
\<close>

section \<open>Expressions as stack transformers\<close>

fun binaryFun :: "StlBinaryOperator \<Rightarrow> Value \<Rightarrow> Value \<Rightarrow> vm_exn + Value" where
  "binaryFun BinAdd = mathOperation Plus"
| "binaryFun BinSubtract = mathOperation Minus"
| "binaryFun BinMultiply = mathOperation Multiplies"
| "binaryFun BinDivide = divide"
| "binaryFun BinLt = comparisonOperation CmpLt"
| "binaryFun BinLe = comparisonOperation CmpLe"
| "binaryFun BinGt = comparisonOperation CmpGt"
| "binaryFun BinGe = comparisonOperation CmpGe"
| "binaryFun BinEq = comparisonOperation CmpEq"
| "binaryFun BinNe = comparisonOperation CmpNe"

fun logicalFun :: "StlLogicalOperator \<Rightarrow> Value \<Rightarrow> Value \<Rightarrow> vm_exn + Value" where
  "logicalFun LogicalAnd = doAnd"
| "logicalFun LogicalOr = doOr"

definition pushGetter :: "getter \<Rightarrow> Value list \<Rightarrow> vm_exn + Value list" where
  "pushGetter g st =
     (case g of Returns v \<Rightarrow> push v st | ThrowsBadVariantAccess \<Rightarrow> push VariantAccessError st
      | Throws m \<Rightarrow> Inl (GetterException m))"

definition elementOp :: "bool \<Rightarrow> Value \<Rightarrow> Value \<Rightarrow> vm_exn + Value" where
  "elementOp notIn = comparisonOperation (if notIn then CmpNe else CmpEq)"

fun evalElements ::
  "bool \<Rightarrow> (Value list \<Rightarrow> vm_exn + Value list) \<Rightarrow> (Value list \<Rightarrow> vm_exn + Value list) list \<Rightarrow>
   Value list \<Rightarrow> vm_exn + Value list"
where
  "evalElements notIn l [] st = Inr st"
| "evalElements notIn l (f # fs) st =
     rbind (l st) (\<lambda>st. rbind (f st) (\<lambda>st. rbind (binaryOp (elementOp notIn) st) (\<lambda>st.
       rbind (jumps (\<not> notIn) st) (\<lambda>j. if j then Inr st else evalElements notIn l fs st))))"

fun evalStack :: "(string \<Rightarrow> getter) \<Rightarrow> StlExpr \<Rightarrow> Value list \<Rightarrow> vm_exn + Value list" where
  "evalStack \<rho> EMonostate st = Inr st"
| "evalStack \<rho> (ELiteral t) st = rbind (literalValue (lexeme t) (tokenValue t)) (\<lambda>v. push v st)"
| "evalStack \<rho> (EUnary op e) st = rbind (evalStack \<rho> e st) (unaryOp negate)"
| "evalStack \<rho> (EBinary l op r) st =
     rbind (evalStack \<rho> l st) (\<lambda>st. rbind (evalStack \<rho> r st) (binaryOp (binaryFun op)))"
| "evalStack \<rho> (EGrouping e) st = evalStack \<rho> e st"
| "evalStack \<rho> (ELogical l op r) st =
     rbind (evalStack \<rho> l st) (\<lambda>st. rbind (jumps (op = LogicalOr) st) (\<lambda>j.
       if j then Inr st else rbind (evalStack \<rho> r st) (binaryOp (logicalFun op))))"
| "evalStack \<rho> (EVariable path name) st = pushGetter (\<rho> name) st"
| "evalStack \<rho> (EBetween e lo hi notBetween) st =
     rbind (evalStack \<rho> e st) (\<lambda>st. rbind (evalStack \<rho> lo st) (\<lambda>st. rbind (evalStack \<rho> hi st) (\<lambda>st.
       rbind (betweenOp st) (\<lambda>st. if notBetween then unaryOp negate st else Inr st))))"
| "evalStack \<rho> (EIn e es notIn) st = evalElements notIn (evalStack \<rho> e) (map (evalStack \<rho>) es) st"

section \<open>Segments of code\<close>

text \<open>Running the bytes \<open>seg\<close> anywhere in a code with the constants \<open>K\<close> transforms the stack by \<open>f\<close>.\<close>

definition segFor ::
  "Value list \<Rightarrow> getter list \<Rightarrow> u8 list \<Rightarrow> (Value list \<Rightarrow> vm_exn + Value list) \<Rightarrow> bool" where
  "segFor K env seg f \<longleftrightarrow>
     (\<forall>c pre post st. code c = pre @ seg @ post \<and> constants c = K \<longrightarrow>
        run c env (length pre) st =
        rbind (f st) (\<lambda>st'. run c env (length pre + length seg) st'))"

lemma segForI:
  "(\<And>c pre post st. code c = pre @ seg @ post \<Longrightarrow> constants c = K \<Longrightarrow>
      run c env (length pre) st = rbind (f st) (\<lambda>st'. run c env (length pre + length seg) st')) \<Longrightarrow>
   segFor K env seg f"
  by (simp add: segFor_def)

lemma segForD:
  "segFor K env seg f \<Longrightarrow> code c = pre @ seg @ post \<Longrightarrow> constants c = K \<Longrightarrow>
     run c env (length pre) st = rbind (f st) (\<lambda>st'. run c env (length pre + length seg) st')"
  by (simp add: segFor_def)

lemma seg_nil: "segFor K env [] Inr"
  by (rule segForI) simp

lemma seg_append:
  assumes "segFor K env a f" "segFor K env b g"
  shows "segFor K env (a @ b) (\<lambda>st. rbind (f st) g)"
proof (rule segForI)
  fix c :: Chunk and pre post st
  assume c: "code c = pre @ (a @ b) @ post" "constants c = K"
  have a: "run c env (length pre) st = rbind (f st) (\<lambda>st. run c env (length pre + length a) st)"
    using segForD [OF assms(1), of c pre "b @ post"] c by simp
  have b: "run c env (length pre + length a) st =
      rbind (g st) (\<lambda>st. run c env (length pre + length (a @ b)) st)" for st
    using segForD [OF assms(2), of c "pre @ a" post] c by (simp add: add.assoc)
  show "run c env (length pre) st =
      rbind (rbind (f st) g) (\<lambda>st. run c env (length pre + length (a @ b)) st)"
    by (simp add: a b rbind_assoc)
qed

lemma readByte_code: "code c = pre @ b # post \<Longrightarrow> readByte c (length pre) = Inr (b, Suc (length pre))"
  by (simp add: readByte_def)

lemma run_op:
  "code c = pre @ opByte op # post \<Longrightarrow> op \<noteq> opReturn \<Longrightarrow>
     run c env (length pre) st =
     rbind (exec c env op (Suc (length pre)) st) (\<lambda>(ip, st). run c env ip st)"
  by (subst run.simps) (simp add: readByte_code)

lemma seg_simple:
  assumes "op \<noteq> opReturn" "\<And>c ip st. exec c env op ip st = simpleOp f ip st"
  shows "segFor K env [opByte op] f"
  by (rule segForI) (simp add: run_op assms simpleOp_def rbind_assoc)

lemma seg_constant:
  assumes "unat i < length K"
  shows "segFor K env [opByte opConstant, i] (push (K ! unat i))"
proof (rule segForI)
  fix c :: Chunk and pre post st
  assume c: "code c = pre @ [opByte opConstant, i] @ post" "constants c = K"
  have "readByte c (Suc (length pre)) = Inr (i, Suc (Suc (length pre)))"
    using readByte_code [of c "pre @ [opByte opConstant]" i post] c by simp
  then show "run c env (length pre) st = rbind (push (K ! unat i) st)
      (\<lambda>st. run c env (length pre + length [opByte opConstant, i]) st)"
    using c assms run_op [of c pre opConstant "i # post"]
    by (simp add: exec_def getConstant_def simpleOp_def rbind_assoc del: opByte.simps)
qed

lemma seg_fetch: "segFor K env [opByte opFetchVariable, i] (fetchVariable env (unat i))"
proof (rule segForI)
  fix c :: Chunk and pre post st
  assume c: "code c = pre @ [opByte opFetchVariable, i] @ post" "constants c = K"
  have "readByte c (Suc (length pre)) = Inr (i, Suc (Suc (length pre)))"
    using readByte_code [of c "pre @ [opByte opFetchVariable]" i post] c by simp
  then show "run c env (length pre) st = rbind (fetchVariable env (unat i) st)
      (\<lambda>st. run c env (length pre + length [opByte opFetchVariable, i]) st)"
    using c run_op [of c pre opFetchVariable "i # post"]
    by (simp add: exec_def simpleOp_def rbind_assoc del: opByte.simps)
qed

text \<open>A conditional jump over a segment.\<close>

definition jumpCode :: "OpCode \<Rightarrow> nat \<Rightarrow> u8 list" where
  "jumpCode op d = [opByte op, of_nat (d div 256), of_nat (d mod 256)]"

lemma length_jumpCode [simp]: "length (jumpCode op d) = 3"
  by (simp add: jumpCode_def)

lemma unat_byte: "n < 256 \<Longrightarrow> unat (of_nat n :: u8) = n"
  by (simp add: unat_of_nat)

definition isJump :: "OpCode \<Rightarrow> bool \<Rightarrow> bool" where
  "isJump op wanted \<longleftrightarrow> op = (if wanted then opJumpIfTrue else opJumpIfFalse)"

lemma seg_jump:
  assumes "segFor K env b g" "length b \<le> 65535" "isJump op wanted"
  shows "segFor K env (jumpCode op (length b) @ b)
     (\<lambda>st. rbind (jumps wanted st) (\<lambda>j. if j then Inr st else g st))"
proof (rule segForI)
  fix c :: Chunk and pre post st
  assume c: "code c = pre @ (jumpCode op (length b) @ b) @ post" "constants c = K"
  let ?ip = "length pre + 3"
  have exec: "exec c env op (Suc (length pre)) st = jumpIf wanted c (Suc (length pre)) st"
    using assms(3) by (simp add: exec_def isJump_def)
  have "unat (of_nat (length b div 256) :: u8) * 256 + unat (of_nat (length b mod 256) :: u8) = length b"
    using assms(2) by (simp add: unat_byte)
  then have short: "readShort c (Suc (length pre)) = Inr (length b, ?ip)"
    using c(1) by (simp add: readShort_def nth_append jumpCode_def)
  have b: "run c env ?ip st = rbind (g st) (\<lambda>st. run c env (?ip + length b) st)"
    using segForD [OF assms(1), of c "pre @ jumpCode op (length b)" post] c by simp
  have "op \<noteq> opReturn" using assms(3) by (simp add: isJump_def)
  then have "run c env (length pre) st = rbind (jumpIf wanted c (Suc (length pre)) st)
      (\<lambda>(ip, st). run c env ip st)"
    using run_op [of c pre op] c(1) by (simp add: jumpCode_def exec)
  also have "\<dots> = rbind (jumps wanted st) (\<lambda>j. if j then run c env (?ip + length b) st
      else rbind (g st) (\<lambda>st. run c env (?ip + length b) st))"
    by (simp add: jumpIf_def short rbind_assoc b) (rule rbind_cong; simp add: b)
  also have "\<dots> = rbind (rbind (jumps wanted st) (\<lambda>j. if j then Inr st else g st))
      (\<lambda>st. run c env (?ip + length b) st)"
    by (simp add: rbind_assoc) (rule rbind_cong; simp)
  finally show "run c env (length pre) st =
      rbind (rbind (jumps wanted st) (\<lambda>j. if j then Inr st else g st))
        (\<lambda>st. run c env (length pre + length (jumpCode op (length b) @ b)) st)"
    by (simp add: add.assoc)
qed

section \<open>What the compiler appends\<close>

definition extends :: "Chunk \<Rightarrow> Chunk \<Rightarrow> u8 list \<Rightarrow> bool" where
  "extends c c' seg \<longleftrightarrow>
     code c' = code c @ seg \<and> (\<exists>ks. constants c' = constants c @ ks) \<and>
     (\<exists>vs. variablesDef c' = variablesDef c @ vs)"

text \<open>
  The constants start with the ones of the chunk, and the getters of the environment are the ones of
  the chunk's variables.
\<close>

definition compatible :: "(string \<Rightarrow> getter) \<Rightarrow> Chunk \<Rightarrow> Value list \<Rightarrow> getter list \<Rightarrow> bool" where
  "compatible \<rho> c K env \<longleftrightarrow>
     (\<exists>ks. K = constants c @ ks) \<and>
     (\<forall>i < length (variablesDef c). i < length env \<and> env ! i = \<rho> (variablesDef c ! i))"

lemma extends_trans: "extends c c' a \<Longrightarrow> extends c' c'' b \<Longrightarrow> extends c c'' (a @ b)"
  by (auto simp: extends_def)

lemma compatible_back: "extends c c' a \<Longrightarrow> compatible \<rho> c' K env \<Longrightarrow> compatible \<rho> c K env"
  by (fastforce simp: extends_def compatible_def nth_append)

definition compilesTo ::
  "(string \<Rightarrow> getter) \<Rightarrow> (Chunk \<Rightarrow> vm_exn + Chunk) \<Rightarrow> (Value list \<Rightarrow> vm_exn + Value list) \<Rightarrow> bool" where
  "compilesTo \<rho> p f \<longleftrightarrow>
     (\<forall>c c'. p c = Inr c' \<longrightarrow>
        (\<exists>seg. extends c c' seg \<and> (\<forall>K env. compatible \<rho> c' K env \<longrightarrow> segFor K env seg f)))"

lemma compilesToD:
  assumes "compilesTo \<rho> p f" "p c = Inr c'"
  obtains seg where "extends c c' seg" "\<And>K env. compatible \<rho> c' K env \<Longrightarrow> segFor K env seg f"
  using assms unfolding compilesTo_def by blast

lemma compilesToI:
  "(\<And>c c'. p c = Inr c' \<Longrightarrow>
      \<exists>seg. extends c c' seg \<and> (\<forall>K env. compatible \<rho> c' K env \<longrightarrow> segFor K env seg f)) \<Longrightarrow>
   compilesTo \<rho> p f"
  by (simp add: compilesTo_def)

lemma compilesTo_seq:
  assumes "compilesTo \<rho> p f" "compilesTo \<rho> q g"
  shows "compilesTo \<rho> (\<lambda>c. rbind (p c) q) (\<lambda>st. rbind (f st) g)"
proof (rule compilesToI)
  fix c c' assume "rbind (p c) q = Inr c'"
  then obtain d where "p c = Inr d" "q d = Inr c'" by (auto simp: rbind_Inr_conv)
  then obtain a b where
      a: "extends c d a" "\<And>K env. compatible \<rho> d K env \<Longrightarrow> segFor K env a f" and
      b: "extends d c' b" "\<And>K env. compatible \<rho> c' K env \<Longrightarrow> segFor K env b g"
    using assms by (metis compilesToD)
  then show "\<exists>seg. extends c c' seg \<and>
      (\<forall>K env. compatible \<rho> c' K env \<longrightarrow> segFor K env seg (\<lambda>st. rbind (f st) g))"
    using extends_trans [OF a(1) b(1)] seg_append [OF a(2) b(2)] compatible_back [OF b(1)] by blast
qed

lemma extends_emit: "extends c (emitByte b c) [b]"
  by (simp add: extends_def emitByte_def addCode_def)

lemma compilesTo_emit:
  assumes "op \<noteq> opReturn" "\<And>c env ip st. exec c env op ip st = simpleOp f ip st"
  shows "compilesTo \<rho> (\<lambda>c. Inr (emitByte (opByte op) c)) f"
proof (rule compilesToI)
  fix c c' assume "Inr (emitByte (opByte op) c) = (Inr c' :: vm_exn + Chunk)"
  then have "extends c c' [opByte op]" using extends_emit by auto
  then show "\<exists>seg. extends c c' seg \<and> (\<forall>K env. compatible \<rho> c' K env \<longrightarrow> segFor K env seg f)"
    using seg_simple [OF assms] by blast
qed

lemma compilesTo_constant: "compilesTo \<rho> (emitConstant v) (push v)"
proof (rule compilesToI)
  fix c c' assume "emitConstant v c = Inr c'"
  then have len: "length (constants c) < 256" and
      c': "c' = emitBytes (opByte opConstant) (of_nat (length (constants c)))
             (c\<lparr>constants := constants c @ [v]\<rparr>)"
    by (auto simp: emitConstant_def addConstant_def stackMax_def split: if_splits)
  let ?i = "of_nat (length (constants c)) :: u8"
  have "extends c c' [opByte opConstant, ?i]"
    by (simp add: c' extends_def emitBytes_def emitByte_def addCode_def)
  moreover have "segFor K env [opByte opConstant, ?i] (push v)" if "compatible \<rho> c' K env" for K env
    using seg_constant [of ?i K env] that len
    by (auto simp: compatible_def c' emitBytes_def emitByte_def addCode_def unat_byte nth_append)
  ultimately show "\<exists>seg. extends c c' seg \<and>
      (\<forall>K env. compatible \<rho> c' K env \<longrightarrow> segFor K env seg (push v))" by blast
qed

lemma findIndex_Some: "findIndex x xs = Some i \<Longrightarrow> i < length xs \<and> xs ! i = x"
  by (induction xs arbitrary: i) (auto split: if_splits)

lemma getOrRegisterVariable_index:
  assumes "getOrRegisterVariable name c = Inr (i, c')"
  shows "unat i < length (variablesDef c') \<and> variablesDef c' ! unat i = name \<and>
     (c' = c \<or> c' = c\<lparr>variablesDef := variablesDef c @ [name]\<rparr>)"
proof (cases "findIndex name (variablesDef c)")
  case None
  with assms show ?thesis
    by (auto simp: getOrRegisterVariable_def stackMax_def unat_byte split: if_splits)
next
  case (Some j)
  with assms findIndex_Some [OF Some] show ?thesis
    by (auto simp: getOrRegisterVariable_def stackMax_def unat_byte split: if_splits)
qed

lemma compilesTo_variable:
  "compilesTo \<rho> (\<lambda>c. rbind (getOrRegisterVariable name c) (\<lambda>(i, c). Inr (emitBytes (opByte opFetchVariable) i c)))
     (pushGetter (\<rho> name))"
proof (rule compilesToI)
  fix c c'
  assume "rbind (getOrRegisterVariable name c)
      (\<lambda>(i, c). Inr (emitBytes (opByte opFetchVariable) i c)) = Inr c'"
  then obtain i d where reg: "getOrRegisterVariable name c = Inr (i, d)"
      and c': "c' = emitBytes (opByte opFetchVariable) i d"
    by (auto simp: rbind_Inr_conv)
  note d = getOrRegisterVariable_index [OF reg]
  have "extends c c' [opByte opFetchVariable, i]"
    using d by (elim conjE disjE) (simp_all add: c' extends_def emitBytes_def emitByte_def addCode_def)
  moreover have "segFor K env [opByte opFetchVariable, i] (pushGetter (\<rho> name))"
    if "compatible \<rho> c' K env" for K env
  proof -
    have "fetchVariable env (unat i) = pushGetter (\<rho> name)"
      using that d
      by (auto simp: compatible_def c' emitBytes_def emitByte_def addCode_def fetchVariable_def
          pushGetter_def fun_eq_iff)
    then show ?thesis using seg_fetch [of K env i] by simp
  qed
  ultimately show "\<exists>seg. extends c c' seg \<and>
      (\<forall>K env. compatible \<rho> c' K env \<longrightarrow> segFor K env seg (pushGetter (\<rho> name)))" by blast
qed

section \<open>Jumps\<close>

lemma emitJump_eq:
  "emitJump op c = (Suc (length (code c)), c\<lparr>code := code c @ [opByte op, 0xff, 0xff]\<rparr>)"
  by (simp add: emitJump_def emitByte_def addCode_def countCode_def)

text \<open>Patching the jump in front of the last \<open>rest\<close> bytes makes it jump over them.\<close>

lemma patchJump_code:
  assumes "code c = pre @ [opByte op, x, y] @ rest" "patchJump (Suc (length pre)) c = Inr c'"
  shows "c' = c\<lparr>code := pre @ jumpCode op (length rest) @ rest\<rparr> \<and> length rest \<le> 65535"
  using assms
  by (auto simp: patchJump_def patch_def countCode_def Let_def jumpCode_def list_update_append
      split: if_splits)

lemma compilesTo_logical:
  assumes "compilesTo \<rho> p f" "compilesTo \<rho> q g"
  shows "compilesTo \<rho> (compileLogical op p q)
     (\<lambda>st. rbind (f st) (\<lambda>st. rbind (jumps (op = LogicalOr) st) (\<lambda>j.
        if j then Inr st else rbind (g st) (binaryOp (logicalFun op)))))"
proof (rule compilesToI)
  fix c c' assume "compileLogical op p q c = Inr c'"
  then obtain d e where d: "p c = Inr d"
      and e: "q (d\<lparr>code := code d @ [opByte (jumpOpCode op), 0xff, 0xff]\<rparr>) = Inr e"
      and patched: "patchJump (Suc (length (code d))) (emitByte (opByte (logicalOpCode op)) e) = Inr c'"
    by (auto simp: compileLogical_def emitJump_eq rbind_Inr_conv)
  obtain a where a: "extends c d a" "\<And>K env. compatible \<rho> d K env \<Longrightarrow> segFor K env a f"
    using compilesToD [OF assms(1) d] by metis
  let ?d = "d\<lparr>code := code d @ [opByte (jumpOpCode op), 0xff, 0xff]\<rparr>"
  let ?op = "logicalOpCode op"
  obtain b where b: "extends ?d e b" "\<And>K env. compatible \<rho> e K env \<Longrightarrow> segFor K env b g"
    using compilesToD [OF assms(2) e] by metis
  have "code (emitByte (opByte ?op) e) =
      code d @ [opByte (jumpOpCode op), 0xff, 0xff] @ (b @ [opByte ?op])"
    using b(1) by (simp add: extends_def emitByte_def addCode_def)
  from patchJump_code [OF this patched]
  have c': "c' = e\<lparr>code := code d @ jumpCode (jumpOpCode op) (length (b @ [opByte ?op])) @ b @ [opByte ?op]\<rparr>"
      and len: "length (b @ [opByte ?op]) \<le> 65535"
    by (auto simp: emitByte_def addCode_def)
  let ?seg = "a @ jumpCode (jumpOpCode op) (length (b @ [opByte ?op])) @ b @ [opByte ?op]"
  have ext: "extends c c' ?seg"
      and later: "extends d c' (jumpCode (jumpOpCode op) (length (b @ [opByte ?op])) @ b @ [opByte ?op])"
    using a(1) b(1) by (auto simp: c' extends_def)
  moreover have "segFor K env ?seg (\<lambda>st. rbind (f st) (\<lambda>st. rbind (jumps (op = LogicalOr) st) (\<lambda>j.
        if j then Inr st else rbind (g st) (binaryOp (logicalFun op)))))"
    if K: "compatible \<rho> c' K env" for K env
  proof (rule seg_append [OF a(2) seg_jump [OF seg_append [OF b(2) seg_simple] len]])
    show "compatible \<rho> d K env" by (rule compatible_back [OF later K])
    show "compatible \<rho> e K env" using K by (simp add: c' compatible_def)
  qed (cases op; simp add: exec_def isJump_def)+
  ultimately show "\<exists>seg. extends c c' seg \<and> (\<forall>K env. compatible \<rho> c' K env \<longrightarrow>
      segFor K env seg (\<lambda>st. rbind (f st) (\<lambda>st. rbind (jumps (op = LogicalOr) st) (\<lambda>j.
        if j then Inr st else rbind (g st) (binaryOp (logicalFun op))))))" by blast
qed

section \<open>Sets\<close>

text \<open>
  The code of an \<^verbatim>\<open>IN\<close> is a piece per element, each followed by a jump to the end: with holes for the
  distances while the loop runs, and patched.
\<close>

fun holes :: "OpCode \<Rightarrow> u8 list list \<Rightarrow> u8 list" where
  "holes op [] = []"
| "holes op (p # ps) = p @ [opByte op, 0xff, 0xff] @ holes op ps"

fun patched :: "OpCode \<Rightarrow> u8 list list \<Rightarrow> u8 list" where
  "patched op [] = []"
| "patched op (p # ps) = p @ jumpCode op (length (patched op ps)) @ patched op ps"

fun holeOffsets :: "nat \<Rightarrow> u8 list list \<Rightarrow> nat list" where
  "holeOffsets n [] = []"
| "holeOffsets n (p # ps) = Suc (n + length p) # holeOffsets (n + length p + 3) ps"

fun shortJumps :: "OpCode \<Rightarrow> u8 list list \<Rightarrow> bool" where
  "shortJumps op [] \<longleftrightarrow> True"
| "shortJumps op (p # ps) \<longleftrightarrow> length (patched op ps) \<le> 65535 \<and> shortJumps op ps"

lemma length_patched: "length (patched op ps) = length (holes op ps)"
  by (induction ps) simp_all

lemma patchJumps_holes:
  assumes "code c = pre @ holes op ps" "patchJumps (holeOffsets (length pre) ps) c = Inr c'"
  shows "c' = c\<lparr>code := pre @ patched op ps\<rparr> \<and> shortJumps op ps"
  using assms
proof (induction ps arbitrary: c pre)
  case (Cons p ps)
  let ?jump = "jumpCode op (length (holes op ps))"
  obtain d where d: "patchJump (Suc (length (pre @ p))) c = Inr d"
      and rest: "patchJumps (holeOffsets (length (pre @ p @ ?jump)) ps) d = Inr c'"
    using Cons.prems(2) by (auto simp: rbind_Inr_conv add.assoc)
  have "code c = (pre @ p) @ [opByte op, 0xff, 0xff] @ holes op ps" using Cons.prems(1) by simp
  from patchJump_code [OF this d]
  have "d = c\<lparr>code := (pre @ p @ ?jump) @ holes op ps\<rparr>" "length (holes op ps) \<le> 65535" by auto
  with Cons.IH [of d "pre @ p @ ?jump"] rest show ?case by (simp add: length_patched)
qed simp

lemma seg_patched:
  assumes "list_all2 (\<lambda>p f. segFor K env p (\<lambda>st. rbind (l st) (\<lambda>st. rbind (f st) (binaryOp (elementOp notIn))))) ps fs"
    "shortJumps op ps" "isJump op (\<not> notIn)"
  shows "segFor K env (patched op ps) (evalElements notIn l fs)"
  using assms(1,2)
proof (induction ps fs rule: list_all2_induct)
  case Nil
  show ?case by (rule segForI) simp
next
  case (Cons p ps f fs)
  have "segFor K env (p @ (jumpCode op (length (patched op ps)) @ patched op ps))
     (\<lambda>st. rbind (rbind (l st) (\<lambda>st. rbind (f st) (binaryOp (elementOp notIn)))) (\<lambda>st.
        rbind (jumps (\<not> notIn) st) (\<lambda>j. if j then Inr st else evalElements notIn l fs st)))"
    using Cons by (intro seg_append seg_jump assms(3)) simp_all
  then show ?case by (simp add: rbind_assoc segFor_def)
qed

lemma compileElements_pieces:
  assumes "compilesTo \<rho> p l" "list_all2 (compilesTo \<rho>) els fs"
    "compileElements notIn p els c = Inr (offs, c')"
  shows "\<exists>ps. extends c c' (holes (if notIn then opJumpIfFalse else opJumpIfTrue) ps) \<and>
     offs = holeOffsets (length (code c)) ps \<and>
     (\<forall>K env. compatible \<rho> c' K env \<longrightarrow>
        list_all2 (\<lambda>p f. segFor K env p (\<lambda>st. rbind (l st) (\<lambda>st. rbind (f st) (binaryOp (elementOp notIn))))) ps fs)"
  using assms(2,3)
proof (induction els fs arbitrary: c offs rule: list_all2_induct)
  case Nil
  then show ?case by (intro exI [of _ "[]"]) (auto simp: extends_def)
next
  case (Cons el els f fs)
  let ?eq = "if notIn then opNotEqual else opEqual"
  let ?jop = "if notIn then opJumpIfFalse else opJumpIfTrue"
  define piece where "piece = (\<lambda>c. rbind (p c) (\<lambda>c. rbind (el c) (\<lambda>c. Inr (emitByte (opByte ?eq) c))))"
  have emit: "compilesTo \<rho> (\<lambda>c. Inr (emitByte (opByte ?eq) c)) (binaryOp (elementOp notIn))"
    by (rule compilesTo_emit) (simp_all add: exec_def elementOp_def)
  have comp: "compilesTo \<rho> piece (\<lambda>st. rbind (l st) (\<lambda>st. rbind (f st) (binaryOp (elementOp notIn))))"
    unfolding piece_def by (intro compilesTo_seq assms(1) Cons.hyps(1) emit)
  obtain d offs' where d: "piece c = Inr d"
      and rest: "compileElements notIn p els (d\<lparr>code := code d @ [opByte ?jop, 0xff, 0xff]\<rparr>) = Inr (offs', c')"
      and offs: "offs = Suc (length (code d)) # offs'"
    using Cons.prems by (auto simp: piece_def emitJump_eq rbind_Inr_conv split: prod.splits if_splits)
  obtain q where q: "extends c d q" "\<And>K env. compatible \<rho> d K env \<Longrightarrow>
      segFor K env q (\<lambda>st. rbind (l st) (\<lambda>st. rbind (f st) (binaryOp (elementOp notIn))))"
    by (rule compilesToD [OF comp d]) blast
  let ?d = "d\<lparr>code := code d @ [opByte ?jop, 0xff, 0xff]\<rparr>"
  obtain ps where ps: "extends ?d c' (holes ?jop ps)" "offs' = holeOffsets (length (code ?d)) ps"
      "\<And>K env. compatible \<rho> c' K env \<Longrightarrow>
        list_all2 (\<lambda>p f. segFor K env p (\<lambda>st. rbind (l st) (\<lambda>st. rbind (f st) (binaryOp (elementOp notIn))))) ps fs"
    using Cons.IH [OF rest] by blast
  have len: "length (code d) = length (code c) + length q" using q(1) by (simp add: extends_def)
  have later: "extends d c' ([opByte ?jop, 0xff, 0xff] @ holes ?jop ps)"
    using ps(1) by (simp add: extends_def)
  then have "extends c c' (holes ?jop (q # ps))" using extends_trans [OF q(1)] by simp
  moreover have "offs = holeOffsets (length (code c)) (q # ps)"
    using offs ps(2) len by (simp add: numeral_3_eq_3)
  ultimately show ?case
    using q(2) compatible_back [OF later] ps(3) by (intro exI [of _ "q # ps"]) simp
qed

lemma compilesTo_in:
  assumes "compilesTo \<rho> p l" "list_all2 (compilesTo \<rho>) els fs"
  shows "compilesTo \<rho> (compileIn notIn p els) (evalElements notIn l fs)"
proof (rule compilesToI)
  fix c c' assume "compileIn notIn p els c = Inr c'"
  then obtain offs d where d: "compileElements notIn p els c = Inr (offs, d)"
      and patch: "patchJumps offs d = Inr c'"
    by (auto simp: compileIn_def rbind_Inr_conv)
  let ?jop = "if notIn then opJumpIfFalse else opJumpIfTrue"
  obtain ps where ps: "extends c d (holes ?jop ps)" "offs = holeOffsets (length (code c)) ps"
      "\<And>K env. compatible \<rho> d K env \<Longrightarrow>
        list_all2 (\<lambda>p f. segFor K env p (\<lambda>st. rbind (l st) (\<lambda>st. rbind (f st) (binaryOp (elementOp notIn))))) ps fs"
    using compileElements_pieces [OF assms d] by blast
  have "code d = code c @ holes ?jop ps" using ps(1) by (simp add: extends_def)
  from patchJumps_holes [OF this patch [unfolded ps(2)]]
  have c': "c' = d\<lparr>code := code c @ patched ?jop ps\<rparr>" and short: "shortJumps ?jop ps" by auto
  have "extends c c' (patched ?jop ps)" using ps(1) by (simp add: c' extends_def)
  moreover have "segFor K env (patched ?jop ps) (evalElements notIn l fs)"
    if "compatible \<rho> c' K env" for K env
  proof (rule seg_patched [OF ps(3) short])
    show "compatible \<rho> d K env" using that by (simp add: c' compatible_def)
  qed (simp add: isJump_def)
  ultimately show "\<exists>seg. extends c c' seg \<and>
      (\<forall>K env. compatible \<rho> c' K env \<longrightarrow> segFor K env seg (evalElements notIn l fs))" by blast
qed

section \<open>Every expression\<close>

lemma compilesTo_cong:
  "compilesTo \<rho> p f \<Longrightarrow> (\<And>c. p c = q c) \<Longrightarrow> (\<And>st. f st = g st) \<Longrightarrow> compilesTo \<rho> q g"
  by (simp add: compilesTo_def segFor_def)

lemma compilesTo_binary:
  "compilesTo \<rho> (\<lambda>c. Inr (emitByte (opByte (binaryOpCode op)) c)) (binaryOp (binaryFun op))"
  by (rule compilesTo_emit; cases op; simp add: exec_def)

lemma compilesTo_negate: "compilesTo \<rho> (\<lambda>c. Inr (emitByte (opByte opNegate) c)) (unaryOp negate)"
  by (rule compilesTo_emit) (simp_all add: exec_def)

lemma compilesTo_between: "compilesTo \<rho> (\<lambda>c. Inr (emitByte (opByte opBetween) c)) betweenOp"
  by (rule compilesTo_emit) (simp_all add: exec_def)

lemma compilesTo_ret: "compilesTo \<rho> Inr Inr"
  by (rule compilesToI) (auto simp: extends_def seg_nil intro!: exI [of _ "[]"])

theorem compileExpr_correct: "compilesTo \<rho> (compileExpr e) (evalStack \<rho> e)"
proof (induction e)
  case EMonostate
  show ?case by (rule compilesTo_cong [OF compilesTo_ret]) simp_all
next
  case (ELiteral t)
  show ?case
  proof (cases "literalValue (lexeme t) (tokenValue t)")
    case (Inl x)
    then show ?thesis by (simp add: compilesTo_def)
  next
    case (Inr v)
    then show ?thesis by (intro compilesTo_cong [OF compilesTo_constant]) simp_all
  qed
next
  case (EUnary op e)
  show ?case by (rule compilesTo_cong [OF compilesTo_seq [OF EUnary compilesTo_negate]]) simp_all
next
  case (EBinary l op r)
  show ?case
    by (rule compilesTo_cong [OF compilesTo_seq [OF EBinary(1) compilesTo_seq [OF EBinary(2) compilesTo_binary]]])
      simp_all
next
  case (EGrouping e)
  show ?case by (rule compilesTo_cong [OF EGrouping]) simp_all
next
  case (ELogical l op r)
  show ?case by (rule compilesTo_cong [OF compilesTo_logical [OF ELogical]]) simp_all
next
  case (EVariable path name)
  show ?case by (rule compilesTo_cong [OF compilesTo_variable]) simp_all
next
  case (EBetween e lo hi n)
  note operands = compilesTo_seq [OF EBetween(1) compilesTo_seq [OF EBetween(2) compilesTo_seq [OF EBetween(3)]]]
  show ?case
  proof (cases n)
    case True
    then show ?thesis
      by (intro compilesTo_cong [OF operands [OF compilesTo_seq [OF compilesTo_between compilesTo_negate]]])
        (simp_all add: Let_def)
  next
    case False
    then show ?thesis
      by (intro compilesTo_cong [OF operands [OF compilesTo_between]])
        (simp_all add: Let_def rbind_def split: sum.splits)
  qed
next
  case (EIn e es n)
  have "list_all2 (compilesTo \<rho>) (map compileExpr es) (map (evalStack \<rho>) es)"
    using EIn(2) by (simp add: list_all2_conv_all_nth)
  then show ?case by (intro compilesTo_cong [OF compilesTo_in [OF EIn(1)]]) simp_all
qed

section \<open>Whole queries\<close>

definition resultOf :: "vm_exn + Value list \<Rightarrow> vm_result" where
  "resultOf r =
     (case r of
        Inl e \<Rightarrow> if e = UndefinedBehavior \<or> e = InvalidAccess then Undefined else Err (WhatOf e)
      | Inr [] \<Rightarrow> Undefined
      | Inr (v # _) \<Rightarrow> Ok v)"

text \<open>The environment the caller builds for a chunk: the getter of each variable, in order.\<close>

definition environmentFor :: "(string \<Rightarrow> getter) \<Rightarrow> Chunk \<Rightarrow> getter list" where
  "environmentFor \<rho> c = map \<rho> (variablesDef c)"

lemma compatible_environment: "compatible \<rho> c (constants c) (environmentFor \<rho> c)"
  by (simp add: compatible_def environmentFor_def)

lemma run_compiled:
  assumes "compileQuery q = Inr c" "query_condition q = Some e"
  shows "run c (environmentFor \<rho> c) 0 [] =
     rbind (evalStack \<rho> e []) (\<lambda>st. rbind (pop st) (\<lambda>(v, _). Inr (Inr v)))"
proof -
  obtain d where d: "compileExpr e emptyChunk = Inr d" and c: "c = emitByte (opByte opReturn) d"
    using assms by (auto simp: compileQuery_def rbind_Inr_conv)
  obtain seg where seg: "extends emptyChunk d seg"
      "\<And>K env. compatible \<rho> d K env \<Longrightarrow> segFor K env seg (evalStack \<rho> e)"
    by (rule compilesToD [OF compileExpr_correct d]) blast
  have code: "code c = [] @ seg @ [opByte opReturn]"
    using seg(1) by (simp add: c extends_def emptyChunk_def emitByte_def addCode_def)
  have "compatible \<rho> d (constants c) (environmentFor \<rho> c)"
    using compatible_environment [of \<rho> c] by (simp add: compatible_def c emitByte_def addCode_def)
  from segForD [OF seg(2) [OF this] code refl]
  have run: "run c (environmentFor \<rho> c) 0 [] =
      rbind (evalStack \<rho> e []) (\<lambda>st. run c (environmentFor \<rho> c) (length seg) st)" by simp
  have "run c (environmentFor \<rho> c) (length seg) st = rbind (pop st) (\<lambda>(v, _). Inr (Inr v))" for st
    using code by (subst run.simps) (simp add: readByte_def decode_zero [THEN iffD2])
  then show ?thesis by (simp add: run)
qed

lemma interpret_compiled:
  assumes "compileQuery q = Inr c" "query_condition q = Some e"
  shows "interpret_chunk c (environmentFor \<rho> c) = resultOf (evalStack \<rho> e [])"
  by (auto simp: interpret_chunk_def run_compiled [OF assms] resultOf_def pop_def
      split: sum.splits list.splits)

section \<open>Compilation errors\<close>

text \<open>Every patch lies in the code, so \<^verbatim>\<open>at\<close> never throws: the compiler fails with its own messages only.\<close>

definition compileFails :: "vm_exn \<Rightarrow> bool" where
  "compileFails x \<longleftrightarrow>
     (\<exists>m \<in> {''too many constants'', ''too many variables'', ''Too much code to jump over'',
             ''invalid literal value''}. x = RuntimeException m)"

definition failsWell :: "(Chunk \<Rightarrow> vm_exn + Chunk) \<Rightarrow> bool" where
  "failsWell p \<longleftrightarrow> (\<forall>c x. p c = Inl x \<longrightarrow> compileFails x)"

lemma failsWellD: "failsWell p \<Longrightarrow> p c = Inl x \<Longrightarrow> compileFails x"
  by (simp add: failsWell_def)

lemma literalValue_fails: "literalValue lx v = Inl x \<Longrightarrow> compileFails x"
  by (cases v) (auto simp: compileFails_def)

lemma patchJump_fails:
  "patchJump off c = Inl x \<Longrightarrow> off + 1 < length (code c) \<Longrightarrow> compileFails x"
  by (auto simp: patchJump_def patch_def countCode_def Let_def compileFails_def split: if_splits)

lemma patchJumps_fails:
  "patchJumps offs c = Inl x \<Longrightarrow> \<forall>off \<in> set offs. off + 1 < length (code c) \<Longrightarrow> compileFails x"
proof (induction offs arbitrary: c)
  case (Cons off offs)
  have "length (code d) = length (code c)" if "patchJump off c = Inr d" for d
    using that Cons.prems(2)
    by (auto simp: patchJump_def patch_def countCode_def Let_def split: if_splits)
  then show ?case
    using Cons by (auto simp: rbind_Inl_conv dest: patchJump_fails)
qed simp

lemma failsWell_logical:
  assumes "failsWell p" "failsWell q" "compilesTo \<rho> q g"
  shows "failsWell (compileLogical op p q)"
  unfolding failsWell_def
proof (intro allI impI)
  fix c x assume "compileLogical op p q c = Inl x"
  then consider "p c = Inl x"
    | d where "q (d\<lparr>code := code d @ [opByte (jumpOpCode op), 0xff, 0xff]\<rparr>) = Inl x"
    | d e where "q (d\<lparr>code := code d @ [opByte (jumpOpCode op), 0xff, 0xff]\<rparr>) = Inr e"
        "patchJump (Suc (length (code d))) (emitByte (opByte (logicalOpCode op)) e) = Inl x"
    by (auto simp: compileLogical_def emitJump_eq rbind_Inl_conv)
  then show "compileFails x"
  proof cases
    case (3 d e)
    obtain seg where "extends (d\<lparr>code := code d @ [opByte (jumpOpCode op), 0xff, 0xff]\<rparr>) e seg"
      by (rule compilesToD [OF assms(3) 3(1)])
    then show ?thesis
      using patchJump_fails [OF 3(2)] by (simp add: extends_def emitByte_def addCode_def)
  qed (use assms(1,2) in \<open>auto dest: failsWellD\<close>)
qed

lemma compileElements_fails:
  "failsWell p \<Longrightarrow> \<forall>el \<in> set els. failsWell el \<Longrightarrow> compileElements notIn p els c = Inl x \<Longrightarrow> compileFails x"
  by (induction els arbitrary: c) (auto simp: rbind_Inl_conv emitJump_eq dest: failsWellD)

lemma holeOffsets_bound: "off \<in> set (holeOffsets n ps) \<Longrightarrow> off + 1 < n + length (holes op ps)"
  by (induction ps arbitrary: n) fastforce+

lemma failsWell_in:
  assumes "failsWell p" "\<forall>el \<in> set els. failsWell el" "compilesTo \<rho> p l" "list_all2 (compilesTo \<rho>) els fs"
  shows "failsWell (compileIn notIn p els)"
  unfolding failsWell_def
proof (intro allI impI)
  fix c x assume "compileIn notIn p els c = Inl x"
  then consider "compileElements notIn p els c = Inl x"
    | offs d where "compileElements notIn p els c = Inr (offs, d)" "patchJumps offs d = Inl x"
    by (auto simp: compileIn_def rbind_Inl_conv)
  then show "compileFails x"
  proof cases
    case 1
    then show ?thesis by (rule compileElements_fails [OF assms(1,2)])
  next
    case (2 offs d)
    let ?jop = "if notIn then opJumpIfFalse else opJumpIfTrue"
    obtain ps where "extends c d (holes ?jop ps)" "offs = holeOffsets (length (code c)) ps"
      using compileElements_pieces [OF assms(3,4) 2(1)] by blast
    then have "\<forall>off \<in> set offs. off + 1 < length (code d)"
      using holeOffsets_bound [of _ "length (code c)" ps ?jop] by (auto simp: extends_def)
    then show ?thesis by (rule patchJumps_fails [OF 2(2)])
  qed
qed

lemma compileExpr_fails: "failsWell (compileExpr e)"
proof (induction e)
  case (ELiteral t)
  have "compileFails x" if "emitConstant v c = Inl x" for v c x
    using that by (auto simp: emitConstant_def addConstant_def rbind_Inl_conv compileFails_def split: if_splits)
  then show ?case by (auto simp: failsWell_def rbind_Inl_conv dest: literalValue_fails)
next
  case (ELogical l op r)
  then show ?case
    using failsWell_logical [OF ELogical compileExpr_correct] by (simp add: failsWell_def)
next
  case (EVariable path name)
  show ?case
    by (auto simp: failsWell_def rbind_Inl_conv getOrRegisterVariable_def compileFails_def
        split: if_splits option.splits)
next
  case (EIn e es n)
  let ?\<rho> = "\<lambda>_. ThrowsBadVariantAccess"
  have "list_all2 (compilesTo ?\<rho>) (map compileExpr es) (map (evalStack ?\<rho>) es)"
    by (simp add: list_all2_conv_all_nth compileExpr_correct)
  then show ?case
    using failsWell_in [OF EIn(1) _ compileExpr_correct, of "map compileExpr es" ?\<rho>] EIn(2)
    by (simp add: failsWell_def)
qed (auto simp: failsWell_def rbind_Inl_conv Let_def)

section \<open>Variables\<close>

text \<open>No variable is registered twice.\<close>

lemma findIndex_None: "findIndex x xs = None \<longleftrightarrow> x \<notin> set xs"
  by (induction xs) auto

lemma getOrRegisterVariable_distinct:
  "getOrRegisterVariable name c = Inr (i, c') \<Longrightarrow> distinct (variablesDef c) \<Longrightarrow> distinct (variablesDef c')"
  by (auto simp: getOrRegisterVariable_def findIndex_None split: if_splits option.splits)

text \<open>Registering a variable again gives its first index, unless the table is full.\<close>

lemma getOrRegisterVariable_again:
  assumes "getOrRegisterVariable name c = Inr (i, c')" "length (variablesDef c') < stackMax"
  shows "getOrRegisterVariable name c' = Inr (i, c')"
proof -
  have "findIndex name xs = None \<Longrightarrow> findIndex name (xs @ [name]) = Some (length xs)" for xs
    by (induction xs) (auto split: if_splits)
  then show ?thesis
    using assms by (auto simp: getOrRegisterVariable_def split: if_splits option.splits)
qed

section \<open>Properties\<close>

text \<open>
  Compilation fails only because of a limit of the byte code (256 constants, 256 variables, jumps of
  65535 bytes) or of a literal the machine has no value for: every jump that is patched lies in the
  code.
\<close>

theorem compile_failures:
  assumes "compileQuery q = Inl x"
  shows "\<exists>m \<in> {''too many constants'', ''too many variables'', ''Too much code to jump over'',
     ''invalid literal value''}. x = RuntimeException m"
proof -
  obtain e where "compileExpr e emptyChunk = Inl x"
    using assms by (auto simp: compileQuery_def rbind_Inl_conv split: option.splits)
  then have "compileFails x" by (rule failsWellD [OF compileExpr_fails])
  then show ?thesis by (simp only: compileFails_def)
qed

definition whereQuery :: "StlExpr \<Rightarrow> QueryStatement" where
  "whereQuery e =
     \<lparr>query_type = None, query_bus = \<lparr>busName_session = defaultToken, busName_bus = defaultToken\<rparr>,
      query_condition = Some e\<rparr>"

theorem compile_failures_witness:
  "compileQuery (whereQuery (ELiteral (defaultToken\<lparr>tokenValue := VDuration 5\<rparr>))) =
     Inl (RuntimeException ''invalid literal value'')"
proof -
  let ?q = "whereQuery (ELiteral (defaultToken\<lparr>tokenValue := VDuration 5\<rparr>))"
  have "compileQuery ?q = Inl (RuntimeException ''invalid literal value'')"
    by (simp add: compileQuery_def whereQuery_def)
  with compile_failures [OF this] show ?thesis by blast
qed

text \<open>
  C3. Running the byte code of a query, with the getter of each of its variables as the environment, does
  what the condition says as a transformation of the stack: the bytes, the constant and variable
  indices and the distances of the jumps are right.
\<close>

theorem compiled_code_runs:
  assumes "compileQuery q = Inr c" "query_condition q = Some e"
  shows "interpret_chunk c (environmentFor \<rho> c) = resultOf (evalStack \<rho> e [])"
  using assms by (rule interpret_compiled)

definition integerLiteral :: "int \<Rightarrow> StlExpr" where
  "integerLiteral n = ELiteral \<lparr>tokenType = T_integral, lexeme = int_to_string n,
     tokenValue = VInt64 (word_of_int n), codeLocation = defaultLocation\<rparr>"

definition exampleSet :: StlExpr where
  "exampleSet = EIn (EVariable [] ''x'') [integerLiteral 1, integerLiteral 2] False"

definition exampleChunk :: Chunk where
  "exampleChunk = \<lparr>code = [17, 0, 1, 0, 7, 15, 0, 8, 17, 0, 1, 1, 7, 15, 0, 0, 0],
     constants = [I64 1, I64 2], variablesDef = [''x'']\<rparr>"

definition exampleValues :: "string \<Rightarrow> getter" where
  "exampleValues n = (if n = ''a'' then Returns (Bool True) else Returns (I32 2))"

lemmas compile_defs = compileQuery_def compileIn_def compileLogical_def emitJump_eq emitConstant_def
  addConstant_def getOrRegisterVariable_def emitBytes_def emitByte_def addCode_def patchJump_def
  patch_def countCode_def emptyChunk_def stackMax_def

lemma exampleSet_compiles: "compileQuery (whereQuery exampleSet) = Inr exampleChunk"
  by (simp add: compile_defs whereQuery_def exampleSet_def integerLiteral_def exampleChunk_def)

theorem compiled_code_runs_witness:
  "resultOf (evalStack exampleValues exampleSet []) = Ok (Bool True)"
proof -
  have "interpret_chunk exampleChunk (environmentFor exampleValues exampleChunk) = Ok (Bool True)"
    by code_simp
  then show ?thesis
    using compiled_code_runs [OF exampleSet_compiles, of exampleSet exampleValues]
    by (simp add: whereQuery_def)
qed

text \<open>
  The index a variable is registered under refers to its name, registering it again gives the same
  index while the table has room, and no name is registered twice.
\<close>

theorem variable_registration:
  assumes "getOrRegisterVariable name c = Inr (i, c')"
  shows "unat i < length (variablesDef c') \<and> variablesDef c' ! unat i = name \<and>
     (distinct (variablesDef c) \<longrightarrow> distinct (variablesDef c')) \<and>
     (length (variablesDef c') < stackMax \<longrightarrow> getOrRegisterVariable name c' = Inr (i, c'))"
  using getOrRegisterVariable_index [OF assms] getOrRegisterVariable_distinct [OF assms]
    getOrRegisterVariable_again [OF assms] by blast

theorem variable_registration_witness:
  "getOrRegisterVariable ''x'' emptyChunk = Inr (0, emptyChunk\<lparr>variablesDef := [''x'']\<rparr>) \<and>
   getOrRegisterVariable ''x'' (emptyChunk\<lparr>variablesDef := [''x'']\<rparr>) =
     Inr (0, emptyChunk\<lparr>variablesDef := [''x'']\<rparr>)"
proof -
  have "getOrRegisterVariable ''x'' emptyChunk = Inr (0, emptyChunk\<lparr>variablesDef := [''x'']\<rparr>)"
    by (simp add: getOrRegisterVariable_def emptyChunk_def stackMax_def)
  with variable_registration [OF this] show ?thesis by (simp add: stackMax_def)
qed

end
