(* ===== verification/Query_Semantics.thy ===== *)
theory Query_Semantics
  imports Query_Compile_Correct Stl_Frontend
begin

text \<open>
  What a query means, and what the machine makes of it. \<open>evalExpr\<close> evaluates an expression the way the
  query language is documented; the machine computes the same value when no \<^verbatim>\<open>IN\<close> with two or more
  elements stands where its result is a right operand. The machine never reads outside its stack,
  its code, its constants or its environment, whatever the query.
\<close>

section \<open>Evaluation\<close>

text \<open>Whether a logical operator is decided by its left operand.\<close>

definition decides :: "bool \<Rightarrow> Value \<Rightarrow> vm_exn + bool" where
  "decides wanted v =
     (if v = VariantAccessError then Inr False else rbind (extractBool v) (\<lambda>b. Inr (b = wanted)))"

fun evalSet :: "bool \<Rightarrow> (vm_exn + Value) \<Rightarrow> (vm_exn + Value) list \<Rightarrow> vm_exn + Value" where
  "evalSet notIn l [] = Inr (Bool notIn)"
| "evalSet notIn l (r # rs) =
     rbind l (\<lambda>a. rbind r (\<lambda>b. rbind (elementOp notIn a b) (\<lambda>v.
       if v = Bool (\<not> notIn) then Inr v else evalSet notIn l rs)))"

definition getterValue :: "getter \<Rightarrow> vm_exn + Value" where
  "getterValue g =
     (case g of Returns v \<Rightarrow> Inr v | ThrowsBadVariantAccess \<Rightarrow> Inr VariantAccessError
      | Throws m \<Rightarrow> Inl (GetterException m))"

fun evalExpr :: "(string \<Rightarrow> getter) \<Rightarrow> StlExpr \<Rightarrow> vm_exn + Value" where
  "evalExpr \<rho> EMonostate = Inl InvalidAccess"
| "evalExpr \<rho> (ELiteral t) = literalValue (lexeme t) (tokenValue t)"
| "evalExpr \<rho> (EUnary op e) = rbind (evalExpr \<rho> e) negate"
| "evalExpr \<rho> (EBinary l op r) =
     rbind (evalExpr \<rho> l) (\<lambda>a. rbind (evalExpr \<rho> r) (\<lambda>b. binaryFun op a b))"
| "evalExpr \<rho> (EGrouping e) = evalExpr \<rho> e"
| "evalExpr \<rho> (ELogical l op r) =
     rbind (evalExpr \<rho> l) (\<lambda>a. rbind (decides (op = LogicalOr) a) (\<lambda>j.
       if j then Inr a else rbind (evalExpr \<rho> r) (\<lambda>b. logicalFun op a b)))"
| "evalExpr \<rho> (EVariable path name) = getterValue (\<rho> name)"
| "evalExpr \<rho> (EBetween e lo hi notBetween) =
     rbind (evalExpr \<rho> e) (\<lambda>v. rbind (evalExpr \<rho> lo) (\<lambda>a. rbind (evalExpr \<rho> hi) (\<lambda>b.
       rbind (between v a b) (\<lambda>r. if notBetween then negate r else Inr r))))"
| "evalExpr \<rho> (EIn e es notIn) = evalSet notIn (evalExpr \<rho> e) (map (evalExpr \<rho>) es)"

section \<open>Shapes of expressions\<close>

text \<open>What the parser produces: no empty alternative, no empty set, literals of the scanner's types.\<close>

fun wfExpr :: "StlExpr \<Rightarrow> bool" where
  "wfExpr EMonostate \<longleftrightarrow> False"
| "wfExpr (ELiteral t) \<longleftrightarrow> (\<exists>v. literalValue (lexeme t) (tokenValue t) = Inr v)"
| "wfExpr (EUnary op e) \<longleftrightarrow> wfExpr e"
| "wfExpr (EBinary l op r) \<longleftrightarrow> wfExpr l \<and> wfExpr r"
| "wfExpr (EGrouping e) \<longleftrightarrow> wfExpr e"
| "wfExpr (ELogical l op r) \<longleftrightarrow> wfExpr l \<and> wfExpr r"
| "wfExpr (EVariable path name) \<longleftrightarrow> True"
| "wfExpr (EBetween e lo hi n) \<longleftrightarrow> wfExpr e \<and> wfExpr lo \<and> wfExpr hi"
| "wfExpr (EIn e es n) \<longleftrightarrow> wfExpr e \<and> es \<noteq> [] \<and> (\<forall>x \<in> set es. wfExpr x)"

text \<open>
  The most values an expression leaves on the stack below its result: an \<^verbatim>\<open>IN\<close> leaves the results of the
  comparisons that did not decide it.
\<close>

fun leftover :: "StlExpr \<Rightarrow> nat" where
  "leftover (EUnary op e) = leftover e"
| "leftover (EBinary l op r) = leftover l"
| "leftover (EGrouping e) = leftover e"
| "leftover (ELogical l op r) = leftover l"
| "leftover (EBetween e lo hi n) = leftover e"
| "leftover (EIn e es n) = leftover e + (length es - 1) * (leftover e + 1)"
| "leftover _ = 0"

text \<open>Every right operand leaves nothing below its result.\<close>

fun tidyOperands :: "StlExpr \<Rightarrow> bool" where
  "tidyOperands (EUnary op e) \<longleftrightarrow> tidyOperands e"
| "tidyOperands (EBinary l op r) \<longleftrightarrow> tidyOperands l \<and> tidyOperands r \<and> leftover r = 0"
| "tidyOperands (EGrouping e) \<longleftrightarrow> tidyOperands e"
| "tidyOperands (ELogical l op r) \<longleftrightarrow> tidyOperands l \<and> tidyOperands r \<and> leftover r = 0"
| "tidyOperands (EBetween e lo hi n) \<longleftrightarrow>
     tidyOperands e \<and> tidyOperands lo \<and> tidyOperands hi \<and> leftover lo = 0 \<and> leftover hi = 0"
| "tidyOperands (EIn e es n) \<longleftrightarrow> tidyOperands e \<and> (\<forall>x \<in> set es. tidyOperands x \<and> leftover x = 0)"
| "tidyOperands _ \<longleftrightarrow> True"

text \<open>The stack an expression with tidy operands needs.\<close>

fun stackNeed :: "StlExpr \<Rightarrow> nat" where
  "stackNeed (EUnary op e) = stackNeed e"
| "stackNeed (EBinary l op r) = max (stackNeed l) (leftover l + 1 + stackNeed r)"
| "stackNeed (EGrouping e) = stackNeed e"
| "stackNeed (ELogical l op r) = max (stackNeed l) (leftover l + 1 + stackNeed r)"
| "stackNeed (EBetween e lo hi n) =
     max (stackNeed e) (leftover e + 1 + max (stackNeed lo) (1 + stackNeed hi))"
| "stackNeed (EIn e es n) =
     (length es - 1) * (leftover e + 1) +
     max (stackNeed e) (leftover e + 1 + foldr max (map stackNeed es) 0)"
| "stackNeed _ = 1"

lemma stackNeed_leftover: "leftover e + 1 \<le> stackNeed e"
  by (induction e) auto

section \<open>The machine computes the value\<close>

text \<open>
  The stack computation \<open>s\<close> from the stack \<open>st\<close> ends like the evaluation \<open>r\<close>: with the same exception, or
  with the value on top of at most \<open>n\<close> further values.
\<close>

definition yields :: "vm_exn + Value \<Rightarrow> vm_exn + Value list \<Rightarrow> Value list \<Rightarrow> nat \<Rightarrow> bool" where
  "yields r s st n \<longleftrightarrow>
     (case r of
        Inl x \<Rightarrow> s = Inl x
      | Inr v \<Rightarrow> \<exists>junk. s = Inr (v # junk @ st) \<and> length junk \<le> n)"

lemma yields_Inl [simp]: "yields (Inl x) s st n \<longleftrightarrow> s = Inl x"
  by (simp add: yields_def)

lemma yields_Inr: "yields (Inr v) s st n \<longleftrightarrow> (\<exists>junk. s = Inr (v # junk @ st) \<and> length junk \<le> n)"
  by (simp add: yields_def)

lemma yields_bind:
  assumes "yields r s st n"
    "\<And>v junk. length junk \<le> n \<Longrightarrow> yields (g v) (h (v # junk @ st)) st m"
  shows "yields (rbind r g) (rbind s h) st m"
  using assms by (cases r) (auto simp: yields_Inr)

lemma yields_push:
  assumes "length st + length junk < stackMax" "length junk \<le> n"
  shows "yields r (rbind r (\<lambda>v. push v (junk @ st))) st n"
  using assms by (cases r) (auto simp: yields_Inr push_def)

lemma yields_tidy:
  assumes "yields r s st 0" "\<And>v. yields (g v) (h (v # st)) st' m"
  shows "yields (rbind r g) (rbind s h) st' m"
  using assms by (cases r) (auto simp: yields_Inr)

lemma jumps_Cons [simp]: "jumps wanted (v # st) = decides wanted v"
  by (simp add: jumps_def topOf_def decides_def)

lemma unaryOp_Cons [simp]: "unaryOp f (a # st) = rbind (f a) (\<lambda>v. push v st)"
  by (simp add: unaryOp_def pop_def)

lemma binaryOp_Cons [simp]: "binaryOp f (b # a # st) = rbind (f a b) (\<lambda>v. push v st)"
  by (simp add: binaryOp_def pop_def)

lemma betweenOp_Cons [simp]: "betweenOp (hi # lo # v # st) = rbind (between v lo hi) (\<lambda>v. push v st)"
  by (simp add: betweenOp_def pop_def)

lemma yields_decided:
  assumes "length junk \<le> n" "yields r s st n"
  shows "yields (rbind (decides w a) (\<lambda>j. if j then Inr a else r))
     (rbind (decides w a) (\<lambda>j. if j then Inr (a # junk @ st) else s)) st n"
  using assms by (cases "decides w a") (auto simp: yields_Inr)

lemma yields_below:
  assumes "yields r s (x # junk @ st) m" "m + 1 + length junk \<le> n"
  shows "yields r s st n"
proof (cases r)
  case (Inr v)
  with assms obtain junk' where "s = Inr (v # (junk' @ x # junk) @ st)" "length junk' \<le> m"
    by (auto simp: yields_Inr)
  then show ?thesis using Inr assms(2) by (auto simp: yields_Inr intro!: exI [of _ "junk' @ x # junk"])
qed (use assms in simp)

lemma elementOp_Inr: "elementOp notIn a b = Inr v \<Longrightarrow> \<exists>t. v = Bool t"
  by (auto simp: elementOp_def comparisonOperation_def rbind_Inr_conv)

lemma yields_set:
  assumes l: "\<And>st. length st + nl \<le> stackMax \<Longrightarrow> yields r (l st) st k"
    and f: "list_all2 (\<lambda>r f. \<forall>st. length st + nf \<le> stackMax \<longrightarrow> yields r (f st) st 0) rs fs"
    and "rs \<noteq> []" "length st + (length rs - 1) * (k + 1) + max nl (k + 1 + nf) \<le> stackMax"
    and "k + 1 \<le> nl"
  shows "yields (evalSet notIn r rs) (evalElements notIn l fs st) st (k + (length rs - 1) * (k + 1))"
  using f assms(3,4)
proof (induction rs fs arbitrary: st rule: list_all2_induct)
  case (Cons b rs f fs)
  let ?n = "k + (length (b # rs) - 1) * (k + 1)"
  have "yields (rbind r (\<lambda>a. rbind b (\<lambda>b. rbind (elementOp notIn a b) (\<lambda>v.
         if v = Bool (\<not> notIn) then Inr v else evalSet notIn r rs))))
     (rbind (l st) (\<lambda>st. rbind (f st) (\<lambda>st. rbind (binaryOp (elementOp notIn) st) (\<lambda>st.
         rbind (jumps (\<not> notIn) st) (\<lambda>j. if j then Inr st else evalElements notIn l fs st)))))
     st ?n"
  proof (rule yields_bind [OF l], goal_cases)
    case 1
    then show ?case using Cons.prems(2) by simp
  next
    case (2 a junk)
    have fits: "length (a # junk @ st) + nf \<le> stackMax" using 2 Cons.prems(2) by simp
    show ?case
    proof (rule yields_tidy)
      show "yields b (f (a # junk @ st)) (a # junk @ st) 0" using Cons.hyps(1) fits by blast
    next
      fix v
      have room: "\<not> stackMax \<le> length junk + length st" using fits by simp
      show "yields (rbind (elementOp notIn a v) (\<lambda>v. if v = Bool (\<not> notIn) then Inr v else evalSet notIn r rs))
          (rbind (binaryOp (elementOp notIn) (v # a # junk @ st)) (\<lambda>st.
             rbind (jumps (\<not> notIn) st) (\<lambda>j. if j then Inr st else evalElements notIn l fs st))) st ?n"
      proof (cases "elementOp notIn a v")
        case (Inl x)
        then show ?thesis by simp
      next
        case (Inr u)
        then obtain t where u: "u = Bool t" using elementOp_Inr by blast
        show ?thesis
        proof (cases "t = (\<not> notIn)")
          case True
          with Inr u room 2 show ?thesis
            by (auto simp: push_def decides_def yields_Inr intro!: trans_le_add1)
        next
          case False
          have IH: "yields (evalSet notIn r rs) (evalElements notIn l fs (Bool t # junk @ st)) st ?n"
          proof (cases "rs = []")
            case True
            then have "fs = []" using Cons.hyps(2) by simp
            then show ?thesis using True False 2 by (auto simp: yields_Inr)
          next
            case nonempty: False
            then obtain m where m: "length rs = Suc m" by (cases rs) auto
            have "length (Bool t # junk @ st) + (length rs - 1) * (k + 1) + max nl (k + 1 + nf) \<le> stackMax"
              using Cons.prems(2) 2 m by simp
            from yields_below [OF Cons.IH [OF nonempty this]] show ?thesis using 2 m by simp
          qed
          show ?thesis using IH Inr u room False by (simp add: push_def decides_def)
        qed
      qed
    qed
  qed
  then show ?case by simp
qed simp

lemma foldr_max_ge: "x \<in> set xs \<Longrightarrow> x \<le> foldr max xs (0 :: nat)"
  by (induction xs) auto

lemma evalStack_yields:
  assumes "wfExpr e" "tidyOperands e" "length st + stackNeed e \<le> stackMax"
  shows "yields (evalExpr \<rho> e) (evalStack \<rho> e st) st (leftover e)"
  using assms
proof (induction e arbitrary: st)
  case (ELiteral t)
  then show ?case using yields_push [of st "[]" 0] by auto
next
  case (EUnary op e)
  have fits: "length st + leftover e < stackMax" using EUnary.prems(3) stackNeed_leftover [of e] by simp
  have "yields (rbind (evalExpr \<rho> e) negate) (rbind (evalStack \<rho> e st) (unaryOp negate)) st (leftover e)"
    by (rule yields_bind [OF EUnary.IH]) (use EUnary.prems fits in \<open>auto intro!: yields_push\<close>)
  then show ?case by simp
next
  case (EBinary l op r)
  have "yields (rbind (evalExpr \<rho> l) (\<lambda>a. rbind (evalExpr \<rho> r) (\<lambda>b. binaryFun op a b)))
     (rbind (evalStack \<rho> l st) (\<lambda>st. rbind (evalStack \<rho> r st) (binaryOp (binaryFun op)))) st (leftover l)"
  proof (rule yields_bind [OF EBinary.IH(1)], goal_cases)
    case (4 a junk)
    have "yields (evalExpr \<rho> r) (evalStack \<rho> r (a # junk @ st)) (a # junk @ st) 0"
      using EBinary.IH(2) [of "a # junk @ st"] EBinary.prems 4 by simp
    then show ?case
      by (rule yields_tidy)
        (use EBinary.prems(3) 4 stackNeed_leftover [of r] in \<open>auto intro!: yields_push\<close>)
  qed (use EBinary.prems in auto)
  then show ?case by simp
next
  case (EGrouping e)
  then show ?case by simp
next
  case (ELogical l op r)
  have "yields (rbind (evalExpr \<rho> l) (\<lambda>a. rbind (decides (op = LogicalOr) a) (\<lambda>j.
       if j then Inr a else rbind (evalExpr \<rho> r) (\<lambda>b. logicalFun op a b))))
     (rbind (evalStack \<rho> l st) (\<lambda>st. rbind (jumps (op = LogicalOr) st) (\<lambda>j.
       if j then Inr st else rbind (evalStack \<rho> r st) (binaryOp (logicalFun op))))) st (leftover l)"
  proof (rule yields_bind [OF ELogical.IH(1)], goal_cases)
    case (4 a junk)
    have "yields (evalExpr \<rho> r) (evalStack \<rho> r (a # junk @ st)) (a # junk @ st) 0"
      using ELogical.IH(2) [of "a # junk @ st"] ELogical.prems 4 by simp
    then have "yields (rbind (evalExpr \<rho> r) (\<lambda>b. logicalFun op a b))
        (rbind (evalStack \<rho> r (a # junk @ st)) (binaryOp (logicalFun op))) st (leftover l)"
      by (rule yields_tidy)
        (use ELogical.prems(3) 4 stackNeed_leftover [of r] in \<open>auto intro!: yields_push\<close>)
    then show ?case using yields_decided [OF 4] by simp
  qed (use ELogical.prems in auto)
  then show ?case by simp
next
  case (EVariable path name)
  then show ?case
    by (auto simp: pushGetter_def getterValue_def yields_Inr push_def split: getter.splits)
next
  case (EBetween e lo hi n)
  have "yields (rbind (evalExpr \<rho> e) (\<lambda>v. rbind (evalExpr \<rho> lo) (\<lambda>a. rbind (evalExpr \<rho> hi) (\<lambda>b.
       rbind (between v a b) (\<lambda>r. if n then negate r else Inr r)))))
     (rbind (evalStack \<rho> e st) (\<lambda>st. rbind (evalStack \<rho> lo st) (\<lambda>st. rbind (evalStack \<rho> hi st) (\<lambda>st.
       rbind (betweenOp st) (\<lambda>st. if n then unaryOp negate st else Inr st))))) st (leftover e)"
  proof (rule yields_bind [OF EBetween.IH(1)], goal_cases)
    case (4 v junk)
    have lo: "yields (evalExpr \<rho> lo) (evalStack \<rho> lo (v # junk @ st)) (v # junk @ st) 0"
      using EBetween.IH(2) [of "v # junk @ st"] EBetween.prems 4 by simp
    have hi: "yields (evalExpr \<rho> hi) (evalStack \<rho> hi (a # v # junk @ st)) (a # v # junk @ st) 0" for a
      using EBetween.IH(3) [of "a # v # junk @ st"] EBetween.prems 4 by simp
    have room: "length st + length junk < stackMax"
      using EBetween.prems(3) 4 stackNeed_leftover [of hi] by simp
    have "yields (rbind (between v a b) (\<lambda>r. if n then negate r else Inr r))
        (rbind (betweenOp (b # a # v # junk @ st)) (\<lambda>st. if n then unaryOp negate st else Inr st))
        st (leftover e)" for a b
      using room 4 yields_push [of st junk "leftover e"]
      by (cases "between v a b") (auto simp: push_def yields_Inr)
    then show ?case by (intro yields_tidy [OF lo] yields_tidy [OF hi])
  qed (use EBetween.prems in auto)
  then show ?case by simp
next
  case (EIn e es n)
  let ?nf = "foldr max (map stackNeed es) 0"
  have "list_all2 (\<lambda>r f. \<forall>st. length st + ?nf \<le> stackMax \<longrightarrow> yields r (f st) st 0)
      (map (evalExpr \<rho>) es) (map (evalStack \<rho>) es)"
  proof -
    have "yields (evalExpr \<rho> x) (evalStack \<rho> x st) st 0" if "x \<in> set es" "length st + ?nf \<le> stackMax" for x st
    proof -
      have "stackNeed x \<le> ?nf" using that(1) by (intro foldr_max_ge) simp
      then show ?thesis using EIn.IH(2) [OF that(1), of st] EIn.prems(1,2) that by simp
    qed
    then show ?thesis by (simp add: list_all2_conv_all_nth)
  qed
  then show ?case
    using yields_set [where r = "evalExpr \<rho> e" and l = "evalStack \<rho> e" and k = "leftover e"
        and nl = "stackNeed e" and rs = "map (evalExpr \<rho>) es" and nf = ?nf and st = st and notIn = n]
      EIn.IH(1) EIn.prems stackNeed_leftover [of e] by simp
qed simp

section \<open>The machine stays inside its memory\<close>

text \<open>
  Whatever the operands, an operator of the machine takes its operands from the values above the
  stack the expression started from, and never fails with an invalid access.
\<close>

definition keeps :: "vm_exn + Value list \<Rightarrow> Value list \<Rightarrow> bool" where
  "keeps s st \<longleftrightarrow>
     (case s of Inl x \<Rightarrow> x \<noteq> InvalidAccess | Inr st' \<Rightarrow> \<exists>v junk. st' = v # junk @ st)"

lemma keeps_Inl [simp]: "keeps (Inl x) st \<longleftrightarrow> x \<noteq> InvalidAccess"
  by (simp add: keeps_def)

lemma keeps_Inr: "keeps (Inr st') st \<longleftrightarrow> (\<exists>v junk. st' = v # junk @ st)"
  by (simp add: keeps_def)

lemma keeps_bind:
  assumes "keeps s st" "\<And>v junk. keeps (h (v # junk @ st)) st'"
  shows "keeps (rbind s h) st'"
  using assms by (cases s) (auto simp: keeps_Inr)

lemma keeps_bind_value:
  assumes "r \<noteq> Inl InvalidAccess" "\<And>v. keeps (h v) st"
  shows "keeps (rbind r h) st"
  using assms by (cases r) auto

lemma keeps_push: "keeps (push v (junk @ st)) st"
  by (auto simp: push_def keeps_Inr)

lemma keeps_push_Cons: "keeps (push v (junk @ a # junk' @ st)) st"
  using keeps_push [of v "junk @ a # junk'" st] by simp

lemma compare_valid: "compare op a b \<noteq> Inl InvalidAccess"
  by (auto simp: compare_def split: Value.splits option.splits)

lemma integerResult_valid: "integerResult k op x y \<noteq> Inl InvalidAccess"
  by (cases k) (simp_all add: integerResult_def Let_def)

lemma mathOperation_valid: "mathOperation op a b \<noteq> Inl InvalidAccess"
  using integerResult_valid by (auto simp: mathOperation_def split: option.splits NumKind.splits)

lemma negate_valid: "negate a \<noteq> Inl InvalidAccess"
  by (cases a) (simp_all add: integerResult_valid)

lemma extractBool_valid: "extractBool a \<noteq> Inl InvalidAccess"
  by (cases a) simp_all

lemma comparisonOperation_valid: "comparisonOperation op a b \<noteq> Inl InvalidAccess"
  using compare_valid by (auto simp: comparisonOperation_def rbind_Inl_conv)

lemma logicalFun_valid: "logicalFun op a b \<noteq> Inl InvalidAccess"
  using extractBool_valid
  by (cases op) (auto simp: doAnd_def doOr_def rbind_Inl_conv split: if_splits)

lemma binaryFun_valid: "binaryFun op a b \<noteq> Inl InvalidAccess"
  by (cases op) (auto simp: mathOperation_valid comparisonOperation_valid divide_def)

lemma between_valid: "between v lo hi \<noteq> Inl InvalidAccess"
  using compare_valid by (auto simp: between_def rbind_Inl_conv split: if_splits)

lemma decides_valid: "decides w v \<noteq> Inl InvalidAccess"
  using extractBool_valid by (auto simp: decides_def rbind_Inl_conv)

lemma keeps_binaryOp:
  assumes "\<And>a b. f a b \<noteq> Inl InvalidAccess"
  shows "keeps (binaryOp f (b # junk @ a # junk' @ st)) st"
proof (cases junk)
  case Nil
  then show ?thesis using assms by (auto intro!: keeps_bind_value keeps_push)
next
  case (Cons c junk)
  then show ?thesis using assms by (auto intro!: keeps_bind_value keeps_push_Cons)
qed

lemma keeps_betweenOp: "keeps (betweenOp (c # junk @ b # junk' @ a # junk'' @ st)) st"
proof -
  obtain x y rest where three: "c # junk @ b # junk' @ a # junk'' = c # x # y # rest"
    by (cases junk; cases "tl junk"; cases junk') auto
  then have eq: "c # junk @ b # junk' @ a # junk'' @ st = c # x # y # rest @ st"
    by (metis append.assoc append_Cons)
  show ?thesis unfolding eq by (auto intro!: keeps_bind_value keeps_push between_valid)
qed

lemma keeps_evalElements:
  assumes "\<And>st. keeps (l st) st" "\<And>f st. f \<in> set fs \<Longrightarrow> keeps (f st) st"
  shows "fs \<noteq> [] \<or> (\<exists>v junk. st = v # junk @ st0) \<Longrightarrow> (\<exists>junk. st = junk @ st0) \<Longrightarrow>
     keeps (evalElements notIn l fs st) st0"
  using assms(2)
proof (induction fs arbitrary: st)
  case Nil
  then show ?case by (auto simp: keeps_Inr)
next
  case (Cons f fs)
  obtain junk0 where st: "st = junk0 @ st0" using Cons.prems(2) by blast
  have valid: "elementOp notIn a b \<noteq> Inl InvalidAccess" for a b
    by (simp add: elementOp_def comparisonOperation_valid)
  have "keeps (rbind (l st) (\<lambda>st. rbind (f st) (\<lambda>st. rbind (binaryOp (elementOp notIn) st) (\<lambda>st.
      rbind (jumps (\<not> notIn) st) (\<lambda>j. if j then Inr st else evalElements notIn l fs st))))) st0"
  proof (rule keeps_bind [OF assms(1)], rule keeps_bind [OF Cons.prems(3)], simp, goal_cases)
    case (1 a junk b junk')
    have tail: "keeps (rbind (jumps (\<not> notIn) (v # ys @ st0)) (\<lambda>j.
        if j then Inr (v # ys @ st0) else evalElements notIn l fs (v # ys @ st0))) st0" for v ys
      using Cons.IH [of "v # ys @ st0"] Cons.prems(3)
      by (auto intro!: keeps_bind_value decides_valid simp: keeps_Inr)
    have "keeps (binaryOp (elementOp notIn) (b # junk' @ a # (junk @ junk0) @ st0)) st0"
      by (rule keeps_binaryOp [OF valid])
    then have "keeps (rbind (binaryOp (elementOp notIn) (b # junk' @ a # (junk @ junk0) @ st0)) (\<lambda>st.
        rbind (jumps (\<not> notIn) st) (\<lambda>j. if j then Inr st else evalElements notIn l fs st))) st0"
      by (rule keeps_bind) (rule tail)
    then show ?case by (simp add: st)
  qed
  then show ?case by simp
qed

lemma evalStack_keeps: "wfExpr e \<Longrightarrow> keeps (evalStack \<rho> e st) st"
proof (induction e arbitrary: st)
  case (ELiteral t)
  then show ?case using keeps_push [of _ "[]"] by auto
next
  case (EUnary op e)
  have "keeps (unaryOp negate (v # junk @ st)) st" for v junk
    by (auto intro!: keeps_bind_value negate_valid keeps_push)
  then show ?case using EUnary by (auto intro!: keeps_bind [of "evalStack \<rho> e st" st])
next
  case (EBinary l op r)
  then show ?case
    by (auto intro!: keeps_bind [of "evalStack \<rho> l st" st] keeps_bind [of "evalStack \<rho> r _"]
        keeps_binaryOp binaryFun_valid)
next
  case (ELogical l op r)
  have "keeps (rbind (evalStack \<rho> r (a # junk @ st)) (binaryOp (logicalFun op))) st" for a junk
    using ELogical by (auto intro!: keeps_bind [of "evalStack \<rho> r _"] keeps_binaryOp logicalFun_valid)
  then have "keeps (rbind (decides (op = LogicalOr) a) (\<lambda>j. if j then Inr (a # junk @ st)
      else rbind (evalStack \<rho> r (a # junk @ st)) (binaryOp (logicalFun op)))) st" for a junk
    by (intro keeps_bind_value [OF decides_valid]) (simp add: keeps_Inr)
  then show ?case using ELogical by (auto intro!: keeps_bind [of "evalStack \<rho> l st" st])
next
  case (EVariable path name)
  then show ?case using keeps_push [of _ "[]"] by (auto simp: pushGetter_def split: getter.splits)
next
  case (EBetween e lo hi n)
  have "keeps (rbind (betweenOp (c # junk @ b # junk' @ a # junk'' @ st))
      (\<lambda>st. if n then unaryOp negate st else Inr st)) st" for a b c junk junk' junk''
    by (rule keeps_bind [OF keeps_betweenOp])
      (auto intro!: keeps_bind_value negate_valid keeps_push simp: keeps_Inr)
  then show ?case
    using EBetween
    by (auto intro!: keeps_bind [of "evalStack \<rho> e st" st] keeps_bind [of "evalStack \<rho> lo _"]
        keeps_bind [of "evalStack \<rho> hi _"])
next
  case (EIn e es n)
  have "keeps (f st) st" if "f \<in> set (map (evalStack \<rho>) es)" for f st
    using that EIn by auto
  then show ?case
    using EIn keeps_evalElements [of "evalStack \<rho> e" "map (evalStack \<rho>) es" st st n] by simp
qed simp_all

section \<open>Whole queries\<close>

definition outcomeOf :: "vm_exn + Value \<Rightarrow> vm_result" where
  "outcomeOf r =
     (case r of
        Inl e \<Rightarrow> if e = UndefinedBehavior \<or> e = InvalidAccess then Undefined else Err (WhatOf e)
      | Inr v \<Rightarrow> Ok v)"

lemma resultOf_yields: "yields r s [] n \<Longrightarrow> resultOf s = outcomeOf r"
  by (cases r) (auto simp: yields_Inr resultOf_def outcomeOf_def)

text \<open>The machine gives a query the value the language gives its condition.\<close>

lemma interpret_query:
  assumes "compileQuery q = Inr c" "query_condition q = Some e"
    "wfExpr e" "tidyOperands e" "stackNeed e \<le> stackMax"
  shows "interpret_chunk c (environmentFor \<rho> c) = outcomeOf (evalExpr \<rho> e)"
  using resultOf_yields [OF evalStack_yields] assms
  by (simp add: interpret_compiled [OF assms(1,2)])

text \<open>No query makes the machine read what it must not.\<close>

lemma run_valid:
  assumes "compileQuery q = Inr c" "query_condition q = Some e" "wfExpr e"
  shows "interpret_chunk c (environmentFor \<rho> c) = Undefined \<longleftrightarrow>
     evalStack \<rho> e [] = Inl UndefinedBehavior"
  using evalStack_keeps [OF assms(3), of \<rho> "[]"]
  by (cases "evalStack \<rho> e []")
    (auto simp: interpret_compiled [OF assms(1,2)] resultOf_def keeps_Inr split: list.splits)

section \<open>The meaning of IN\<close>

text \<open>
  When every comparison succeeds, \<^verbatim>\<open>IN\<close> is true exactly if one of the elements is equal, and \<^verbatim>\<open>NOT IN\<close>
  exactly if all are different.
\<close>

lemma evalSet_In:
  assumes "\<And>b. b \<in> set bs \<Longrightarrow> \<exists>t. compare CmpEq a b = Inr t"
  shows "evalSet False (Inr a) (map Inr bs) = Inr (Bool (\<exists>b \<in> set bs. compare CmpEq a b = Inr True))"
  using assms
proof (induction bs)
  case (Cons b bs)
  obtain t where "compare CmpEq a b = Inr t" using Cons.prems by force
  then show ?case
    using Cons by (cases t) (auto simp: elementOp_def comparisonOperation_def)
qed simp

lemma evalSet_NotIn:
  assumes "\<And>b. b \<in> set bs \<Longrightarrow> \<exists>t. compare CmpNe a b = Inr t"
  shows "evalSet True (Inr a) (map Inr bs) = Inr (Bool (\<forall>b \<in> set bs. compare CmpNe a b = Inr True))"
  using assms
proof (induction bs)
  case (Cons b bs)
  obtain t where "compare CmpNe a b = Inr t" using Cons.prems by force
  then show ?case
    using Cons by (cases t) (auto simp: elementOp_def comparisonOperation_def)
qed simp

section \<open>Queries from their text\<close>

lemma literalValue_plain: "plainValue v \<Longrightarrow> \<exists>x. literalValue lx v = Inr x"
  by (cases v) auto

lemma wfExpr_wellBuilt:
  assumes "\<And>t. t \<in> set ts \<Longrightarrow> plainValue (tokenValue t)"
  shows "wellBuilt ts e \<Longrightarrow> wfExpr e"
  by (induction e) (auto simp: literalValue_plain assms)

text \<open>The condition of a query that parses is well formed.\<close>

lemma parse_query_wf:
  assumes "CHR 0x00 \<notin> set query" "parse_query query = Inr q" "query_condition q = Some e"
  shows "wfExpr e"
proof -
  obtain ts where ts: "scanTokens query = Inr ts" "goodCondition ts (query_condition q)"
    using parse_query_outcome [OF assms(1)] assms(2) by auto
  then have "wellBuilt ts e" using assms(3) by (simp add: goodCondition_def)
  then show ?thesis
    using wfExpr_wellBuilt stl_scanner.literal_scanned [OF ts(1) assms(1)] by blast
qed

section \<open>Properties\<close>



text \<open>
  C4. Whatever the condition, the machine never reads outside its stack, its code, its constants or its
  environment: the run of a compiled query is undefined only if some arithmetic of the query is (a
  signed sum, product or negation out of range).
\<close>

theorem query_memory_safe:
  assumes "compileQuery q = Inr c" "query_condition q = Some e" "wfExpr e"
  shows "run c (environmentFor \<rho> c) 0 [] \<noteq> Inl InvalidAccess \<and>
     (interpret_chunk c (environmentFor \<rho> c) = Undefined \<longleftrightarrow>
      evalStack \<rho> e [] = Inl UndefinedBehavior)"
proof -
  have "run c (environmentFor \<rho> c) 0 [] = Inl InvalidAccess \<Longrightarrow> evalStack \<rho> e [] = Inl UndefinedBehavior"
    using run_valid [OF assms, of \<rho>] by (simp add: interpret_chunk_def)
  moreover have "evalStack \<rho> e [] = Inl UndefinedBehavior \<Longrightarrow>
      run c (environmentFor \<rho> c) 0 [] = Inl UndefinedBehavior"
    using run_compiled [OF assms(1,2), of \<rho>] by simp
  ultimately show ?thesis using run_valid [OF assms, of \<rho>] by auto
qed

definition guardedSet :: StlExpr where
  "guardedSet = ELogical (EVariable [] ''a'') LogicalAnd exampleSet"

definition guardedChunk :: Chunk where
  "guardedChunk = \<lparr>code = [17, 0, 16, 0, 17, 17, 1, 1, 0, 7, 15, 0, 8, 17, 1, 1, 1, 7, 15, 0, 0, 13, 0],
     constants = [I64 1, I64 2], variablesDef = [''a'', ''x'']\<rparr>"

lemma guardedSet_compiles: "compileQuery (whereQuery guardedSet) = Inr guardedChunk"
  by (simp add: compile_defs whereQuery_def guardedSet_def exampleSet_def integerLiteral_def
      guardedChunk_def)

theorem query_memory_safe_witness:
  "interpret_chunk guardedChunk (environmentFor exampleValues guardedChunk) \<noteq> Undefined"
proof -
  have "evalStack exampleValues guardedSet [] \<noteq> Inl UndefinedBehavior" by code_simp
  then show ?thesis
    using query_memory_safe [OF guardedSet_compiles, of guardedSet exampleValues]
    by (simp add: whereQuery_def guardedSet_def exampleSet_def integerLiteral_def)
qed

text \<open>
  Where a set of two elements is the right operand of \<^verbatim>\<open>AND\<close>, the machine and the language disagree:
  with \<^verbatim>\<open>a\<close> true and \<^verbatim>\<open>x\<close> equal to 2, \<^verbatim>\<open>a AND x IN (1, 2)\<close> is true and the machine answers false, because the
  comparison with 1 is still on the stack when the operator takes its operands.
\<close>

theorem set_as_right_operand:
  "compileQuery (whereQuery guardedSet) = Inr guardedChunk \<and>
   interpret_chunk guardedChunk (environmentFor exampleValues guardedChunk) = Ok (Bool False) \<and>
   evalExpr exampleValues guardedSet = Inr (Bool True)"
proof -
  have "interpret_chunk guardedChunk (environmentFor exampleValues guardedChunk) = Ok (Bool False)"
    by code_simp
  moreover have "evalExpr exampleValues guardedSet = Inr (Bool True)" by code_simp
  ultimately show ?thesis using guardedSet_compiles by blast
qed

text \<open>
  When the comparisons with the elements succeed, \<^verbatim>\<open>IN\<close> is true exactly if some element is equal and
  \<^verbatim>\<open>NOT IN\<close> exactly if every element is different.
\<close>

theorem set_membership:
  assumes "\<forall>b \<in> set bs. (\<exists>t. compare CmpEq a b = Inr t) \<and> (\<exists>t. compare CmpNe a b = Inr t)"
  shows "evalSet False (Inr a) (map Inr bs) = Inr (Bool (\<exists>b \<in> set bs. compare CmpEq a b = Inr True)) \<and>
     evalSet True (Inr a) (map Inr bs) = Inr (Bool (\<forall>b \<in> set bs. compare CmpNe a b = Inr True))"
  using evalSet_In [of bs a] evalSet_NotIn [of bs a] assms by blast

theorem set_membership_witness:
  "evalSet False (Inr (I32 2)) (map Inr [I64 1, I64 2]) = Inr (Bool True) \<and>
   evalSet True (Inr (I32 2)) (map Inr [I64 1, I64 2]) = Inr (Bool False)"
proof -
  have c: "compare CmpEq (I32 2) (I64 1) = Inr False" "compare CmpEq (I32 2) (I64 2) = Inr True"
      "compare CmpNe (I32 2) (I64 1) = Inr True" "compare CmpNe (I32 2) (I64 2) = Inr False"
    by code_simp+
  then have "\<forall>b \<in> set [I64 1, I64 2]. (\<exists>t. compare CmpEq (I32 2) b = Inr t) \<and>
      (\<exists>t. compare CmpNe (I32 2) b = Inr t)" by (simp add: ex_bool_eq)
  from set_membership [OF this] show ?thesis by (simp add: c del: evalSet.simps)
qed

text \<open>
  The condition of every query text that parses is one the machine is safe for: no empty
  alternative, no empty set, and literals of the types the machine has values for.
\<close>

theorem parsed_condition_wf:
  assumes "CHR 0x00 \<notin> set query"
  shows "case parse_query query of
       Inr q \<Rightarrow> (case query_condition q of Some e \<Rightarrow> wfExpr e | None \<Rightarrow> True)
     | Inl _ \<Rightarrow> True"
  using parse_query_wf [OF assms] by (auto split: sum.splits option.splits)

theorem parsed_condition_wf_witness:
  "case parse_query ''SELECT * FROM * WHERE a'' of
     Inr q \<Rightarrow> (case query_condition q of Some e \<Rightarrow> wfExpr e | None \<Rightarrow> True)
   | Inl _ \<Rightarrow> True"
  by (rule parsed_condition_wf) simp

end
