(* ===== verification/Interest.thy ===== *)
theory Interest
  imports Query_Semantics Meta_Registry
begin

text \<open>
  Interests (obj/interest.cpp): a query text with its compiled condition, the class and the bus it
  selects, and the per class table that says which property and which nested field each variable of
  the condition names.
\<close>

section \<open>Data\<close>

datatype TypeCondition = AnyClass | OfClass Type | OfClassNamed string

record BusSpec =
  sessionName :: string
  busName :: string

record VarInfo =
  varProperty :: "Type PropertySpec option"
  fieldIndexes :: "u16 list"

record Interest =
  queryString :: string
  interestId :: u32
  typeCondition :: TypeCondition
  busCondition :: "BusSpec option"
  queryCode :: Chunk
  varInfoLists :: "u32 \<rightharpoonup> VarInfo list option"

datatype interest_exn = QueryError "scan_exn + parse_exn" | NotAClass string | CompileError vm_exn

section \<open>Resolving a variable\<close>

text \<open>impl::split on dots.\<close>

fun splitDots :: "string \<Rightarrow> string list" where
  "splitDots cs =
     (let token = takeWhile (\<lambda>c. c \<noteq> CHR ''.'') cs
      in if length token < length cs then token # splitDots (drop (Suc (length token)) cs) else [token])"

declare splitDots.simps [simp del]

fun indexOf :: "('a \<Rightarrow> bool) \<Rightarrow> 'a list \<Rightarrow> nat option" where
  "indexOf P [] = None"
| "indexOf P (x # xs) = (if P x then Some 0 else map_option Suc (indexOf P xs))"

text \<open>
  The loop over the fields of a path.  The search of a struct field includes the parents, but the
  index is looked up among the own fields only: for an inherited field no index is recorded and the
  current type stays.
\<close>

fun resolvePath :: "Type \<Rightarrow> string list \<Rightarrow> string + u16 list" where
  "resolvePath ty [] = Inr []"
| "resolvePath ty (name # names) = (case ty of
     StructType a n fs p \<Rightarrow>
       (case getFieldFromName ty name of
          None \<Rightarrow> Inl (''structure '' @ quote @ getQualifiedName ty @ quote
                      @ '' does not have any field named '' @ quote @ name @ quote)
        | Some field \<Rightarrow>
            (case indexOf (\<lambda>f. field_name f = name) fs of
               Some i \<Rightarrow> rbind (resolvePath (field_type field) names) (\<lambda>is. Inr (of_nat i # is))
             | None \<Rightarrow> resolvePath ty names))
   | VariantType a n fs \<Rightarrow>
       (case indexOf (\<lambda>f. getName (variant_type f) = name) fs of
          Some i \<Rightarrow> rbind (resolvePath (variant_type (fs ! i)) names) (\<lambda>is. Inr (of_nat i # is))
        | None \<Rightarrow> Inl (''variant '' @ quote @ getQualifiedName ty @ quote
                      @ '' does not have any field with the type '' @ quote @ name @ quote))
   | _ \<Rightarrow> Inl (''type '' @ quote @ getName ty @ quote @ '' is not a structure or variant, and the field ''
               @ quote @ name @ quote @ '' cannot be addressed in query expression''))"

definition findFieldIndexes :: "Type \<Rightarrow> string \<Rightarrow> string + VarInfo" where
  "findFieldIndexes classType member =
    (let tokens = splitDots member
     in case searchPropertyByName (hd tokens) IncludeParents classType of
          None \<Rightarrow> Inl (''did not find any property named '' @ quote @ hd tokens @ quote
                      @ '' in query expression for class '' @ quote @ getQualifiedName classType @ quote)
        | Some p \<Rightarrow>
            rbind (resolvePath (prop_type p) (tl tokens)) (\<lambda>is.
              Inr \<lparr>varProperty = Some p, fieldIndexes = is\<rparr>))"

section \<open>Operations\<close>

definition extractQualifiedTypeName :: "TypeCondition \<Rightarrow> string" where
  "extractQualifiedTypeName c = (case c of
     OfClassNamed name \<Rightarrow> name | OfClass t \<Rightarrow> getQualifiedName t | AnyClass \<Rightarrow> [])"

definition typeConditionEq :: "TypeCondition \<Rightarrow> TypeCondition \<Rightarrow> bool" where
  "typeConditionEq l r = (extractQualifiedTypeName l = extractQualifiedTypeName r)"

text \<open>The type condition of a statement: the class of that name when the registry has it.\<close>

definition selectedType :: "Unit \<Rightarrow> Registry \<Rightarrow> string \<Rightarrow> StlTypeNameStatement option \<Rightarrow> interest_exn + TypeCondition" where
  "selectedType ns reg query s = (case s of
     None \<Rightarrow> Inr AnyClass
   | Some st \<Rightarrow>
       (case registryGet ns reg (typeName_qualifiedName st) of
          None \<Rightarrow> Inr (OfClassNamed (typeName_qualifiedName st))
        | Some t \<Rightarrow>
            if isClassType t then Inr (OfClass t)
            else Inl (NotAClass (''found a type named '' @ quote @ typeName_qualifiedName st @ quote
                        @ '' but it is not a class (query '' @ quote @ query @ quote @ '')''))))"

definition interestMake :: "Unit \<Rightarrow> Registry \<Rightarrow> string \<Rightarrow> interest_exn + Interest" where
  "interestMake ns reg query = (case parse_query query of
     Inl e \<Rightarrow> Inl (QueryError e)
   | Inr statement \<Rightarrow>
       rbind (selectedType ns reg query (query_type statement)) (\<lambda>ty.
         case compileQuery statement of
           Inl e \<Rightarrow> Inl (CompileError e)
         | Inr chunk \<Rightarrow>
             Inr \<lparr>queryString = query, interestId = crc32 query, typeCondition = ty,
                  busCondition =
                    (if lexeme (busName_session (query_bus statement)) = [] then None
                     else Some \<lparr>sessionName = lexeme (busName_session (query_bus statement)),
                                busName = lexeme (busName_bus (query_bus statement))\<rparr>),
                  queryCode = chunk, varInfoLists = Map.empty\<rparr>))"

definition interestEq :: "Interest \<Rightarrow> Interest \<Rightarrow> bool" where
  "interestEq l r = (queryString l = queryString r)"

definition builtinVariable :: "string \<Rightarrow> bool" where
  "builtinVariable v \<longleftrightarrow> v = ''name'' \<or> v = ''id''"

fun resolveVariables :: "Type \<Rightarrow> string list \<Rightarrow> string + VarInfo list" where
  "resolveVariables classType [] = Inr []"
| "resolveVariables classType (v # vs) =
     rbind (if builtinVariable v then Inr \<lparr>varProperty = None, fieldIndexes = []\<rparr>
            else findFieldIndexes classType v) (\<lambda>info.
     rbind (resolveVariables classType vs) (\<lambda>infos. Inr (info # infos)))"

definition computeVarInfoList :: "Chunk \<Rightarrow> Type \<Rightarrow> string + VarInfo list" where
  "computeVarInfoList chunk classType =
     (if \<not> isValid chunk then Inr [] else resolveVariables classType (variablesDef chunk))"

text \<open>
  The table is filled on first use, per hash of the class; a class the query does not resolve for is
  remembered too, with a message of its own.
\<close>

definition getOrComputeVarInfoList :: "Type \<Rightarrow> Interest \<Rightarrow> (string + VarInfo list) \<times> Interest" where
  "getOrComputeVarInfoList classType i = (case varInfoLists i (getHash classType) of
     Some None \<Rightarrow> (Inl (''the query does not resolve against class '' @ quote @ getQualifiedName classType @ quote), i)
   | Some (Some l) \<Rightarrow> (Inr l, i)
   | None \<Rightarrow>
       (case computeVarInfoList (queryCode i) classType of
          Inl e \<Rightarrow> (Inl e, i\<lparr>varInfoLists := (varInfoLists i)(getHash classType \<mapsto> None)\<rparr>)
        | Inr l \<Rightarrow> (Inr l, i\<lparr>varInfoLists := (varInfoLists i)(getHash classType \<mapsto> Some l)\<rparr>)))"

section \<open>Facts\<close>

lemma indexOf_Some: "indexOf P xs = Some i \<Longrightarrow> i < length xs \<and> P (xs ! i)"
proof (induction xs arbitrary: i)
  case (Cons x xs)
  then show ?case
    by (cases i) (auto split: if_splits)
qed simp

lemma indexOf_None: "indexOf P xs = None \<longleftrightarrow> find P xs = None"
  by (induction xs) auto

lemma indexOf_find: "indexOf P xs = Some i \<Longrightarrow> find P xs = Some (xs ! i)"
  by (induction xs arbitrary: i) (auto split: if_splits)

text \<open>Which fields a list of indexes names, from the type of the property on.\<close>

fun denotes :: "Type \<Rightarrow> string list \<Rightarrow> u16 list \<Rightarrow> bool" where
  "denotes t [] [] = True"
| "denotes t (n # ns) (i # is) = (case t of
     StructType a k fs p \<Rightarrow> unat i < length fs \<and> field_name (fs ! unat i) = n \<and> denotes (field_type (fs ! unat i)) ns is
   | VariantType a k fs \<Rightarrow> unat i < length fs \<and> getName (variant_type (fs ! unat i)) = n
                            \<and> denotes (variant_type (fs ! unat i)) ns is
   | _ \<Rightarrow> False)"
| "denotes t _ _ = False"

text \<open>No struct with a parent, and no more fields than an index of 16 bits counts.\<close>

definition flatType :: "Type \<Rightarrow> bool" where
  "flatType t \<longleftrightarrow> (\<forall>x \<in> mentions t. case x of
     StructType a n fs p \<Rightarrow> p = None \<and> length fs \<le> 65536
   | VariantType a n fs \<Rightarrow> length fs \<le> 65536
   | _ \<Rightarrow> True)"

lemma flatType_sub: "flatType t \<Longrightarrow> mentions x \<subseteq> mentions t \<Longrightarrow> flatType x"
  by (auto simp: flatType_def)

lemma flat_struct:
  assumes "flatType (StructType a n fs p)"
  shows "p = None" "length fs \<le> 65536" "f \<in> set fs \<Longrightarrow> flatType (field_type f)"
proof -
  show "p = None" "length fs \<le> 65536"
    using assms by (auto simp: flatType_def)
  show "flatType (field_type f)" if "f \<in> set fs"
    using that by (intro flatType_sub [OF assms]) (force simp: StructField.map_sel)
qed

lemma flat_variant:
  assumes "flatType (VariantType a n fs)"
  shows "length fs \<le> 65536" "f \<in> set fs \<Longrightarrow> flatType (variant_type f)"
proof -
  show "length fs \<le> 65536"
    using assms by (auto simp: flatType_def)
  show "flatType (variant_type f)" if "f \<in> set fs"
    using that by (intro flatType_sub [OF assms]) (force simp: VariantField.map_sel)
qed

lemma small_index: "i < n \<Longrightarrow> n \<le> 65536 \<Longrightarrow> unat (of_nat i :: u16) = i"
  by (simp add: unsigned_of_nat take_bit_nat_eq_self)

lemma resolvePath_denotes:
  "flatType t \<Longrightarrow> resolvePath t ns = Inr is \<Longrightarrow> denotes t ns is"
proof (induction t ns arbitrary: "is" rule: resolvePath.induct)
  case (2 t name names)
  show ?case
  proof (cases t)
    case (StructType a k fs p)
    have flat: "p = None" "length fs \<le> 65536" "\<And>f. f \<in> set fs \<Longrightarrow> flatType (field_type f)"
      using flat_struct "2.prems"(1) StructType by blast+
    obtain field where field: "getFieldFromName t name = Some field"
      using "2.prems"(2) StructType by (cases "getFieldFromName t name") auto
    then have found: "find (\<lambda>f. field_name f = name) fs = Some field"
      using flat(1) StructType
      by (auto simp: getFieldFromName_def structChain_struct parentChain_def split: if_splits option.splits)
    then obtain i where i: "indexOf (\<lambda>f. field_name f = name) fs = Some i" "field = fs ! i"
      using indexOf_None indexOf_find by (metis (mono_tags, lifting) option.exhaust option.inject option.simps(3))
    then obtain js where js: "resolvePath (field_type (fs ! i)) names = Inr js" "is = of_nat i # js"
      using "2.prems"(2) StructType field by (auto simp: rbind_Inr_conv)
    have "denotes (field_type (fs ! i)) names js"
      using "2.IH"(3) [OF StructType field i(1)] js(1) flat(3) indexOf_Some [OF i(1)] i(2) by simp
    then show ?thesis
      using StructType js(2) indexOf_Some [OF i(1)] small_index [OF _ flat(2)] by simp
  next
    case (VariantType a k fs)
    have flat: "length fs \<le> 65536" "\<And>f. f \<in> set fs \<Longrightarrow> flatType (variant_type f)"
      using flat_variant "2.prems"(1) VariantType by blast+
    obtain i where i: "indexOf (\<lambda>f. getName (variant_type f) = name) fs = Some i"
      using "2.prems"(2) VariantType by (cases "indexOf (\<lambda>f. getName (variant_type f) = name) fs") auto
    then obtain js where js: "resolvePath (variant_type (fs ! i)) names = Inr js" "is = of_nat i # js"
      using "2.prems"(2) VariantType by (auto simp: rbind_Inr_conv)
    have "denotes (variant_type (fs ! i)) names js"
      using "2.IH"(1) [OF VariantType i] js(1) flat(2) indexOf_Some [OF i] by simp
    then show ?thesis
      using VariantType js(2) indexOf_Some [OF i] small_index [OF _ flat(1)] by simp
  qed (use "2.prems" in auto)
qed simp

lemma compiled_valid: "compileQuery q = Inr c \<Longrightarrow> isValid c \<longleftrightarrow> query_condition q \<noteq> None"
  by (auto simp: compileQuery_def isValid_def emptyChunk_def emitByte_def addCode_def rbind_Inr_conv split: option.splits)

text \<open>The table of an interest agrees with a fresh resolution for the classes of \<open>K\<close>.\<close>

definition cacheCoherent :: "Type set \<Rightarrow> Interest \<Rightarrow> bool" where
  "cacheCoherent K i \<longleftrightarrow> (\<forall>c \<in> K. case varInfoLists i (getHash c) of
     None \<Rightarrow> True
   | Some None \<Rightarrow> (\<exists>e. computeVarInfoList (queryCode i) c = Inl e)
   | Some (Some l) \<Rightarrow> computeVarInfoList (queryCode i) c = Inr l)"

lemma interestMake_table:
  assumes "interestMake ns reg q = Inr i"
  shows "varInfoLists i = Map.empty"
proof -
  obtain st where st: "parse_query q = Inr st"
    using assms by (cases "parse_query q") (auto simp: interestMake_def)
  then show ?thesis
    using assms by (cases "compileQuery st") (auto simp: interestMake_def rbind_Inr_conv)
qed

lemma fresh_coherent: "varInfoLists i = Map.empty \<Longrightarrow> cacheCoherent K i"
  by (simp add: cacheCoherent_def)

lemma selectedType_fails:
  assumes "selectedType ns reg q s = Inl x"
  obtains m n t where "x = NotAClass m" "registryGet ns reg n = Some t" "\<not> isClassType t"
  using assms unfolding selectedType_def by (cases s) (auto split: option.splits if_splits)

lemma cache_step:
  assumes "cacheCoherent K i" "inj_on getHash K" "c \<in> K"
  shows "case fst (getOrComputeVarInfoList c i) of
           Inr l \<Rightarrow> computeVarInfoList (queryCode i) c = Inr l
         | Inl _ \<Rightarrow> \<exists>e. computeVarInfoList (queryCode i) c = Inl e"
    and "cacheCoherent K (snd (getOrComputeVarInfoList c i))"
    and "queryCode (snd (getOrComputeVarInfoList c i)) = queryCode i"
proof -
  have entry: "case varInfoLists i (getHash c) of
     None \<Rightarrow> True
   | Some None \<Rightarrow> (\<exists>e. computeVarInfoList (queryCode i) c = Inl e)
   | Some (Some l) \<Rightarrow> computeVarInfoList (queryCode i) c = Inr l"
    using assms(1,3) by (simp add: cacheCoherent_def)
  then show "case fst (getOrComputeVarInfoList c i) of
           Inr l \<Rightarrow> computeVarInfoList (queryCode i) c = Inr l
         | Inl _ \<Rightarrow> \<exists>e. computeVarInfoList (queryCode i) c = Inl e"
    by (auto simp: getOrComputeVarInfoList_def split: option.splits sum.splits)
  show code: "queryCode (snd (getOrComputeVarInfoList c i)) = queryCode i"
    by (auto simp: getOrComputeVarInfoList_def split: option.splits sum.splits)
  have "getHash d = getHash c \<longleftrightarrow> d = c" if "d \<in> K" for d
    using that assms(2,3) by (auto dest: inj_onD)
  then show "cacheCoherent K (snd (getOrComputeVarInfoList c i))"
    using assms(1) unfolding cacheCoherent_def code
    by (auto simp: getOrComputeVarInfoList_def split: option.splits sum.splits)
qed

fun resolveAll :: "Type list \<Rightarrow> Interest \<Rightarrow> Interest" where
  "resolveAll [] i = i"
| "resolveAll (c # cs) i = resolveAll cs (snd (getOrComputeVarInfoList c i))"

lemma resolveAll_coherent:
  "cacheCoherent K i \<Longrightarrow> inj_on getHash K \<Longrightarrow> set cs \<subseteq> K \<Longrightarrow>
   cacheCoherent K (resolveAll cs i) \<and> queryCode (resolveAll cs i) = queryCode i"
  by (induction cs arbitrary: i) (auto simp: cache_step)

section \<open>Properties\<close>

text \<open>
  Making an interest from a text either gives an interest whose code is the compiled condition
  of the parsed statement, with the checksum of the text as its identifier and code exactly when there
  is a condition, and whose condition is one the machine is safe for; or it fails with an error of the
  scanner or the parser, with a selected type that is registered and is not a class, or with one of
  the limits of the byte code.
\<close>

theorem interest_make_outcome:
  assumes "CHR 0x00 \<notin> set query"
  shows "case interestMake ns reg query of
      Inr i \<Rightarrow> (\<exists>st. parse_query query = Inr st \<and> compileQuery st = Inr (queryCode i)
                 \<and> interestId i = crc32 query
                 \<and> (isValid (queryCode i) \<longleftrightarrow> query_condition st \<noteq> None)
                 \<and> (\<forall>e. query_condition st = Some e \<longrightarrow> wfExpr e))
    | Inl (QueryError e) \<Rightarrow> (\<exists>x. e = Inl x \<and> lexicalError x) \<or> (\<exists>m. e = Inr (ParseError m))
    | Inl (NotAClass m) \<Rightarrow> (\<exists>n t. registryGet ns reg n = Some t \<and> \<not> isClassType t)
    | Inl (CompileError e) \<Rightarrow> compileFails e"
proof (cases "parse_query query")
  case (Inl e)
  then show ?thesis
    using parse_query_outcome [OF assms] by (auto simp: interestMake_def)
next
  case (Inr st)
  have wf: "\<forall>e. query_condition st = Some e \<longrightarrow> wfExpr e"
    using parse_query_wf [OF assms] Inr by auto
  show ?thesis
  proof (cases "selectedType ns reg query (query_type st)")
    case (Inl x)
    obtain m n t where "x = NotAClass m" "registryGet ns reg n = Some t" "\<not> isClassType t"
      using Inl by (rule selectedType_fails)
    then show ?thesis
      using Inl Inr by (auto simp: interestMake_def)
  next
    case ty: (Inr ty)
    show ?thesis
    proof (cases "compileQuery st")
      case (Inl x)
      then have "compileFails x"
        using failsWellD [OF compileExpr_fails] by (auto simp: compileQuery_def rbind_Inl_conv split: option.splits)
      then show ?thesis
        using Inl Inr ty by (simp add: interestMake_def)
    next
      case (Inr c)
      then show ?thesis
        using \<open>parse_query query = Inr st\<close> ty wf compiled_valid [OF Inr] by (simp add: interestMake_def)
    qed
  qed
qed

theorem interest_make_outcome_witness:
  "case interestMake exampleNs emptyRegistry ''ab'' of
      Inr i \<Rightarrow> (\<exists>st. parse_query ''ab'' = Inr st \<and> compileQuery st = Inr (queryCode i)
                 \<and> interestId i = crc32 ''ab''
                 \<and> (isValid (queryCode i) \<longleftrightarrow> query_condition st \<noteq> None)
                 \<and> (\<forall>e. query_condition st = Some e \<longrightarrow> wfExpr e))
    | Inl (QueryError e) \<Rightarrow> (\<exists>x. e = Inl x \<and> lexicalError x) \<or> (\<exists>m. e = Inr (ParseError m))
    | Inl (NotAClass m) \<Rightarrow> (\<exists>n t. registryGet exampleNs emptyRegistry n = Some t \<and> \<not> isClassType t)
    | Inl (CompileError e) \<Rightarrow> compileFails e"
  by (rule interest_make_outcome) simp

text \<open>
  The table of resolved variables is transparent: an interest is made with an empty table, and
  from there, after any sequence of requests for classes whose
  hashes differ, a request gives what a fresh resolution of the query against the class gives, and it
  fails exactly when that fails.
\<close>

theorem var_info_cache_transparent:
  assumes "varInfoLists i = Map.empty" "inj_on getHash (set cs)" "c \<in> set cs"
  shows "(interestMake ns reg q = Inr j \<longrightarrow> varInfoLists j = Map.empty)
    \<and> (\<forall>l. fst (getOrComputeVarInfoList c (resolveAll cs i)) = Inr l \<longleftrightarrow> computeVarInfoList (queryCode i) c = Inr l)
    \<and> ((\<exists>e. fst (getOrComputeVarInfoList c (resolveAll cs i)) = Inl e) \<longleftrightarrow> (\<exists>e. computeVarInfoList (queryCode i) c = Inl e))"
proof -
  have "cacheCoherent (set cs) (resolveAll cs i)" and code: "queryCode (resolveAll cs i) = queryCode i"
    using resolveAll_coherent [OF fresh_coherent [OF assms(1)] assms(2)] by auto
  then show ?thesis
    using cache_step(1) [OF _ assms(2,3)] interestMake_table
    by (cases "fst (getOrComputeVarInfoList c (resolveAll cs i))") (fastforce simp: code)+
qed

definition exampleInterest :: Interest where
  "exampleInterest = \<lparr>queryString = [], interestId = 0, typeCondition = AnyClass, busCondition = None,
     queryCode = \<lparr>code = [opByte opFetchVariable, 0, opByte opReturn], constants = [], variablesDef = [''power'']\<rparr>,
     varInfoLists = Map.empty\<rparr>"

theorem var_info_cache_transparent_witness:
  "\<exists>l. fst (getOrComputeVarInfoList exampleSubclass (resolveAll [exampleSubclass] exampleInterest)) = Inr l
     \<and> map (map_option prop_name \<circ> varProperty) l = [Some ''power'']"
proof -
  have "\<exists>l. computeVarInfoList (queryCode exampleInterest) exampleSubclass = Inr l
      \<and> map (map_option prop_name \<circ> varProperty) l = [Some ''power'']"
    by (simp add: computeVarInfoList_def exampleInterest_def isValid_def builtinVariable_def findFieldIndexes_def
        splitDots.simps searchPropertyByName_def withMode_def exampleSubclass_def exampleSpec_def)
  moreover have "varInfoLists exampleInterest = Map.empty"
    by (simp add: exampleInterest_def)
  ultimately show ?thesis
    using var_info_cache_transparent [of exampleInterest "[exampleSubclass]" exampleSubclass] by simp
qed

text \<open>
  The path of a variable is resolved to indexes that name its fields one by one, provided that
  no struct on the way has a parent.  For an inherited field the resolution succeeds without an index
  for it, so that the variable reads the whole struct instead of the field.
\<close>

theorem variable_path_resolution:
  "(flatType t \<and> resolvePath t ns = Inr is \<longrightarrow> denotes t ns is)
   \<and> (getFieldFromName exampleDerived ''id'' \<noteq> None \<and> resolvePath exampleDerived [''id''] = Inr []
      \<and> \<not> denotes exampleDerived [''id''] [])"
  using resolvePath_denotes
  by (auto simp: getFieldFromName_def exampleDerived_def exampleBase_def)

definition examplePosition :: Type where
  "examplePosition = StructType 4 (TypeNames ''Pos'' ''p.Pos'' [])
     [StructField ''lat'' [] (NativeType Float64Type),
      StructField ''alt'' [] (AliasType 5 (TypeNames ''Alt'' ''p.Alt'' []) (NativeType Float32Type))] None"

theorem variable_path_resolution_witness:
  "flatType examplePosition \<and> resolvePath examplePosition [''alt''] = Inr [1] \<and> denotes examplePosition [''alt''] [1]"
proof -
  have "flatType examplePosition" "resolvePath examplePosition [''alt''] = Inr [1]"
    by (simp_all add: flatType_def examplePosition_def getFieldFromName_def)
  then show ?thesis
    using variable_path_resolution [of examplePosition "[''alt'']" "[1]"] by blast
qed

end
