(* ===== verification/Filtered_Provider.thy ===== *)
theory Filtered_Provider
  imports Interest
begin

text \<open>
  The provider of the objects that match one interest (FilteredProvider in obj/object_filter.cpp) on
  top of the list of listeners of ObjectProvider (obj/object_provider.cpp): which objects it tracks,
  how it decides that an object matches, and what it tells its listeners.

  Properties of objects change between the calls; a state of the objects is a value of the type
  \<open>'w\<close>, and each operation that reads objects takes the current one.  The generated accessors of an
  object (senImplGetFieldValueGetter) are part of the object.  Callbacks of listeners are recorded in
  a log; a listener that calls back into the provider is not modelled.
\<close>

section \<open>Listeners\<close>

text \<open>
  The concurrent set of listeners is a library container: its operations are a parameter, with the
  set laws below as the only thing the code relies on.  \<open>emplace\<close> and \<open>erase\<close> return whether they
  changed the set, \<open>items\<close> is the order of an iteration.
\<close>

record ('l, 's) ListenerSet =
  noListeners :: 's
  emplace :: "'l \<Rightarrow> 's \<Rightarrow> bool \<times> 's"
  erase :: "'l \<Rightarrow> 's \<Rightarrow> bool \<times> 's"
  items :: "'s \<Rightarrow> 'l list"

definition listenerSetLaws :: "('l, 's) ListenerSet \<Rightarrow> ('s \<Rightarrow> bool) \<Rightarrow> bool" where
  "listenerSetLaws S good \<longleftrightarrow>
    good (noListeners S) \<and> items S (noListeners S) = []
    \<and> (\<forall>s l. good s \<longrightarrow>
       distinct (items S s)
       \<and> good (snd (emplace S l s)) \<and> (fst (emplace S l s) \<longleftrightarrow> l \<notin> set (items S s))
       \<and> set (items S (snd (emplace S l s))) = insert l (set (items S s))
       \<and> good (snd (erase S l s)) \<and> (fst (erase S l s) \<longleftrightarrow> l \<in> set (items S s))
       \<and> set (items S (snd (erase S l s))) = set (items S s) - {l})"

section \<open>State\<close>

record 'w Object =
  objectId :: u32
  objectName :: string
  isNative :: bool
  objectClass :: Type
  isAlive :: "'w \<Rightarrow> bool"
  fieldValueGetter :: "u32 \<Rightarrow> u16 list \<Rightarrow> (('w \<Rightarrow> getter) \<times> ('w \<Rightarrow> bool) option) option"

text \<open>
  \<open>fieldValueGetter\<close> is given the id of a property and the indexes of a nested field; it gives no
  result when it throws, and otherwise the reader of the value and, for properties that have them, the
  flag that tells whether the property changed in the last cycle.
\<close>

record 'w TrackedObject =
  trackedInstance :: "'w Object"
  environment :: "('w \<Rightarrow> getter) list"
  dependantProps :: "('w \<Rightarrow> bool) list"
  notified :: bool
  alreadyEvaluatedOnce :: bool

record 'w ObjectAddition =
  addedInstance :: "'w Object"
  addedId :: u32
  addedInterest :: u32
  addedOwner :: u32

record ObjectRemoval =
  removedInterest :: u32
  removedId :: u32
  removedOwner :: u32

datatype 'w Notification = Added "'w ObjectAddition list" | Removed "ObjectRemoval list"

record ('l, 's, 'w) FilteredProvider =
  ownerId :: u32
  interest :: Interest
  providerName :: string
  currentAdditions :: "(u32 \<times> 'w ObjectAddition) list"
  trackedObjects :: "(u32 \<times> 'w TrackedObject) list"
  listeners :: 's
  linked :: "'l set"
  told :: "('l \<times> 'w Notification) list"

text \<open>
  \<open>linked\<close> is the part of the listeners' own lists that concerns this provider: the listeners whose list
  (ObjectProviderListener::providers_) has the provider.
\<close>

definition makeRemoval :: "'w ObjectAddition \<Rightarrow> ObjectRemoval" where
  "makeRemoval a = \<lparr>removedInterest = addedInterest a, removedId = addedId a, removedOwner = addedOwner a\<rparr>"

section \<open>Notifications\<close>

definition notifyObjectsAdded ::
  "('l, 's) ListenerSet \<Rightarrow> 'w ObjectAddition list \<Rightarrow> ('l, 's, 'w) FilteredProvider \<Rightarrow> ('l, 's, 'w) FilteredProvider" where
  "notifyObjectsAdded S additions p = p\<lparr>told := told p @ map (\<lambda>l. (l, Added additions)) (items S (listeners p))\<rparr>"

definition notifyObjectsRemoved ::
  "('l, 's) ListenerSet \<Rightarrow> ObjectRemoval list \<Rightarrow> ('l, 's, 'w) FilteredProvider \<Rightarrow> ('l, 's, 'w) FilteredProvider" where
  "notifyObjectsRemoved S removals p = p\<lparr>told := told p @ map (\<lambda>l. (l, Removed removals)) (items S (listeners p))\<rparr>"

definition notifyAddedOnExistingObjects ::
  "'l \<Rightarrow> ('l, 's, 'w) FilteredProvider \<Rightarrow> ('l, 's, 'w) FilteredProvider" where
  "notifyAddedOnExistingObjects l p =
     (if currentAdditions p = [] then p
      else p\<lparr>told := told p @ [(l, Added (map snd (currentAdditions p)))]\<rparr>)"

definition notifyRemovedOnExistingObjects ::
  "'l \<Rightarrow> ('l, 's, 'w) FilteredProvider \<Rightarrow> ('l, 's, 'w) FilteredProvider" where
  "notifyRemovedOnExistingObjects l p =
     (if currentAdditions p = [] then p
      else p\<lparr>told := told p @ [(l, Removed (map (makeRemoval \<circ> snd) (currentAdditions p)))]\<rparr>)"

definition notifyRemovedOnExistingObjectsForAllListeners ::
  "('l, 's) ListenerSet \<Rightarrow> ('l, 's, 'w) FilteredProvider \<Rightarrow> ('l, 's, 'w) FilteredProvider" where
  "notifyRemovedOnExistingObjectsForAllListeners S p =
     fold notifyRemovedOnExistingObjects (items S (listeners p)) p"

definition addListener ::
  "('l, 's) ListenerSet \<Rightarrow> 'l \<Rightarrow> bool \<Rightarrow> ('l, 's, 'w) FilteredProvider \<Rightarrow> ('l, 's, 'w) FilteredProvider" where
  "addListener S l notifyAboutExistingObjects p =
    (let (inserted, s) = emplace S l (listeners p);
         p1 = p\<lparr>listeners := s, linked := (if inserted then insert l (linked p) else linked p)\<rparr>
     in if inserted \<and> notifyAboutExistingObjects then notifyAddedOnExistingObjects l p1 else p1)"

definition removeListener ::
  "('l, 's) ListenerSet \<Rightarrow> 'l \<Rightarrow> bool \<Rightarrow> ('l, 's, 'w) FilteredProvider \<Rightarrow> ('l, 's, 'w) FilteredProvider" where
  "removeListener S l notifyAboutExistingObjects p =
    (let (erased, s) = erase S l (listeners p);
         p1 = p\<lparr>listeners := s, linked := (if erased then linked p - {l} else linked p)\<rparr>
     in if erased \<and> notifyAboutExistingObjects then notifyRemovedOnExistingObjects l p1 else p1)"

definition replaceListener ::
  "('l, 's) ListenerSet \<Rightarrow> 'l \<Rightarrow> 'l \<Rightarrow> ('l, 's, 'w) FilteredProvider \<Rightarrow> ('l, 's, 'w) FilteredProvider" where
  "replaceListener S oldListener newListener p =
    (let (erased, s) = erase S oldListener (listeners p)
     in if erased then p\<lparr>listeners := snd (emplace S newListener s)\<rparr> else p\<lparr>listeners := s\<rparr>)"

definition listenerDeleted ::
  "('l, 's) ListenerSet \<Rightarrow> 'l \<Rightarrow> ('l, 's, 'w) FilteredProvider \<Rightarrow> ('l, 's, 'w) FilteredProvider" where
  "listenerDeleted S l p = p\<lparr>listeners := snd (erase S l (listeners p))\<rparr>"

text \<open>
  The end of a listener, which tells the providers it is linked to, and the move of a listener to another
  address, which takes the links along.  The destructor of a provider takes back what it told and the links
  to it.
\<close>

definition destroyListener ::
  "('l, 's) ListenerSet \<Rightarrow> 'l \<Rightarrow> ('l, 's, 'w) FilteredProvider \<Rightarrow> ('l, 's, 'w) FilteredProvider" where
  "destroyListener S l p = (if l \<in> linked p then (listenerDeleted S l p)\<lparr>linked := linked p - {l}\<rparr> else p)"

definition moveListener :: "'l \<Rightarrow> 'l \<Rightarrow> ('l, 's, 'w) FilteredProvider \<Rightarrow> ('l, 's, 'w) FilteredProvider" where
  "moveListener oldListener newListener p =
     p\<lparr>linked := (linked p - {oldListener, newListener}) \<union> (if oldListener \<in> linked p then {newListener} else {})\<rparr>"

definition destroyProvider ::
  "('l, 's) ListenerSet \<Rightarrow> ('l, 's, 'w) FilteredProvider \<Rightarrow> ('l, 's, 'w) FilteredProvider" where
  "destroyProvider S p =
    (let p1 = notifyRemovedOnExistingObjectsForAllListeners S p
     in p1\<lparr>linked := linked p1 - set (items S (listeners p1))\<rparr>)"

definition hasListeners :: "('l, 's) ListenerSet \<Rightarrow> ('l, 's, 'w) FilteredProvider \<Rightarrow> bool" where
  "hasListeners S p \<longleftrightarrow> items S (listeners p) \<noteq> []"

definition hasListener :: "('l, 's) ListenerSet \<Rightarrow> 'l \<Rightarrow> ('l, 's, 'w) FilteredProvider \<Rightarrow> bool" where
  "hasListener S l p \<longleftrightarrow> l \<in> set (items S (listeners p))"

section \<open>Tracking objects\<close>

definition checkTypeCondition :: "TypeCondition \<Rightarrow> Type \<Rightarrow> bool" where
  "checkTypeCondition condition cls = (case condition of
     AnyClass \<Rightarrow> True
   | OfClass t \<Rightarrow> isSameOrInheritsFrom cls t
   | OfClassNamed name \<Rightarrow> isSameOrInheritsFromName cls name)"

text \<open>A variable the class cannot supply reads as a value that compares false.\<close>

definition missing :: "'w \<Rightarrow> getter" where
  "missing w = Returns VariantAccessError"

text \<open>
  The reader of one variable, and its change flag.  The variables \<open>name\<close> and \<open>id\<close> are built in; the
  entries of the table for the others have a property, so the case without one does not occur.
\<close>

definition variableReader ::
  "'w Object \<Rightarrow> (string + VarInfo list) \<Rightarrow> string \<Rightarrow> nat \<Rightarrow> ('w \<Rightarrow> getter) \<times> ('w \<Rightarrow> bool) option" where
  "variableReader obj infos var index =
     (if var = ''name'' then (\<lambda>w. Returns (Str (objectName obj)), None)
      else if var = ''id'' then (\<lambda>w. Returns (U32 (objectId obj)), None)
      else case infos of
        Inl _ \<Rightarrow> (missing, None)
      | Inr l \<Rightarrow>
          (case varProperty (l ! index) of
             None \<Rightarrow> (missing, None)
           | Some prop \<Rightarrow>
               (case fieldValueGetter obj (propertyId prop) (fieldIndexes (l ! index)) of
                  None \<Rightarrow> (missing, None)
                | Some reader \<Rightarrow> reader)))"

definition createTrackedObject :: "'w Object \<Rightarrow> Interest \<Rightarrow> 'w TrackedObject \<times> Interest" where
  "createTrackedObject obj i =
    (let blank = \<lparr>trackedInstance = obj, environment = [], dependantProps = [], notified = False,
                  alreadyEvaluatedOnce = False\<rparr>;
         vars = variablesDef (queryCode i)
     in if \<not> isValid (queryCode i) \<or> vars = [] then (blank, i)
        else
          let (infos, i') = getOrComputeVarInfoList (objectClass obj) i;
              readers = map (\<lambda>k. variableReader obj infos (vars ! k) k) [0..<length vars]
          in (blank\<lparr>environment := map fst readers, dependantProps := List.map_filter snd readers\<rparr>, i'))"

fun startTracking ::
  "(u32 \<times> 'w Object) list \<Rightarrow> ('l, 's, 'w) FilteredProvider \<Rightarrow> ('l, 's, 'w) FilteredProvider" where
  "startTracking [] p = p"
| "startTracking ((k, obj) # objs) p =
     (if \<not> isNative obj \<or> k \<in> fst ` set (trackedObjects p)
         \<or> \<not> checkTypeCondition (typeCondition (interest p)) (objectClass obj)
      then startTracking objs p
      else
        let (t, i) = createTrackedObject obj (interest p)
        in startTracking objs (p\<lparr>interest := i, trackedObjects := trackedObjects p @ [(k, t)]\<rparr>))"

text \<open>The removals of a pass, and the provider without the objects of the pass.\<close>

definition dropKey :: "'k \<Rightarrow> ('k \<times> 'v) list \<Rightarrow> ('k \<times> 'v) list" where
  "dropKey k xs = filter (\<lambda>(j, _). j \<noteq> k) xs"

fun stopTracking ::
  "u32 list \<Rightarrow> ('l, 's, 'w) FilteredProvider \<Rightarrow> ObjectRemoval list \<times> ('l, 's, 'w) FilteredProvider" where
  "stopTracking [] p = ([], p)"
| "stopTracking (k # ks) p = (case map_of (trackedObjects p) k of
     None \<Rightarrow> stopTracking ks p
   | Some t \<Rightarrow>
       let found = (if notified t then map_of (currentAdditions p) k else None);
           p1 = p\<lparr>trackedObjects := dropKey k (trackedObjects p),
                  currentAdditions := (if found = None then currentAdditions p else dropKey k (currentAdditions p))\<rparr>;
           (removals, p2) = stopTracking ks p1
       in (case found of Some a \<Rightarrow> makeRemoval a # removals | None \<Rightarrow> removals, p2))"

definition stopTrackingAndNotify ::
  "('l, 's) ListenerSet \<Rightarrow> u32 list \<Rightarrow> ('l, 's, 'w) FilteredProvider \<Rightarrow> ('l, 's, 'w) FilteredProvider" where
  "stopTrackingAndNotify S ids p =
    (let (removals, p1) = stopTracking ids p
     in if removals = [] then p1 else notifyObjectsRemoved S removals p1)"

section \<open>Evaluating objects\<close>

definition needsReEvaluation :: "'w \<Rightarrow> 'w TrackedObject \<Rightarrow> bool" where
  "needsReEvaluation w t \<longleftrightarrow> (\<exists>flag \<in> set (dependantProps t). flag w)"

text \<open>
  Whether the result of the machine counts as a match.  A query whose arithmetic overflows is
  undefined, and any answer is possible: \<open>ub\<close> says which one is given (below, for
  each object).
\<close>

definition matches :: "bool \<Rightarrow> Chunk \<Rightarrow> 'w \<Rightarrow> 'w TrackedObject \<Rightarrow> bool" where
  "matches ub c w t = (case interpret_chunk c (map (\<lambda>read. read w) (environment t)) of
     Ok (Bool b) \<Rightarrow> b
   | Ok _ \<Rightarrow> False
   | Err _ \<Rightarrow> False
   | Undefined \<Rightarrow> ub)"

definition shouldBePresent :: "bool \<Rightarrow> Chunk \<Rightarrow> 'w \<Rightarrow> 'w TrackedObject \<Rightarrow> bool \<times> 'w TrackedObject" where
  "shouldBePresent ub c w t =
     (if \<not> isValid c then (True, t)
      else if \<not> alreadyEvaluatedOnce t \<or> needsReEvaluation w t
      then (matches ub c w t, t\<lparr>alreadyEvaluatedOnce := True\<rparr>)
      else (notified t, t))"

record 'w Evaluation =
  keptObjects :: "(u32 \<times> 'w TrackedObject) list"
  presentObjects :: "(u32 \<times> 'w ObjectAddition) list"
  newAdditions :: "'w ObjectAddition list"
  newRemovals :: "ObjectRemoval list"

definition additionOf :: "('l, 's, 'w) FilteredProvider \<Rightarrow> u32 \<Rightarrow> 'w TrackedObject \<Rightarrow> 'w ObjectAddition" where
  "additionOf p k t = \<lparr>addedInstance = trackedInstance t, addedId = k, addedInterest = interestId (interest p),
     addedOwner = ownerId p\<rparr>"

definition removalOf :: "('l, 's, 'w) FilteredProvider \<Rightarrow> u32 \<Rightarrow> ObjectRemoval" where
  "removalOf p k = \<lparr>removedInterest = interestId (interest p), removedId = k, removedOwner = ownerId p\<rparr>"

text \<open>The loop over the tracked objects; destroyed ones are dropped after the loop.\<close>

fun evaluateEach ::
  "(u32 \<Rightarrow> bool) \<Rightarrow> ('l, 's, 'w) FilteredProvider \<Rightarrow> 'w \<Rightarrow> (u32 \<times> 'w TrackedObject) list \<Rightarrow> 'w Evaluation" where
  "evaluateEach ub p w [] = \<lparr>keptObjects = [], presentObjects = [], newAdditions = [], newRemovals = []\<rparr>"
| "evaluateEach ub p w ((k, t) # ts) =
    (let rest = evaluateEach ub p w ts
     in if \<not> isAlive (trackedInstance t) w
        then (if notified t then rest\<lparr>newRemovals := removalOf p k # newRemovals rest\<rparr> else rest)
        else
          let (present, t') = shouldBePresent (ub k) (queryCode (interest p)) w t
          in if present
             then rest\<lparr>keptObjects := (k, t'\<lparr>notified := True\<rparr>) # keptObjects rest,
                       presentObjects := (k, additionOf p k t) # presentObjects rest,
                       newAdditions := (if notified t then newAdditions rest
                                        else additionOf p k t # newAdditions rest)\<rparr>
             else rest\<lparr>keptObjects := (k, t'\<lparr>notified := False\<rparr>) # keptObjects rest,
                       newRemovals := (if notified t then removalOf p k # newRemovals rest
                                       else newRemovals rest)\<rparr>)"

definition evaluateTrackedObjects ::
  "('l, 's) ListenerSet \<Rightarrow> (u32 \<Rightarrow> bool) \<Rightarrow> 'w \<Rightarrow> ('l, 's, 'w) FilteredProvider \<Rightarrow> ('l, 's, 'w) FilteredProvider" where
  "evaluateTrackedObjects S ub w p =
    (let e = evaluateEach ub p w (trackedObjects p);
         p1 = p\<lparr>currentAdditions := presentObjects e, trackedObjects := keptObjects e\<rparr>;
         p2 = (if newAdditions e = [] then p1 else notifyObjectsAdded S (newAdditions e) p1)
     in if newRemovals e = [] then p2 else notifyObjectsRemoved S (newRemovals e) p2)"

definition seedFromExistingObjects ::
  "('l, 's) ListenerSet \<Rightarrow> (u32 \<Rightarrow> bool) \<Rightarrow> 'w \<Rightarrow> (u32 \<times> 'w Object) list \<Rightarrow> ('l, 's, 'w) FilteredProvider
     \<Rightarrow> ('l, 's, 'w) FilteredProvider" where
  "seedFromExistingObjects S ub w objs p = evaluateTrackedObjects S ub w (startTracking objs p)"

section \<open>Invariant\<close>

abbreviation notifiedIds :: "(u32 \<times> 'w TrackedObject) list \<Rightarrow> u32 set" where
  "notifiedIds ts \<equiv> {k. \<exists>t. (k, t) \<in> set ts \<and> notified t}"

abbreviation presentIds :: "('l, 's, 'w) FilteredProvider \<Rightarrow> u32 set" where
  "presentIds p \<equiv> fst ` set (currentAdditions p)"

text \<open>
  The additions are the tracked objects the listeners were told about, each under its own id.
\<close>

definition objectsOk :: "(u32 \<times> 'w TrackedObject) list \<Rightarrow> (u32 \<times> 'w ObjectAddition) list \<Rightarrow> bool" where
  "objectsOk ts as \<longleftrightarrow> distinct (map fst ts) \<and> distinct (map fst as)
     \<and> (\<forall>(k, a) \<in> set as. addedId a = k) \<and> fst ` set as = notifiedIds ts"

definition providerOk :: "('s \<Rightarrow> bool) \<Rightarrow> ('l, 's, 'w) FilteredProvider \<Rightarrow> bool" where
  "providerOk good p \<longleftrightarrow> good (listeners p) \<and> objectsOk (trackedObjects p) (currentAdditions p)"

lemma dropKey_simps [simp]:
  "set (dropKey k xs) = {x \<in> set xs. fst x \<noteq> k}"
  "map fst (dropKey k xs) = filter (\<lambda>j. j \<noteq> k) (map fst xs)"
  "fst ` set (dropKey k xs) = fst ` set xs - {k}"
  by (auto simp: dropKey_def filter_map o_def case_prod_unfold)

lemma map_of_tracked: "distinct (map fst ts) \<Longrightarrow> map_of ts k = Some t \<longleftrightarrow> (k, t) \<in> set ts"
  by (simp add: map_of_eq_Some_iff)

lemma notifiedIds_drop: "notifiedIds (dropKey k ts) = notifiedIds ts - {k}"
  by auto

lemma objectsOk_track:
  "objectsOk ts as \<Longrightarrow> k \<notin> fst ` set ts \<Longrightarrow> \<not> notified t \<Longrightarrow> objectsOk (ts @ [(k, t)]) as"
proof -
  assume "\<not> notified t"
  then have "notifiedIds (ts @ [(k, t)]) = notifiedIds ts"
    by auto
  moreover assume "objectsOk ts as" "k \<notin> fst ` set ts"
  ultimately show ?thesis
    unfolding objectsOk_def by simp
qed

lemma objectsOk_sub: "objectsOk ts as \<Longrightarrow> fst ` set as \<subseteq> fst ` set ts"
  unfolding objectsOk_def by force

lemma objectsOk_present:
  assumes "objectsOk ts as" "k \<notin> fst ` set ts" "notified t" "addedId a = k"
  shows "objectsOk ((k, t) # ts) ((k, a) # as)"
proof -
  have "notifiedIds ((k, t) # ts) = insert k (notifiedIds ts)"
    using assms(3) by auto
  then show ?thesis
    using assms objectsOk_sub [OF assms(1)] unfolding objectsOk_def by auto
qed

lemma objectsOk_absent:
  assumes "objectsOk ts as" "k \<notin> fst ` set ts" "\<not> notified t"
  shows "objectsOk ((k, t) # ts) as"
proof -
  have "notifiedIds ((k, t) # ts) = notifiedIds ts"
    using assms(3) by auto
  then show ?thesis
    using assms unfolding objectsOk_def by auto
qed

lemma objectsOk_drop:
  assumes "objectsOk ts as"
  shows "objectsOk (dropKey k ts) (dropKey k as)"
  using assms unfolding objectsOk_def notifiedIds_drop by auto

lemma objectsOk_drop_silent:
  assumes "objectsOk ts as" "map_of ts k = Some t" "\<not> notified t"
  shows "objectsOk (dropKey k ts) as"
proof -
  have "k \<notin> notifiedIds ts"
    using assms by (auto simp: objectsOk_def map_of_tracked dest: eq_key_imp_eq_value)
  then have "notifiedIds ts - {k} = notifiedIds ts"
    by blast
  then show ?thesis
    using assms(1) unfolding objectsOk_def notifiedIds_drop by simp
qed

lemma blank_not_notified: "\<not> notified (fst (createTrackedObject obj i))"
  by (simp add: createTrackedObject_def Let_def split: prod.splits)

lemma startTracking_ok:
  "objectsOk (trackedObjects p) (currentAdditions p) \<Longrightarrow>
   objectsOk (trackedObjects (startTracking objs p)) (currentAdditions p)
   \<and> currentAdditions (startTracking objs p) = currentAdditions p
   \<and> listeners (startTracking objs p) = listeners p \<and> told (startTracking objs p) = told p
   \<and> queryCode (interest (startTracking objs p)) = queryCode (interest p)"
proof (induction objs arbitrary: p)
  case (Cons x objs)
  obtain k obj where x: "x = (k, obj)"
    by (cases x)
  obtain t i where ti: "createTrackedObject obj (interest p) = (t, i)"
    by (cases "createTrackedObject obj (interest p)")
  have "\<not> notified t"
    using blank_not_notified [of obj "interest p"] ti by simp
  moreover have "queryCode i = queryCode (interest p)"
    using ti by (auto simp: createTrackedObject_def getOrComputeVarInfoList_def Let_def
        split: prod.splits if_splits option.splits sum.splits)
  ultimately show ?case
    using Cons.prems Cons.IH [of p] Cons.IH [of "p\<lparr>interest := i, trackedObjects := trackedObjects p @ [(k, t)]\<rparr>"]
      objectsOk_track [OF Cons.prems, of k t]
    by (simp add: x ti)
qed simp

lemma stopTracking_ok:
  assumes "objectsOk (trackedObjects p) (currentAdditions p)" "stopTracking ks p = (rs, q)"
  shows "objectsOk (trackedObjects q) (currentAdditions q) \<and> listeners q = listeners p \<and> told q = told p
    \<and> distinct (map removedId rs) \<and> presentIds q = presentIds p - set (map removedId rs)
    \<and> set (map removedId rs) \<subseteq> presentIds p"
  using assms
proof (induction ks arbitrary: p rs q)
  case (Cons k ks)
  show ?case
  proof (cases "map_of (trackedObjects p) k")
    case None
    then have "stopTracking ks p = (rs, q)"
      using Cons.prems(2) by simp
    then show ?thesis
      by (rule Cons.IH [OF Cons.prems(1)])
  next
    case (Some t)
    define found where "found = (if notified t then map_of (currentAdditions p) k else None)"
    define p1 where "p1 = p\<lparr>trackedObjects := dropKey k (trackedObjects p),
        currentAdditions := (if found = None then currentAdditions p else dropKey k (currentAdditions p))\<rparr>"
    obtain rs1 q1 where rest: "stopTracking ks p1 = (rs1, q1)"
      by (cases "stopTracking ks p1")
    have result: "rs = (case found of Some a \<Rightarrow> makeRemoval a # rs1 | None \<Rightarrow> rs1)" "q = q1"
      using Cons.prems(2) Some rest by (simp_all add: found_def p1_def Let_def)
    have there: "notified t \<Longrightarrow> k \<in> presentIds p"
      using Cons.prems(1) Some by (auto simp: objectsOk_def map_of_tracked)
    have "objectsOk (trackedObjects p1) (currentAdditions p1)"
    proof (cases "found = None")
      case True
      then have "\<not> notified t"
        using there by (auto simp: found_def map_of_eq_None_iff split: if_splits)
      then show ?thesis
        using True objectsOk_drop_silent [OF Cons.prems(1) Some] by (simp add: p1_def)
    qed (auto simp: p1_def objectsOk_drop [OF Cons.prems(1)])
    note ih = Cons.IH [OF this rest]
    show ?thesis
    proof (cases found)
      case None
      then show ?thesis
        using ih by (auto simp: result p1_def)
    next
      case (Some a)
      then have "(k, a) \<in> set (currentAdditions p)"
        by (auto simp: found_def dest: map_of_SomeD split: if_splits)
      then have "removedId (makeRemoval a) = k" "k \<in> presentIds p"
        using Cons.prems(1) by (auto simp: makeRemoval_def objectsOk_def) force
      then show ?thesis
        using ih Some by (auto simp: result p1_def)
    qed
  qed
qed simp

text \<open>
  One pass of evaluation: which objects are kept, which of them are present, and the differences
  that are told.
\<close>

lemma present_difference:
  "k \<notin> P \<Longrightarrow> k \<notin> N \<Longrightarrow>
     insert k P - (if b then insert k N else N) = (if b then P - N else insert k (P - N))
     \<and> (if b then insert k N else N) - insert k P = N - P
     \<and> P - (if b then insert k N else N) = P - N
     \<and> (if b then insert k N else N) - P = (if b then insert k (N - P) else N - P)"
  by auto

lemma evaluateEach_ids:
  assumes "distinct (map fst ts)" "e = evaluateEach ub p w ts"
  shows "objectsOk (keptObjects e) (presentObjects e)
    \<and> fst ` set (keptObjects e) \<subseteq> fst ` set ts
    \<and> distinct (map addedId (newAdditions e)) \<and> distinct (map removedId (newRemovals e))
    \<and> addedId ` set (newAdditions e) = fst ` set (presentObjects e) - notifiedIds ts
    \<and> removedId ` set (newRemovals e) = notifiedIds ts - fst ` set (presentObjects e)"
  using assms
proof (induction ts arbitrary: e)
  case Nil
  then show ?case
    by (simp add: objectsOk_def)
next
  case (Cons x ts)
  obtain k t where x: "x = (k, t)"
    by (cases x)
  define r where "r = evaluateEach ub p w ts"
  have new: "k \<notin> fst ` set ts" and d: "distinct (map fst ts)"
    using Cons.prems(1) by (auto simp: x)
  have ih: "objectsOk (keptObjects r) (presentObjects r)" "fst ` set (keptObjects r) \<subseteq> fst ` set ts"
      "distinct (map addedId (newAdditions r))" "distinct (map removedId (newRemovals r))"
      "addedId ` set (newAdditions r) = fst ` set (presentObjects r) - notifiedIds ts"
      "removedId ` set (newRemovals r) = notifiedIds ts - fst ` set (presentObjects r)"
    by (insert Cons.IH [OF d r_def], (elim conjE, assumption)+)
  have out: "k \<notin> fst ` set (keptObjects r)" "k \<notin> fst ` set (presentObjects r)"
    using subsetD [OF ih(2)] subsetD [OF objectsOk_sub [OF ih(1)]] new by blast+
  have silent: "k \<notin> notifiedIds ts"
    using new by force
  have ids: "notifiedIds (x # ts) = (if notified t then insert k (notifiedIds ts) else notifiedIds ts)"
    by (auto simp: x)
  note diff = present_difference [OF out(2) silent, of "notified t"]
  have told: "k \<notin> addedId ` set (newAdditions r)" "k \<notin> removedId ` set (newRemovals r)"
    unfolding ih(5,6) using out silent by simp_all
  obtain b t' where s: "shouldBePresent (ub k) (queryCode (interest p)) w t = (b, t')"
    by (cases "shouldBePresent (ub k) (queryCode (interest p)) w t")
  have sub: "fst ` set (keptObjects r) \<subseteq> fst ` set (x # ts)" "k \<in> fst ` set (x # ts)"
    using ih(2) by (auto simp: x)
  consider (dead) "\<not> isAlive (trackedInstance t) w" | (present) "isAlive (trackedInstance t) w" b
    | (absent) "isAlive (trackedInstance t) w" "\<not> b"
    by blast
  then show ?case
  proof cases
    case dead
    then have "e = (if notified t then r\<lparr>newRemovals := removalOf p k # newRemovals r\<rparr> else r)"
      using Cons.prems(2) by (simp add: x r_def Let_def)
    then show ?thesis
      using ih(1,3-6) sub told diff unfolding ids
      by (cases "notified t") (simp_all add: removalOf_def)
  next
    case present
    then have "e = r\<lparr>keptObjects := (k, t'\<lparr>notified := True\<rparr>) # keptObjects r,
        presentObjects := (k, additionOf p k t) # presentObjects r,
        newAdditions := (if notified t then newAdditions r else additionOf p k t # newAdditions r)\<rparr>"
      using Cons.prems(2) s by (simp add: x r_def Let_def)
    then show ?thesis
      using ih(3-6) sub told diff
        objectsOk_present [OF ih(1) out(1), of "t'\<lparr>notified := True\<rparr>" "additionOf p k t"]
      unfolding ids by (cases "notified t") (simp_all add: additionOf_def)
  next
    case absent
    then have "e = r\<lparr>keptObjects := (k, t'\<lparr>notified := False\<rparr>) # keptObjects r,
        newRemovals := (if notified t then removalOf p k # newRemovals r else newRemovals r)\<rparr>"
      using Cons.prems(2) s by (simp add: x r_def Let_def)
    then show ?thesis
      using ih(3-6) sub told diff objectsOk_absent [OF ih(1) out(1), of "t'\<lparr>notified := False\<rparr>"]
      unfolding ids by (cases "notified t") (simp_all add: removalOf_def)
  qed
qed

section \<open>What a listener sees\<close>

text \<open>
  The objects a listener knows about after a sequence of callbacks; no result when a callback adds an
  object twice or removes one that is not there.
\<close>

fun notificationIds :: "'w Notification \<Rightarrow> u32 list" where
  "notificationIds (Added as) = map addedId as"
| "notificationIds (Removed rs) = map removedId rs"

fun hear :: "'w Notification \<Rightarrow> u32 set \<Rightarrow> u32 set option" where
  "hear (Added as) V =
     (if distinct (map addedId as) \<and> addedId ` set as \<inter> V = {} then Some (V \<union> addedId ` set as) else None)"
| "hear (Removed rs) V =
     (if distinct (map removedId rs) \<and> removedId ` set rs \<subseteq> V then Some (V - removedId ` set rs) else None)"

fun view :: "'l \<Rightarrow> u32 set \<Rightarrow> ('l \<times> 'w Notification) list \<Rightarrow> u32 set option" where
  "view l V [] = Some V"
| "view l V ((l', n) # ns) = (if l' = l then Option.bind (hear n V) (\<lambda>V'. view l V' ns) else view l V ns)"

lemma view_append: "view l V (xs @ ys) = Option.bind (view l V xs) (\<lambda>V'. view l V' ys)"
  by (induction l V xs rule: view.induct) (auto split: bind_splits)

lemma view_broadcast:
  "distinct ls \<Longrightarrow> view l V (map (\<lambda>l'. (l', n)) ls) = (if l \<in> set ls then hear n V else Some V)"
proof (induction ls)
  case (Cons a ls)
  have "view l V' (map (\<lambda>l'. (l', n)) ls) = Some V'" if "l \<notin> set ls" for V'
    using that by (induction ls) auto
  then show ?case
    using Cons by (auto split: bind_splits)
qed simp

lemma laws:
  assumes "listenerSetLaws S good" "good s"
  shows "distinct (items S s)" "good (snd (emplace S l s))" "fst (emplace S l s) \<longleftrightarrow> l \<notin> set (items S s)"
    "set (items S (snd (emplace S l s))) = insert l (set (items S s))" "good (snd (erase S l s))"
    "fst (erase S l s) \<longleftrightarrow> l \<in> set (items S s)" "set (items S (snd (erase S l s))) = set (items S s) - {l}"
  using assms by (auto simp: listenerSetLaws_def)

text \<open>
  The view a listener should have: the present objects while it is subscribed, and nothing otherwise.
\<close>

definition expectedView :: "('l, 's) ListenerSet \<Rightarrow> 'l \<Rightarrow> ('l, 's, 'w) FilteredProvider \<Rightarrow> u32 set" where
  "expectedView S l p = (if l \<in> set (items S (listeners p)) then presentIds p else {})"

definition informed :: "('l, 's) ListenerSet \<Rightarrow> 'l \<Rightarrow> ('l, 's, 'w) FilteredProvider \<Rightarrow> bool" where
  "informed S l p \<longleftrightarrow> view l {} (told p) = Some (expectedView S l p)"

lemma view_notified:
  assumes "listenerSetLaws S good" "good s" "view l {} log = Some V"
  shows "view l {} (log @ map (\<lambda>l'. (l', n)) (items S s)) = (if l \<in> set (items S s) then hear n V else Some V)"
  using assms laws(1) [OF assms(1,2)] by (simp add: view_append view_broadcast)

lemma startTracking_informed:
  assumes "providerOk good p" "informed S l p"
  shows "providerOk good (startTracking objs p) \<and> informed S l (startTracking objs p)"
  using assms startTracking_ok [of p objs] by (simp add: informed_def expectedView_def providerOk_def)

lemma stopTracking_informed:
  assumes "listenerSetLaws S good" "providerOk good p" "informed S l p"
  shows "providerOk good (stopTrackingAndNotify S ks p) \<and> informed S l (stopTrackingAndNotify S ks p)"
proof -
  obtain rs q where q: "stopTracking ks p = (rs, q)"
    by (cases "stopTracking ks p")
  have good: "good (listeners p)"
    using assms(2) by (simp add: providerOk_def)
  have ok: "objectsOk (trackedObjects q) (currentAdditions q)" "listeners q = listeners p" "told q = told p"
      "distinct (map removedId rs)" "presentIds q = presentIds p - removedId ` set rs" "removedId ` set rs \<subseteq> presentIds p"
    using stopTracking_ok [OF _ q] assms(2) by (simp_all add: providerOk_def)
  have "view l {} (told p @ map (\<lambda>l'. (l', Removed rs)) (items S (listeners p))) = Some (expectedView S l q)"
    using view_notified [OF assms(1) good, of l "told p" "expectedView S l p" "Removed rs"] ok assms(3)
    by (cases "l \<in> set (items S (listeners p))") (simp_all add: informed_def expectedView_def)
  then show ?thesis
    using q ok assms(2,3)
    by (cases "rs = []") (simp_all add: stopTrackingAndNotify_def notifyObjectsRemoved_def providerOk_def informed_def
        expectedView_def)
qed

lemma evaluate_informed:
  assumes "listenerSetLaws S good" "providerOk good p" "informed S l p"
  shows "providerOk good (evaluateTrackedObjects S ub w p) \<and> informed S l (evaluateTrackedObjects S ub w p)"
proof -
  define e where "e = evaluateEach ub p w (trackedObjects p)"
  have d: "distinct (map fst (trackedObjects p))" and present: "presentIds p = notifiedIds (trackedObjects p)"
    and good: "good (listeners p)"
    using assms(2) by (simp_all add: providerOk_def objectsOk_def)
  have ok: "objectsOk (keptObjects e) (presentObjects e)"
      "distinct (map addedId (newAdditions e))" "distinct (map removedId (newRemovals e))"
      "addedId ` set (newAdditions e) = fst ` set (presentObjects e) - presentIds p"
      "removedId ` set (newRemovals e) = presentIds p - fst ` set (presentObjects e)"
    unfolding present by (insert evaluateEach_ids [OF d e_def], (elim conjE, assumption)+)
  let ?ls = "items S (listeners p)"
  let ?log1 = "if newAdditions e = [] then told p else told p @ map (\<lambda>l'. (l', Added (newAdditions e))) ?ls"
  let ?log2 = "if newRemovals e = [] then ?log1 else ?log1 @ map (\<lambda>l'. (l', Removed (newRemovals e))) ?ls"
  have start: "view l {} (told p) = Some (if l \<in> set ?ls then presentIds p else {})"
    using assms(3) by (simp add: informed_def expectedView_def)
  have "view l {} ?log1 = Some (if l \<in> set ?ls then presentIds p \<union> fst ` set (presentObjects e) else {})"
  proof (cases "newAdditions e = []")
    case True
    then show ?thesis
      using start ok(4) by auto
  next
    case False
    then show ?thesis
      using view_notified [OF assms(1) good start, of "Added (newAdditions e)"] ok(2,4)
      by (auto simp: Int_commute)
  qed
  note mid = this
  have "view l {} ?log2 = Some (if l \<in> set ?ls then fst ` set (presentObjects e) else {})"
  proof (cases "newRemovals e = []")
    case True
    then have "presentIds p \<subseteq> fst ` set (presentObjects e)"
      using ok(5) by (metis Diff_eq_empty_iff empty_set image_empty)
    then show ?thesis
      using True mid by (simp add: Un_absorb1)
  next
    case False
    then show ?thesis
      using view_notified [OF assms(1) good mid, of "Removed (newRemovals e)"] ok(3,5)
      by auto
  qed
  moreover have "told (evaluateTrackedObjects S ub w p) = ?log2" "listeners (evaluateTrackedObjects S ub w p) = listeners p"
      "currentAdditions (evaluateTrackedObjects S ub w p) = presentObjects e"
      "trackedObjects (evaluateTrackedObjects S ub w p) = keptObjects e"
    by (simp_all add: evaluateTrackedObjects_def e_def [symmetric] Let_def notifyObjectsAdded_def notifyObjectsRemoved_def)
  ultimately show ?thesis
    using ok(1) good by (simp add: informed_def expectedView_def providerOk_def)
qed

text \<open>Subscribing and leaving, with the objects that are present told.\<close>

lemma addListener_simps [simp]:
  "trackedObjects (addListener S l b p) = trackedObjects p" "currentAdditions (addListener S l b p) = currentAdditions p"
  "interest (addListener S l b p) = interest p"
  "listeners (addListener S l b p) = snd (emplace S l (listeners p))"
  "linked (addListener S l b p) = (if fst (emplace S l (listeners p)) then insert l (linked p) else linked p)"
  by (simp_all add: addListener_def notifyAddedOnExistingObjects_def Let_def split: prod.splits)

lemma removeListener_simps [simp]:
  "trackedObjects (removeListener S l b p) = trackedObjects p"
  "currentAdditions (removeListener S l b p) = currentAdditions p"
  "interest (removeListener S l b p) = interest p"
  "listeners (removeListener S l b p) = snd (erase S l (listeners p))"
  "linked (removeListener S l b p) = (if fst (erase S l (listeners p)) then linked p - {l} else linked p)"
  by (simp_all add: removeListener_def notifyRemovedOnExistingObjects_def Let_def split: prod.splits)

lemma told_addListener:
  "told (addListener S l b p) = (if fst (emplace S l (listeners p)) \<and> b \<and> currentAdditions p \<noteq> []
     then told p @ [(l, Added (map snd (currentAdditions p)))] else told p)"
  by (simp add: addListener_def notifyAddedOnExistingObjects_def Let_def split: prod.splits)

lemma told_removeListener:
  "told (removeListener S l b p) = (if fst (erase S l (listeners p)) \<and> b \<and> currentAdditions p \<noteq> []
     then told p @ [(l, Removed (map (makeRemoval \<circ> snd) (currentAdditions p)))] else told p)"
  by (simp add: removeListener_def notifyRemovedOnExistingObjects_def Let_def split: prod.splits)

lemma additions_ids:
  assumes "objectsOk ts as"
  shows "map addedId (map snd as) = map fst as" "map removedId (map (makeRemoval \<circ> snd) as) = map fst as"
    "addedId ` set (map snd as) = fst ` set as" "removedId ` set (map (makeRemoval \<circ> snd) as) = fst ` set as"
    "distinct (map fst as)"
proof -
  show added: "map addedId (map snd as) = map fst as"
    using assms by (auto simp: objectsOk_def)
  show removed: "map removedId (map (makeRemoval \<circ> snd) as) = map fst as"
    using assms by (auto simp: objectsOk_def makeRemoval_def)
  show "addedId ` set (map snd as) = fst ` set as" "removedId ` set (map (makeRemoval \<circ> snd) as) = fst ` set as"
    by (simp_all only: set_map [symmetric] added removed)
  show "distinct (map fst as)"
    using assms by (simp add: objectsOk_def)
qed

lemma addListener_informed:
  assumes "listenerSetLaws S good" "providerOk good p" "informed S l p" "l' = l \<Longrightarrow> b"
  shows "providerOk good (addListener S l' b p) \<and> informed S l (addListener S l' b p)"
proof -
  have good: "good (listeners p)" and ok: "objectsOk (trackedObjects p) (currentAdditions p)"
    using assms(2) by (simp_all add: providerOk_def)
  note L = laws [OF assms(1) good]
  note ids = additions_ids [OF ok]
  have "view l {} (told (addListener S l' b p)) = Some (expectedView S l (addListener S l' b p))"
    using assms(3,4)
    by (auto simp del: set_map map_map simp: ids told_addListener view_append L informed_def expectedView_def
        split: if_splits)
  then show ?thesis
    using ok by (simp add: informed_def providerOk_def L)
qed

lemma removeListener_informed:
  assumes "listenerSetLaws S good" "providerOk good p" "informed S l p" "l' = l \<Longrightarrow> b"
  shows "providerOk good (removeListener S l' b p) \<and> informed S l (removeListener S l' b p)"
proof -
  have good: "good (listeners p)" and ok: "objectsOk (trackedObjects p) (currentAdditions p)"
    using assms(2) by (simp_all add: providerOk_def)
  note L = laws [OF assms(1) good]
  note ids = additions_ids [OF ok]
  have "view l {} (told (removeListener S l' b p)) = Some (expectedView S l (removeListener S l' b p))"
    using assms(3,4)
    by (auto simp del: set_map map_map simp: ids told_removeListener view_append L informed_def expectedView_def
        split: if_splits)
  then show ?thesis
    using ok by (simp add: informed_def providerOk_def L)
qed

lemma destroyListener_informed:
  assumes "listenerSetLaws S good" "providerOk good p" "informed S l p" "l' \<noteq> l"
  shows "providerOk good (destroyListener S l' p) \<and> informed S l (destroyListener S l' p)"
  using assms by (simp add: destroyListener_def listenerDeleted_def informed_def expectedView_def providerOk_def
      laws(5,7) [OF assms(1)])

lemma replaceListener_simps [simp]:
  "trackedObjects (replaceListener S old new p) = trackedObjects p"
  "currentAdditions (replaceListener S old new p) = currentAdditions p"
  "interest (replaceListener S old new p) = interest p" "told (replaceListener S old new p) = told p"
  "linked (replaceListener S old new p) = linked p"
  by (simp_all add: replaceListener_def split: prod.splits)

lemma listeners_replaceListener:
  "listeners (replaceListener S old new p) =
    (if fst (erase S old (listeners p)) then snd (emplace S new (snd (erase S old (listeners p))))
     else snd (erase S old (listeners p)))"
  by (simp add: replaceListener_def split: prod.splits)

lemma replaceListener_set:
  assumes "listenerSetLaws S good" "good (listeners p)"
  shows "good (listeners (replaceListener S old new p))"
    "set (items S (listeners (replaceListener S old new p))) =
      (if old \<in> set (items S (listeners p)) then insert new (set (items S (listeners p)) - {old})
       else set (items S (listeners p)))"
  by (simp_all add: listeners_replaceListener laws(2-7) [OF assms]
      laws(2-7) [OF assms(1) laws(5) [OF assms]])

lemma replaceListener_informed:
  assumes "listenerSetLaws S good" "providerOk good p" "informed S l p" "old \<noteq> l" "new \<noteq> l"
  shows "providerOk good (replaceListener S old new p) \<and> informed S l (replaceListener S old new p)"
  using assms(2-5) replaceListener_set [OF assms(1), of p old new]
  by (simp add: informed_def expectedView_def providerOk_def)

text \<open>The destructor of a provider takes everything back.\<close>

lemma removeAll_view:
  assumes "objectsOk ts (currentAdditions p)" "distinct ls" "view l {} (told p) = Some V"
    "l \<in> set ls \<longrightarrow> V = presentIds p"
  shows "view l {} (told (fold notifyRemovedOnExistingObjects ls p)) = Some (if l \<in> set ls then {} else V)"
  using assms
proof (induction ls arbitrary: p V)
  case (Cons a ls)
  define q where "q = notifyRemovedOnExistingObjects a p"
  note ids = additions_ids [OF Cons.prems(1)]
  have same: "currentAdditions q = currentAdditions p"
    by (simp add: q_def notifyRemovedOnExistingObjects_def)
  have "view l {} (told q) = Some (if l = a then {} else V)"
    using Cons.prems(3,4)
    by (auto simp del: set_map map_map simp: ids q_def notifyRemovedOnExistingObjects_def view_append)
  moreover have "view l {} (told (fold notifyRemovedOnExistingObjects ls q)) = Some (if l \<in> set ls then {} else V')"
    if "view l {} (told q) = Some V'" "l \<in> set ls \<longrightarrow> V' = presentIds q" for V'
    using Cons.IH [OF _ _ that] Cons.prems(1,2) same by simp
  ultimately show ?case
    using Cons.prems(2,4) by (auto simp: same q_def [symmetric])
qed simp

lemma destroyProvider_view:
  assumes "listenerSetLaws S good" "providerOk good p" "informed S l p"
  shows "view l {} (told (destroyProvider S p)) = Some {}"
  using removeAll_view [of "trackedObjects p" p "items S (listeners p)" l "expectedView S l p"]
    assms laws(1) [OF assms(1)]
  by (simp add: destroyProvider_def notifyRemovedOnExistingObjectsForAllListeners_def informed_def providerOk_def
      Let_def expectedView_def split: if_splits)

section \<open>What is present\<close>

text \<open>
  The result an object got when it was last evaluated stands for the current one as long as no flag of a
  property it depends on says otherwise.
\<close>

definition readings :: "'w \<Rightarrow> 'w TrackedObject \<Rightarrow> getter list" where
  "readings w t = map (\<lambda>read. read w) (environment t)"

definition flagsFaithful :: "'w \<Rightarrow> 'w \<Rightarrow> 'w TrackedObject \<Rightarrow> bool" where
  "flagsFaithful w w' t \<longleftrightarrow> needsReEvaluation w' t \<or> readings w' t = readings w t"

definition upToDate :: "Chunk \<Rightarrow> 'w \<Rightarrow> 'w TrackedObject \<Rightarrow> bool" where
  "upToDate c w t \<longleftrightarrow> (isValid c \<and> alreadyEvaluatedOnce t \<and> interpret_chunk c (readings w t) \<noteq> Undefined
     \<longrightarrow> (notified t \<longleftrightarrow> interpret_chunk c (readings w t) = Ok (Bool True)))"

lemma matches_defined:
  "interpret_chunk c (readings w t) \<noteq> Undefined \<Longrightarrow>
   matches ub c w t \<longleftrightarrow> interpret_chunk c (readings w t) = Ok (Bool True)"
  by (auto simp: matches_def readings_def split: vm_result.splits Value.splits)

lemma shouldBePresent_exact:
  assumes "upToDate c w t" "flagsFaithful w w' t" "shouldBePresent ub c w' t = (b, t')"
  shows "(isValid c \<longrightarrow> interpret_chunk c (readings w' t) \<noteq> Undefined)
      \<Longrightarrow> (b \<longleftrightarrow> isValid c \<longrightarrow> interpret_chunk c (readings w' t) = Ok (Bool True))"
    and "upToDate c w' (t'\<lparr>notified := b\<rparr>)"
proof -
  have same: "readings w' t' = readings w' t"
    using assms(3) by (auto simp: shouldBePresent_def readings_def split: if_splits)
  show "(isValid c \<longrightarrow> interpret_chunk c (readings w' t) \<noteq> Undefined)
      \<Longrightarrow> (b \<longleftrightarrow> isValid c \<longrightarrow> interpret_chunk c (readings w' t) = Ok (Bool True))"
    using assms by (auto simp: shouldBePresent_def matches_defined upToDate_def flagsFaithful_def split: if_splits)
  then show "upToDate c w' (t'\<lparr>notified := b\<rparr>)"
    using same by (auto simp: upToDate_def readings_def)
qed

definition shouldMatch :: "Chunk \<Rightarrow> 'w \<Rightarrow> 'w TrackedObject \<Rightarrow> bool" where
  "shouldMatch c w t \<longleftrightarrow> isAlive (trackedInstance t) w
     \<and> (isValid c \<longrightarrow> interpret_chunk c (readings w t) = Ok (Bool True))"

text \<open>The state from which an evaluation at \<open>w'\<close> is exact, after one at \<open>w\<close>.\<close>

definition evaluable :: "'w \<Rightarrow> 'w \<Rightarrow> (u32 \<times> 'w TrackedObject) list \<Rightarrow> bool" where
  "evaluable w w' ts \<longleftrightarrow> (\<forall>(k, t) \<in> set ts. isAlive (trackedInstance t) w' \<longrightarrow> flagsFaithful w w' t)"

definition decided :: "Chunk \<Rightarrow> 'w \<Rightarrow> (u32 \<times> 'w TrackedObject) list \<Rightarrow> bool" where
  "decided c w ts \<longleftrightarrow> (isValid c \<longrightarrow>
     (\<forall>(k, t) \<in> set ts. isAlive (trackedInstance t) w \<longrightarrow> interpret_chunk c (readings w t) \<noteq> Undefined))"

abbreviation allUpToDate :: "Chunk \<Rightarrow> 'w \<Rightarrow> (u32 \<times> 'w TrackedObject) list \<Rightarrow> bool" where
  "allUpToDate c w ts \<equiv> \<forall>(k, t) \<in> set ts. upToDate c w t"

lemma evaluateEach_exact:
  assumes "c = queryCode (interest p)" "allUpToDate c w ts" "evaluable w w' ts"
  shows "allUpToDate c w' (keptObjects (evaluateEach ub p w' ts))
    \<and> (decided c w' ts \<longrightarrow> fst ` set (presentObjects (evaluateEach ub p w' ts)) =
        {k. \<exists>t. (k, t) \<in> set ts \<and> shouldMatch c w' t})"
  using assms(2,3)
proof (induction ts)
  case (Cons x ts)
  obtain k t where x: "x = (k, t)"
    by (cases x)
  define r where "r = evaluateEach ub p w' ts"
  have hyp: "upToDate c w t" "allUpToDate c w ts" "evaluable w w' ts"
    using Cons.prems by (auto simp: x evaluable_def)
  note ih = Cons.IH [OF hyp(2,3), folded r_def]
  have rest: "decided c w' (x # ts) \<Longrightarrow> decided c w' ts"
    by (auto simp: decided_def)
  have union: "{k. \<exists>t. (k, t) \<in> set (x # ts) \<and> shouldMatch c w' t} =
      (if shouldMatch c w' t then {k} else {}) \<union> {k. \<exists>t. (k, t) \<in> set ts \<and> shouldMatch c w' t}"
    by (auto simp: x)
  show ?case
  proof (cases "isAlive (trackedInstance t) w'")
    case False
    then have "keptObjects (evaluateEach ub p w' (x # ts)) = keptObjects r"
        "presentObjects (evaluateEach ub p w' (x # ts)) = presentObjects r" "\<not> shouldMatch c w' t"
      by (simp_all add: x r_def Let_def shouldMatch_def)
    then show ?thesis
      using ih rest unfolding union by simp
  next
    case True
    obtain b t' where s: "shouldBePresent (ub k) c w' t = (b, t')"
      by (cases "shouldBePresent (ub k) c w' t")
    have faithful: "flagsFaithful w w' t"
      using Cons.prems(2) True by (auto simp: x evaluable_def)
    note exact = shouldBePresent_exact [OF hyp(1) faithful s]
    have "decided c w' (x # ts) \<Longrightarrow> (b \<longleftrightarrow> shouldMatch c w' t)"
      using exact(1) True by (auto simp: decided_def x shouldMatch_def)
    moreover have "keptObjects (evaluateEach ub p w' (x # ts)) = (k, t'\<lparr>notified := b\<rparr>) # keptObjects r"
        "fst ` set (presentObjects (evaluateEach ub p w' (x # ts))) =
          (if b then {k} else {}) \<union> fst ` set (presentObjects r)"
      using True s assms(1) by (cases b; simp add: x r_def Let_def)+
    ultimately show ?thesis
      using ih rest exact(2) unfolding union by simp
  qed
qed simp

text \<open>
  The runs of a provider between the changes of the objects: \<open>w\<close> is the state of the objects of the last
  evaluation.
\<close>

inductive evaluatedRun :: "('l, 's) ListenerSet \<Rightarrow> 'w \<Rightarrow> ('l, 's, 'w) FilteredProvider \<Rightarrow> bool" for S where
  created: "trackedObjects p = [] \<Longrightarrow> evaluatedRun S w p"
| tracking: "evaluatedRun S w p \<Longrightarrow> evaluatedRun S w (startTracking objs p)"
| stopped: "evaluatedRun S w p \<Longrightarrow> evaluatedRun S w (stopTrackingAndNotify S ids p)"
| evaluated: "evaluatedRun S w p \<Longrightarrow> evaluable w w' (trackedObjects p) \<Longrightarrow>
    evaluatedRun S w' (evaluateTrackedObjects S ub w' p)"
| subscribed: "evaluatedRun S w p \<Longrightarrow> evaluatedRun S w (addListener S l b p)"
| unsubscribed: "evaluatedRun S w p \<Longrightarrow> evaluatedRun S w (removeListener S l b p)"

lemma blank_not_evaluated: "\<not> alreadyEvaluatedOnce (fst (createTrackedObject obj i))"
  by (simp add: createTrackedObject_def Let_def split: prod.splits)

lemma createTrackedObject_code: "queryCode (snd (createTrackedObject obj i)) = queryCode i"
  by (auto simp: createTrackedObject_def getOrComputeVarInfoList_def Let_def
      split: prod.splits if_splits option.splits sum.splits)

lemma startTracking_upToDate:
  "allUpToDate (queryCode (interest p)) w (trackedObjects p) \<Longrightarrow>
   queryCode (interest (startTracking objs p)) = queryCode (interest p)
   \<and> allUpToDate (queryCode (interest p)) w (trackedObjects (startTracking objs p))"
proof (induction objs p rule: startTracking.induct)
  case (2 k obj objs p)
  obtain t i where ti: "createTrackedObject obj (interest p) = (t, i)"
    by (cases "createTrackedObject obj (interest p)")
  have new: "upToDate c w t" "queryCode i = queryCode (interest p)" for c
    using blank_not_evaluated [of obj "interest p"] createTrackedObject_code [of obj "interest p"] ti
    by (simp_all add: upToDate_def)
  show ?case
  proof (cases "\<not> isNative obj \<or> k \<in> fst ` set (trackedObjects p)
         \<or> \<not> checkTypeCondition (typeCondition (interest p)) (objectClass obj)")
    case True
    then show ?thesis
      using 2 by simp
  next
    case False
    then show ?thesis
      using 2(2) [OF False ti [symmetric] refl] 2(3) new by (auto simp: ti)
  qed
qed simp

lemma stopTracking_upToDate:
  "interest (snd (stopTracking ks p)) = interest p
   \<and> listeners (snd (stopTracking ks p)) = listeners p \<and> linked (snd (stopTracking ks p)) = linked p
   \<and> set (trackedObjects (snd (stopTracking ks p))) \<subseteq> set (trackedObjects p)"
proof (induction ks arbitrary: p)
  case (Cons k ks)
  show ?case
  proof (cases "map_of (trackedObjects p) k")
    case (Some t)
    define q where "q = p\<lparr>trackedObjects := dropKey k (trackedObjects p),
      currentAdditions := (if (if notified t then map_of (currentAdditions p) k else None) = None
        then currentAdditions p else dropKey k (currentAdditions p))\<rparr>"
    have "snd (stopTracking (k # ks) p) = snd (stopTracking ks q)"
      using Some by (simp add: q_def Let_def split: prod.splits)
    then show ?thesis
      using Cons.IH [of q] by (auto simp: q_def)
  qed (simp add: Cons.IH)
qed simp

lemma stopTrackingAndNotify_upToDate:
  "interest (stopTrackingAndNotify S ks p) = interest p
   \<and> listeners (stopTrackingAndNotify S ks p) = listeners p \<and> linked (stopTrackingAndNotify S ks p) = linked p
   \<and> set (trackedObjects (stopTrackingAndNotify S ks p)) \<subseteq> set (trackedObjects p)"
  using stopTracking_upToDate [of ks p]
  by (cases "stopTracking ks p") (simp add: stopTrackingAndNotify_def notifyObjectsRemoved_def)

lemma evaluateTrackedObjects_simps [simp]:
  "interest (evaluateTrackedObjects S ub w p) = interest p"
  "trackedObjects (evaluateTrackedObjects S ub w p) = keptObjects (evaluateEach ub p w (trackedObjects p))"
  "currentAdditions (evaluateTrackedObjects S ub w p) = presentObjects (evaluateEach ub p w (trackedObjects p))"
  "listeners (evaluateTrackedObjects S ub w p) = listeners p" "linked (evaluateTrackedObjects S ub w p) = linked p"
  by (simp_all add: evaluateTrackedObjects_def Let_def notifyObjectsAdded_def notifyObjectsRemoved_def)

lemma evaluatedRun_upToDate:
  "evaluatedRun S w p \<Longrightarrow> allUpToDate (queryCode (interest p)) w (trackedObjects p)"
proof (induction rule: evaluatedRun.induct)
  case (tracking w p objs)
  then show ?case
    using startTracking_upToDate [of p w objs] by simp
next
  case (stopped w p ids)
  then show ?case
    using stopTrackingAndNotify_upToDate [of S ids p] by auto
next
  case (evaluated w p w' ub)
  then show ?case
    using evaluateEach_exact [OF refl evaluated.IH evaluated.hyps(2)] by simp
qed simp_all

section \<open>Properties\<close>


definition listSet :: "(nat, nat list) ListenerSet" where
  "listSet = \<lparr>noListeners = [], emplace = (\<lambda>l s. (l \<notin> set s, if l \<in> set s then s else l # s)),
     erase = (\<lambda>l s. (l \<in> set s, filter (\<lambda>x. x \<noteq> l) s)), items = (\<lambda>s. s)\<rparr>"

lemma listSet_laws: "listenerSetLaws listSet distinct"
  by (auto simp: listenerSetLaws_def listSet_def)

definition exampleObject :: "u32 \<Rightarrow> nat Object" where
  "exampleObject k = \<lparr>objectId = k, objectName = ''ship'', isNative = True, objectClass = exampleSubclass,
     isAlive = (\<lambda>w. w < 10), fieldValueGetter = (\<lambda>i fs. None)\<rparr>"

definition exampleProvider :: "(nat, nat list, nat) FilteredProvider" where
  "exampleProvider = \<lparr>ownerId = 9,
     interest = exampleInterest\<lparr>queryCode := exampleChunk\<lparr>variablesDef := [''id'']\<rparr>\<rparr>, providerName = [],
     currentAdditions = [], trackedObjects = [], listeners = [], linked = {}, told = []\<rparr>"

definition exampleTracking :: "(nat, nat list, nat) FilteredProvider" where
  "exampleTracking = startTracking [(1, exampleObject 1), (5, exampleObject 5)] exampleProvider"

definition exampleTracked :: "u32 \<Rightarrow> nat TrackedObject" where
  "exampleTracked k = \<lparr>trackedInstance = exampleObject k, environment = [\<lambda>w. Returns (U32 k)], dependantProps = [],
     notified = False, alreadyEvaluatedOnce = False\<rparr>"

lemma exampleTracking_objects:
  "trackedObjects exampleTracking = [(1, exampleTracked 1), (5, exampleTracked 5)]"
  "queryCode (interest exampleTracking) = exampleChunk\<lparr>variablesDef := [''id'']\<rparr>"
  by (simp_all add: exampleTracking_def exampleProvider_def exampleObject_def exampleInterest_def exampleTracked_def
      checkTypeCondition_def createTrackedObject_def isValid_def exampleChunk_def getOrComputeVarInfoList_def
      variableReader_def computeVarInfoList_def builtinVariable_def Let_def List.map_filter_def)

lemma exampleResults:
  "interpret_chunk (exampleChunk\<lparr>variablesDef := [''id'']\<rparr>) [Returns (U32 1)] = Ok (Bool True)"
  "interpret_chunk (exampleChunk\<lparr>variablesDef := [''id'']\<rparr>) [Returns (U32 5)] = Ok (Bool False)"
  by code_simp+

lemma exampleMatches:
  "shouldMatch (exampleChunk\<lparr>variablesDef := [''id'']\<rparr>) 4 (exampleTracked 1)"
  "\<not> shouldMatch (exampleChunk\<lparr>variablesDef := [''id'']\<rparr>) 4 (exampleTracked 5)"
proof -
  have "isValid (exampleChunk\<lparr>variablesDef := [''id'']\<rparr>)"
    by (simp add: isValid_def exampleChunk_def)
  then show "shouldMatch (exampleChunk\<lparr>variablesDef := [''id'']\<rparr>) 4 (exampleTracked 1)"
    "\<not> shouldMatch (exampleChunk\<lparr>variablesDef := [''id'']\<rparr>) 4 (exampleTracked 5)"
    by (simp_all add: shouldMatch_def readings_def exampleTracked_def exampleResults exampleObject_def)
qed


end
