(* ===== verification/Object_Filter.thy ===== *)
theory Object_Filter
  imports Filtered_Provider
begin

text \<open>
  The filter of a bus (ObjectFilter in obj/object_filter.cpp): the providers it gives out, who keeps
  them alive, and the pass over them when the set of objects changes.

  Providers are named by their position in \<open>heap\<close>.  \<open>providers\<close> are the weak references of the filter,
  \<open>ownedProviders\<close> and \<open>held\<close> the strong ones, of the filter and of its clients: a provider is alive as
  long as one of the latter is left, and the record of one that is gone stays in the heap with what it
  told.  A listener that calls the filter from inside a callback is not modelled, nor is the lock every
  operation takes.
\<close>

section \<open>State\<close>

record ('l, 's, 'w) ObjectFilter =
  filterOwner :: u32
  lastPresentObjects :: "(u32 \<times> 'w Object) list"
  heap :: "('l, 's, 'w) FilteredProvider list"
  providers :: "nat list"
  ownedProviders :: "nat list"
  held :: "nat list"

record 'w ObjectSet =
  newObjects :: "(u32 \<times> 'w Object) list"
  currentObjects :: "(u32 \<times> 'w Object) list"
  deletedObjects :: "u32 list"

definition newFilter :: "u32 \<Rightarrow> ('l, 's, 'w) ObjectFilter" where
  "newFilter owner = \<lparr>filterOwner = owner, lastPresentObjects = [], heap = [], providers = [], ownedProviders = [],
     held = []\<rparr>"

definition makeProvider :: "('l, 's) ListenerSet \<Rightarrow> u32 \<Rightarrow> Interest \<Rightarrow> ('l, 's, 'w) FilteredProvider" where
  "makeProvider S owner i = \<lparr>ownerId = owner, interest = i, providerName = [], currentAdditions = [],
     trackedObjects = [], listeners = noListeners S, linked = {}, told = []\<rparr>"

section \<open>References\<close>

definition live :: "('l, 's, 'w) ObjectFilter \<Rightarrow> nat \<Rightarrow> bool" where
  "live F k \<longleftrightarrow> k \<in> set (ownedProviders F) \<or> k \<in> set (held F)"

definition update ::
  "nat \<Rightarrow> (('l, 's, 'w) FilteredProvider \<Rightarrow> ('l, 's, 'w) FilteredProvider) \<Rightarrow> ('l, 's, 'w) ObjectFilter
     \<Rightarrow> ('l, 's, 'w) ObjectFilter" where
  "update k f F = F\<lparr>heap := (heap F)[k := f (heap F ! k)]\<rparr>"

text \<open>A walk over weak references: those that cannot be locked are skipped.\<close>

fun forEachLive ::
  "(nat \<Rightarrow> ('l, 's, 'w) FilteredProvider \<Rightarrow> ('l, 's, 'w) FilteredProvider) \<Rightarrow> nat list
     \<Rightarrow> ('l, 's, 'w) ObjectFilter \<Rightarrow> ('l, 's, 'w) ObjectFilter" where
  "forEachLive f [] F = F"
| "forEachLive f (k # ks) F = forEachLive f ks (if live F k then update k (f k) F else F)"

definition pruneExpiredProviders :: "('l, 's, 'w) ObjectFilter \<Rightarrow> ('l, 's, 'w) ObjectFilter" where
  "pruneExpiredProviders F = F\<lparr>providers := filter (live F) (providers F)\<rparr>"

definition providerDeleted :: "nat \<Rightarrow> ('l, 's, 'w) ObjectFilter \<Rightarrow> ('l, 's, 'w) ObjectFilter" where
  "providerDeleted k F = F\<lparr>providers := filter (\<lambda>j. \<not> (live F j \<and> j = k)) (providers F)\<rparr>"

text \<open>
  What happens after strong references are gone: the destructors of the providers among \<open>ks\<close> that none
  is left of.
\<close>

fun dispose :: "('l, 's) ListenerSet \<Rightarrow> nat list \<Rightarrow> ('l, 's, 'w) ObjectFilter \<Rightarrow> ('l, 's, 'w) ObjectFilter" where
  "dispose S [] F = F"
| "dispose S (k # ks) F =
     dispose S ks (if live F k then F else providerDeleted k (update k (destroyProvider S) F))"

definition dropOwned ::
  "('l, 's) ListenerSet \<Rightarrow> (('l, 's, 'w) FilteredProvider \<Rightarrow> bool) \<Rightarrow> ('l, 's, 'w) ObjectFilter
     \<Rightarrow> ('l, 's, 'w) ObjectFilter" where
  "dropOwned S gone F =
     dispose S (remdups (filter (\<lambda>k. gone (heap F ! k)) (ownedProviders F)))
       (F\<lparr>ownedProviders := filter (\<lambda>k. \<not> gone (heap F ! k)) (ownedProviders F)\<rparr>)"

text \<open>A client lets go of the provider it holds; the destructor of the filter lets go of its own.\<close>

definition releaseProvider ::
  "('l, 's) ListenerSet \<Rightarrow> nat \<Rightarrow> ('l, 's, 'w) ObjectFilter \<Rightarrow> ('l, 's, 'w) ObjectFilter" where
  "releaseProvider S k F =
     (if k \<in> set (held F) then dispose S [k] (F\<lparr>held := remove1 k (held F)\<rparr>) else F)"

definition destroyFilter :: "('l, 's) ListenerSet \<Rightarrow> ('l, 's, 'w) ObjectFilter \<Rightarrow> ('l, 's, 'w) ObjectFilter" where
  "destroyFilter S F = dropOwned S (\<lambda>_. True) F"

section \<open>Operations\<close>

definition hasInterest :: "Interest \<Rightarrow> ('l, 's, 'w) ObjectFilter \<Rightarrow> nat \<Rightarrow> bool" where
  "hasInterest i F k \<longleftrightarrow> interestEq (interest (heap F ! k)) i"

definition getOrCreateNamedProvider ::
  "('l, 's) ListenerSet \<Rightarrow> (nat \<Rightarrow> u32 \<Rightarrow> bool) \<Rightarrow> 'w \<Rightarrow> string \<Rightarrow> Interest \<Rightarrow> ('l, 's, 'w) ObjectFilter
     \<Rightarrow> (string + nat) \<times> ('l, 's, 'w) ObjectFilter" where
  "getOrCreateNamedProvider S ub w name i F0 =
    (let F = pruneExpiredProviders F0
     in case List.find (\<lambda>k. live F k \<and> hasInterest i F k) (providers F) of
          Some k \<Rightarrow>
            let other = providerName (heap F ! k)
            in if other \<noteq> [] \<and> other \<noteq> name
               then (Inl (''there is already a source with the same interest specification but named '' @ quote @ other
                        @ quote @ '' instead of '' @ quote @ name @ quote), F)
               else (Inr k, (update k (\<lambda>p. if other = [] then p\<lparr>providerName := name\<rparr> else p) F)\<lparr>held := k # held F\<rparr>)
        | None \<Rightarrow>
            let k = length (heap F);
                p = (makeProvider S (filterOwner F) i)\<lparr>providerName := name\<rparr>
            in (Inr k, F\<lparr>heap := heap F @ [seedFromExistingObjects S (ub k) w (lastPresentObjects F) p],
                         providers := providers F @ [k], held := k # held F\<rparr>))"

fun removeNamed ::
  "('l, 's) ListenerSet \<Rightarrow> string \<Rightarrow> nat list \<Rightarrow> nat list \<Rightarrow> ('l, 's, 'w) ObjectFilter \<Rightarrow> ('l, 's, 'w) ObjectFilter" where
  "removeNamed S name seen [] F = F"
| "removeNamed S name seen (k # ks) F =
    (let p = heap F ! k
     in if live F k \<and> providerName p \<noteq> [] \<and> providerName p = name
        then (update k (\<lambda>p. p\<lparr>providerName := []\<rparr>) F)
               \<lparr>providers := (if hasListeners S p then providers F else rev seen @ ks)\<rparr>
        else removeNamed S name (k # seen) ks F)"

definition removeNamedProvider ::
  "('l, 's) ListenerSet \<Rightarrow> string \<Rightarrow> ('l, 's, 'w) ObjectFilter \<Rightarrow> ('l, 's, 'w) ObjectFilter" where
  "removeNamedProvider S name F = removeNamed S name [] (providers F) F"

definition addSubscriber ::
  "('l, 's) ListenerSet \<Rightarrow> (nat \<Rightarrow> u32 \<Rightarrow> bool) \<Rightarrow> 'w \<Rightarrow> Interest \<Rightarrow> 'l \<Rightarrow> bool \<Rightarrow> ('l, 's, 'w) ObjectFilter
     \<Rightarrow> ('l, 's, 'w) ObjectFilter" where
  "addSubscriber S ub w i l notifyAboutExisting F0 =
    (let F = pruneExpiredProviders F0
     in case List.find (hasInterest i F) (ownedProviders F) of
          Some k \<Rightarrow> update k (addListener S l notifyAboutExisting) F
        | None \<Rightarrow>
            let k = length (heap F);
                p = addListener S l notifyAboutExisting (makeProvider S (filterOwner F) i);
                p1 = (if notifyAboutExisting then seedFromExistingObjects S (ub k) w (lastPresentObjects F) p else p)
            in F\<lparr>heap := heap F @ [p1], providers := providers F @ [k], ownedProviders := ownedProviders F @ [k]\<rparr>)"

definition removeSubscriber ::
  "('l, 's) ListenerSet \<Rightarrow> Interest \<Rightarrow> 'l \<Rightarrow> bool \<Rightarrow> ('l, 's, 'w) ObjectFilter \<Rightarrow> ('l, 's, 'w) ObjectFilter" where
  "removeSubscriber S i l notifyAboutExisting F =
     dropOwned S (\<lambda>p. providerName p = [] \<and> \<not> hasListeners S p)
       (forEachLive (\<lambda>k p. if interestEq (interest p) i then removeListener S l notifyAboutExisting p else p)
          (providers F) F)"

definition removeSubscriberFromAll ::
  "('l, 's) ListenerSet \<Rightarrow> 'l \<Rightarrow> bool \<Rightarrow> ('l, 's, 'w) ObjectFilter \<Rightarrow> ('l, 's, 'w) ObjectFilter" where
  "removeSubscriberFromAll S l notifyAboutExisting F =
     dropOwned S (\<lambda>p. \<not> hasListeners S p)
       (forEachLive (\<lambda>k. removeListener S l notifyAboutExisting) (providers F) F)"

definition replaceSubscriber ::
  "('l, 's) ListenerSet \<Rightarrow> 'l \<Rightarrow> 'l \<Rightarrow> ('l, 's, 'w) ObjectFilter \<Rightarrow> ('l, 's, 'w) ObjectFilter" where
  "replaceSubscriber S old new F = forEachLive (\<lambda>k. replaceListener S old new) (providers F) F"

text \<open>\<open>insert\<close> of a range keeps the entries that are there.\<close>

definition insertMissing :: "('k \<times> 'v) list \<Rightarrow> ('k \<times> 'v) list \<Rightarrow> ('k \<times> 'v) list" where
  "insertMissing xs m = m @ filter (\<lambda>(k, _). k \<notin> fst ` set m) xs"

definition evaluate ::
  "('l, 's) ListenerSet \<Rightarrow> (nat \<Rightarrow> u32 \<Rightarrow> bool) \<Rightarrow> 'w \<Rightarrow> 'w ObjectSet \<Rightarrow> ('l, 's, 'w) ObjectFilter
     \<Rightarrow> ('l, 's, 'w) ObjectFilter" where
  "evaluate S ub w objs F0 =
    (let F = (pruneExpiredProviders F0)\<lparr>lastPresentObjects :=
               filter (\<lambda>(k, _). k \<notin> set (deletedObjects objs)) (currentObjects objs)\<rparr>;
         F1 = (if deletedObjects objs = [] then F
               else forEachLive (\<lambda>k. stopTrackingAndNotify S (deletedObjects objs)) (providers F) F);
         F2 = (if newObjects objs = [] then F1
               else (forEachLive (\<lambda>k. startTracking (newObjects objs)) (providers F1) F1)
                      \<lparr>lastPresentObjects := insertMissing (newObjects objs) (lastPresentObjects F1)\<rparr>)
     in forEachLive (\<lambda>k. evaluateTrackedObjects S (ub k) w) (providers F2) F2)"

definition hasActiveListeners :: "('l, 's) ListenerSet \<Rightarrow> ('l, 's, 'w) ObjectFilter \<Rightarrow> bool" where
  "hasActiveListeners S F \<longleftrightarrow> (\<exists>k \<in> set (providers F). live F k \<and> hasListeners S (heap F ! k))"

text \<open>The end of a listener reaches the providers that are alive.\<close>

definition listenerDestroyed ::
  "('l, 's) ListenerSet \<Rightarrow> 'l \<Rightarrow> ('l, 's, 'w) ObjectFilter \<Rightarrow> ('l, 's, 'w) ObjectFilter" where
  "listenerDestroyed S l F = forEachLive (\<lambda>k. destroyListener S l) [0..<length (heap F)] F"

text \<open>A subscription that moves: it released its old source before, takes the links along and is replaced.\<close>

definition moveSubscription ::
  "('l, 's) ListenerSet \<Rightarrow> 'l \<Rightarrow> 'l \<Rightarrow> ('l, 's, 'w) ObjectFilter \<Rightarrow> ('l, 's, 'w) ObjectFilter" where
  "moveSubscription S old new F =
     replaceSubscriber S old new
       (forEachLive (\<lambda>k. moveListener old new) [0..<length (heap F)] (removeSubscriberFromAll S new True F))"

section \<open>Runs\<close>

text \<open>
  Sequences of calls.  \<open>tells\<close>, \<open>moves\<close> and \<open>ends\<close> restrict who may subscribe with which flag, be replaced
  and go away; the objects and their state change freely between the calls.
\<close>

inductive filterRun ::
  "('l, 's) ListenerSet \<Rightarrow> ('l \<Rightarrow> bool \<Rightarrow> bool) \<Rightarrow> ('l \<Rightarrow> 'l \<Rightarrow> bool) \<Rightarrow> ('l \<Rightarrow> bool) \<Rightarrow> ('l, 's, 'w) ObjectFilter \<Rightarrow> bool"
  for S tells moves ends where
  created: "filterRun S tells moves ends (newFilter owner)"
| named: "filterRun S tells moves ends F \<Longrightarrow>
    filterRun S tells moves ends (snd (getOrCreateNamedProvider S ub w name i F))"
| unnamed: "filterRun S tells moves ends F \<Longrightarrow> filterRun S tells moves ends (removeNamedProvider S name F)"
| released: "filterRun S tells moves ends F \<Longrightarrow> filterRun S tells moves ends (releaseProvider S k F)"
| subscribed: "filterRun S tells moves ends F \<Longrightarrow> tells l b \<Longrightarrow>
    filterRun S tells moves ends (addSubscriber S ub w i l b F)"
| unsubscribed: "filterRun S tells moves ends F \<Longrightarrow> tells l b \<Longrightarrow>
    filterRun S tells moves ends (removeSubscriber S i l b F)"
| left: "filterRun S tells moves ends F \<Longrightarrow> tells l b \<Longrightarrow>
    filterRun S tells moves ends (removeSubscriberFromAll S l b F)"
| replaced: "filterRun S tells moves ends F \<Longrightarrow> moves old new \<Longrightarrow>
    filterRun S tells moves ends (replaceSubscriber S old new F)"
| gone: "filterRun S tells moves ends F \<Longrightarrow> ends l \<Longrightarrow> filterRun S tells moves ends (listenerDestroyed S l F)"
| evaluated: "filterRun S tells moves ends F \<Longrightarrow> filterRun S tells moves ends (evaluate S ub w objs F)"

text \<open>References lead into the heap.\<close>

definition filterOk :: "('l, 's, 'w) ObjectFilter \<Rightarrow> bool" where
  "filterOk F \<longleftrightarrow> (\<forall>k. live F k \<or> k \<in> set (providers F) \<longrightarrow> k < length (heap F))"

text \<open>The providers that are alive have one property, those that are gone another.\<close>

definition allLive ::
  "(('l, 's, 'w) FilteredProvider \<Rightarrow> bool) \<Rightarrow> (('l, 's, 'w) FilteredProvider \<Rightarrow> bool) \<Rightarrow> ('l, 's, 'w) ObjectFilter \<Rightarrow> bool" where
  "allLive I D F \<longleftrightarrow> filterOk F \<and> (\<forall>k < length (heap F). if live F k then I (heap F ! k) else D (heap F ! k))"

lemma find_Some_in: "List.find P xs = Some x \<Longrightarrow> x \<in> set xs"
  by (auto simp: find_Some_iff)

lemma live_simps [simp]:
  "live (F\<lparr>lastPresentObjects := o'\<rparr>) = live F" "live (F\<lparr>heap := h\<rparr>) = live F" "live (F\<lparr>providers := ps\<rparr>) = live F"
  by (simp_all add: live_def fun_eq_iff)

lemma update_simps [simp]:
  "live (update k f F) = live F" "providers (update k f F) = providers F"
  "ownedProviders (update k f F) = ownedProviders F" "held (update k f F) = held F"
  "lastPresentObjects (update k f F) = lastPresentObjects F" "length (heap (update k f F)) = length (heap F)"
  "filterOwner (update k f F) = filterOwner F"
  by (simp_all add: update_def live_def fun_eq_iff)

lemma heap_update: "heap (update k f F) ! j = (if j = k \<and> k < length (heap F) then f (heap F ! k) else heap F ! j)"
  by (cases "k < length (heap F)") (auto simp: update_def nth_list_update list_update_beyond)

lemma forEachLive_simps [simp]:
  "live (forEachLive f ks F) = live F" "providers (forEachLive f ks F) = providers F"
  "ownedProviders (forEachLive f ks F) = ownedProviders F" "held (forEachLive f ks F) = held F"
  "lastPresentObjects (forEachLive f ks F) = lastPresentObjects F" "length (heap (forEachLive f ks F)) = length (heap F)"
  "filterOwner (forEachLive f ks F) = filterOwner F"
  by (induction ks arbitrary: F) simp_all

lemma allLive_update:
  assumes "allLive I D F" "live F k" "I (heap F ! k) \<Longrightarrow> I (f (heap F ! k))"
  shows "allLive I D (update k f F)"
  using assms by (auto simp: allLive_def filterOk_def heap_update)

lemma allLive_forEachLive:
  assumes "\<And>k p. I p \<Longrightarrow> I (f k p)"
  shows "allLive I D F \<Longrightarrow> allLive I D (forEachLive f ks F)"
  using assms by (induction ks arbitrary: F) (simp_all add: allLive_update)

lemma allLive_prune: "allLive I D F \<Longrightarrow> allLive I D (pruneExpiredProviders F)"
  by (auto simp: allLive_def filterOk_def pruneExpiredProviders_def)

lemma allLive_last: "allLive I D (F\<lparr>lastPresentObjects := o'\<rparr>) \<longleftrightarrow> allLive I D F"
  by (simp add: allLive_def filterOk_def)

lemma providerDeleted_gone: "\<not> live F k \<Longrightarrow> providerDeleted k F = F"
proof -
  assume "\<not> live F k"
  then have "filter (\<lambda>j. \<not> (live F j \<and> j = k)) (providers F) = providers F"
    by (auto simp: filter_id_conv)
  then show ?thesis
    by (simp add: providerDeleted_def)
qed

lemma dispose_live [simp]:
  "live (dispose S ks F) = live F" "providers (dispose S ks F) = providers F"
  "length (heap (dispose S ks F)) = length (heap F)" "lastPresentObjects (dispose S ks F) = lastPresentObjects F"
  by (induction ks arbitrary: F) (simp_all add: providerDeleted_gone)

lemma allLive_dispose:
  assumes "filterOk F" "distinct ks" "\<And>p. I p \<Longrightarrow> D (destroyProvider S p)"
    "\<forall>k < length (heap F). if live F k \<or> k \<in> set ks then I (heap F ! k) else D (heap F ! k)"
  shows "allLive I D (dispose S ks F)"
  using assms
proof (induction ks arbitrary: F)
  case (Cons k ks)
  define G where "G = (if live F k then F else update k (destroyProvider S) F)"
  have "allLive I D (dispose S ks G)"
  proof (rule Cons.IH)
    show "\<forall>j < length (heap G). if live G j \<or> j \<in> set ks then I (heap G ! j) else D (heap G ! j)"
      using Cons.prems(2-4) by (cases "live F k") (auto simp: G_def heap_update, metis)
  qed (use Cons.prems in \<open>auto simp: G_def filterOk_def\<close>)
  then show ?case
    by (simp add: G_def providerDeleted_gone split: if_splits)
qed (simp add: allLive_def)

lemma allLive_dropped:
  assumes "allLive I D F" "distinct ks" "\<And>p. I p \<Longrightarrow> D (destroyProvider S p)"
    "heap G = heap F" "providers G = providers F" "\<And>k. live F k \<longleftrightarrow> live G k \<or> k \<in> set ks"
  shows "allLive I D (dispose S ks G)"
proof (rule allLive_dispose)
  show "filterOk G"
    using assms(1,4-6) by (auto simp: allLive_def filterOk_def)
  show "\<forall>k < length (heap G). if live G k \<or> k \<in> set ks then I (heap G ! k) else D (heap G ! k)"
    using assms(1,4,6) by (auto simp: allLive_def)
qed (use assms(2,3) in auto)

lemma allLive_fewer:
  "allLive I D F \<Longrightarrow> live G = live F \<Longrightarrow> heap G = heap F \<Longrightarrow> set (providers G) \<subseteq> set (providers F) \<Longrightarrow> allLive I D G"
  by (auto simp: allLive_def filterOk_def)

lemma allLive_dropOwned:
  assumes "allLive I D F" "\<And>p. I p \<Longrightarrow> D (destroyProvider S p)"
  shows "allLive I D (dropOwned S gone F)"
  unfolding dropOwned_def
  by (rule allLive_dropped [OF assms(1) _ assms(2)]) (auto simp: live_def)

lemma allLive_release:
  assumes "allLive I D F" "\<And>p. I p \<Longrightarrow> D (destroyProvider S p)"
  shows "allLive I D (releaseProvider S k F)"
proof (cases "k \<in> set (held F)")
  case True
  have "j \<in> set (remove1 k (held F)) \<or> j = k \<longleftrightarrow> j \<in> set (held F)" for j
    using True by (cases "j = k") (auto dest: subsetD [OF set_remove1_subset])
  then show ?thesis
    using True unfolding releaseProvider_def
    by (auto intro!: allLive_dropped [OF assms(1) _ assms(2)] simp: live_def simp del: dispose.simps)
qed (simp add: releaseProvider_def assms(1))

text \<open>A new provider: its place in the heap is the next one.\<close>

lemma allLive_new:
  assumes "allLive I D F" "I p" "heap G = heap F @ [p]" "set (providers G) \<subseteq> insert (length (heap F)) (set (providers F))"
    "\<And>k. live G k \<longleftrightarrow> live F k \<or> k = length (heap F)"
  shows "allLive I D G"
  using assms by (auto simp: allLive_def filterOk_def less_Suc_eq nth_append)

section \<open>Invariants of providers, for the filter\<close>

text \<open>
  What the filter relies on to keep a property of its providers: every operation of a provider keeps it.
\<close>

locale provider_invariant =
  fixes S :: "('l, 's) ListenerSet"
    and I D :: "('l, 's, 'w) FilteredProvider \<Rightarrow> bool"
    and tells :: "'l \<Rightarrow> bool \<Rightarrow> bool"
    and moves :: "'l \<Rightarrow> 'l \<Rightarrow> bool"
    and ends :: "'l \<Rightarrow> bool"
  assumes make: "I (makeProvider S owner i)"
    and rename: "I p \<Longrightarrow> I (p\<lparr>providerName := n\<rparr>)"
    and start: "I p \<Longrightarrow> I (startTracking objs p)"
    and stop: "I p \<Longrightarrow> I (stopTrackingAndNotify S ids p)"
    and evaluation: "I p \<Longrightarrow> I (evaluateTrackedObjects S ub' w p)"
    and add: "I p \<Longrightarrow> tells l b \<Longrightarrow> I (addListener S l b p)"
    and remove: "I p \<Longrightarrow> tells l b \<Longrightarrow> I (removeListener S l b p)"
    and replacement: "I p \<Longrightarrow> moves old new \<Longrightarrow> I (replaceListener S old new p)"
    and destroy: "I p \<Longrightarrow> ends l \<Longrightarrow> I (destroyListener S l p)"
    and destructor: "I p \<Longrightarrow> D (destroyProvider S p)"
begin

lemma seed: "I p \<Longrightarrow> I (seedFromExistingObjects S ub' w objs p)"
  by (simp add: seedFromExistingObjects_def start evaluation)

lemma addSubscriber_keeps:
  assumes "allLive I D F" "tells l b"
  shows "allLive I D (addSubscriber S ub w i l b F)"
proof -
  define G where "G = pruneExpiredProviders F"
  have G: "allLive I D G"
    unfolding G_def by (rule allLive_prune [OF assms(1)])
  show ?thesis
  proof (cases "List.find (hasInterest i G) (ownedProviders G)")
    case (Some k)
    then show ?thesis
      using allLive_update [OF G, of k] add assms(2) find_Some_in [OF Some]
      by (simp add: addSubscriber_def G_def [symmetric] live_def)
  next
    case None
    then show ?thesis
      using seed add make assms(2)
      by (intro allLive_new [OF G, of "let p = addListener S l b (makeProvider S (filterOwner G) i) in
          if b then seedFromExistingObjects S (ub (length (heap G))) w (lastPresentObjects G) p else p"])
        (auto simp: addSubscriber_def G_def [symmetric] live_def Let_def)
  qed
qed

lemma named_keeps:
  assumes "allLive I D F"
  shows "allLive I D (snd (getOrCreateNamedProvider S ub w name i F))"
proof -
  define G where "G = pruneExpiredProviders F"
  have G: "allLive I D G"
    unfolding G_def by (rule allLive_prune [OF assms])
  show ?thesis
  proof (cases "List.find (\<lambda>k. live G k \<and> hasInterest i G k) (providers G)")
    case (Some k)
    define H where
      "H = update k (\<lambda>p. if providerName (heap G ! k) = [] then p\<lparr>providerName := name\<rparr> else p) G"
    have "allLive I D H"
      unfolding H_def using Some by (intro allLive_update [OF G]) (auto simp: rename find_Some_iff)
    moreover have "live (H\<lparr>held := k # held G\<rparr>) = live H"
      using Some by (auto simp: H_def find_Some_iff live_def fun_eq_iff)
    ultimately have "allLive I D (H\<lparr>held := k # held G\<rparr>)"
      by (auto elim!: allLive_fewer)
    then show ?thesis
      using Some G by (simp add: getOrCreateNamedProvider_def G_def [symmetric] H_def Let_def)
  next
    case None
    then show ?thesis
      using seed [OF rename [OF make]]
      by (intro allLive_new [OF G, of "seedFromExistingObjects S (ub (length (heap G))) w (lastPresentObjects G)
          ((makeProvider S (filterOwner G) i)\<lparr>providerName := name\<rparr>)"])
        (auto simp: getOrCreateNamedProvider_def G_def [symmetric] live_def Let_def)
  qed
qed

lemma removeNamed_keeps:
  "allLive I D F \<Longrightarrow> set seen \<union> set ks \<subseteq> set (providers F) \<Longrightarrow> allLive I D (removeNamed S name seen ks F)"
proof (induction ks arbitrary: seen)
  case (Cons k ks)
  define H where "H = update k (\<lambda>p. p\<lparr>providerName := []\<rparr>) F"
  have "allLive I D H" if "live F k"
    unfolding H_def by (rule allLive_update [OF Cons.prems(1) that]) (simp add: rename)
  then have "allLive I D (H\<lparr>providers := (if hasListeners S (heap F ! k) then providers F else rev seen @ ks)\<rparr>)" if "live F k"
    using Cons.prems(2) that by (auto elim!: allLive_fewer simp: H_def)
  then show ?case
    using Cons by (simp add: H_def Let_def)
qed simp

lemma evaluate_keeps: "allLive I D F \<Longrightarrow> allLive I D (evaluate S ub w objs F)"
  unfolding evaluate_def Let_def
  by (rule allLive_forEachLive)
    (simp_all add: evaluation allLive_last allLive_prune allLive_forEachLive stop start)

theorem run_keeps: "filterRun S tells moves ends F \<Longrightarrow> allLive I D F"
proof (induction rule: filterRun.induct)
  case (created owner)
  then show ?case
    by (simp add: allLive_def filterOk_def live_def newFilter_def)
next
  case (unnamed F name)
  then show ?case
    by (simp add: removeNamedProvider_def removeNamed_keeps)
next
  case (unsubscribed F l b i)
  then show ?case
    unfolding removeSubscriber_def by (intro allLive_dropOwned allLive_forEachLive) (simp_all add: remove destructor)
next
  case (left F l b)
  then show ?case
    unfolding removeSubscriberFromAll_def by (intro allLive_dropOwned allLive_forEachLive) (simp_all add: remove destructor)
next
  case (replaced F old new)
  then show ?case
    unfolding replaceSubscriber_def by (intro allLive_forEachLive) (simp_all add: replacement)
next
  case (gone F l)
  then show ?case
    unfolding listenerDestroyed_def by (intro allLive_forEachLive) (simp_all add: destroy)
qed (simp_all add: named_keeps allLive_release destructor addSubscriber_keeps evaluate_keeps)

end

text \<open>
  First invariant: the listener \<open>l\<close> knows the objects that are present, as long as it is told about the
  existing ones and is neither replaced nor destroyed.
\<close>

definition wellInformed :: "('l, 's) ListenerSet \<Rightarrow> ('s \<Rightarrow> bool) \<Rightarrow> 'l \<Rightarrow> ('l, 's, 'w) FilteredProvider \<Rightarrow> bool" where
  "wellInformed S good l p \<longleftrightarrow> (listenerSetLaws S good \<longrightarrow> providerOk good p \<and> informed S l p)"

definition cleared :: "('l, 's) ListenerSet \<Rightarrow> ('s \<Rightarrow> bool) \<Rightarrow> 'l \<Rightarrow> ('l, 's, 'w) FilteredProvider \<Rightarrow> bool" where
  "cleared S good l p \<longleftrightarrow> (listenerSetLaws S good \<longrightarrow> view l {} (told p) = Some {})"

interpretation listener_informed: provider_invariant S "wellInformed S good l" "cleared S good l"
  "\<lambda>l' b. l' = l \<longrightarrow> b" "\<lambda>old new. old \<noteq> l \<and> new \<noteq> l" "\<lambda>l'. l' \<noteq> l" for S good l
proof unfold_locales
  fix owner i
  show "wellInformed S good l (makeProvider S owner i)"
    by (simp add: wellInformed_def makeProvider_def providerOk_def informed_def expectedView_def objectsOk_def
        listenerSetLaws_def)
next
  fix p n
  assume "wellInformed S good l p"
  then show "wellInformed S good l (p\<lparr>providerName := n\<rparr>)"
    by (simp add: wellInformed_def providerOk_def informed_def expectedView_def)
qed (unfold wellInformed_def cleared_def, (meson startTracking_informed stopTracking_informed evaluate_informed
    addListener_informed removeListener_informed replaceListener_informed destroyListener_informed destroyProvider_view)+)

text \<open>
  Second invariant: the provider is in the lists of exactly its listeners.  Moves are left out, since
  they change one side after the other.
\<close>

definition linksAgree :: "('l, 's) ListenerSet \<Rightarrow> ('s \<Rightarrow> bool) \<Rightarrow> ('l, 's, 'w) FilteredProvider \<Rightarrow> bool" where
  "linksAgree S good p \<longleftrightarrow> (listenerSetLaws S good \<longrightarrow> good (listeners p) \<and> linked p = set (items S (listeners p)))"

definition unlinked :: "('l, 's) ListenerSet \<Rightarrow> ('s \<Rightarrow> bool) \<Rightarrow> ('l, 's, 'w) FilteredProvider \<Rightarrow> bool" where
  "unlinked S good p \<longleftrightarrow> (listenerSetLaws S good \<longrightarrow> linked p = {})"

lemma startTracking_links [simp]: "listeners (startTracking objs p) = listeners p" "linked (startTracking objs p) = linked p"
  by (induction objs p rule: startTracking.induct) (simp_all split: prod.splits)

lemma destroyProvider_links: "linked (destroyProvider S p) = linked p - set (items S (listeners p))"
proof -
  have "listeners (fold notifyRemovedOnExistingObjects ls p) = listeners p
      \<and> linked (fold notifyRemovedOnExistingObjects ls p) = linked p" for ls
    by (induction ls arbitrary: p) (simp_all add: notifyRemovedOnExistingObjects_def)
  then show ?thesis
    by (simp add: destroyProvider_def notifyRemovedOnExistingObjectsForAllListeners_def Let_def)
qed

interpretation links: provider_invariant S "linksAgree S good" "unlinked S good"
  "\<lambda>l b. True" "\<lambda>old new. False" "\<lambda>l. True" for S good
proof unfold_locales
  fix p l b
  assume "linksAgree S good p"
  then show "linksAgree S good (addListener S l b p)" "linksAgree S good (removeListener S l b p)"
      "linksAgree S good (destroyListener S l p)"
    using laws(2-7) [of S good "listeners p" l]
    by (auto simp: linksAgree_def destroyListener_def listenerDeleted_def)
qed (auto simp: linksAgree_def unlinked_def makeProvider_def listenerSetLaws_def destroyProvider_links
    stopTrackingAndNotify_upToDate)

section \<open>One pass over the providers\<close>

lemma heap_forEachLive:
  "distinct ks \<Longrightarrow> heap (forEachLive f ks F) ! k =
     (if k \<in> set ks \<and> live F k \<and> k < length (heap F) then f k (heap F ! k) else heap F ! k)"
  by (induction ks arbitrary: F) (auto simp: heap_update)

lemma stopTracking_drops:
  "fst ` set (trackedObjects (snd (stopTracking ks p))) = fst ` set (trackedObjects p) - set ks"
proof (induction ks arbitrary: p)
  case (Cons k ks)
  show ?case
  proof (cases "map_of (trackedObjects p) k")
    case None
    then have "k \<notin> fst ` set (trackedObjects p)"
      by (simp add: map_of_eq_None_iff)
    then show ?thesis
      using None by (auto simp: Cons.IH)
  next
    case (Some t)
    define q where "q = p\<lparr>trackedObjects := dropKey k (trackedObjects p),
      currentAdditions := (if (if notified t then map_of (currentAdditions p) k else None) = None
        then currentAdditions p else dropKey k (currentAdditions p))\<rparr>"
    have "snd (stopTracking (k # ks) p) = snd (stopTracking ks q)"
      using Some by (simp add: q_def Let_def split: prod.splits)
    then show ?thesis
      using Cons.IH [of q] by (auto simp: q_def)
  qed
qed simp

lemma stopTrackingAndNotify_drops:
  "fst ` set (trackedObjects (stopTrackingAndNotify S ks p)) = fst ` set (trackedObjects p) - set ks"
  using stopTracking_drops [of ks p]
  by (cases "stopTracking ks p") (simp add: stopTrackingAndNotify_def notifyObjectsRemoved_def)

abbreviation admits :: "Interest \<Rightarrow> 'w Object \<Rightarrow> bool" where
  "admits i obj \<equiv> isNative obj \<and> checkTypeCondition (typeCondition i) (objectClass obj)"

lemma createTrackedObject_interest:
  "typeCondition (snd (createTrackedObject obj i)) = typeCondition i"
  by (auto simp: createTrackedObject_def getOrComputeVarInfoList_def Let_def
      split: prod.splits if_splits option.splits sum.splits)

lemma startTracking_keys:
  "fst ` set (trackedObjects (startTracking objs p)) =
     fst ` set (trackedObjects p) \<union> {k. \<exists>obj. (k, obj) \<in> set objs \<and> admits (interest p) obj}"
proof (induction objs p rule: startTracking.induct)
  case (2 k obj objs p)
  obtain t i where ti: "createTrackedObject obj (interest p) = (t, i)"
    by (cases "createTrackedObject obj (interest p)")
  have same: "typeCondition i = typeCondition (interest p)"
    using createTrackedObject_interest [of obj "interest p"] ti by simp
  let ?q = "p\<lparr>interest := i, trackedObjects := trackedObjects p @ [(k, t)]\<rparr>"
  let ?skip = "\<not> isNative obj \<or> k \<in> fst ` set (trackedObjects p)
     \<or> \<not> checkTypeCondition (typeCondition (interest p)) (objectClass obj)"
  show ?case
  proof (cases ?skip)
    case True
    then have "startTracking ((k, obj) # objs) p = startTracking objs p"
      by simp
    then show ?thesis
      using 2(1) [OF True] True by auto
  next
    case False
    then have "startTracking ((k, obj) # objs) p = startTracking objs ?q"
      by (simp add: ti)
    then show ?thesis
      using 2(2) [OF False ti [symmetric] refl] False same by auto
  qed
qed simp

lemma evaluateEach_keys: "fst ` set (presentObjects (evaluateEach ub p w ts)) \<subseteq> fst ` set ts"
proof (induction ts)
  case (Cons x ts)
  then show ?case
    by (cases x) (auto simp: Let_def split: prod.splits)
qed simp

text \<open>The three walks of a pass, on one provider.\<close>

definition passOver ::
  "('l, 's) ListenerSet \<Rightarrow> (u32 \<Rightarrow> bool) \<Rightarrow> 'w \<Rightarrow> 'w ObjectSet \<Rightarrow> ('l, 's, 'w) FilteredProvider
     \<Rightarrow> ('l, 's, 'w) FilteredProvider" where
  "passOver S ub w objs p = evaluateTrackedObjects S ub w
     ((if newObjects objs = [] then (\<lambda>q. q) else startTracking (newObjects objs))
       ((if deletedObjects objs = [] then (\<lambda>q. q) else stopTrackingAndNotify S (deletedObjects objs)) p))"

lemma heap_evaluate:
  assumes "distinct (providers F)" "k < length (heap F)"
  shows "heap (evaluate S ub w objs F) ! k =
    (if k \<in> set (providers F) \<and> live F k then passOver S (ub k) w objs (heap F ! k) else heap F ! k)"
proof -
  define walk where "walk f G = forEachLive f (providers G) G"
    for f :: "nat \<Rightarrow> ('a, 'b, 'c) FilteredProvider \<Rightarrow> ('a, 'b, 'c) FilteredProvider" and G
  define F0 where "F0 = (pruneExpiredProviders F)\<lparr>lastPresentObjects :=
    filter (\<lambda>(k, _). k \<notin> set (deletedObjects objs)) (currentObjects objs)\<rparr>"
  define F1 where "F1 = (if deletedObjects objs = [] then F0
    else walk (\<lambda>k. stopTrackingAndNotify S (deletedObjects objs)) F0)"
  define F2 where "F2 = (if newObjects objs = [] then F1 else (walk (\<lambda>k. startTracking (newObjects objs)) F1)
    \<lparr>lastPresentObjects := insertMissing (newObjects objs) (lastPresentObjects F1)\<rparr>)"
  have heap_walk: "heap (walk f G) ! k = (if k \<in> set (providers G) \<and> live G k then f k (heap G ! k) else heap G ! k)"
    if "providers G = providers F0" "live G = live F0" "length (heap G) = length (heap F)" for f G
    using that assms by (simp add: walk_def heap_forEachLive F0_def pruneExpiredProviders_def)
  have F0: "set (providers F0) = {k \<in> set (providers F). live F k}" "live F0 = live F" "heap F0 = heap F"
    by (auto simp: F0_def pruneExpiredProviders_def)
  have F1: "providers F1 = providers F0" "live F1 = live F0" "length (heap F1) = length (heap F)"
    by (simp_all add: F1_def walk_def F0)
  have F2: "providers F2 = providers F0" "live F2 = live F0" "length (heap F2) = length (heap F)"
    by (simp_all add: F2_def walk_def F1)
  have "heap F1 ! k = (if k \<in> set (providers F) \<and> live F k \<and> deletedObjects objs \<noteq> []
      then stopTrackingAndNotify S (deletedObjects objs) (heap F ! k) else heap F ! k)"
    by (simp add: F1_def heap_walk F0)
  moreover have "heap F2 ! k = (if k \<in> set (providers F) \<and> live F k \<and> newObjects objs \<noteq> []
      then startTracking (newObjects objs) (heap F1 ! k) else heap F1 ! k)"
    by (simp add: F2_def heap_walk [OF F1] F0 F1)
  moreover have "heap (walk (\<lambda>k. evaluateTrackedObjects S (ub k) w) F2) ! k =
      (if k \<in> set (providers F) \<and> live F k then evaluateTrackedObjects S (ub k) w (heap F2 ! k) else heap F2 ! k)"
    by (simp add: heap_walk [OF F2] F0 F2)
  moreover have "evaluate S ub w objs F = walk (\<lambda>k. evaluateTrackedObjects S (ub k) w) F2"
    by (simp only: evaluate_def Let_def F2_def F1_def F0_def walk_def)
  ultimately show ?thesis
    by (simp add: passOver_def)
qed

lemma filter_keys: "fst ` set (filter (\<lambda>(k, _). k \<notin> K) xs) = fst ` set xs - K"
  by force

lemma insertMissing_keys: "fst ` set (insertMissing xs m) = fst ` set m \<union> fst ` set xs"
  unfolding insertMissing_def set_append image_Un filter_keys by blast

lemma last_evaluate:
  "fst ` set (lastPresentObjects (evaluate S ub w objs F)) =
     (fst ` set (currentObjects objs) - set (deletedObjects objs)) \<union> fst ` set (newObjects objs)"
  unfolding evaluate_def Let_def by (simp add: insertMissing_keys filter_keys del: set_filter)

text \<open>Every provider is listed once.\<close>

lemma removeNamed_providers:
  "providers F = rev seen @ ks \<Longrightarrow>
   \<exists>xs ys zs. providers F = xs @ ys @ zs \<and> providers (removeNamed S name seen ks F) = xs @ zs"
proof (induction ks arbitrary: seen)
  case Nil
  then show ?case
    by (metis append_Nil removeNamed.simps(1))
next
  case (Cons k ks)
  have "\<exists>xs ys zs. rev seen @ k # ks = xs @ ys @ zs \<and> rev seen @ ks = xs @ zs"
    by (metis append.assoc append_Cons append_Nil)
  moreover have "\<exists>xs ys zs. rev seen @ k # ks = xs @ ys @ zs \<and> rev seen @ k # ks = xs @ zs"
    by (metis append_Nil)
  ultimately show ?case
    using Cons.IH [of "k # seen"] Cons.prems by (auto simp: Let_def)
qed

lemma dropOwned_providers [simp]: "providers (dropOwned S gone F) = providers F"
  by (simp add: dropOwned_def)

lemma releaseProvider_providers [simp]: "providers (releaseProvider S k F) = providers F"
  by (simp add: releaseProvider_def del: dispose.simps)

lemma evaluate_providers: "providers (evaluate S ub w objs F) = filter (live F) (providers F)"
  by (simp add: evaluate_def Let_def pruneExpiredProviders_def)

lemma new_not_listed: "filterOk F \<Longrightarrow> length (heap F) \<notin> set (providers F)"
  by (auto simp: filterOk_def)

text \<open>The trivial invariant of providers gives that references lead into the heap.\<close>

interpretation references: provider_invariant S "\<lambda>_. True" "\<lambda>_. True" tells moves ends for S tells moves ends
  by unfold_locales simp_all

lemma run_filterOk: "filterRun S tells moves ends F \<Longrightarrow> filterOk F"
  using references.run_keeps by (auto simp: allLive_def)

lemma run_distinct: "filterRun S tells moves ends F \<Longrightarrow> distinct (providers F)"
proof (induction rule: filterRun.induct)
  case (named F ub w name i)
  then show ?case
    using new_not_listed [OF run_filterOk [OF named.hyps]]
    by (auto simp: getOrCreateNamedProvider_def Let_def pruneExpiredProviders_def split: option.splits)
next
  case (unnamed F name)
  then show ?case
    using removeNamed_providers [of F "[]" "providers F" S name] by (auto simp: removeNamedProvider_def)
next
  case (subscribed F l b ub w i)
  then show ?case
    using new_not_listed [OF run_filterOk [OF subscribed.hyps(1)]]
    by (auto simp: addSubscriber_def Let_def pruneExpiredProviders_def split: option.splits)
qed (simp_all add: newFilter_def removeSubscriber_def removeSubscriberFromAll_def replaceSubscriber_def
    listenerDestroyed_def evaluate_providers)

lemma listener_told:
  assumes "listenerSetLaws S good"
    "filterRun S (\<lambda>l' b. l' = l \<longrightarrow> b) (\<lambda>old new. old \<noteq> l \<and> new \<noteq> l) (\<lambda>l'. l' \<noteq> l) F" "k < length (heap F)"
  shows "view l {} (told (heap F ! k)) =
    Some (if live F k \<and> hasListener S l (heap F ! k) then presentIds (heap F ! k) else {})"
proof -
  have "allLive (wellInformed S good l) (cleared S good l) F"
    by (rule listener_informed.run_keeps [OF assms(2)])
  then have "if live F k then informed S l (heap F ! k) else view l {} (told (heap F ! k)) = Some {}"
    using assms(1,3) by (auto simp: allLive_def wellInformed_def cleared_def)
  then show ?thesis
    by (cases "live F k") (simp_all add: informed_def expectedView_def hasListener_def)
qed

section \<open>Properties\<close>


definition exampleWanted :: Interest where
  "exampleWanted = interest exampleProvider"

definition exampleObjects :: "nat ObjectSet" where
  "exampleObjects = \<lparr>newObjects = [(1, exampleObject 1), (5, exampleObject 5)], currentObjects = [], deletedObjects = []\<rparr>"

definition exampleFilter :: "(nat, nat list, nat) ObjectFilter" where
  "exampleFilter = evaluate listSet (\<lambda>_ _. False) 4 exampleObjects
     (addSubscriber listSet (\<lambda>_ _. False) 0 exampleWanted 7 True (newFilter 9))"

lemma exampleFilter_run: "filterRun listSet (\<lambda>l' b. l' = 7 \<longrightarrow> b) (\<lambda>old new. old \<noteq> 7 \<and> new \<noteq> 7) (\<lambda>l'. l' \<noteq> 7) exampleFilter"
  unfolding exampleFilter_def by (intro filterRun.evaluated filterRun.subscribed filterRun.created) simp

lemma exampleFilter_state:
  "live exampleFilter = (\<lambda>k. k = 0)" "providers exampleFilter = [0]" "length (heap exampleFilter) = 1"
  "hasListener listSet 7 (heap exampleFilter ! 0)"
  by (simp_all add: exampleFilter_def evaluate_def addSubscriber_def newFilter_def pruneExpiredProviders_def live_def
      exampleObjects_def fun_eq_iff hasListener_def heap_forEachLive heap_update makeProvider_def listSet_def
      seedFromExistingObjects_def Let_def del: startTracking.simps)





definition exampleDeletion :: "nat ObjectSet" where
  "exampleDeletion = \<lparr>newObjects = [], currentObjects = [(1, exampleObject 1), (5, exampleObject 5)], deletedObjects = [1]\<rparr>"


text \<open>
  C25. A provider the filter still owns can be dropped from the list it walks: after a provider got a name,
  lost its subscriber and then its name, it stays owned but unlisted.  The next subscriber with
  the same interest is attached to it, and no pass reaches it any more, so it hears of nothing, while
  the filter says that it has no active listeners.
\<close>

definition forgotten :: "(nat, nat list, nat) ObjectFilter" where
  "forgotten = addSubscriber listSet (\<lambda>_ _. False) 0 exampleWanted 8 True
     (releaseProvider listSet 0
       (removeNamedProvider listSet ''n''
         (removeSubscriber listSet exampleWanted 7 True
           (snd (getOrCreateNamedProvider listSet (\<lambda>_ _. False) 0 ''n'' exampleWanted
             (addSubscriber listSet (\<lambda>_ _. False) 0 exampleWanted 7 True (newFilter 9)))))))"

theorem forgotten_subscriber:
  "filterRun listSet (\<lambda>l b. b) (\<lambda>old new. False) (\<lambda>l. False) forgotten
   \<and> live forgotten 0 \<and> hasListener listSet 8 (heap forgotten ! 0) \<and> \<not> hasActiveListeners listSet forgotten
   \<and> heap (evaluate listSet ub w objs forgotten) ! 0 = heap forgotten ! 0"
proof -
  have run: "filterRun listSet (\<lambda>l b. b) (\<lambda>old new. False) (\<lambda>l. False) forgotten"
    unfolding forgotten_def
    by (intro filterRun.subscribed filterRun.released filterRun.unnamed filterRun.unsubscribed filterRun.named
        filterRun.created) simp_all
  have state: "ownedProviders forgotten = [0]" "providers forgotten = []" "hasListener listSet 8 (heap forgotten ! 0)"
      "length (heap forgotten) = 1"
    by (simp_all add: forgotten_def addSubscriber_def newFilter_def pruneExpiredProviders_def Let_def makeProvider_def
        seedFromExistingObjects_def evaluateTrackedObjects_def getOrCreateNamedProvider_def hasInterest_def interestEq_def
        live_def update_def removeSubscriber_def removeListener_def addListener_def listSet_def hasListeners_def
        dropOwned_def removeNamedProvider_def releaseProvider_def notifyAddedOnExistingObjects_def
        notifyRemovedOnExistingObjects_def hasListener_def)
  show ?thesis
    using run state heap_evaluate [OF run_distinct [OF run], of 0 listSet ub w objs]
    by (simp add: live_def hasActiveListeners_def)
qed

end
