(* ===== verification/Object_Mux.thy ===== *)
theory Object_Mux
  imports Filtered_Provider "HOL-Library.Multiset"
begin

text \<open>
  The multiplexer of object providers (ObjectMux and MuxedProviderListener in obj/object_mux.cpp).  It listens to
  several providers, keeps for each object the additions of the interests that match it, and tells its own
  listeners about an object when the first interest matches and when the last one stops; listeners of the second
  kind are told about the interests in between, too.

  The listeners of the base class are a library set, as in the theory of the filtered provider.  Callbacks are
  recorded in two logs, one for each kind of registration, and do not call back.  An access to the first element of
  an empty vector is undefined and has no result.  Locks are not modelled: an operation is one step.
\<close>

section \<open>State\<close>

datatype 'w MuxNotification =
    Base "'w Notification"
  | Readded "'w ObjectAddition list"
  | RefCountReduced "ObjectRemoval list"

type_synonym 'w muxEntries = "(u32 \<times> 'w ObjectAddition list) list"

record ('l, 's, 'w) ObjectMux =
  muxObjects :: "'w muxEntries"
  muxListeners :: 's
  muxLinked :: "'l set"
  muxedListeners :: "'l list"
  muxedLinked :: "'l set"
  muxTold :: "('l \<times> 'w Notification) list"
  muxedTold :: "('l \<times> 'w MuxNotification) list"
  muxAlive :: bool

text \<open>
  \<open>muxLinked\<close> and \<open>muxedLinked\<close> are the listeners whose own lists (providers_ and muxedProviders_) have this mux.
\<close>

definition newMux :: "('l, 's) ListenerSet \<Rightarrow> ('l, 's, 'w) ObjectMux" where
  "newMux S = \<lparr>muxObjects = [], muxListeners = noListeners S, muxLinked = {}, muxedListeners = [], muxedLinked = {},
     muxTold = [], muxedTold = [], muxAlive = True\<rparr>"

section \<open>Entries of the objects\<close>

text \<open>The subscript of the map creates an entry without additions when there is none.\<close>

definition entryOf :: "u32 \<Rightarrow> 'w muxEntries \<Rightarrow> 'w ObjectAddition list" where
  "entryOf k m = (case map_of m k of None \<Rightarrow> [] | Some as \<Rightarrow> as)"

fun setEntry :: "u32 \<Rightarrow> 'w ObjectAddition list \<Rightarrow> 'w muxEntries \<Rightarrow> 'w muxEntries" where
  "setEntry k as [] = [(k, as)]"
| "setEntry k as ((j, bs) # m) = (if j = k then (k, as) # m else (j, bs) # setEntry k as m)"

fun firstAdditions :: "'w muxEntries \<Rightarrow> 'w ObjectAddition list option" where
  "firstAdditions [] = Some []"
| "firstAdditions ((k, as) # m) = (case as of
     [] \<Rightarrow> None
   | a # _ \<Rightarrow> map_option (\<lambda>as. a # as) (firstAdditions m))"

definition laterAdditions :: "'w muxEntries \<Rightarrow> 'w ObjectAddition list" where
  "laterAdditions m = concat (map (\<lambda>(k, as). drop 1 as) m)"

definition laterRemovals :: "'w muxEntries \<Rightarrow> ObjectRemoval list" where
  "laterRemovals m = concat (map (\<lambda>(k, as). map makeRemoval (rev (drop 1 as))) m)"

text \<open>The loops of onObjectsAdded and onObjectsRemoved.\<close>

fun addEach :: "'w ObjectAddition list \<Rightarrow> 'w muxEntries
    \<Rightarrow> 'w muxEntries \<times> 'w ObjectAddition list \<times> 'w ObjectAddition list" where
  "addEach [] m = (m, [], [])"
| "addEach (a # as) m =
    (let l = entryOf (addedId a) m @ [a];
         (m', new, dup) = addEach as (setEntry (addedId a) l m)
     in if length l = 1 then (m', a # new, dup) else (m', new, a # dup))"

definition removes :: "ObjectRemoval \<Rightarrow> 'w ObjectAddition \<Rightarrow> bool" where
  "removes r a \<longleftrightarrow> removedId r = addedId a \<and> removedInterest r = addedInterest a"

fun eraseFirst :: "('a \<Rightarrow> bool) \<Rightarrow> 'a list \<Rightarrow> 'a list" where
  "eraseFirst P [] = []"
| "eraseFirst P (x # xs) = (if P x then xs else x # eraseFirst P xs)"

fun removeEach :: "ObjectRemoval list \<Rightarrow> 'w muxEntries
    \<Rightarrow> 'w muxEntries \<times> ObjectRemoval list \<times> ObjectRemoval list" where
  "removeEach [] m = (m, [], [])"
| "removeEach (r # rs) m =
    (let l = entryOf (removedId r) m; l' = eraseFirst (removes r) l in
     if \<not> (\<exists>a \<in> set l. removes r a) then removeEach rs (setEntry (removedId r) l m)
     else if l' = [] then
       (let (m', act, dup) = removeEach rs (dropKey (removedId r) m) in (m', r # act, dup))
     else
       (let (m', act, dup) = removeEach rs (setEntry (removedId r) l' m) in (m', act, r # dup)))"

section \<open>Notifications\<close>

definition tellMuxed :: "'w MuxNotification \<Rightarrow> ('l, 's, 'w) ObjectMux \<Rightarrow> ('l, 's, 'w) ObjectMux" where
  "tellMuxed n M = M\<lparr>muxedTold := muxedTold M @ map (\<lambda>l. (l, n)) (muxedListeners M)\<rparr>"

definition tellAll :: "('l, 's) ListenerSet \<Rightarrow> 'w Notification \<Rightarrow> ('l, 's, 'w) ObjectMux \<Rightarrow> ('l, 's, 'w) ObjectMux" where
  "tellAll S n M = tellMuxed (Base n) (M\<lparr>muxTold := muxTold M @ map (\<lambda>l. (l, n)) (items S (muxListeners M))\<rparr>)"

definition muxNotifyObjectsAdded ::
  "('l, 's) ListenerSet \<Rightarrow> 'w ObjectAddition list \<Rightarrow> ('l, 's, 'w) ObjectMux \<Rightarrow> ('l, 's, 'w) ObjectMux" where
  "muxNotifyObjectsAdded S additions = tellAll S (Added additions)"

definition muxNotifyObjectsRemoved ::
  "('l, 's) ListenerSet \<Rightarrow> ObjectRemoval list \<Rightarrow> ('l, 's, 'w) ObjectMux \<Rightarrow> ('l, 's, 'w) ObjectMux" where
  "muxNotifyObjectsRemoved S removals = tellAll S (Removed removals)"

definition notifyExistingObjectsReadded ::
  "'w ObjectAddition list \<Rightarrow> ('l, 's, 'w) ObjectMux \<Rightarrow> ('l, 's, 'w) ObjectMux" where
  "notifyExistingObjectsReadded additions = tellMuxed (Readded additions)"

definition notifyObjectsRefCountReduced ::
  "ObjectRemoval list \<Rightarrow> ('l, 's, 'w) ObjectMux \<Rightarrow> ('l, 's, 'w) ObjectMux" where
  "notifyObjectsRefCountReduced removals = tellMuxed (RefCountReduced removals)"

definition muxNotifyAddedOnExistingObjects ::
  "'l \<Rightarrow> ('l, 's, 'w) ObjectMux \<Rightarrow> ('l, 's, 'w) ObjectMux option" where
  "muxNotifyAddedOnExistingObjects l M =
    (if muxObjects M = [] then Some M
     else map_option (\<lambda>as. M\<lparr>muxTold := muxTold M @ [(l, Added as)]\<rparr>) (firstAdditions (muxObjects M)))"

definition muxNotifyRemovedOnExistingObjects ::
  "'l \<Rightarrow> ('l, 's, 'w) ObjectMux \<Rightarrow> ('l, 's, 'w) ObjectMux option" where
  "muxNotifyRemovedOnExistingObjects l M =
    (if muxObjects M = [] then Some M
     else map_option (\<lambda>as. M\<lparr>muxTold := muxTold M @ [(l, Removed (map makeRemoval as))]\<rparr>) (firstAdditions (muxObjects M)))"

definition notifyMuxedAddedOnExistingObjects ::
  "'l \<Rightarrow> ('l, 's, 'w) ObjectMux \<Rightarrow> ('l, 's, 'w) ObjectMux option" where
  "notifyMuxedAddedOnExistingObjects l M =
    (if muxObjects M = [] then Some M
     else map_option (\<lambda>as. M\<lparr>muxedTold := muxedTold M @
         [(l, Base (Added as)), (l, Readded (laterAdditions (muxObjects M)))]\<rparr>)
       (firstAdditions (muxObjects M)))"

definition notifyMuxedRemovedOnExistingObjects ::
  "'l \<Rightarrow> ('l, 's, 'w) ObjectMux \<Rightarrow> ('l, 's, 'w) ObjectMux option" where
  "notifyMuxedRemovedOnExistingObjects l M =
    (if muxObjects M = [] then Some M
     else map_option (\<lambda>as. M\<lparr>muxedTold := muxedTold M @
         [(l, RefCountReduced (laterRemovals (muxObjects M))), (l, Base (Removed (map makeRemoval as)))]\<rparr>)
       (firstAdditions (muxObjects M)))"

section \<open>Operations\<close>

definition onObjectsAdded ::
  "('l, 's) ListenerSet \<Rightarrow> 'w ObjectAddition list \<Rightarrow> ('l, 's, 'w) ObjectMux \<Rightarrow> ('l, 's, 'w) ObjectMux" where
  "onObjectsAdded S additions M =
    (let (m, new, dup) = addEach additions (muxObjects M);
         M1 = M\<lparr>muxObjects := m\<rparr>;
         M2 = (if new = [] then M1 else muxNotifyObjectsAdded S new M1)
     in if dup = [] then M2 else notifyExistingObjectsReadded dup M2)"

definition onObjectsRemoved ::
  "('l, 's) ListenerSet \<Rightarrow> ObjectRemoval list \<Rightarrow> ('l, 's, 'w) ObjectMux \<Rightarrow> ('l, 's, 'w) ObjectMux" where
  "onObjectsRemoved S removals M =
    (let (m, act, dup) = removeEach removals (muxObjects M);
         M1 = M\<lparr>muxObjects := m\<rparr>;
         M2 = (if dup = [] then M1 else notifyObjectsRefCountReduced dup M1)
     in if act = [] then M2 else muxNotifyObjectsRemoved S act M2)"

definition muxAddListener ::
  "('l, 's) ListenerSet \<Rightarrow> 'l \<Rightarrow> bool \<Rightarrow> ('l, 's, 'w) ObjectMux \<Rightarrow> ('l, 's, 'w) ObjectMux option" where
  "muxAddListener S l notifyAboutExistingObjects M =
    (let (inserted, s) = emplace S l (muxListeners M);
         M1 = M\<lparr>muxListeners := s, muxLinked := (if inserted then insert l (muxLinked M) else muxLinked M)\<rparr>
     in if inserted \<and> notifyAboutExistingObjects then muxNotifyAddedOnExistingObjects l M1 else Some M1)"

definition muxRemoveListener ::
  "('l, 's) ListenerSet \<Rightarrow> 'l \<Rightarrow> bool \<Rightarrow> ('l, 's, 'w) ObjectMux \<Rightarrow> ('l, 's, 'w) ObjectMux option" where
  "muxRemoveListener S l notifyAboutExistingObjects M =
    (let (erased, s) = erase S l (muxListeners M);
         M1 = M\<lparr>muxListeners := s, muxLinked := (if erased then muxLinked M - {l} else muxLinked M)\<rparr>
     in if erased \<and> notifyAboutExistingObjects then muxNotifyRemovedOnExistingObjects l M1 else Some M1)"

definition addMuxedListener ::
  "'l \<Rightarrow> bool \<Rightarrow> ('l, 's, 'w) ObjectMux \<Rightarrow> ('l, 's, 'w) ObjectMux option" where
  "addMuxedListener l notifyAboutExistingObjects M =
    (if l \<in> set (muxedListeners M) then Some M
     else
       let M1 = M\<lparr>muxedListeners := muxedListeners M @ [l], muxedLinked := insert l (muxedLinked M)\<rparr>
       in if notifyAboutExistingObjects then notifyMuxedAddedOnExistingObjects l M1 else Some M1)"

definition removeMuxedListener ::
  "'l \<Rightarrow> bool \<Rightarrow> ('l, 's, 'w) ObjectMux \<Rightarrow> ('l, 's, 'w) ObjectMux option" where
  "removeMuxedListener l notifyAboutExistingObjects M =
    (if l \<notin> set (muxedListeners M) then Some M
     else
       map_option (\<lambda>M1. M1\<lparr>muxedLinked := muxedLinked M1 - {l}, muxedListeners := remove1 l (muxedListeners M1)\<rparr>)
         (if notifyAboutExistingObjects then notifyMuxedRemovedOnExistingObjects l M else Some M))"

definition muxedListenerDeleted :: "'l \<Rightarrow> ('l, 's, 'w) ObjectMux \<Rightarrow> ('l, 's, 'w) ObjectMux" where
  "muxedListenerDeleted l M = M\<lparr>muxedListeners := removeAll l (muxedListeners M)\<rparr>"

text \<open>
  The destructors.  The one of the mux is that of its base class, which takes back the links of the
  plain listeners.  The one of a muxed listener calls every mux in its list, which is undefined for one that is
  gone; then the destructor of the base class does the same for the plain list.
\<close>

definition destroyMux :: "('l, 's) ListenerSet \<Rightarrow> ('l, 's, 'w) ObjectMux \<Rightarrow> ('l, 's, 'w) ObjectMux" where
  "destroyMux S M = M\<lparr>muxLinked := muxLinked M - set (items S (muxListeners M)), muxAlive := False\<rparr>"

definition destroyMuxedListener ::
  "('l, 's) ListenerSet \<Rightarrow> 'l \<Rightarrow> ('l, 's, 'w) ObjectMux \<Rightarrow> ('l, 's, 'w) ObjectMux option" where
  "destroyMuxedListener S l M =
    (if \<not> muxAlive M \<and> (l \<in> muxedLinked M \<or> l \<in> muxLinked M) then None
     else
       let M1 = (if l \<in> muxedLinked M then (muxedListenerDeleted l M)\<lparr>muxedLinked := muxedLinked M - {l}\<rparr> else M)
       in Some (if l \<in> muxLinked M1
                then M1\<lparr>muxListeners := snd (erase S l (muxListeners M1)), muxLinked := muxLinked M1 - {l}\<rparr> else M1))"

definition hasMuxedListener :: "'l \<Rightarrow> ('l, 's, 'w) ObjectMux \<Rightarrow> bool" where
  "hasMuxedListener l M \<longleftrightarrow> l \<in> set (muxedListeners M)"

definition muxHasListeners :: "('l, 's) ListenerSet \<Rightarrow> ('l, 's, 'w) ObjectMux \<Rightarrow> bool" where
  "muxHasListeners S M \<longleftrightarrow> items S (muxListeners M) \<noteq> [] \<or> muxedListeners M \<noteq> []"

section \<open>Runs\<close>

text \<open>
  The providers the mux listens to report the removal of what they added.  \<open>tells\<close> says which registrations
  may ask for notifications or not, \<open>ends\<close> which listeners may be destroyed.
\<close>

fun removable :: "ObjectRemoval list \<Rightarrow> 'w muxEntries \<Rightarrow> bool" where
  "removable [] m = True"
| "removable (r # rs) m =
    ((\<exists>a \<in> set (entryOf (removedId r) m). removes r a) \<and> removable rs (fst (removeEach [r] m)))"

inductive muxRun ::
  "('l, 's) ListenerSet \<Rightarrow> ('l \<Rightarrow> bool \<Rightarrow> bool) \<Rightarrow> ('l \<Rightarrow> bool) \<Rightarrow> ('l, 's, 'w) ObjectMux \<Rightarrow> bool"
  for S tells ends where
  created: "muxRun S tells ends (newMux S)"
| added: "muxRun S tells ends M \<Longrightarrow> muxRun S tells ends (onObjectsAdded S as M)"
| removed: "muxRun S tells ends M \<Longrightarrow> removable rs (muxObjects M) \<Longrightarrow> muxRun S tells ends (onObjectsRemoved S rs M)"
| listened: "muxRun S tells ends M \<Longrightarrow> tells l b \<Longrightarrow> muxAddListener S l b M = Some M' \<Longrightarrow> muxRun S tells ends M'"
| left: "muxRun S tells ends M \<Longrightarrow> tells l b \<Longrightarrow> muxRemoveListener S l b M = Some M' \<Longrightarrow> muxRun S tells ends M'"
| muxListened: "muxRun S tells ends M \<Longrightarrow> tells l b \<Longrightarrow> addMuxedListener l b M = Some M' \<Longrightarrow> muxRun S tells ends M'"
| muxLeft: "muxRun S tells ends M \<Longrightarrow> tells l b \<Longrightarrow> removeMuxedListener l b M = Some M' \<Longrightarrow> muxRun S tells ends M'"
| ended: "muxRun S tells ends M \<Longrightarrow> ends l \<Longrightarrow> destroyMuxedListener S l M = Some M' \<Longrightarrow> muxRun S tells ends M'"

section \<open>Entries\<close>

definition entriesOk :: "'w muxEntries \<Rightarrow> bool" where
  "entriesOk m \<longleftrightarrow> distinct (map fst m) \<and> (\<forall>(k, as) \<in> set m. as \<noteq> [] \<and> (\<forall>a \<in> set as. addedId a = k))"

definition counts :: "'w muxEntries \<Rightarrow> u32 \<Rightarrow> nat" where
  "counts m k = length (entryOf k m)"

lemma map_of_setEntry: "map_of (setEntry k as m) = (map_of m)(k \<mapsto> as)"
  by (induction k as m rule: setEntry.induct) auto

lemma entryOf_setEntry [simp]: "entryOf j (setEntry k as m) = (if j = k then as else entryOf j m)"
  by (simp add: entryOf_def map_of_setEntry)

lemma setEntry_set:
  "distinct (map fst m) \<Longrightarrow> set (setEntry k as m) = insert (k, as) {x \<in> set m. fst x \<noteq> k}"
  by (induction k as m rule: setEntry.induct) force+

lemma setEntry_keys [simp]: "fst ` set (setEntry k as m) = insert k (fst ` set m)"
  by (induction k as m rule: setEntry.induct) auto

lemma setEntry_distinct: "distinct (map fst m) \<Longrightarrow> distinct (map fst (setEntry k as m))"
proof (induction k as m rule: setEntry.induct)
  case (2 k as j bs m)
  have "set (map fst (setEntry k as m)) = insert k (set (map fst m))"
    using setEntry_keys [of k as m] by simp
  then show ?case
    using 2 by auto
qed simp

lemma map_of_dropKey: "map_of (dropKey k m) = (map_of m)(k := None)"
  by (induction m) (auto simp: dropKey_def)

lemma entryOf_dropKey [simp]: "entryOf j (dropKey k m) = (if j = k then [] else entryOf j m)"
  by (simp add: entryOf_def map_of_dropKey)

lemma entriesOk_setEntry:
  "\<lbrakk>entriesOk m; as \<noteq> []; \<forall>a \<in> set as. addedId a = k\<rbrakk> \<Longrightarrow> entriesOk (setEntry k as m)"
  by (auto simp: entriesOk_def setEntry_set setEntry_distinct)

lemma entriesOk_dropKey: "entriesOk m \<Longrightarrow> entriesOk (dropKey k m)"
  by (auto simp: entriesOk_def)

lemma entryOf_in: "entryOf k m \<noteq> [] \<Longrightarrow> (k, entryOf k m) \<in> set m"
  by (auto simp: entryOf_def dest: map_of_SomeD split: option.splits)

lemma entryOf_ids: "entriesOk m \<Longrightarrow> a \<in> set (entryOf k m) \<Longrightarrow> addedId a = k"
  using entryOf_in [of k m] by (fastforce simp: entriesOk_def)

lemma entryOf_member: "entriesOk m \<Longrightarrow> (k, as) \<in> set m \<Longrightarrow> entryOf k m = as"
  by (auto simp: entriesOk_def entryOf_def map_of_eq_Some_iff split: option.splits)

lemma counts_pos: "entriesOk m \<Longrightarrow> 0 < counts m k \<longleftrightarrow> k \<in> fst ` set m"
proof
  show "0 < counts m k \<Longrightarrow> k \<in> fst ` set m"
    using entryOf_in [of k m] by (force simp: counts_def)
  assume "entriesOk m" "k \<in> fst ` set m"
  then obtain as where "(k, as) \<in> set m" "as \<noteq> []"
    by (auto simp: entriesOk_def)
  then show "0 < counts m k"
    using entryOf_member [OF \<open>entriesOk m\<close>] by (simp add: counts_def)
qed

lemma counts_keys: "entriesOk m \<Longrightarrow> fst ` set m = {k. 0 < counts m k}"
  using counts_pos by blast

lemma addEach_spec:
  assumes "addEach as m = (m', new, dup)" "entriesOk m"
  shows "entriesOk m'
    \<and> (\<forall>k. counts m' k = counts m k + count_list (map addedId as) k)
    \<and> distinct (map addedId new)
    \<and> (\<forall>k. k \<in> addedId ` set new \<longleftrightarrow> k \<in> addedId ` set as \<and> counts m k = 0)
    \<and> (\<forall>k. count_list (map addedId dup) k + (if k \<in> addedId ` set new then 1 else 0) = count_list (map addedId as) k)"
  using assms
proof (induction as arbitrary: m m' new dup)
  case (Cons a as)
  define m1 where "m1 = setEntry (addedId a) (entryOf (addedId a) m @ [a]) m"
  obtain n1 d1 where rest: "addEach as m1 = (m', n1, d1)"
    and split: "new = (if counts m (addedId a) = 0 then a # n1 else n1)"
      "dup = (if counts m (addedId a) = 0 then d1 else a # d1)"
    using Cons.prems(1) by (auto simp: m1_def counts_def Let_def split: prod.splits if_splits)
  have "entriesOk m1"
    unfolding m1_def using Cons.prems(2) entryOf_ids [OF Cons.prems(2)] by (intro entriesOk_setEntry) auto
  note ih = Cons.IH [OF rest this]
  have c: "counts m1 k = (if k = addedId a then Suc (counts m k) else counts m k)" for k
    by (simp add: counts_def m1_def)
  show ?case
  proof (intro conjI allI)
    show "entriesOk m'" "\<And>k. counts m' k = counts m k + count_list (map addedId (a # as)) k"
      using ih by (auto simp: c)
    show "distinct (map addedId new)"
      using ih by (auto simp: split c)
    show "k \<in> addedId ` set new \<longleftrightarrow> k \<in> addedId ` set (a # as) \<and> counts m k = 0" for k
      using ih by (auto simp: split c)
    show "count_list (map addedId dup) k + (if k \<in> addedId ` set new then 1 else 0)
        = count_list (map addedId (a # as)) k" for k
    proof -
      have "addedId a \<notin> addedId ` set n1"
        using ih by (auto simp: c)
      moreover have "count_list (map addedId d1) k + (if k \<in> addedId ` set n1 then 1 else 0) = count_list (map addedId as) k"
        using ih by blast
      ultimately show ?thesis
        by (cases "k = addedId a") (auto simp: split split: if_splits)
    qed
  qed
qed simp

lemma eraseFirst_length: "\<exists>a \<in> set xs. P a \<Longrightarrow> length xs = Suc (length (eraseFirst P xs))"
  by (induction xs) auto

lemma eraseFirst_subset: "set (eraseFirst P xs) \<subseteq> set xs"
  by (induction xs) auto

text \<open>Removals that take something away: which end an object and which reduce its count.\<close>

lemma removeEach_spec:
  assumes "removeEach rs m = (m', act, dup)" "entriesOk m" "removable rs m"
  shows "entriesOk m'
    \<and> (\<forall>k. counts m k = counts m' k + count_list (map removedId rs) k)
    \<and> distinct (map removedId act)
    \<and> (\<forall>k. k \<in> removedId ` set act \<longleftrightarrow> 0 < counts m k \<and> counts m' k = 0)
    \<and> (\<forall>k. count_list (map removedId dup) k + (if k \<in> removedId ` set act then 1 else 0) = count_list (map removedId rs) k)"
  using assms
proof (induction rs arbitrary: m m' act dup)
  case Nil
  then show ?case
    by auto
next
  case (Cons r rs)
  define l where "l = eraseFirst (removes r) (entryOf (removedId r) m)"
  define m1 where "m1 = (if l = [] then dropKey (removedId r) m else setEntry (removedId r) l m)"
  have found: "\<exists>a \<in> set (entryOf (removedId r) m). removes r a" and more: "removable rs m1"
    using Cons.prems(3) by (auto simp: m1_def l_def Let_def split: if_splits)
  obtain a1 d1 where rest: "removeEach rs m1 = (m', a1, d1)"
    and split: "act = (if l = [] then r # a1 else a1)" "dup = (if l = [] then d1 else r # d1)"
    using Cons.prems(1) found by (auto simp: m1_def l_def Let_def split: prod.splits if_splits)
  have "entriesOk m1"
    unfolding m1_def using Cons.prems(2) entryOf_ids [OF Cons.prems(2)] eraseFirst_subset [of "removes r"]
    by (auto simp: l_def intro!: entriesOk_setEntry entriesOk_dropKey)
  note ih = Cons.IH [OF rest this more]
  have "counts m (removedId r) = Suc (length l)"
    using eraseFirst_length [OF found] by (simp add: counts_def l_def)
  then have c: "counts m k = (if k = removedId r then Suc (counts m1 k) else counts m1 k)"
      "l = [] \<longleftrightarrow> counts m1 (removedId r) = 0" for k
    by (auto simp: counts_def m1_def)
  have down: "counts m' k \<le> counts m1 k" for k
    using ih by (metis le_add1)
  show ?case
  proof (intro conjI allI)
    show "entriesOk m'" "\<And>k. counts m k = counts m' k + count_list (map removedId (r # rs)) k"
      using ih by (auto simp: c(1))
    show "distinct (map removedId act)"
      using ih by (auto simp: split c(2))
    show "k \<in> removedId ` set act \<longleftrightarrow> 0 < counts m k \<and> counts m' k = 0" for k
      using ih down [of k] by (auto simp: split c)
    show "count_list (map removedId dup) k + (if k \<in> removedId ` set act then 1 else 0)
        = count_list (map removedId (r # rs)) k" for k
    proof -
      have "removedId r \<notin> removedId ` set a1" if "l = []"
        using ih that c(2) by auto
      moreover have "count_list (map removedId d1) k + (if k \<in> removedId ` set a1 then 1 else 0) = count_list (map removedId rs) k"
        using ih by blast
      ultimately show ?thesis
        by (cases "k = removedId r") (auto simp: split split: if_splits)
    qed
  qed
qed

section \<open>What the listeners hear\<close>

text \<open>
  A muxed listener counts the interests of each object: an object is added with the first one, which makes sense
  only for an object it does not know, readded with the others, and removed with the last.
\<close>

fun bump :: "(nat \<Rightarrow> nat option) \<Rightarrow> u32 list \<Rightarrow> (u32 \<Rightarrow> nat) \<Rightarrow> (u32 \<Rightarrow> nat) option" where
  "bump f [] c = Some c"
| "bump f (k # ks) c = (case f (c k) of None \<Rightarrow> None | Some n \<Rightarrow> bump f ks (c(k := n)))"

fun hearMux :: "'w MuxNotification \<Rightarrow> (u32 \<Rightarrow> nat) \<Rightarrow> (u32 \<Rightarrow> nat) option" where
  "hearMux (Base (Added as)) = bump (\<lambda>n. if n = 0 then Some 1 else None) (map addedId as)"
| "hearMux (Readded as) = bump (\<lambda>n. if n = 0 then None else Some (Suc n)) (map addedId as)"
| "hearMux (RefCountReduced rs) = bump (\<lambda>n. if n < 2 then None else Some (n - 1)) (map removedId rs)"
| "hearMux (Base (Removed rs)) = bump (\<lambda>n. if n = 1 then Some 0 else None) (map removedId rs)"

fun viewBy :: "('n \<Rightarrow> 'v \<Rightarrow> 'v option) \<Rightarrow> 'l \<Rightarrow> 'v \<Rightarrow> ('l \<times> 'n) list \<Rightarrow> 'v option" where
  "viewBy h l v [] = Some v"
| "viewBy h l v ((l', n) # ns) = (if l' = l then Option.bind (h n v) (\<lambda>v'. viewBy h l v' ns) else viewBy h l v ns)"

lemma viewBy_append: "viewBy h l v (xs @ ys) = Option.bind (viewBy h l v xs) (\<lambda>v'. viewBy h l v' ys)"
  by (induction h l v xs rule: viewBy.induct) (auto split: bind_splits)

lemma viewBy_broadcast:
  "distinct ls \<Longrightarrow> viewBy h l v (map (\<lambda>l'. (l', n)) ls) = (if l \<in> set ls then h n v else Some v)"
proof (induction ls)
  case (Cons a ls)
  have "viewBy h l v' (map (\<lambda>l'. (l', n)) ls) = Some v'" if "l \<notin> set ls" for v'
    using that by (induction ls) auto
  then show ?case
    using Cons by (auto split: bind_splits)
qed simp

lemma bump_distinct:
  "distinct ks \<Longrightarrow> \<forall>k \<in> set ks. f (c k) = Some n \<Longrightarrow> bump f ks c = Some (\<lambda>k. if k \<in> set ks then n else c k)"
proof (induction ks arbitrary: c)
  case (Cons j ks)
  have "bump f ks (c(j := n)) = Some (\<lambda>k. if k \<in> set ks then n else (c(j := n)) k)"
    using Cons.prems by (intro Cons.IH) auto
  then show ?case
    using Cons.prems by (auto simp: fun_eq_iff)
qed simp

lemma bump_readded:
  "\<forall>k \<in> set ks. 0 < c k \<Longrightarrow>
   bump (\<lambda>n. if n = 0 then None else Some (Suc n)) ks c = Some (\<lambda>k. c k + count_list ks k)"
  by (induction ks arbitrary: c) (auto simp: fun_eq_iff)

lemma bump_reduced:
  "\<forall>k \<in> set ks. count_list ks k < c k \<Longrightarrow>
   bump (\<lambda>n. if n < 2 then None else Some (n - 1)) ks c = Some (\<lambda>k. c k - count_list ks k)"
proof (induction ks arbitrary: c)
  case (Cons j ks)
  have "bump (\<lambda>n. if n < 2 then None else Some (n - 1)) ks (c(j := c j - 1))
      = Some (\<lambda>k. (c(j := c j - 1)) k - count_list ks k)"
    using Cons.prems by (intro Cons.IH) auto
  then show ?case
    using Cons.prems by (auto simp: fun_eq_iff)
qed simp

section \<open>The listeners are informed\<close>

definition muxOk :: "('l, 's) ListenerSet \<Rightarrow> ('s \<Rightarrow> bool) \<Rightarrow> ('l, 's, 'w) ObjectMux \<Rightarrow> bool" where
  "muxOk S good M \<longleftrightarrow> good (muxListeners M) \<and> entriesOk (muxObjects M) \<and> distinct (muxedListeners M)
     \<and> muxLinked M = set (items S (muxListeners M)) \<and> muxedLinked M = set (muxedListeners M) \<and> muxAlive M"

definition plainView :: "'l \<Rightarrow> ('l, 's, 'w) ObjectMux \<Rightarrow> u32 set option" where
  "plainView l M = viewBy hear l {} (muxTold M)"

definition muxedView :: "'l \<Rightarrow> ('l, 's, 'w) ObjectMux \<Rightarrow> (u32 \<Rightarrow> nat) option" where
  "muxedView l M = viewBy hearMux l (\<lambda>_. 0) (muxedTold M)"

text \<open>What a listener knows while it is registered, of each kind.\<close>

definition knows :: "('l, 's) ListenerSet \<Rightarrow> 'l \<Rightarrow> u32 set \<Rightarrow> (u32 \<Rightarrow> nat) \<Rightarrow> ('l, 's, 'w) ObjectMux \<Rightarrow> bool" where
  "knows S l V c M \<longleftrightarrow>
     plainView l M = Some (if l \<in> set (items S (muxListeners M)) then V else {})
     \<and> muxedView l M = Some (if l \<in> set (muxedListeners M) then c else (\<lambda>_. 0))"

definition hears :: "('l, 's) ListenerSet \<Rightarrow> 'l \<Rightarrow> ('l, 's, 'w) ObjectMux \<Rightarrow> bool" where
  "hears S l M \<longleftrightarrow> knows S l (fst ` set (muxObjects M)) (counts (muxObjects M)) M"

lemma tell_fields [simp]:
  "muxObjects (tellMuxed n M) = muxObjects M" "muxListeners (tellMuxed n M) = muxListeners M"
  "muxLinked (tellMuxed n M) = muxLinked M" "muxedListeners (tellMuxed n M) = muxedListeners M"
  "muxedLinked (tellMuxed n M) = muxedLinked M" "muxAlive (tellMuxed n M) = muxAlive M"
  "plainView l (tellMuxed n M) = plainView l M"
  "muxObjects (tellAll S n' M) = muxObjects M" "muxListeners (tellAll S n' M) = muxListeners M"
  "muxLinked (tellAll S n' M) = muxLinked M" "muxedListeners (tellAll S n' M) = muxedListeners M"
  "muxedLinked (tellAll S n' M) = muxedLinked M" "muxAlive (tellAll S n' M) = muxAlive M"
  by (simp_all add: tellAll_def tellMuxed_def plainView_def)

lemma plainView_tellAll:
  "distinct (items S (muxListeners M)) \<Longrightarrow> plainView l M = Some V \<Longrightarrow>
   plainView l (tellAll S n M) = (if l \<in> set (items S (muxListeners M)) then hear n V else Some V)"
  by (simp add: tellAll_def tellMuxed_def plainView_def viewBy_append viewBy_broadcast)

lemma muxedView_tellMuxed:
  "distinct (muxedListeners M) \<Longrightarrow> muxedView l M = Some c \<Longrightarrow>
   muxedView l (tellMuxed n M) = (if l \<in> set (muxedListeners M) then hearMux n c else Some c)"
  by (simp add: tellMuxed_def muxedView_def viewBy_append viewBy_broadcast)

lemma muxedView_tellAll:
  "distinct (muxedListeners M) \<Longrightarrow> muxedView l M = Some c \<Longrightarrow>
   muxedView l (tellAll S n M) = (if l \<in> set (muxedListeners M) then hearMux (Base n) c else Some c)"
  unfolding tellAll_def by (subst muxedView_tellMuxed) (simp_all add: muxedView_def)

text \<open>One notification makes of what the listener knows what it should.\<close>

lemma knows_tellMuxed:
  assumes "distinct (muxedListeners M)" "knows S l V c M" "hearMux n c = Some c'"
  shows "knows S l V c' (tellMuxed n M)"
proof -
  have "muxedView l M = Some (if l \<in> set (muxedListeners M) then c else (\<lambda>_. 0))"
    using assms(2) by (simp add: knows_def)
  then have "muxedView l (tellMuxed n M) = Some (if l \<in> set (muxedListeners M) then c' else (\<lambda>_. 0))"
    using muxedView_tellMuxed [OF assms(1)] assms(3) by simp
  then show ?thesis
    using assms(2) by (simp add: knows_def)
qed

lemma knows_tellAll:
  assumes "distinct (items S (muxListeners M))" "distinct (muxedListeners M)" "knows S l V c M"
    "hear n V = Some V'" "hearMux (Base n) c = Some c'"
  shows "knows S l V' c' (tellAll S n M)"
proof -
  have "plainView l M = Some (if l \<in> set (items S (muxListeners M)) then V else {})"
      "muxedView l M = Some (if l \<in> set (muxedListeners M) then c else (\<lambda>_. 0))"
    using assms(3) by (simp_all add: knows_def)
  then have "plainView l (tellAll S n M) = Some (if l \<in> set (items S (muxListeners M)) then V' else {})"
      "muxedView l (tellAll S n M) = Some (if l \<in> set (muxedListeners M) then c' else (\<lambda>_. 0))"
    using plainView_tellAll [OF assms(1)] muxedView_tellAll [OF assms(2)] assms(4,5) by simp_all
  then show ?thesis
    by (simp add: knows_def)
qed

lemma knows_silent: "knows S l V c (M\<lparr>muxObjects := m\<rparr>) \<longleftrightarrow> knows S l V c M"
  by (simp add: knows_def plainView_def muxedView_def)

lemma muxOk_tell [simp]:
  "muxOk S good (tellMuxed n M) \<longleftrightarrow> muxOk S good M" "muxOk S good (tellAll S n' M) \<longleftrightarrow> muxOk S good M"
  by (simp_all add: muxOk_def)

lemma muxOk_distinct:
  assumes "listenerSetLaws S good" "muxOk S good M"
  shows "distinct (items S (muxListeners M))" "distinct (muxedListeners M)"
  using assms laws(1) [OF assms(1)] by (simp_all add: muxOk_def)

lemma muxOk_objects: "muxOk S good M \<Longrightarrow> entriesOk m \<Longrightarrow> muxOk S good (M\<lparr>muxObjects := m\<rparr>)"
  by (simp add: muxOk_def)

text \<open>Additions.\<close>

lemma added_heard:
  assumes "addEach as m = (m', new, dup)" "entriesOk m"
  shows "hear (Added new) (fst ` set m) = Some (fst ` set m')"
    "hearMux (Base (Added new)) (counts m) = Some (\<lambda>k. if k \<in> addedId ` set new then 1 else counts m k)"
    "hearMux (Readded dup) (\<lambda>k. if k \<in> addedId ` set new then 1 else counts m k) = Some (counts m')"
proof -
  note spec = addEach_spec [OF assms]
  note ok = spec [THEN conjunct1] spec [THEN conjunct2, THEN conjunct2, THEN conjunct1]
    spec [THEN conjunct2, THEN conjunct2, THEN conjunct2, THEN conjunct1, rule_format]
    spec [THEN conjunct2, THEN conjunct1, rule_format]
    spec [THEN conjunct2, THEN conjunct2, THEN conjunct2, THEN conjunct2, rule_format]
  have occurs: "count_list (map addedId as) k = 0 \<longleftrightarrow> k \<notin> addedId ` set as" for k
    by (simp add: count_list_0_iff)
  have "k \<notin> {k. 0 < counts m k}" if "k \<in> addedId ` set new" for k
    using that ok(3) [of k] by simp
  then have "addedId ` set new \<inter> {k. 0 < counts m k} = {}"
    by blast
  moreover have "k \<in> {k. 0 < counts m k} \<union> addedId ` set new \<longleftrightarrow> k \<in> {k. 0 < counts m' k}" for k
    using ok(3) [of k] ok(4) [of k] occurs [of k] by (simp del: image_iff) linarith
  then have "{k. 0 < counts m k} \<union> addedId ` set new = {k. 0 < counts m' k}"
    by (rule set_eqI)
  ultimately show "hear (Added new) (fst ` set m) = Some (fst ` set m')"
    using ok(1,2) assms(2) by (simp add: counts_keys)
  show "hearMux (Base (Added new)) (counts m) = Some (\<lambda>k. if k \<in> addedId ` set new then 1 else counts m k)"
    using bump_distinct [OF ok(2), of "\<lambda>n. if n = 0 then Some 1 else None" "counts m" 1] ok(3) by auto
  have "\<forall>k \<in> set (map addedId dup). 0 < (if k \<in> addedId ` set new then 1 else counts m k)"
  proof
    fix k
    assume "k \<in> set (map addedId dup)"
    then have "0 < count_list (map addedId dup) k"
      using count_list_0_iff [of "map addedId dup" k] by (cases "count_list (map addedId dup) k") auto
    then have "k \<in> addedId ` set as"
      using ok(5) [of k] occurs [of k] by auto
    then show "0 < (if k \<in> addedId ` set new then 1 else counts m k)"
      using ok(3) [of k] by simp
  qed
  note heard = bump_readded [OF this]
  have "(if k \<in> addedId ` set new then 1 else counts m k) + count_list (map addedId dup) k = counts m' k" for k
    using ok(3) [of k] ok(4) [of k] ok(5) [of k] by (simp split: if_splits)
  then show "hearMux (Readded dup) (\<lambda>k. if k \<in> addedId ` set new then 1 else counts m k) = Some (counts m')"
    using heard by simp
qed

lemma onObjectsAdded_as_told:
  assumes "addEach as (muxObjects M) = (m, new, dup)"
  shows "onObjectsAdded S as M =
    (let M2 = (if new = [] then M\<lparr>muxObjects := m\<rparr> else tellAll S (Added new) (M\<lparr>muxObjects := m\<rparr>))
     in if dup = [] then M2 else tellMuxed (Readded dup) M2)"
  using assms by (simp add: onObjectsAdded_def muxNotifyObjectsAdded_def notifyExistingObjectsReadded_def Let_def)

lemma added_informs:
  assumes "listenerSetLaws S good" "muxOk S good M" "hears S l M"
  shows "muxOk S good (onObjectsAdded S as M) \<and> hears S l (onObjectsAdded S as M)"
proof -
  obtain m new dup where e: "addEach as (muxObjects M) = (m, new, dup)"
    by (metis prod_cases3)
  have ok: "entriesOk (muxObjects M)"
    using assms(2) by (simp add: muxOk_def)
  define M1 where "M1 = M\<lparr>muxObjects := m\<rparr>"
  define M2 where "M2 = (if new = [] then M1 else tellAll S (Added new) M1)"
  let ?c = "\<lambda>k. if k \<in> addedId ` set new then 1 else counts (muxObjects M) k"
  have M1: "muxOk S good M1"
    unfolding M1_def using assms(2) addEach_spec [OF e ok] by (intro muxOk_objects) simp_all
  have "knows S l (fst ` set (muxObjects M)) (counts (muxObjects M)) M1"
    using assms(3) by (simp add: M1_def knows_silent hears_def)
  then have k2: "knows S l (fst ` set m) ?c M2"
    using knows_tellAll [OF muxOk_distinct [OF assms(1) M1] _ added_heard(1,2) [OF e ok]] added_heard(1,2) [OF e ok]
    by (auto simp: M2_def)
  have M2: "muxOk S good M2" "muxObjects M2 = m"
    using M1 by (simp_all add: M2_def M1_def)
  have "knows S l (fst ` set m) (counts m) (if dup = [] then M2 else tellMuxed (Readded dup) M2)"
    using k2 knows_tellMuxed [OF muxOk_distinct(2) [OF assms(1) M2(1)] k2 added_heard(3) [OF e ok]]
      added_heard(3) [OF e ok] by auto
  moreover have "onObjectsAdded S as M = (if dup = [] then M2 else tellMuxed (Readded dup) M2)"
    unfolding onObjectsAdded_as_told [OF e] M2_def M1_def by (simp only: Let_def)
  ultimately show ?thesis
    using M2 by (cases "dup = []") (simp_all add: hears_def)
qed

text \<open>Removals.\<close>

lemma removed_heard:
  assumes "removeEach rs m = (m', act, dup)" "entriesOk m" "removable rs m"
  shows "hear (Removed act) (fst ` set m) = Some (fst ` set m')"
    "hearMux (RefCountReduced dup) (counts m) = Some (\<lambda>k. counts m k - count_list (map removedId dup) k)"
    "hearMux (Base (Removed act)) (\<lambda>k. counts m k - count_list (map removedId dup) k) = Some (counts m')"
proof -
  note spec = removeEach_spec [OF assms]
  note ok = spec [THEN conjunct1] spec [THEN conjunct2, THEN conjunct2, THEN conjunct1]
    spec [THEN conjunct2, THEN conjunct2, THEN conjunct2, THEN conjunct1, rule_format]
    spec [THEN conjunct2, THEN conjunct1, rule_format]
    spec [THEN conjunct2, THEN conjunct2, THEN conjunct2, THEN conjunct2, rule_format]
  have "k \<in> {k. 0 < counts m k}" if "k \<in> removedId ` set act" for k
    using that ok(3) [of k] by simp
  then have "removedId ` set act \<subseteq> {k. 0 < counts m k}"
    by blast
  moreover have "k \<in> {k. 0 < counts m k} - removedId ` set act \<longleftrightarrow> k \<in> {k. 0 < counts m' k}" for k
    using ok(3) [of k] ok(4) [of k] by (simp del: image_iff) linarith
  then have "{k. 0 < counts m k} - removedId ` set act = {k. 0 < counts m' k}"
    by (rule set_eqI)
  ultimately show "hear (Removed act) (fst ` set m) = Some (fst ` set m')"
    using ok(1,2) assms(2) by (simp add: counts_keys)
  have "\<forall>k \<in> set (map removedId dup). count_list (map removedId dup) k < counts m k"
  proof
    fix k
    assume "k \<in> set (map removedId dup)"
    then have "0 < count_list (map removedId dup) k"
      using count_list_0_iff [of "map removedId dup" k] by (cases "count_list (map removedId dup) k") auto
    then show "count_list (map removedId dup) k < counts m k"
      using ok(3) [of k] ok(4) [of k] ok(5) [of k] by (cases "k \<in> removedId ` set act") simp_all
  qed
  from bump_reduced [OF this]
  show "hearMux (RefCountReduced dup) (counts m) = Some (\<lambda>k. counts m k - count_list (map removedId dup) k)"
    by simp
  have one: "counts m k - count_list (map removedId dup) k = (if k \<in> removedId ` set act then 1 else counts m' k)" for k
    using ok(3) [of k] ok(4) [of k] ok(5) [of k] by (cases "k \<in> removedId ` set act") simp_all
  have "(if k \<in> removedId ` set act then 0 else counts m' k) = counts m' k" for k
    using ok(3) [of k] by simp
  then show "hearMux (Base (Removed act)) (\<lambda>k. counts m k - count_list (map removedId dup) k) = Some (counts m')"
    using bump_distinct [OF ok(2), of "\<lambda>n. if n = 1 then Some 0 else None"
        "\<lambda>k. counts m k - count_list (map removedId dup) k" 0]
    by (simp add: one cong: if_cong)
qed

lemma onObjectsRemoved_as_told:
  assumes "removeEach rs (muxObjects M) = (m, act, dup)"
  shows "onObjectsRemoved S rs M =
    (let M2 = (if dup = [] then M\<lparr>muxObjects := m\<rparr> else tellMuxed (RefCountReduced dup) (M\<lparr>muxObjects := m\<rparr>))
     in if act = [] then M2 else tellAll S (Removed act) M2)"
  using assms by (simp add: onObjectsRemoved_def muxNotifyObjectsRemoved_def notifyObjectsRefCountReduced_def Let_def)

lemma removed_informs:
  assumes "listenerSetLaws S good" "muxOk S good M" "hears S l M" "removable rs (muxObjects M)"
  shows "muxOk S good (onObjectsRemoved S rs M) \<and> hears S l (onObjectsRemoved S rs M)"
proof -
  obtain m act dup where e: "removeEach rs (muxObjects M) = (m, act, dup)"
    by (metis prod_cases3)
  have ok: "entriesOk (muxObjects M)"
    using assms(2) by (simp add: muxOk_def)
  define M1 where "M1 = M\<lparr>muxObjects := m\<rparr>"
  define M2 where "M2 = (if dup = [] then M1 else tellMuxed (RefCountReduced dup) M1)"
  let ?c = "\<lambda>k. counts (muxObjects M) k - count_list (map removedId dup) k"
  note heard = removed_heard [OF e ok assms(4)]
  have M1: "muxOk S good M1"
    unfolding M1_def using assms(2) removeEach_spec [OF e ok assms(4)] by (intro muxOk_objects) simp_all
  have "knows S l (fst ` set (muxObjects M)) (counts (muxObjects M)) M1"
    using assms(3) by (simp add: M1_def knows_silent hears_def)
  then have k2: "knows S l (fst ` set (muxObjects M)) ?c M2"
    using knows_tellMuxed [OF muxOk_distinct(2) [OF assms(1) M1] _ heard(2)] by (cases "dup = []") (simp_all add: M2_def)
  have M2: "muxOk S good M2" "muxObjects M2 = m"
    using M1 by (simp_all add: M2_def M1_def)
  have "knows S l (fst ` set m) (counts m) (if act = [] then M2 else tellAll S (Removed act) M2)"
    using k2 knows_tellAll [OF muxOk_distinct [OF assms(1) M2(1)] k2 heard(1,3)] heard(1,3) by (cases "act = []") simp_all
  moreover have "onObjectsRemoved S rs M = (if act = [] then M2 else tellAll S (Removed act) M2)"
    unfolding onObjectsRemoved_as_told [OF e] M2_def M1_def by (simp only: Let_def)
  ultimately show ?thesis
    using M2 by (cases "act = []") (simp_all add: hears_def)
qed

text \<open>Registrations.  The first additions are defined, since no entry is empty.\<close>

lemma firstAdditions_ok:
  assumes "entriesOk m"
  shows "\<exists>as. firstAdditions m = Some as \<and> map addedId as = map fst m"
  using assms
proof (induction m)
  case (Cons x m)
  obtain k a as where x: "x = (k, a # as)" "addedId a = k"
    using Cons.prems by (cases x; cases "snd x") (auto simp: entriesOk_def)
  moreover have "entriesOk m"
    using Cons.prems by (simp add: entriesOk_def)
  ultimately show ?case
    using Cons.IH by auto
qed (simp add: entriesOk_def)

lemma later_ids: "map removedId (laterRemovals m) = concat (map (\<lambda>(k, as). rev (map addedId (drop 1 as))) m)"
    "map addedId (laterAdditions m) = concat (map (\<lambda>(k, as). map addedId (drop 1 as)) m)"
  by (simp_all add: laterRemovals_def laterAdditions_def map_concat o_def case_prod_unfold makeRemoval_def rev_map)

lemma count_list_rev [simp]: "count_list (rev xs) k = count_list xs k"
  by (induction xs) simp_all

lemma count_later: "count_list (map removedId (laterRemovals m)) k = count_list (map addedId (laterAdditions m)) k"
  unfolding later_ids by (induction m) (auto simp del: rev_map)

lemma count_laterAdditions:
  assumes "entriesOk m"
  shows "count_list (map addedId (laterAdditions m)) k + (if k \<in> fst ` set m then 1 else 0) = counts m k"
  using assms
proof (induction m)
  case (Cons x m)
  obtain j a as where x: "x = (j, a # as)" and ids: "\<forall>b \<in> set (a # as). addedId b = j" and new: "j \<notin> fst ` set m"
      and rest: "entriesOk m"
    using Cons.prems by (cases x; cases "snd x") (auto simp: entriesOk_def)
  have same: "count_list (map addedId as) k = (if k = j then length as else 0)"
    using ids by (induction as) auto
  have "counts m j = 0"
    using counts_pos [OF rest, of j] new by simp
  moreover have "counts (x # m) k = (if k = j then Suc (length as) else counts m k)"
    by (simp add: counts_def entryOf_def x)
  ultimately show ?case
    using Cons.IH [OF rest] same new by (auto simp: laterAdditions_def x split: if_splits)
qed (simp add: laterAdditions_def counts_def entryOf_def)

text \<open>What a registration with a notification tells: all there is, to a listener that knows nothing, or the reverse.\<close>

lemma existing_told:
  assumes "entriesOk m"
  obtains as where "firstAdditions m = Some as"
    "hear (Added as) {} = Some (fst ` set m)" "hear (Removed (map makeRemoval as)) (fst ` set m) = Some {}"
    "viewBy hearMux l (\<lambda>_. 0) [(l, Base (Added as)), (l, Readded (laterAdditions m))] = Some (counts m)"
    "viewBy hearMux l (counts m) [(l, RefCountReduced (laterRemovals m)), (l, Base (Removed (map makeRemoval as)))]
       = Some (\<lambda>_. 0)"
proof -
  obtain as where as: "firstAdditions m = Some as" "map addedId as = map fst m"
    using firstAdditions_ok [OF assms] by blast
  have ids: "map removedId (map makeRemoval as) = map fst m" "addedId ` set as = fst ` set m"
    using as(2) by (simp_all add: makeRemoval_def o_def) (metis image_set)
  have d: "distinct (map fst m)"
    using assms by (simp add: entriesOk_def)
  let ?c = "\<lambda>k. if k \<in> set (map fst m) then 1 else 0 :: nat"
  note later = count_laterAdditions [OF assms]
  have added: "hearMux (Base (Added as)) (\<lambda>_. 0) = Some ?c"
    using bump_distinct [OF d, of "\<lambda>n. if n = 0 then Some 1 else None" "\<lambda>_. 0" 1] as(2) by simp
  have "\<forall>k \<in> set (map addedId (laterAdditions m)). 0 < ?c k"
  proof
    fix k
    assume "k \<in> set (map addedId (laterAdditions m))"
    then have "count_list (map addedId (laterAdditions m)) k \<noteq> 0"
      by (simp add: count_list_0_iff del: set_map)
    then show "0 < ?c k"
      using later [of k] counts_pos [OF assms, of k] by simp
  qed
  note readded = bump_readded [OF this]
  have sum: "?c k + count_list (map addedId (laterAdditions m)) k = counts m k"
      "counts m k - count_list (map removedId (laterRemovals m)) k = ?c k" for k
    using later [of k] by (simp_all add: count_later)
  have "\<forall>k \<in> set (map removedId (laterRemovals m)). count_list (map removedId (laterRemovals m)) k < counts m k"
  proof
    fix k
    assume "k \<in> set (map removedId (laterRemovals m))"
    then have "count_list (map removedId (laterRemovals m)) k \<noteq> 0"
      by (simp add: count_list_0_iff del: set_map)
    then show "count_list (map removedId (laterRemovals m)) k < counts m k"
      using later [of k] counts_pos [OF assms, of k] by (simp add: count_later split: if_splits)
  qed
  note reduced = bump_reduced [OF this]
  have removed: "bump (\<lambda>n. if n = 1 then Some 0 else None) (map removedId (map makeRemoval as)) ?c = Some (\<lambda>_. 0)"
    using bump_distinct [OF d, of "\<lambda>n. if n = 1 then Some 0 else None" ?c 0] ids(1) by (auto simp: fun_eq_iff)
  show thesis
  proof (rule that [OF as(1)])
    show "hear (Added as) {} = Some (fst ` set m)"
      unfolding hear.simps as(2) ids(2) using d by simp
    have gone: "removedId ` set (map makeRemoval as) = fst ` set m"
      unfolding image_set ids(1) ..
    show "hear (Removed (map makeRemoval as)) (fst ` set m) = Some {}"
      unfolding hear.simps ids(1) gone using d by simp
    show "viewBy hearMux l (\<lambda>_. 0) [(l, Base (Added as)), (l, Readded (laterAdditions m))] = Some (counts m)"
      using added by (simp only: viewBy.simps hearMux.simps simp_thms if_True bind.bind_lunit readded sum(1))
    show "viewBy hearMux l (counts m) [(l, RefCountReduced (laterRemovals m)), (l, Base (Removed (map makeRemoval as)))]
        = Some (\<lambda>_. 0)"
      by (simp only: viewBy.simps hearMux.simps simp_thms if_True bind.bind_lunit reduced sum(2) removed)
  qed
qed

lemma knowsD:
  assumes "knows S l V c M"
  shows "viewBy hear l {} (muxTold M) = Some (if l \<in> set (items S (muxListeners M)) then V else {})"
    "viewBy hearMux l (\<lambda>_. 0) (muxedTold M) = Some (if l \<in> set (muxedListeners M) then c else (\<lambda>_. 0))"
  using assms by (simp_all add: knows_def plainView_def muxedView_def)

lemma listen_outcome:
  assumes "listenerSetLaws S good" "muxOk S good M" "hears S l M" "l' = l \<longrightarrow> b"
  shows "\<exists>M'. muxAddListener S l' b M = Some M' \<and> muxOk S good M' \<and> hears S l M'"
proof -
  obtain inserted s where e: "emplace S l' (muxListeners M) = (inserted, s)"
    by (cases "emplace S l' (muxListeners M)")
  have ok: "good (muxListeners M)" "entriesOk (muxObjects M)"
    using assms(2) by (simp_all add: muxOk_def)
  have s: "good s" "inserted \<longleftrightarrow> l' \<notin> set (items S (muxListeners M))" "set (items S s) = insert l' (set (items S (muxListeners M)))"
    using laws(2-4) [OF assms(1) ok(1), of l'] e by simp_all
  obtain as where as: "firstAdditions (muxObjects M) = Some as" "hear (Added as) {} = Some (fst ` set (muxObjects M))"
    using existing_told [OF ok(2)] by metis
  note known = knowsD [OF assms(3) [unfolded hears_def]]
  show ?thesis
    using assms(2,4) known s as e
    by (cases inserted; cases b; cases "l' = l"; cases "muxObjects M = []")
      (simp_all add: muxAddListener_def muxNotifyAddedOnExistingObjects_def muxOk_def hears_def knows_def plainView_def
        muxedView_def viewBy_append insert_absorb del: hear.simps)
qed

lemma leave_outcome:
  fixes M :: "('l, 's, 'w) ObjectMux"
  assumes "listenerSetLaws S good" "muxOk S good M" "hears S l M" "l' = l \<longrightarrow> b"
  shows "\<exists>M'. muxRemoveListener S l' b M = Some M' \<and> muxOk S good M' \<and> hears S l M'"
proof -
  obtain erased s where e: "erase S l' (muxListeners M) = (erased, s)"
    by (cases "erase S l' (muxListeners M)")
  have ok: "good (muxListeners M)" "entriesOk (muxObjects M)"
    using assms(2) by (simp_all add: muxOk_def)
  have s: "good s" "erased \<longleftrightarrow> l' \<in> set (items S (muxListeners M))" "set (items S s) = set (items S (muxListeners M)) - {l'}"
    using laws(5-7) [OF assms(1) ok(1), of l'] e by simp_all
  obtain as where as: "firstAdditions (muxObjects M) = Some as"
      "hear (Removed (map makeRemoval as) :: 'w Notification) (fst ` set (muxObjects M)) = Some {}"
    using existing_told [OF ok(2)] by metis
  note known = knowsD [OF assms(3) [unfolded hears_def]]
  show ?thesis
    using assms(2,4) known s as e
    by (cases "erased \<and> b"; cases "muxObjects M = []")
      (auto simp: muxRemoveListener_def muxNotifyRemovedOnExistingObjects_def muxOk_def hears_def knows_def plainView_def
        muxedView_def viewBy_append simp del: hear.simps)
qed

lemma muxListen_outcome:
  fixes M :: "('l, 's, 'w) ObjectMux"
  assumes "muxOk S good M" "hears S l M" "l' = l \<longrightarrow> b"
  shows "\<exists>M'. addMuxedListener l' b M = Some M' \<and> muxOk S good M' \<and> hears S l M'"
proof -
  have ok: "entriesOk (muxObjects M)"
    using assms(1) by (simp add: muxOk_def)
  obtain as where as: "firstAdditions (muxObjects M) = Some as"
      "viewBy hearMux l (\<lambda>_. 0) [(l, Base (Added as)), (l, Readded (laterAdditions (muxObjects M)))]
         = Some (counts (muxObjects M))"
    using existing_told [OF ok] by metis
  have none: "counts ([] :: 'w muxEntries) = (\<lambda>_. 0)"
    by (simp add: counts_def entryOf_def fun_eq_iff)
  note known = knowsD [OF assms(2) [unfolded hears_def]]
  show ?thesis
    using assms(1,3) known as none
    by (cases "l' \<in> set (muxedListeners M)"; cases b; cases "muxObjects M = []")
      (auto simp: addMuxedListener_def notifyMuxedAddedOnExistingObjects_def muxOk_def hears_def knows_def plainView_def
        muxedView_def viewBy_append Let_def simp del: hearMux.simps)
qed

lemma muxLeave_outcome:
  fixes M :: "('l, 's, 'w) ObjectMux"
  assumes "muxOk S good M" "hears S l M" "l' = l \<longrightarrow> b"
  shows "\<exists>M'. removeMuxedListener l' b M = Some M' \<and> muxOk S good M' \<and> hears S l M'"
proof -
  have ok: "entriesOk (muxObjects M)"
    using assms(1) by (simp add: muxOk_def)
  obtain as where as: "firstAdditions (muxObjects M) = Some as"
      "viewBy hearMux l (counts (muxObjects M)) [(l, RefCountReduced (laterRemovals (muxObjects M)) :: 'w MuxNotification),
         (l, Base (Removed (map makeRemoval as)))] = Some (\<lambda>_. 0)"
    using existing_told [OF ok] by metis
  have none: "counts ([] :: 'w muxEntries) = (\<lambda>_. 0)"
    by (simp add: counts_def entryOf_def fun_eq_iff)
  note known = knowsD [OF assms(2) [unfolded hears_def]]
  show ?thesis
    using assms(1,3) known as none
    by (cases "l' \<in> set (muxedListeners M)"; cases b; cases "muxObjects M = []")
      (auto simp: removeMuxedListener_def notifyMuxedRemovedOnExistingObjects_def muxOk_def hears_def knows_def plainView_def
        muxedView_def viewBy_append Let_def simp del: hearMux.simps)
qed

lemma destroy_outcome:
  assumes "listenerSetLaws S good" "muxOk S good M" "hears S l M" "l' \<noteq> l"
  shows "\<exists>M'. destroyMuxedListener S l' M = Some M' \<and> muxOk S good M' \<and> hears S l M'"
  using assms laws(5,7) [OF assms(1), of "muxListeners M" l']
  by (auto simp: destroyMuxedListener_def muxedListenerDeleted_def muxOk_def hears_def knows_def plainView_def
      muxedView_def Let_def distinct_removeAll)

text \<open>Every run keeps the invariant.\<close>

lemma run_informs:
  assumes "listenerSetLaws S good" "muxRun S (\<lambda>l' b. l' = l \<longrightarrow> b) (\<lambda>l'. l' \<noteq> l) M"
  shows "muxOk S good M \<and> hears S l M"
  using assms(2)
proof induction
  case created
  show ?case
    using assms(1) by (auto simp: newMux_def muxOk_def hears_def knows_def plainView_def muxedView_def entriesOk_def
        listenerSetLaws_def)
next
  case (added M as)
  then show ?case
    using added_informs [OF assms(1)] by blast
next
  case (removed M rs)
  then show ?case
    using removed_informs [OF assms(1)] by blast
next
  case (listened M l' b M')
  then show ?case
    using listen_outcome [OF assms(1), of M l l' b] by auto
next
  case (left M l' b M')
  then show ?case
    using leave_outcome [OF assms(1), of M l l' b] by auto
next
  case (muxListened M l' b M')
  then show ?case
    using muxListen_outcome [of S good M l l' b] by auto
next
  case (muxLeft M l' b M')
  then show ?case
    using muxLeave_outcome [of S good M l l' b] by auto
next
  case (ended M l' M')
  then show ?case
    using destroy_outcome [OF assms(1), of M l l'] by auto
qed

section \<open>The pairs of objects and interests\<close>

text \<open>What the mux abstracts to: the bag of objects with the interests that match them.\<close>

definition additionKey :: "'w ObjectAddition \<Rightarrow> u32 \<times> u32" where
  "additionKey a = (addedId a, addedInterest a)"

definition removalKey :: "ObjectRemoval \<Rightarrow> u32 \<times> u32" where
  "removalKey r = (removedId r, removedInterest r)"

definition pairs :: "'w muxEntries \<Rightarrow> (u32 \<times> u32) multiset" where
  "pairs m = mset (concat (map (\<lambda>(k, as). map additionKey as) m))"

lemma removes_key: "removes r a \<longleftrightarrow> additionKey a = removalKey r"
  by (auto simp: removes_def additionKey_def removalKey_def)

lemma pairs_dropKey:
  "distinct (map fst m) \<Longrightarrow> pairs m = mset (map additionKey (entryOf k m)) + pairs (dropKey k m)"
proof (induction m)
  case (Cons x m)
  obtain j as where x: "x = (j, as)"
    by (cases x)
  show ?case
  proof (cases "j = k")
    case True
    then have "dropKey k m = m"
      using Cons.prems by (force simp: x dropKey_def filter_id_conv)
    then show ?thesis
      using True by (simp add: x pairs_def dropKey_def entryOf_def)
  next
    case False
    then show ?thesis
      using Cons by (simp add: x pairs_def dropKey_def entryOf_def)
  qed
qed (simp add: pairs_def dropKey_def entryOf_def)

lemma pairs_setEntry:
  "distinct (map fst m) \<Longrightarrow> pairs (setEntry k as m) = mset (map additionKey as) + pairs (dropKey k m)"
proof (induction k as m rule: setEntry.induct)
  case (2 k as j bs m)
  show ?case
  proof (cases "j = k")
    case True
    then have "dropKey k m = m"
      using 2(2) by (force simp: dropKey_def filter_id_conv)
    then show ?thesis
      using True by (simp add: pairs_def dropKey_def)
  next
    case False
    then show ?thesis
      using 2 by (simp add: pairs_def dropKey_def)
  qed
qed (simp add: pairs_def dropKey_def)

lemma eraseFirst_key:
  "mset (map additionKey (eraseFirst (removes r) xs)) = mset (map additionKey xs) - {#removalKey r#}"
proof (induction xs)
  case (Cons a xs)
  then show ?case
    by (cases "additionKey a = removalKey r") (auto simp: removes_key)
qed simp

lemma addEach_pairs:
  "entriesOk m \<Longrightarrow> pairs (fst (addEach as m)) = pairs m + mset (map additionKey as)"
proof (induction as arbitrary: m)
  case (Cons a as)
  define m1 where "m1 = setEntry (addedId a) (entryOf (addedId a) m @ [a]) m"
  have "entriesOk m1"
    unfolding m1_def using Cons.prems entryOf_ids [OF Cons.prems] by (intro entriesOk_setEntry) auto
  moreover have "pairs m1 = add_mset (additionKey a) (pairs m)"
    using Cons.prems pairs_dropKey [of m "addedId a"] by (simp add: m1_def pairs_setEntry entriesOk_def)
  moreover have "fst (addEach (a # as) m) = fst (addEach as m1)"
    by (simp add: m1_def Let_def split: prod.splits)
  ultimately show ?case
    using Cons.IH [of m1] by simp
qed simp

lemma removeEach_pairs:
  "distinct (map fst m) \<Longrightarrow> (\<And>k a. a \<in> set (entryOf k m) \<Longrightarrow> addedId a = k) \<Longrightarrow>
   pairs (fst (removeEach rs m)) = pairs m - mset (map removalKey rs)"
proof (induction rs arbitrary: m)
  case (Cons r rs)
  define l where "l = eraseFirst (removes r) (entryOf (removedId r) m)"
  define m1 where "m1 = (if \<exists>a \<in> set (entryOf (removedId r) m). removes r a
      then if l = [] then dropKey (removedId r) m else setEntry (removedId r) l m
      else setEntry (removedId r) (entryOf (removedId r) m) m)"
  have step: "fst (removeEach (r # rs) m) = fst (removeEach rs m1)"
    by (simp add: m1_def l_def Let_def split: prod.splits)
  have "set l \<subseteq> set (entryOf (removedId r) m)"
    unfolding l_def by (rule eraseFirst_subset)
  then have "addedId a = k" if "a \<in> set (entryOf k m1)" for k a
    using that Cons.prems(2) by (auto simp: m1_def split: if_splits)
  moreover have "distinct (map fst m1)"
    using Cons.prems(1) by (simp add: m1_def setEntry_distinct)
  moreover have "pairs m1 = pairs m - {#removalKey r#}"
  proof (cases "\<exists>a \<in> set (entryOf (removedId r) m). removes r a")
    case True
    then have "removalKey r \<in># mset (map additionKey (entryOf (removedId r) m))"
      by (force simp: removes_key)
    moreover have "pairs m1 = mset (map additionKey l) + pairs (dropKey (removedId r) m)"
      using True Cons.prems(1) by (simp add: m1_def pairs_setEntry)
    ultimately show ?thesis
      using pairs_dropKey [OF Cons.prems(1), of "removedId r"] by (simp add: l_def eraseFirst_key del: mset_map)
  next
    case False
    have absent: "removalKey r \<notin># pairs m"
    proof
      assume "removalKey r \<in># pairs m"
      then obtain k as a where "(k, as) \<in> set m" "a \<in> set as" "removes r a"
        by (auto simp: pairs_def removes_key)
      then have "a \<in> set (entryOf k m)"
        using Cons.prems(1) by (simp add: entryOf_def)
      then show False
        using False Cons.prems(2) [of a k] \<open>removes r a\<close> by (auto simp: removes_def)
    qed
    then show ?thesis
      using False Cons.prems(1) pairs_dropKey [OF Cons.prems(1), of "removedId r"]
      by (simp add: m1_def pairs_setEntry diff_single_trivial)
  qed
  ultimately show ?case
    using Cons.IH [of m1] step by simp
qed simp

lemma pairs_present: "entriesOk m \<Longrightarrow> k \<in> fst ` set m \<longleftrightarrow> (\<exists>i. (k, i) \<in># pairs m)"
proof
  assume ok: "entriesOk m" and "k \<in> fst ` set m"
  then obtain as where as: "(k, as) \<in> set m"
    by auto
  then have "hd as \<in> set as" "addedId (hd as) = k"
    using ok by (auto simp: entriesOk_def)
  then have "(k, addedInterest (hd as)) \<in># pairs m"
    using as by (force simp: pairs_def additionKey_def)
  then show "\<exists>i. (k, i) \<in># pairs m" ..
next
  assume "entriesOk m" "\<exists>i. (k, i) \<in># pairs m"
  then show "k \<in> fst ` set m"
    by (force simp: pairs_def additionKey_def entriesOk_def)
qed

lemma objects_told:
  "muxObjects (onObjectsAdded S as M) = fst (addEach as (muxObjects M))"
  "muxObjects (onObjectsRemoved S rs M) = fst (removeEach rs (muxObjects M))"
  by (simp_all add: onObjectsAdded_def onObjectsRemoved_def muxNotifyObjectsAdded_def muxNotifyObjectsRemoved_def
      notifyExistingObjectsReadded_def notifyObjectsRefCountReduced_def Let_def split: prod.splits)

section \<open>Properties\<close>


definition exampleAddition :: "u32 \<Rightarrow> u32 \<Rightarrow> nat ObjectAddition" where
  "exampleAddition k i = \<lparr>addedInstance = exampleObject k, addedId = k, addedInterest = i, addedOwner = 9\<rparr>"

definition exampleMux :: "(nat, nat list, nat) ObjectMux" where
  "exampleMux = onObjectsRemoved listSet [makeRemoval (exampleAddition 5 1)]
     (the (addMuxedListener 7 True
       (onObjectsAdded listSet [exampleAddition 5 1, exampleAddition 6 1, exampleAddition 5 2] (newMux listSet))))"

lemmas example_mux_defs = exampleMux_def exampleAddition_def newMux_def listSet_def onObjectsAdded_def onObjectsRemoved_def
  addMuxedListener_def notifyMuxedAddedOnExistingObjects_def entryOf_def removes_def makeRemoval_def
  muxNotifyObjectsAdded_def muxNotifyObjectsRemoved_def notifyExistingObjectsReadded_def
  notifyObjectsRefCountReduced_def tellAll_def tellMuxed_def

lemma exampleMux_run: "muxRun listSet (\<lambda>l' b. l' = 7 \<longrightarrow> b) (\<lambda>l'. l' \<noteq> 7) exampleMux"
proof -
  let ?M = "onObjectsAdded listSet [exampleAddition 5 1, exampleAddition 6 1, exampleAddition 5 2] (newMux listSet)"
  have "addMuxedListener 7 True ?M = Some (the (addMuxedListener 7 True ?M))"
    by (simp add: example_mux_defs Let_def)
  from muxRun.muxListened [OF muxRun.added [OF muxRun.created] _ this]
  have "muxRun listSet (\<lambda>l' b. l' = 7 \<longrightarrow> b) (\<lambda>l'. l' \<noteq> 7) (the (addMuxedListener 7 True ?M))"
    by simp
  then show ?thesis
    unfolding exampleMux_def by (rule muxRun.removed) (simp add: example_mux_defs Let_def)
qed

lemma exampleMux_state: "hasMuxedListener 7 exampleMux" "7 \<notin> set (items listSet (muxListeners exampleMux))"
    "map fst (muxObjects exampleMux) = [5, 6]" "length (entryOf 5 (muxObjects exampleMux)) = 1"
  by (simp_all add: example_mux_defs hasMuxedListener_def Let_def)


text \<open>
  C26. The mux refines a bag of pairs of an object and an interest: an addition adds its pair, a
  removal takes its pair away if it is there, and an object is present exactly if the bag has a
  pair with it.
\<close>

theorem mux_refines_bag:
  assumes "listenerSetLaws S good" "muxRun S (\<lambda>l' b. l' = l \<longrightarrow> b) (\<lambda>l'. l' \<noteq> l) M"
  shows "pairs (muxObjects (onObjectsAdded S as M)) = pairs (muxObjects M) + mset (map additionKey as)
    \<and> pairs (muxObjects (onObjectsRemoved S rs M)) = pairs (muxObjects M) - mset (map removalKey rs)
    \<and> fst ` set (muxObjects M) = {k. \<exists>i. (k, i) \<in># pairs (muxObjects M)}"
proof -
  have ok: "entriesOk (muxObjects M)"
    using run_informs [OF assms] by (simp add: muxOk_def)
  have "fst ` set (muxObjects M) = {k. \<exists>i. (k, i) \<in># pairs (muxObjects M)}"
    using pairs_present [OF ok] by blast
  then show ?thesis
    using ok addEach_pairs [OF ok] removeEach_pairs [of "muxObjects M" rs] entryOf_ids [OF ok]
    by (simp add: objects_told entriesOk_def)
qed

theorem mux_refines_bag_witness:
  "pairs (muxObjects (onObjectsAdded listSet [exampleAddition 5 3] exampleMux)) =
     pairs (muxObjects exampleMux) + {#(5, 3)#}"
  using mux_refines_bag [OF listSet_laws exampleMux_run, of "[exampleAddition 5 3]"]
  by (simp add: additionKey_def exampleAddition_def)

lemma empty_entry_undefined: "(k, []) \<in> set m \<Longrightarrow> firstAdditions m = None"
  by (induction m rule: firstAdditions.induct) (auto split: list.splits)

lemma unknown_removal:
  assumes "removedId r \<notin> fst ` set (muxObjects M)"
  shows "onObjectsRemoved S [r] M = M\<lparr>muxObjects := setEntry (removedId r) [] (muxObjects M)\<rparr>"
proof -
  have "entryOf (removedId r) (muxObjects M) = []"
    using assms by (simp add: entryOf_def flip: map_of_eq_None_iff)
  then show ?thesis
    by (simp add: onObjectsRemoved_def)
qed

lemma setEntry_in: "(k, as) \<in> set (setEntry k as m)"
  by (induction k as m rule: setEntry.induct) auto

text \<open>
  C27. Two accesses of the mux are undefined.  The removal of an object it does not know leaves an entry without
  additions, and the next listener that asks for the existing objects, of either kind, is told the first element
  of an empty vector.  And the mux does not unregister from its muxed listeners when it is destroyed: the
  destructor of one that outlives it calls it.
\<close>

theorem mux_undefined_accesses:
  assumes "listenerSetLaws S good" "good (muxListeners M)"
    "removedId r \<notin> fst ` set (muxObjects M)" "l \<notin> set (items S (muxListeners M))" "l \<notin> set (muxedListeners M)"
    "addMuxedListener l b M = Some M'"
  shows "muxAddListener S l True (onObjectsRemoved S [r] M) = None
    \<and> addMuxedListener l True (onObjectsRemoved S [r] M) = None
    \<and> destroyMuxedListener S l (destroyMux S M') = None"
proof -
  let ?m = "setEntry (removedId r) [] (muxObjects M)"
  have "firstAdditions ?m = None" "?m \<noteq> []"
    using empty_entry_undefined [OF setEntry_in] setEntry_in [of "removedId r" "[]" "muxObjects M"] by force+
  moreover have "fst (emplace S l (muxListeners M))"
    using laws(3) [OF assms(1,2)] assms(4) by simp
  moreover have "l \<in> muxedLinked M'"
    using assms(5,6) by (auto simp: addMuxedListener_def notifyMuxedAddedOnExistingObjects_def Let_def split: if_splits)
  ultimately show ?thesis
    using assms(5)
    by (simp add: unknown_removal [OF assms(3)] muxAddListener_def muxNotifyAddedOnExistingObjects_def addMuxedListener_def
        notifyMuxedAddedOnExistingObjects_def destroyMuxedListener_def destroyMux_def Let_def case_prod_unfold)
qed

theorem mux_undefined_accesses_witness:
  "muxAddListener listSet 3 True (onObjectsRemoved listSet [makeRemoval (exampleAddition 8 1)] exampleMux) = None"
proof -
  have "\<exists>M'. addMuxedListener 3 False exampleMux = Some M'"
    by (simp add: addMuxedListener_def Let_def)
  moreover have "distinct (muxListeners exampleMux)" "removedId (makeRemoval (exampleAddition 8 1)) \<notin> fst ` set (muxObjects exampleMux)"
      "3 \<notin> set (items listSet (muxListeners exampleMux))" "3 \<notin> set (muxedListeners exampleMux)"
    by (simp_all add: example_mux_defs Let_def)
  ultimately show ?thesis
    using mux_undefined_accesses [OF listSet_laws] by blast
qed

end
