(* ===== verification/Bus_View.thy ===== *)
theory Bus_View
  imports Object_Filter Object_Mux
begin

text \<open>
  A mux that listens to the providers of a filter.  The callbacks the providers record for one listener, in any
  interleaving of the providers, are fed to a mux: it never reaches an undefined access, and its
  objects are the union of what the providers it is subscribed to have present.
\<close>

section \<open>Feeding a mux\<close>

fun feed :: "('l, 's) ListenerSet \<Rightarrow> ('p \<times> 'w Notification) list \<Rightarrow> ('l, 's, 'w) ObjectMux \<Rightarrow> ('l, 's, 'w) ObjectMux" where
  "feed S [] M = M"
| "feed S ((p, Added as) # ns) M = feed S ns (onObjectsAdded S as M)"
| "feed S ((p, Removed rs) # ns) M = feed S ns (onObjectsRemoved S rs M)"

text \<open>The callbacks of one sender or to one receiver.\<close>

definition callbacksOf :: "'p \<Rightarrow> ('p \<times> 'w Notification) list \<Rightarrow> 'w Notification list" where
  "callbacksOf p ns = map snd (filter (\<lambda>x. fst x = p) ns)"

lemma callbacksOf_simps [simp]:
  "callbacksOf p [] = []"
  "callbacksOf p ((q, n) # ns) = (if q = p then n # callbacksOf p ns else callbacksOf p ns)"
  by (simp_all add: callbacksOf_def)

fun listen :: "u32 set \<Rightarrow> 'w Notification list \<Rightarrow> u32 set option" where
  "listen V [] = Some V"
| "listen V (n # ns) = Option.bind (hear n V) (\<lambda>V'. listen V' ns)"

lemma view_listen: "view l V log = listen V (callbacksOf l log)"
  by (induction l V log rule: view.induct) (auto split: bind_splits)

section \<open>Providers speak for their interest\<close>

fun notificationInterests :: "'w Notification \<Rightarrow> u32 set" where
  "notificationInterests (Added as) = addedInterest ` set as"
| "notificationInterests (Removed rs) = removedInterest ` set rs"

definition speaksFor :: "('l, 's, 'w) FilteredProvider \<Rightarrow> bool" where
  "speaksFor p \<longleftrightarrow> (\<forall>x \<in> set (told p). notificationInterests (snd x) \<subseteq> {interestId (interest p)})
     \<and> (\<forall>x \<in> set (currentAdditions p). addedInterest (snd x) = interestId (interest p))"

lemma startTracking_interest:
  "interestId (interest (startTracking objs p)) = interestId (interest p)
   \<and> told (startTracking objs p) = told p \<and> currentAdditions (startTracking objs p) = currentAdditions p"
proof (induction objs p rule: startTracking.induct)
  case (2 k obj objs p)
  have "interestId (snd (createTrackedObject obj (interest p))) = interestId (interest p)"
    by (auto simp: createTrackedObject_def getOrComputeVarInfoList_def Let_def split: prod.splits sum.splits option.splits)
  then show ?case
    using 2 by (auto split: prod.splits)
qed simp

lemma stopTracking_interest:
  assumes "stopTracking ks p = (rs, q)" "speaksFor p"
  shows "speaksFor q \<and> interest q = interest p \<and> (\<forall>r \<in> set rs. removedInterest r = interestId (interest p))"
  using assms
proof (induction ks arbitrary: p rs q)
  case (Cons k ks)
  show ?case
  proof (cases "map_of (trackedObjects p) k")
    case None
    then show ?thesis
      using Cons by simp
  next
    case (Some t)
    define found where "found = (if notified t then map_of (currentAdditions p) k else None)"
    define p1 where "p1 = p\<lparr>trackedObjects := dropKey k (trackedObjects p),
        currentAdditions := (if found = None then currentAdditions p else dropKey k (currentAdditions p))\<rparr>"
    obtain rs1 where rest: "stopTracking ks p1 = (rs1, q)" "rs = (case found of Some a \<Rightarrow> makeRemoval a # rs1 | None \<Rightarrow> rs1)"
      using Cons.prems(1) Some by (cases "stopTracking ks p1") (simp add: found_def p1_def Let_def)
    have "speaksFor p1" "interest p1 = interest p"
      using Cons.prems(2) by (auto simp: speaksFor_def p1_def)
    moreover have "addedInterest a = interestId (interest p)" if "found = Some a" for a
      using that Cons.prems(2) by (auto simp: found_def speaksFor_def dest!: map_of_SomeD split: if_splits)
    ultimately show ?thesis
      using Cons.IH [OF rest(1)] rest(2) by (auto simp: makeRemoval_def split: option.splits)
  qed
qed simp

lemma evaluateEach_interest:
  "(\<forall>x \<in> set (presentObjects (evaluateEach ub p w ts)). addedInterest (snd x) = interestId (interest p))
   \<and> (\<forall>a \<in> set (newAdditions (evaluateEach ub p w ts)). addedInterest a = interestId (interest p))
   \<and> (\<forall>r \<in> set (newRemovals (evaluateEach ub p w ts)). removedInterest r = interestId (interest p))"
  by (induction ub p w ts rule: evaluateEach.induct) (auto simp: Let_def additionOf_def removalOf_def split: prod.splits)

lemma removeAll_speaks: "speaksFor p \<Longrightarrow> speaksFor (fold notifyRemovedOnExistingObjects ls p)"
proof (induction ls arbitrary: p)
  case (Cons l ls)
  have "speaksFor (notifyRemovedOnExistingObjects l p)"
    using Cons.prems by (auto simp: notifyRemovedOnExistingObjects_def speaksFor_def makeRemoval_def)
  then show ?case
    using Cons.IH by simp
qed simp

lemma tell_speaks:
  assumes "speaksFor p" "notificationInterests n \<subseteq> {interestId (interest p)}"
  shows "speaksFor (p\<lparr>told := told p @ map (\<lambda>l. (l, n)) ls\<rparr>)"
  using assms by (auto simp: speaksFor_def)

lemma stop_speaks:
  assumes "speaksFor p"
  shows "speaksFor (stopTrackingAndNotify S ids p)"
proof -
  obtain rs q where e: "stopTracking ids p = (rs, q)"
    by (cases "stopTracking ids p")
  have q: "speaksFor q" "interest q = interest p" "\<forall>r \<in> set rs. removedInterest r = interestId (interest p)"
    using stopTracking_interest [OF e assms] by simp_all
  then have "notificationInterests (Removed rs) \<subseteq> {interestId (interest q)}"
    by auto
  then have "speaksFor (notifyObjectsRemoved S rs q)"
    unfolding notifyObjectsRemoved_def by (rule tell_speaks [OF q(1)])
  then show ?thesis
    using e q(1) by (simp add: stopTrackingAndNotify_def)
qed

lemma evaluate_speaks:
  assumes "speaksFor p"
  shows "speaksFor (evaluateTrackedObjects S ub w p)"
proof -
  define e where "e = evaluateEach ub p w (trackedObjects p)"
  note e = evaluateEach_interest [of ub p w "trackedObjects p", folded e_def]
  define p1 where "p1 = p\<lparr>currentAdditions := presentObjects e, trackedObjects := keptObjects e\<rparr>"
  define p2 where "p2 = (if newAdditions e = [] then p1 else notifyObjectsAdded S (newAdditions e) p1)"
  have p1: "speaksFor p1" "interest p1 = interest p"
    using assms e by (simp_all add: speaksFor_def p1_def)
  then have "speaksFor (notifyObjectsAdded S (newAdditions e) p1)"
    unfolding notifyObjectsAdded_def using e by (intro tell_speaks) auto
  then have p2: "speaksFor p2" "interest p2 = interest p"
    using p1 by (simp_all add: p2_def notifyObjectsAdded_def)
  then have "speaksFor (notifyObjectsRemoved S (newRemovals e) p2)"
    unfolding notifyObjectsRemoved_def using e by (intro tell_speaks) auto
  moreover have "evaluateTrackedObjects S ub w p =
      (if newRemovals e = [] then p2 else notifyObjectsRemoved S (newRemovals e) p2)"
    unfolding p2_def p1_def e_def evaluateTrackedObjects_def by (simp only: Let_def)
  ultimately show ?thesis
    using p2(1) by simp
qed

interpretation own_interest: provider_invariant S speaksFor speaksFor tells moves ends for S tells moves ends
proof unfold_locales
  show "speaksFor p \<Longrightarrow> speaksFor (stopTrackingAndNotify S ids p)" for p ids
    by (rule stop_speaks)
  show "speaksFor p \<Longrightarrow> speaksFor (evaluateTrackedObjects S ub w p)" for p ub w
    by (rule evaluate_speaks)
  show "speaksFor p \<Longrightarrow> speaksFor (destroyProvider S p)" for p
    using removeAll_speaks [of p "items S (listeners p)"]
    by (auto simp: destroyProvider_def notifyRemovedOnExistingObjectsForAllListeners_def speaksFor_def Let_def)
  show "speaksFor p \<Longrightarrow> speaksFor (startTracking objs p)" for p objs
    using startTracking_interest [of objs p] by (simp add: speaksFor_def)
qed (auto simp: speaksFor_def makeProvider_def addListener_def notifyAddedOnExistingObjects_def removeListener_def
    notifyRemovedOnExistingObjects_def makeRemoval_def replaceListener_def destroyListener_def listenerDeleted_def
    Let_def split: prod.splits)

section \<open>The mux unites its sources\<close>

text \<open>What a source with the interest \<open>i\<close> contributes while it has the objects \<open>V\<close> present.\<close>

definition share :: "u32 \<Rightarrow> u32 set \<Rightarrow> (u32 \<times> u32) multiset" where
  "share i V = image_mset (\<lambda>k. (k, i)) (mset_set V)"

lemma share_union:
  "finite V \<Longrightarrow> distinct (map addedId as) \<Longrightarrow> addedId ` set as \<inter> V = {} \<Longrightarrow> addedInterest ` set as \<subseteq> {i} \<Longrightarrow>
   share i (V \<union> addedId ` set as) = share i V + mset (map additionKey as)"
proof -
  assume V: "finite V" "distinct (map addedId as)" "addedId ` set as \<inter> V = {}" and i: "addedInterest ` set as \<subseteq> {i}"
  have keys: "map additionKey as = map (\<lambda>k. (k, i)) (map addedId as)"
    using i by (auto simp: additionKey_def)
  have "mset_set (addedId ` set as) = mset (map addedId as)"
    using V(2) by (metis image_set mset_set_set)
  then show ?thesis
    unfolding keys mset_map [of "\<lambda>k. (k, i)"] using V
    by (simp add: share_def mset_set_Union Int_commute del: mset_map)
qed

lemma share_diff:
  assumes "finite V" "distinct (map removedId rs)" "removedId ` set rs \<subseteq> V" "removedInterest ` set rs \<subseteq> {i}"
  shows "mset (map removalKey rs) \<subseteq># share i V"
    "share i (V - removedId ` set rs) = share i V - mset (map removalKey rs)"
proof -
  have keys: "map removalKey rs = map (\<lambda>k. (k, i)) (map removedId rs)"
    using assms(4) by (auto simp: removalKey_def)
  have ids: "mset (map removedId rs) = mset_set (removedId ` set rs)"
    using assms(2) by (metis image_set mset_set_set)
  have sub: "mset (map removedId rs) \<subseteq># mset_set V"
    unfolding ids using assms(1,3) by (simp add: subset_imp_msubset_mset_set)
  then show "mset (map removalKey rs) \<subseteq># share i V"
    unfolding keys share_def mset_map [of "\<lambda>k. (k, i)"] by (rule image_mset_subseteq_mono)
  have "mset_set (V - removedId ` set rs) = mset_set V - mset (map removedId rs)"
    unfolding ids using assms(1,3) by (simp add: mset_set_Diff)
  then show "share i (V - removedId ` set rs) = share i V - mset (map removalKey rs)"
    unfolding keys share_def mset_map [of "\<lambda>k. (k, i)"] using sub by (simp add: image_mset_Diff del: mset_map)
qed

lemma removable_pairs:
  "entriesOk m \<Longrightarrow> mset (map removalKey rs) \<subseteq># pairs m \<Longrightarrow> removable rs m"
proof (induction rs arbitrary: m)
  case (Cons r rs)
  have "removalKey r \<in># pairs m"
    using Cons.prems(2) by (auto dest: mset_subset_eqD)
  then obtain k as a where "(k, as) \<in> set m" "a \<in> set as" "additionKey a = removalKey r"
    by (auto simp: pairs_def)
  moreover have "k = removedId r"
    using Cons.prems(1) calculation by (auto simp: entriesOk_def additionKey_def removalKey_def)
  ultimately have found: "\<exists>a \<in> set (entryOf (removedId r) m). removes r a"
    using entryOf_member [OF Cons.prems(1)] by (auto simp: removes_key)
  define m1 where "m1 = fst (removeEach [r] m)"
  obtain act dup where "removeEach [r] m = (m1, act, dup)"
    unfolding m1_def by (cases "removeEach [r] m") auto
  then have "entriesOk m1"
    using removeEach_spec [of "[r]" m m1 act dup] Cons.prems(1) found by simp
  moreover have "pairs m1 = pairs m - {#removalKey r#}"
    using removeEach_pairs [of m "[r]"] Cons.prems(1) entryOf_ids [OF Cons.prems(1)] by (simp add: m1_def entriesOk_def)
  then have "mset (map removalKey rs) \<subseteq># pairs m1"
    using Cons.prems(2) by (simp add: insert_subset_eq_iff)
  ultimately show ?case
    using Cons.IH found by (simp add: m1_def)
qed simp

text \<open>
  The invariant: the mux has one pair for each source and each object the source has present.
\<close>

definition united :: "'p set \<Rightarrow> ('p \<Rightarrow> u32) \<Rightarrow> ('p \<Rightarrow> u32 set) \<Rightarrow> ('l, 's, 'w) ObjectMux \<Rightarrow> bool" where
  "united A i V M \<longleftrightarrow> pairs (muxObjects M) = (\<Sum>p\<in>A. share (i p) (V p)) \<and> (\<forall>p. finite (V p))"

lemma sum_at:
  fixes f :: "'p \<Rightarrow> (u32 \<times> u32) multiset"
  assumes "finite A" "p \<in> A"
  shows "(\<Sum>q\<in>A. (f(p := x)) q) = x + (\<Sum>q\<in>A - {p}. f q)" "(\<Sum>q\<in>A. f q) = f p + (\<Sum>q\<in>A - {p}. f q)"
  using assms by (simp_all add: sum.remove)

lemma share_upd: "(\<lambda>q. share (i q) ((V(p := W)) q)) = (\<lambda>q. share (i q) (V q))(p := share (i p) W)"
  by auto

lemma united_added:
  assumes "entriesOk (muxObjects M)" "united A i V M" "finite A" "p \<in> A"
    "hear (Added as) (V p) = Some W" "notificationInterests (Added as) \<subseteq> {i p}"
  shows "united A i (V(p := W)) (onObjectsAdded S as M)"
proof -
  have W: "distinct (map addedId as)" "addedId ` set as \<inter> V p = {}" "W = V p \<union> addedId ` set as"
    using assms(5) by (auto split: if_splits)
  have fin: "finite (V p)"
    using assms(2) by (simp add: united_def)
  have "share (i p) W = share (i p) (V p) + mset (map additionKey as)"
    unfolding W(3) using share_union [OF fin W(1,2)] assms(6) by simp
  then have "(\<Sum>q\<in>A. share (i q) ((V(p := W)) q)) = (\<Sum>q\<in>A. share (i q) (V q)) + mset (map additionKey as)"
    unfolding share_upd sum_at(1) [OF assms(3,4)] sum_at(2) [OF assms(3,4), of "\<lambda>q. share (i q) (V q)"]
    by (simp add: ac_simps)
  then show ?thesis
    using assms(2) W(3) addEach_pairs [OF assms(1)] by (simp add: united_def objects_told)
qed

lemma united_removed:
  assumes "entriesOk (muxObjects M)" "united A i V M" "finite A" "p \<in> A"
    "hear (Removed rs :: 'w Notification) (V p) = Some W" "notificationInterests (Removed rs :: 'w Notification) \<subseteq> {i p}"
  shows "removable rs (muxObjects M)" "united A i (V(p := W)) (onObjectsRemoved S rs M)"
proof -
  have W: "distinct (map removedId rs)" "removedId ` set rs \<subseteq> V p" "W = V p - removedId ` set rs"
    using assms(5) by (auto split: if_splits)
  have fin: "finite (V p)"
    using assms(2) by (simp add: united_def)
  have i: "removedInterest ` set rs \<subseteq> {i p}"
    using assms(6) by simp
  note shares = share_diff [OF fin W(1,2) i]
  have total: "pairs (muxObjects M) = share (i p) (V p) + (\<Sum>q\<in>A - {p}. share (i q) (V q))"
    using assms(2) sum_at(2) [OF assms(3,4), of "\<lambda>q. share (i q) (V q)"] by (simp add: united_def)
  then have le: "mset (map removalKey rs) \<subseteq># pairs (muxObjects M)"
    using shares(1) by (simp add: subset_mset.add_increasing2)
  then show "removable rs (muxObjects M)"
    by (rule removable_pairs [OF assms(1)])
  have "(\<Sum>q\<in>A. share (i q) ((V(p := W)) q)) = pairs (muxObjects M) - mset (map removalKey rs)"
    unfolding share_upd sum_at(1) [OF assms(3,4)] total W(3) shares(2)
    using shares(1) by (simp add: subset_mset.add_diff_assoc2)
  then show "united A i (V(p := W)) (onObjectsRemoved S rs M)"
    using assms(1,2) W(3) removeEach_pairs [of "muxObjects M" rs] entryOf_ids [OF assms(1)]
    by (simp add: united_def objects_told entriesOk_def)
qed

text \<open>
  Any interleaving of what the sources tell, each consistent in itself and with one interest, can be fed to the mux.
\<close>

lemma feed_unites:
  fixes M :: "('l, 's, 'w) ObjectMux"
  assumes "listenerSetLaws S good" "finite A"
  shows "muxRun S (\<lambda>l' b. l' = l \<longrightarrow> b) (\<lambda>l'. l' \<noteq> l) M \<Longrightarrow> united A i V M \<Longrightarrow>
    \<forall>x \<in> set ns. fst x \<in> A \<and> notificationInterests (snd x) \<subseteq> {i (fst x)} \<Longrightarrow>
    (\<And>p. listen (V p) (callbacksOf p ns) = Some (W p)) \<Longrightarrow>
    muxRun S (\<lambda>l' b. l' = l \<longrightarrow> b) (\<lambda>l'. l' \<noteq> l) (feed S ns M) \<and> united A i W (feed S ns M)"
proof (induction ns arbitrary: M V)
  case Nil
  then have "V = W"
    by (simp add: fun_eq_iff)
  then show ?case
    using Nil by simp
next
  case (Cons x ns)
  obtain p n where x: "x = (p, n)"
    by (cases x)
  have p: "p \<in> A" "notificationInterests n \<subseteq> {i p}"
    using Cons.prems(3) by (simp_all add: x)
  obtain V' where V': "hear n (V p) = Some V'" "listen V' (callbacksOf p ns) = Some (W p)"
    using Cons.prems(4) [of p] by (auto simp: x bind_eq_Some_conv simp del: hear.simps)
  have rest: "listen ((V(p := V')) q) (callbacksOf q ns) = Some (W q)" for q
    using V'(2) Cons.prems(4) [of q] by (cases "q = p") (simp_all add: x)
  have ok: "entriesOk (muxObjects M)"
    using run_informs [OF assms(1) Cons.prems(1)] by (simp add: muxOk_def)
  show ?case
  proof (cases n)
    case (Added as)
    show ?thesis
      using Cons.IH [OF muxRun.added [OF Cons.prems(1)] united_added [OF ok Cons.prems(2) assms(2) p(1)] _ rest]
        V'(1) p(2) Cons.prems(3) by (simp add: x Added)
  next
    case (Removed rs)
    note step = united_removed [OF ok Cons.prems(2) assms(2) p(1) V'(1) [unfolded Removed] p(2) [unfolded Removed]]
    show ?thesis
      using Cons.IH [OF muxRun.removed [OF Cons.prems(1) step(1)] step(2) _ rest] Cons.prems(3) by (simp add: x Removed)
  qed
qed

lemma united_objects:
  assumes "entriesOk (muxObjects M)" "united A i V M" "finite A"
  shows "fst ` set (muxObjects M) = (\<Union>p\<in>A. V p)"
proof -
  have mem: "(k, j) \<in># share (i p) (V p) \<longleftrightarrow> j = i p \<and> k \<in> V p" for k j p
    using assms(2) by (auto simp: share_def united_def)
  have "set_mset (pairs (muxObjects M)) = (\<Union>p\<in>A. set_mset (share (i p) (V p)))"
    using assms(2,3) by (simp add: united_def set_mset_sum)
  then have "(\<exists>j. (k, j) \<in># pairs (muxObjects M)) \<longleftrightarrow> (\<exists>p\<in>A. k \<in> V p)" for k
    by (auto simp: mem)
  then have "k \<in> fst ` set (muxObjects M) \<longleftrightarrow> k \<in> (\<Union>p\<in>A. V p)" for k
    using pairs_present [OF assms(1)] by simp
  then show ?thesis
    by (rule set_eqI)
qed

section \<open>Properties\<close>

text \<open>
  C12. Filter and mux together.  When a mux is subscribed to providers of a filter, and is given what they tell it in any
  interleaving of the providers, its objects are the union of the objects present in the providers it is
  subscribed to; the precondition of the mux, that sources remove only what they added, is what the filter
  guarantees, so no access is undefined.
\<close>

theorem mux_unites_providers:
  assumes "listenerSetLaws S good" "listenerSetLaws S' good'"
    "filterRun S (\<lambda>l b. l = m \<longrightarrow> b) (\<lambda>old new. old \<noteq> m \<and> new \<noteq> m) (\<lambda>l. l \<noteq> m) F"
    "\<forall>k < length (heap F). callbacksOf k ns = callbacksOf m (told (heap F ! k))"
    "\<forall>x \<in> set ns. fst x < length (heap F)"
  shows "fst ` set (muxObjects (feed S' ns (newMux S'))) =
      (\<Union>k \<in> {k. k < length (heap F) \<and> live F k \<and> hasListener S m (heap F ! k)}. presentIds (heap F ! k))
    \<and> muxRun S' (\<lambda>l' b. l' = l \<longrightarrow> b) (\<lambda>l'. l' \<noteq> l) (feed S' ns (newMux S'))"
proof -
  let ?A = "{..<length (heap F)}" and ?M = "feed S' ns (newMux S')"
  let ?i = "\<lambda>k. interestId (interest (heap F ! k))"
  define W where "W k = (if k \<in> ?A \<and> live F k \<and> hasListener S m (heap F ! k) then presentIds (heap F ! k) else {})" for k
  have heard: "listen {} (callbacksOf k ns) = Some (W k)" for k
  proof (cases "k \<in> ?A")
    case True
    then have "view m {} (told (heap F ! k)) = Some (W k)"
      using listener_told [OF assms(1,3)] by (simp add: W_def)
    then show ?thesis
      using assms(4) True by (simp add: view_listen)
  next
    case False
    then have "callbacksOf k ns = []"
      using assms(5) by (auto simp: callbacksOf_def filter_empty_conv)
    then show ?thesis
      using False by (simp add: W_def)
  qed
  have "allLive speaksFor speaksFor F"
    by (rule own_interest.run_keeps [OF assms(3)])
  then have speaks: "speaksFor (heap F ! k)" if "k \<in> ?A" for k
    using that by (auto simp: allLive_def split: if_splits)
  have "fst x \<in> ?A \<and> notificationInterests (snd x) \<subseteq> {?i (fst x)}" if "x \<in> set ns" for x
  proof -
    have A: "fst x \<in> ?A"
      using that assms(5) by simp
    have "snd x \<in> set (callbacksOf (fst x) ns)"
      using that by (auto simp: callbacksOf_def)
    then have "snd x \<in> set (callbacksOf m (told (heap F ! fst x)))"
      using A assms(4) by simp
    then show ?thesis
      using A speaks [OF A] by (force simp: callbacksOf_def speaksFor_def)
  qed
  moreover have "united ?A ?i (\<lambda>_. {}) (newMux S')"
    by (simp add: united_def newMux_def pairs_def share_def)
  ultimately have fed: "muxRun S' (\<lambda>l' b. l' = l \<longrightarrow> b) (\<lambda>l'. l' \<noteq> l) ?M" "united ?A ?i W ?M"
    using feed_unites [OF assms(2) finite_lessThan muxRun.created _ _ heard] by blast+
  have "entriesOk (muxObjects ?M)"
    using run_informs [OF assms(2) fed(1)] by (simp add: muxOk_def)
  from united_objects [OF this fed(2) finite_lessThan] fed(1) show ?thesis
    by (auto simp: W_def split: if_splits)
qed

theorem mux_unites_providers_witness:
  "fst ` set (muxObjects (feed listSet
      (map (\<lambda>n. (0 :: nat, n)) (callbacksOf 7 (told (heap exampleFilter ! 0)))) (newMux listSet)))
     = presentIds (heap exampleFilter ! 0)"
proof -
  let ?ns = "map (\<lambda>n. (0 :: nat, n)) (callbacksOf 7 (told (heap exampleFilter ! 0)))"
  have "callbacksOf 0 ?ns = callbacksOf 7 (told (heap exampleFilter ! 0))"
    by (simp add: callbacksOf_def [of 0] o_def)
  then have "\<forall>k < length (heap exampleFilter). callbacksOf k ?ns = callbacksOf 7 (told (heap exampleFilter ! k))"
    by (simp add: exampleFilter_state)
  moreover have "{k. k < length (heap exampleFilter) \<and> live exampleFilter k \<and> hasListener listSet 7 (heap exampleFilter ! k)} = {0}"
    using exampleFilter_state by auto
  ultimately show ?thesis
    using mux_unites_providers [OF listSet_laws listSet_laws exampleFilter_run, of ?ns 0] by (simp add: exampleFilter_state)
qed

end
