(* ===== verification/Work_Queue.thy ===== *)
theory Work_Queue
  imports Sen_Prelude "HOL-Library.Multiset_Order"
begin

text \<open>
  The queue of work of an object's owner (WorkQueueImpl in obj/work_queue.cpp): pushing with a limit and a policy for what
  does not fit, and draining, where the work may push more, drain again, clear or disable the queue.

  The concurrent queue underneath is a library: its operations are a parameter, with the laws it promises to one
  thread.  What a unit of work does to this queue is given by \<open>body\<close>, which is arbitrary; a drain that never
  returns has no result.  Calls are recorded when they run, and those given to the callback for dropped work too.
  The buffer that is kept to save allocations is not modelled.
\<close>

section \<open>State\<close>

record ('c, 'q) ConcurrentQueue =
  emptyQueue :: 'q
  enqueue :: "'c \<Rightarrow> 'q \<Rightarrow> 'q"
  tryDequeue :: "'q \<Rightarrow> ('c \<times> 'q) option"
  tryDequeueBulk :: "nat \<Rightarrow> 'q \<Rightarrow> 'c list \<times> 'q"
  sizeApprox :: "'q \<Rightarrow> nat"

record ('c, 'q) WorkQueue =
  workQueue :: 'q
  enabled :: bool
  maxSize :: nat
  dropOld :: bool
  dropped :: "'c list"
  executed :: "'c list"

datatype 'c Action = Push 'c bool | ExecuteAll | ClearQueue | Enable | Disable

datatype 'c Step = Invoke 'c | Act "'c Action"

definition defaultBulkBufferSize :: nat where
  "defaultBulkBufferSize = 10"

section \<open>Operations\<close>

definition newWorkQueue :: "('c, 'q) ConcurrentQueue \<Rightarrow> nat \<Rightarrow> bool \<Rightarrow> ('c, 'q) WorkQueue" where
  "newWorkQueue Q limit dropOldest = \<lparr>workQueue = emptyQueue Q, enabled = False, maxSize = limit, dropOld = dropOldest,
     dropped = [], executed = []\<rparr>"

definition enable :: "('c, 'q) WorkQueue \<Rightarrow> ('c, 'q) WorkQueue" where
  "enable w = w\<lparr>enabled := True\<rparr>"

definition disable :: "('c, 'q) WorkQueue \<Rightarrow> ('c, 'q) WorkQueue" where
  "disable w = w\<lparr>enabled := False\<rparr>"

definition push :: "('c, 'q) ConcurrentQueue \<Rightarrow> 'c \<Rightarrow> bool \<Rightarrow> ('c, 'q) WorkQueue \<Rightarrow> ('c, 'q) WorkQueue" where
  "push Q call force w =
    (if \<not> enabled w then w
     else if maxSize w = 0 \<or> force then w\<lparr>workQueue := enqueue Q call (workQueue w)\<rparr>
     else if sizeApprox Q (workQueue w) < maxSize w then w\<lparr>workQueue := enqueue Q call (workQueue w)\<rparr>
     else
       let w1 = w\<lparr>dropped := dropped w @ [call]\<rparr>
       in if dropOld w
          then w1\<lparr>workQueue := enqueue Q call
                 (case tryDequeue Q (workQueue w) of None \<Rightarrow> workQueue w | Some (_, q) \<Rightarrow> q)\<rparr>
          else w1)"

fun clearLoop :: "('c, 'q) ConcurrentQueue \<Rightarrow> nat \<Rightarrow> 'q \<Rightarrow> 'q" where
  "clearLoop Q 0 q = q"
| "clearLoop Q (Suc remaining) q = (case tryDequeue Q q of None \<Rightarrow> q | Some (_, q') \<Rightarrow> clearLoop Q remaining q')"

definition clear :: "('c, 'q) ConcurrentQueue \<Rightarrow> ('c, 'q) WorkQueue \<Rightarrow> ('c, 'q) WorkQueue" where
  "clear Q w = w\<lparr>workQueue := clearLoop Q (sizeApprox Q (workQueue w)) (workQueue w)\<rparr>"

text \<open>The calls a drain takes out at once, and the queue without them.\<close>

definition takeAll :: "('c, 'q) ConcurrentQueue \<Rightarrow> ('c, 'q) WorkQueue \<Rightarrow> 'c list \<times> ('c, 'q) WorkQueue" where
  "takeAll Q w =
    (let (calls, q) = tryDequeueBulk Q (max (sizeApprox Q (workQueue w)) defaultBulkBufferSize) (workQueue w)
     in (calls, w\<lparr>workQueue := q\<rparr>))"

text \<open>
  Work in progress: what is left to do of the calls that are running, the innermost first.  A
  nested drain runs its calls before the caller goes on.
\<close>

partial_function (option) runSteps ::
  "('c, 'q) ConcurrentQueue \<Rightarrow> ('c \<Rightarrow> 'c Action list) \<Rightarrow> 'c Step list \<Rightarrow> ('c, 'q) WorkQueue \<Rightarrow> ('c, 'q) WorkQueue option" where
  "runSteps Q body steps w = (case steps of
     [] \<Rightarrow> Some w
   | Invoke c # rest \<Rightarrow> runSteps Q body (map Act (body c) @ rest) (w\<lparr>executed := executed w @ [c]\<rparr>)
   | Act a # rest \<Rightarrow>
       (case a of
          Push c force \<Rightarrow> runSteps Q body rest (push Q c force w)
        | ExecuteAll \<Rightarrow> (case takeAll Q w of (calls, w') \<Rightarrow> runSteps Q body (map Invoke calls @ rest) w')
        | ClearQueue \<Rightarrow> runSteps Q body rest (clear Q w)
        | Enable \<Rightarrow> runSteps Q body rest (enable w)
        | Disable \<Rightarrow> runSteps Q body rest (disable w)))"

declare runSteps.simps [code]

definition executeAll ::
  "('c, 'q) ConcurrentQueue \<Rightarrow> ('c \<Rightarrow> 'c Action list) \<Rightarrow> ('c, 'q) WorkQueue \<Rightarrow> (bool \<times> ('c, 'q) WorkQueue) option" where
  "executeAll Q body w =
    (let (calls, w') = takeAll Q w
     in map_option (\<lambda>w''. (calls \<noteq> [], w'')) (runSteps Q body (map Invoke calls) w'))"

text \<open>Waiting for one call, which blocks on an empty queue, and for at most ten until a timeout.\<close>

definition waitExecuteOne ::
  "('c, 'q) ConcurrentQueue \<Rightarrow> ('c \<Rightarrow> 'c Action list) \<Rightarrow> ('c, 'q) WorkQueue \<Rightarrow> ('c, 'q) WorkQueue option" where
  "waitExecuteOne Q body w = (case tryDequeue Q (workQueue w) of
     None \<Rightarrow> None
   | Some (c, q) \<Rightarrow> runSteps Q body [Invoke c] (w\<lparr>workQueue := q\<rparr>))"

definition waitExecuteAll ::
  "('c, 'q) ConcurrentQueue \<Rightarrow> ('c \<Rightarrow> 'c Action list) \<Rightarrow> ('c, 'q) WorkQueue \<Rightarrow> ('c, 'q) WorkQueue option" where
  "waitExecuteAll Q body w =
    (let (calls, q) = tryDequeueBulk Q defaultBulkBufferSize (workQueue w)
     in runSteps Q body (map Invoke calls) (w\<lparr>workQueue := q\<rparr>))"

definition getCurrentSize :: "('c, 'q) ConcurrentQueue \<Rightarrow> ('c, 'q) WorkQueue \<Rightarrow> nat" where
  "getCurrentSize Q w = sizeApprox Q (workQueue w)"

text \<open>Rounds of the owner, which drains the queue once in each of its cycles.\<close>

fun rounds :: "('c, 'q) ConcurrentQueue \<Rightarrow> ('c \<Rightarrow> 'c Action list) \<Rightarrow> nat \<Rightarrow> ('c, 'q) WorkQueue \<Rightarrow> ('c, 'q) WorkQueue option" where
  "rounds Q body 0 w = Some w"
| "rounds Q body (Suc n) w = Option.bind (executeAll Q body w) (\<lambda>(_, w'). rounds Q body n w')"

section \<open>The queue underneath\<close>

locale fifo_queue =
  fixes Q :: "('c, 'q) ConcurrentQueue"
    and contents :: "'q \<Rightarrow> 'c list"
  assumes empty_law: "contents (emptyQueue Q) = []"
    and enqueue_law: "contents (enqueue Q c q) = contents q @ [c]"
    and dequeue_empty_law: "contents q = [] \<Longrightarrow> tryDequeue Q q = None"
    and dequeue_law: "contents q = c # cs \<Longrightarrow> \<exists>q'. tryDequeue Q q = Some (c, q') \<and> contents q' = cs"
    and bulk_law: "\<exists>q'. tryDequeueBulk Q n q = (take n (contents q), q') \<and> contents q' = drop n (contents q)"
    and size_law: "sizeApprox Q q = length (contents q)"
begin

abbreviation waiting :: "('c, 'q) WorkQueue \<Rightarrow> 'c list" where
  "waiting w \<equiv> contents (workQueue w)"

lemma takeAll_takes: "\<exists>q. takeAll Q w = (waiting w, w\<lparr>workQueue := q\<rparr>) \<and> contents q = []"
proof -
  let ?n = "max (sizeApprox Q (workQueue w)) defaultBulkBufferSize"
  obtain q where "tryDequeueBulk Q ?n (workQueue w) = (take ?n (waiting w), q)" "contents q = drop ?n (waiting w)"
    using bulk_law by blast
  then show ?thesis
    by (auto simp: takeAll_def size_law)
qed

lemma push_waiting:
  "waiting (push Q c force w) =
    (if \<not> enabled w then waiting w
     else if maxSize w = 0 \<or> force \<or> length (waiting w) < maxSize w then waiting w @ [c]
     else if dropOld w then tl (waiting w) @ [c] else waiting w)"
proof (cases "waiting w")
  case Nil
  then show ?thesis
    using dequeue_empty_law [OF Nil] by (auto simp: push_def enqueue_law size_law Let_def)
next
  case (Cons d ds)
  obtain q where "tryDequeue Q (workQueue w) = Some (d, q)" "contents q = ds"
    using dequeue_law [OF Cons] by blast
  then show ?thesis
    using Cons by (simp add: push_def enqueue_law size_law Let_def)
qed

lemma push_fields [simp]:
  "enabled (push Q c force w) = enabled w" "maxSize (push Q c force w) = maxSize w"
  "dropOld (push Q c force w) = dropOld w" "executed (push Q c force w) = executed w"
  by (simp_all add: push_def Let_def)

lemma clearLoop_empties: "n = length (contents q) \<Longrightarrow> contents (clearLoop Q n q) = []"
proof (induction n arbitrary: q)
  case (Suc n)
  then obtain c cs where "contents q = c # cs"
    by (cases "contents q") auto
  then obtain q' where "tryDequeue Q q = Some (c, q')" "contents q' = cs"
    using dequeue_law by blast
  then show ?case
    using Suc.IH [of q'] Suc.prems \<open>contents q = c # cs\<close> by simp
qed simp

lemma clear_empties: "waiting (clear Q w) = []"
  by (simp add: clear_def size_law clearLoop_empties)

end

section \<open>Draining ends\<close>

text \<open>
  A call may push calls of a smaller rank only.  The weight of a state are the ranks of all the calls that are waiting
  or in progress, as a multiset.
\<close>

definition ranked :: "('c \<Rightarrow> nat) \<Rightarrow> ('c \<Rightarrow> 'c Action list) \<Rightarrow> bool" where
  "ranked rank body \<longleftrightarrow> (\<forall>c d force. Push d force \<in> set (body c) \<longrightarrow> rank d < rank c)"

fun callsOf :: "'c Step list \<Rightarrow> 'c list" where
  "callsOf [] = []"
| "callsOf (Invoke c # ss) = c # callsOf ss"
| "callsOf (Act (Push c force) # ss) = c # callsOf ss"
| "callsOf (Act _ # ss) = callsOf ss"

fun invoked :: "'c Step list \<Rightarrow> 'c list" where
  "invoked [] = []"
| "invoked (Invoke c # ss) = c # invoked ss"
| "invoked (Act _ # ss) = invoked ss"

fun actions :: "'c Step list \<Rightarrow> nat" where
  "actions [] = 0"
| "actions (Invoke c # ss) = actions ss"
| "actions (Act _ # ss) = Suc (actions ss)"

definition clearFree :: "'c Step list \<Rightarrow> bool" where
  "clearFree ss \<longleftrightarrow> Act ClearQueue \<notin> set ss"

lemma callsOf_append [simp]: "callsOf (xs @ ys) = callsOf xs @ callsOf ys"
  by (induction xs rule: callsOf.induct) simp_all

lemma invoked_append [simp]: "invoked (xs @ ys) = invoked xs @ invoked ys"
  by (induction xs rule: invoked.induct) simp_all

lemma actions_append [simp]: "actions (xs @ ys) = actions xs + actions ys"
  by (induction xs rule: actions.induct) simp_all

lemma calls_invoked [simp]: "callsOf (map Invoke cs) = cs" "invoked (map Invoke cs) = cs" "actions (map Invoke cs) = 0"
    "invoked (map Act as) = []"
  by (induction cs) (simp_all, induction as, simp_all)

lemma callsOf_pushed: "d \<in> set (callsOf (map Act as)) \<Longrightarrow> \<exists>force. Push d force \<in> set as"
proof (induction as)
  case (Cons a as)
  then show ?case
    by (cases a) auto
qed simp

lemma invoke_lighter:
  assumes "ranked rank body"
  shows "mset (map rank (callsOf (map Act (body c)))) < {#rank c#}"
proof -
  have "\<forall>k \<in># mset (map rank (callsOf (map Act (body c)))). \<exists>j \<in># {#rank c#}. k < j"
    using assms callsOf_pushed by (fastforce simp: ranked_def)
  then have "(mset (map rank (callsOf (map Act (body c)))), {#rank c#}) \<in> mult {(x, y). x < y}"
    using one_step_implies_mult [of "{#rank c#}" _ "{(x, y). x < y}" "{#}"] by simp
  then show ?thesis
    by (simp add: less_multiset_def multp_def)
qed

context fifo_queue
begin

definition weight :: "('c \<Rightarrow> nat) \<Rightarrow> 'c Step list \<Rightarrow> ('c, 'q) WorkQueue \<Rightarrow> nat multiset" where
  "weight rank ss w = mset (map rank (callsOf ss)) + mset (map rank (waiting w))"

text \<open>What a run from some steps to its end comes to.\<close>

definition settles ::
  "('c \<Rightarrow> nat) \<Rightarrow> ('c \<Rightarrow> 'c Action list) \<Rightarrow> 'c Step list \<Rightarrow> ('c, 'q) WorkQueue \<Rightarrow> ('c, 'q) WorkQueue \<Rightarrow> bool" where
  "settles rank body ss w w' \<longleftrightarrow>
     weight rank [] w' \<le> weight rank ss w \<and> (invoked ss \<noteq> [] \<longrightarrow> weight rank [] w' < weight rank ss w)
     \<and> maxSize w' = maxSize w
     \<and> (maxSize w = 0 \<and> clearFree ss \<and> (\<forall>c. ClearQueue \<notin> set (body c)) \<longrightarrow>
          mset (executed w) + mset (invoked ss) + mset (waiting w) \<subseteq># mset (executed w') + mset (waiting w'))"

lemma action_weight:
  assumes "mset (waiting w1) \<subseteq># mset (callsOf [Act a]) + mset (waiting w)"
  shows "weight rank ss w1 \<le> weight rank (Act a # ss) w"
proof -
  have "image_mset rank (mset (waiting w1)) \<subseteq># image_mset rank (mset (callsOf [Act a]) + mset (waiting w))"
    using assms by (rule image_mset_subseteq_mono)
  then have "weight rank ss w1 \<subseteq># weight rank (Act a # ss) w"
    using callsOf_append [of "[Act a]" ss] by (simp add: weight_def ac_simps)
  then show ?thesis
    by (rule subset_eq_imp_le_multiset)
qed

lemma settles_action:
  assumes "settles rank body ss w1 w'" "mset (waiting w1) \<subseteq># mset (callsOf [Act a]) + mset (waiting w)"
    "maxSize w1 = maxSize w" "executed w1 = executed w"
    "maxSize w = 0 \<and> a \<noteq> ClearQueue \<Longrightarrow> mset (waiting w) \<subseteq># mset (waiting w1)"
  shows "settles rank body (Act a # ss) w w'"
proof -
  have "clearFree (Act a # ss) \<Longrightarrow> a \<noteq> ClearQueue \<and> clearFree ss"
    by (auto simp: clearFree_def)
  then show "settles rank body (Act a # ss) w w'"
    using assms(1,3,4,5) action_weight [OF assms(2), of rank ss] unfolding settles_def
    by (auto intro: order_trans less_le_trans subset_mset.order_trans [rotated])
qed

lemma invoke_weight:
  assumes "ranked rank body"
  shows "weight rank (map Act (body c) @ ss) (w\<lparr>executed := executed w @ [c]\<rparr>) < weight rank (Invoke c # ss) w"
  using union_le_mono1 [OF invoke_lighter [OF assms, of c], of "mset (map rank (callsOf ss)) + mset (map rank (waiting w))"]
  by (simp add: weight_def ac_simps)

lemma settles_invoke:
  assumes "ranked rank body" "settles rank body (map Act (body c) @ ss) (w\<lparr>executed := executed w @ [c]\<rparr>) w'"
  shows "settles rank body (Invoke c # ss) w w'"
proof -
  have "clearFree (Invoke c # ss) \<and> (\<forall>c. ClearQueue \<notin> set (body c)) \<longrightarrow> clearFree (map Act (body c) @ ss)"
    by (auto simp: clearFree_def)
  then show ?thesis
    using assms(2) invoke_weight [OF assms(1), of c ss w] unfolding settles_def by (auto intro: le_less_trans order_trans)
qed

lemma settles_drain:
  assumes "takeAll Q w = (waiting w, w\<lparr>workQueue := q\<rparr>)" "contents q = []"
    "settles rank body (map Invoke (waiting w) @ ss) (w\<lparr>workQueue := q\<rparr>) w'"
  shows "settles rank body (Act ExecuteAll # ss) w w'"
proof -
  have eq: "weight rank (map Invoke (waiting w) @ ss) (w\<lparr>workQueue := q\<rparr>) = weight rank (Act ExecuteAll # ss) w"
    using assms(2) by (simp add: weight_def ac_simps)
  have "clearFree (map Invoke (waiting w) @ ss) \<longleftrightarrow> clearFree (Act ExecuteAll # ss)"
    by (auto simp: clearFree_def)
  then show ?thesis
    using assms(2,3) eq unfolding settles_def by (auto simp: ac_simps)
qed

text \<open>The order in which a run gets lighter: by weight, and then by the number of actions to do.\<close>

definition lighter :: "((nat multiset \<times> nat) \<times> (nat multiset \<times> nat)) set" where
  "lighter = {(M, N). M < N} <*lex*> less_than"

lemma wf_lighter: "wf lighter"
  unfolding lighter_def by (rule wf_lex_prod [OF wf wf_less_than])

text \<open>An action other than a drain, in one step.\<close>

definition perform :: "'c Action \<Rightarrow> ('c, 'q) WorkQueue \<Rightarrow> ('c, 'q) WorkQueue" where
  "perform a w = (case a of
     Push c force \<Rightarrow> push Q c force w
   | ClearQueue \<Rightarrow> clear Q w
   | Enable \<Rightarrow> enable w
   | Disable \<Rightarrow> disable w
   | ExecuteAll \<Rightarrow> w)"

lemma runSteps_perform:
  "a \<noteq> ExecuteAll \<Longrightarrow> runSteps Q body (Act a # rest) w = runSteps Q body rest (perform a w)"
  by (subst runSteps.simps) (simp add: perform_def split: Action.splits)

lemma perform_keeps:
  assumes "a \<noteq> ExecuteAll"
  shows "mset (waiting (perform a w)) \<subseteq># mset (callsOf [Act a]) + mset (waiting w)"
    "maxSize (perform a w) = maxSize w" "executed (perform a w) = executed w"
    "maxSize w = 0 \<and> a \<noteq> ClearQueue \<Longrightarrow> mset (waiting w) \<subseteq># mset (waiting (perform a w))"
proof -
  have "mset (tl xs) \<subseteq># mset xs" for xs :: "'c list"
    by (cases xs) simp_all
  then show "mset (waiting (perform a w)) \<subseteq># mset (callsOf [Act a]) + mset (waiting w)"
    using assms by (cases a) (simp_all add: perform_def push_waiting clear_empties enable_def disable_def)
  show "maxSize (perform a w) = maxSize w" "executed (perform a w) = executed w"
    using assms by (cases a; simp add: perform_def clear_def enable_def disable_def)+
  show "mset (waiting w) \<subseteq># mset (waiting (perform a w))" if "maxSize w = 0 \<and> a \<noteq> ClearQueue"
    using assms that by (cases a) (simp_all add: perform_def push_waiting enable_def disable_def)
qed

lemma run_settles:
  assumes "ranked rank body"
  shows "\<exists>w'. runSteps Q body ss w = Some w' \<and> settles rank body ss w w'"
proof (induction "(weight rank ss w, actions ss)" arbitrary: ss w rule: wf_induct_rule [OF wf_lighter])
  case 1
  have ih: "\<exists>w'. runSteps Q body ss' w1 = Some w' \<and> settles rank body ss' w1 w'"
    if "weight rank ss' w1 < weight rank ss w \<or> weight rank ss' w1 \<le> weight rank ss w \<and> actions ss' < actions ss" for ss' w1
    using that by (intro 1) (auto simp: lighter_def less_le)
  consider "ss = []" | c rest where "ss = Invoke c # rest" | rest where "ss = Act ExecuteAll # rest"
    | a rest where "ss = Act a # rest" "a \<noteq> ExecuteAll"
    by (metis Step.exhaust list.exhaust)
  then show ?case
  proof cases
    case 1
    then show ?thesis
      by (subst runSteps.simps) (simp add: settles_def)
  next
    case (2 c rest)
    then obtain w' where "runSteps Q body (map Act (body c) @ rest) (w\<lparr>executed := executed w @ [c]\<rparr>) = Some w'"
        "settles rank body (map Act (body c) @ rest) (w\<lparr>executed := executed w @ [c]\<rparr>) w'"
      using ih invoke_weight [OF assms, of c rest w] by blast
    then show ?thesis
      using settles_invoke [OF assms, of c rest w w'] 2 by (subst runSteps.simps) simp
  next
    case (3 rest)
    obtain q where q: "takeAll Q w = (waiting w, w\<lparr>workQueue := q\<rparr>)" "contents q = []"
      using takeAll_takes by blast
    then have "weight rank (map Invoke (waiting w) @ rest) (w\<lparr>workQueue := q\<rparr>) \<le> weight rank ss w"
      using 3 by (simp add: weight_def ac_simps)
    then obtain w' where "runSteps Q body (map Invoke (waiting w) @ rest) (w\<lparr>workQueue := q\<rparr>) = Some w'"
        "settles rank body (map Invoke (waiting w) @ rest) (w\<lparr>workQueue := q\<rparr>) w'"
      using ih 3 by fastforce
    then show ?thesis
      using settles_drain [OF q] q(1) 3 by (subst runSteps.simps) simp
  next
    case (4 a rest)
    then obtain w' where "runSteps Q body rest (perform a w) = Some w'" "settles rank body rest (perform a w) w'"
      using ih [of rest "perform a w"] action_weight [OF perform_keeps(1)] by auto
    then show ?thesis
      using settles_action [OF _ perform_keeps] runSteps_perform [OF 4(2)] 4 by auto
  qed
qed

text \<open>Rounds of drains empty the queue.\<close>

lemma executeAll_settles:
  assumes "ranked rank body"
  shows "\<exists>w'. executeAll Q body w = Some (waiting w \<noteq> [], w')
    \<and> (waiting w \<noteq> [] \<longrightarrow> weight rank [] w' < weight rank [] w) \<and> maxSize w' = maxSize w
    \<and> (maxSize w = 0 \<and> (\<forall>c. ClearQueue \<notin> set (body c)) \<longrightarrow>
         mset (executed w) + mset (waiting w) \<subseteq># mset (executed w') + mset (waiting w'))"
proof -
  obtain q where q: "takeAll Q w = (waiting w, w\<lparr>workQueue := q\<rparr>)" "contents q = []"
    using takeAll_takes by blast
  obtain w' where w': "runSteps Q body (map Invoke (waiting w)) (w\<lparr>workQueue := q\<rparr>) = Some w'"
      "settles rank body (map Invoke (waiting w)) (w\<lparr>workQueue := q\<rparr>) w'"
    using run_settles [OF assms] by blast
  have "clearFree (map Invoke (waiting w))"
    by (auto simp: clearFree_def)
  then show ?thesis
    using w' q by (auto simp: executeAll_def settles_def weight_def)
qed

lemma rounds_empty:
  assumes "ranked rank body" "\<forall>c. ClearQueue \<notin> set (body c)"
  shows "maxSize w = 0 \<Longrightarrow> \<exists>n w'. rounds Q body n w = Some w' \<and> waiting w' = []
    \<and> mset (executed w) + mset (waiting w) \<subseteq># mset (executed w')"
proof (induction "weight rank [] w" arbitrary: w rule: wf_induct_rule [OF wf])
  case 1
  show ?case
  proof (cases "waiting w = []")
    case True
    then have "rounds Q body 0 w = Some w"
      by simp
    then show ?thesis
      using True by (intro exI [of _ 0] exI [of _ w]) simp
  next
    case False
    obtain w1 where w1: "executeAll Q body w = Some (True, w1)" "weight rank [] w1 < weight rank [] w" "maxSize w1 = 0"
        "mset (executed w) + mset (waiting w) \<subseteq># mset (executed w1) + mset (waiting w1)"
      using executeAll_settles [OF assms(1), of w] assms(2) 1(2) False by auto
    then obtain n w' where "rounds Q body n w1 = Some w'" "waiting w' = []"
        "mset (executed w1) + mset (waiting w1) \<subseteq># mset (executed w')"
      using 1(1) [of w1] by auto
    then show ?thesis
      using w1(1,4) by (intro exI [of _ "Suc n"] exI [of _ w']) (auto intro: subset_mset.order_trans)
  qed
qed

end

section \<open>Drains without nested ones\<close>

context fifo_queue
begin

lemma run_flat:
  assumes "\<forall>c. ExecuteAll \<notin> set (body c)"
  shows "Act ExecuteAll \<notin> set ss \<Longrightarrow>
    \<exists>w'. runSteps Q body (ss @ map Invoke cs) w = Some w' \<and> executed w' = executed w @ invoked ss @ cs"
proof (induction "length cs + length (invoked ss)" arbitrary: ss cs w rule: less_induct)
  case less
  note outer = less(1)
  show ?case
    using less(2) outer
  proof (induction ss arbitrary: w)
    case Nil
    show ?case
    proof (cases cs)
      case Nil
      then show ?thesis
        by (subst runSteps.simps) simp
    next
      case (Cons c ds)
      have "Act ExecuteAll \<notin> set (map Act (body c))"
        using assms by auto
      then obtain w' where "runSteps Q body (map Act (body c) @ map Invoke ds) (w\<lparr>executed := executed w @ [c]\<rparr>) = Some w'"
          "executed w' = executed w @ [c] @ ds"
        using Nil.prems(2) [of ds "map Act (body c)" "w\<lparr>executed := executed w @ [c]\<rparr>"] Cons by auto
      then show ?thesis
        using Cons by (subst runSteps.simps) simp
    qed
  next
    case (Cons s ss)
    show ?case
    proof (cases s)
      case (Invoke c)
      have flat: "Act ExecuteAll \<notin> set (map Act (body c) @ ss)"
        using assms Cons.prems(1) by auto
      have "length cs + length (invoked (map Act (body c) @ ss)) < length cs + length (invoked (s # ss))"
        using Invoke by simp
      then obtain w' where "runSteps Q body ((map Act (body c) @ ss) @ map Invoke cs) (w\<lparr>executed := executed w @ [c]\<rparr>) = Some w'"
          "executed w' = executed w @ [c] @ invoked ss @ cs"
        using Cons.prems(2) [OF _ flat, of cs "w\<lparr>executed := executed w @ [c]\<rparr>"] by auto
      then show ?thesis
        using Invoke by (subst runSteps.simps) simp
    next
      case (Act a)
      then have "a \<noteq> ExecuteAll"
        using Cons.prems(1) by auto
      moreover obtain w' where "runSteps Q body (ss @ map Invoke cs) (perform a w) = Some w'"
          "executed w' = executed (perform a w) @ invoked ss @ cs"
        using Cons.IH [of "perform a w"] Cons.prems Act by auto
      ultimately show ?thesis
        using Act runSteps_perform [of a body "ss @ map Invoke cs" w] perform_keeps(3) [of a w] by simp
    qed
  qed
qed

lemma executeAll_flat:
  assumes "\<forall>c. ExecuteAll \<notin> set (body c)"
  shows "\<exists>w'. executeAll Q body w = Some (waiting w \<noteq> [], w') \<and> executed w' = executed w @ waiting w"
proof -
  obtain q where q: "takeAll Q w = (waiting w, w\<lparr>workQueue := q\<rparr>)"
    using takeAll_takes by blast
  then show ?thesis
    using run_flat [OF assms, of "[]" "waiting w" "w\<lparr>workQueue := q\<rparr>"] by (auto simp: executeAll_def)
qed

end

section \<open>Properties\<close>

text \<open>A queue that keeps its laws: a list.\<close>

definition listQueue :: "('c, 'c list) ConcurrentQueue" where
  "listQueue = \<lparr>emptyQueue = [], enqueue = (\<lambda>c q. q @ [c]),
     tryDequeue = (\<lambda>q. case q of [] \<Rightarrow> None | c # cs \<Rightarrow> Some (c, cs)),
     tryDequeueBulk = (\<lambda>n q. (take n q, drop n q)), sizeApprox = length\<rparr>"

interpretation list_queue: fifo_queue listQueue "\<lambda>q. q"
  by unfold_locales (simp_all add: listQueue_def)

text \<open>
  C28. Draining returns.  When no call drains the queue itself, executeAll runs exactly the calls that were waiting,
  in their order, and tells whether there was one, whatever the calls push: what they push waits for the next drain.
  When calls do drain the queue again, it returns as long as each call pushes calls of a smaller rank only.
\<close>

theorem execute_all_returns:
  assumes "fifo_queue Q contents"
  shows "((\<forall>c. ExecuteAll \<notin> set (body c)) \<longrightarrow>
      (\<exists>w'. executeAll Q body w = Some (contents (workQueue w) \<noteq> [], w')
         \<and> executed w' = executed w @ contents (workQueue w)))
    \<and> (ranked rank body \<longrightarrow> (\<exists>w'. executeAll Q body w = Some (contents (workQueue w) \<noteq> [], w')))"
  using fifo_queue.executeAll_flat [OF assms] fifo_queue.executeAll_settles [OF assms] by blast

definition exampleBody :: "nat \<Rightarrow> nat Action list" where
  "exampleBody c = (if c = 0 then [] else [Push (c - 1) False, ExecuteAll])"

definition exampleWork :: "(nat, nat list) WorkQueue" where
  "exampleWork = push listQueue 2 False (push listQueue 1 False (enable (newWorkQueue listQueue 0 True)))"

lemma exampleBody_ranked: "ranked (\<lambda>c. c) exampleBody"
  by (auto simp: ranked_def exampleBody_def split: if_splits)

lemma exampleWork_waiting: "workQueue exampleWork = [1, 2]" "maxSize exampleWork = 0"
  by (simp_all add: exampleWork_def push_def enable_def newWorkQueue_def listQueue_def)

theorem execute_all_returns_witness:
  "\<exists>w'. executeAll listQueue exampleBody exampleWork = Some (True, w')"
  using execute_all_returns [OF list_queue.fifo_queue_axioms, of exampleBody exampleWork "\<lambda>c. c"] exampleBody_ranked
  by (simp add: exampleWork_waiting)

text \<open>
  C29. Work gets done: in a queue without a limit, when the calls push calls of a smaller rank only and never clear the
  queue, enough rounds of executeAll leave nothing waiting, and every call that was waiting has been run.
\<close>

theorem work_gets_done:
  assumes "fifo_queue Q contents" "ranked rank body" "\<forall>c. ClearQueue \<notin> set (body c)" "maxSize w = 0"
  shows "\<exists>n w'. rounds Q body n w = Some w' \<and> contents (workQueue w') = []
    \<and> mset (executed w) + mset (contents (workQueue w)) \<subseteq># mset (executed w')"
  by (rule fifo_queue.rounds_empty [OF assms])

theorem work_gets_done_witness:
  "\<exists>n w'. rounds listQueue exampleBody n exampleWork = Some w' \<and> workQueue w' = []
    \<and> mset (executed exampleWork) + {#1, 2#} \<subseteq># mset (executed w')"
  using work_gets_done [OF list_queue.fifo_queue_axioms exampleBody_ranked, of exampleWork]
  by (simp add: exampleWork_waiting) (auto simp: exampleBody_def)

text \<open>
  C30. What a push does.  A disabled queue ignores it, and otherwise the call goes to the end; without force the limit, when
  there is one, is never exceeded: the oldest call makes room for the new one, or the new one is
  not taken.  Both are reported with the new call: when the oldest call is lost, the callback for
  dropped work is given a call that is kept.
\<close>

theorem push_outcome:
  assumes "fifo_queue Q contents" "w' = push Q c force w"
  shows "contents (workQueue w') =
      (if \<not> enabled w then contents (workQueue w)
       else if maxSize w = 0 \<or> force \<or> length (contents (workQueue w)) < maxSize w then contents (workQueue w) @ [c]
       else if dropOld w then tl (contents (workQueue w)) @ [c]
       else contents (workQueue w))
    \<and> dropped w' =
      (if enabled w \<and> maxSize w \<noteq> 0 \<and> \<not> force \<and> maxSize w \<le> length (contents (workQueue w))
       then dropped w @ [c] else dropped w)
    \<and> (\<not> force \<and> maxSize w \<noteq> 0 \<and> length (contents (workQueue w)) \<le> maxSize w \<longrightarrow>
         length (contents (workQueue w')) \<le> maxSize w)"
  using fifo_queue.push_waiting [OF assms(1), of c force w] fifo_queue.size_law [OF assms(1)] assms(2)
  by (auto simp: push_def Let_def)

theorem push_outcome_witness:
  "workQueue (push listQueue 3 False (exampleWork\<lparr>maxSize := 2\<rparr>)) = [2, 3]
    \<and> dropped (push listQueue 3 False (exampleWork\<lparr>maxSize := 2\<rparr>)) = [3]"
  using push_outcome [OF list_queue.fifo_queue_axioms refl, of 3 False "exampleWork\<lparr>maxSize := 2\<rparr>"]
  by (simp add: exampleWork_def push_def enable_def newWorkQueue_def listQueue_def)

end
