(* ===== verification/Spec2Isabelle.thy ===== *)
theory Spec2Isabelle
  imports Memory_Pool Remote_Events Type_Conversions Type_Exchange_Correct Stl_Frontend Bus_View Bus_Containers Var_Stream Work_Queue
begin

text \<open>
  \<^bold>\<open>A verification library for the core of Sen.\<close>

  Sen (airbus/sen, C++) lets components of one or several processes share objects whose classes are
  described in its own language, STL.  A component publishes objects on a bus and subscribes to objects
  by queries such as \<open>SELECT pkg.Ship FROM world.sea WHERE speed > 10\<close>.  A query becomes an interest, the
  filter of each bus decides which objects match, and listeners are told about the objects that appear and
  disappear; between processes, values travel as bytes.  The library follows this path.

  \<^bold>\<open>Parts, theories and sources\<close> (paths below src/libs).

  \<^item> \<^emph>\<open>Language.\<close>  Stl_Token and Stl_Scanner (core/src/lang/stl_token.cpp, stl_scanner.cpp): token kinds, the
    scanner state with its cursor.  Stl_Ast (stl_expression.h, stl_statement.h).  Stl_Parser_State, Stl_Parser and
    Stl_Query_Parser (stl_parser.cpp): the token cursor, every production for type definitions, and those
    for queries.  Stl_Frontend: scanner and parser together, as VM::parse and the resolver use them.
  \<^item> \<^emph>\<open>Queries.\<close>  Ieee_Float: binary32 and binary64 arithmetic of the C++ language.  Query_Value (lang/vm.cpp,
    Value and the operations on it), Query_Compiler (Chunk, Compiler), Query_VM (VM).  Query_Compile_Correct and
    Query_Semantics: what the code of an expression does, and what a query means.
  \<^item> \<^emph>\<open>Types.\<close>  Hash32 (core/src/base/hash32.cpp), Meta_Types, Meta_Make, Meta_Class, Meta_Registry (core/src/meta):
    the descriptions of types, their equality and hashes, the factories with their validation, classes and
    inheritance, the registry.
  \<^item> \<^emph>\<open>Objects.\<close>  Interest, Filtered_Provider, Object_Filter (core/src/obj/interest.cpp, object_filter.cpp,
    object_provider.cpp): an interest with its compiled condition, the provider that tracks the objects of one
    interest and tells its listeners, the filter that owns providers.  Object_Mux (object_mux.cpp): several
    providers as one.  Work_Queue (work_queue.cpp): the work other threads leave to the owner of objects.
  \<^item> \<^emph>\<open>Values on streams.\<close>  Var_Stream (core/src/io/util.cpp and the stream headers): reading, writing and sizing values.
  \<^item> \<^emph>\<open>Remote participants.\<close>  Bus_Containers (kernel/src/bus/containers.h): List, BiMap, BiMultiMap.  On them,
    Remote_Interests (bus/remote_interest_handler.h) relates the interests of remote participants to objects,
    Remote_Updates (bus/remote_interest_manager.cpp) says which updates are sent to which process, and
    Remote_Events sends the events of objects.  Event_Buffers (bus/event_buffer.h, bus/util.h,
    remote_participant.cpp): the queues of events and their packing into messages.
  \<^item> \<^emph>\<open>Types between processes.\<close>  Type_Specs (kernel/src/type_specs_utils.cpp and stl/sen/kernel/type_specs.stl): the
    specification of a type, and the type that is built from one.  Type_Compat and Type_Conversions (the rest of
    type_specs_utils.cpp): whether values of a remote type can be read as values of the local one, and what is lost.
    Type_Exchange (bus/remote_participant.cpp): the request for types, its answer, and the classes that wait for the
    types they depend on.  Type_Walks and Type_Exchange_Correct: the types below a type, and why the exchange succeeds.
  \<^item> \<^emph>\<open>Memory.\<close>  Memory_Pool (core/base/memory_block.h): the pool the messages are taken from.
  \<^item> \<^emph>\<open>Composition.\<close>  Bus_View: a mux on the providers of a filter.  This theory: from the text of a query to the objects
    it selects.

  Each class is a record with the fields of the class, each enumeration or variant a datatype, each function a
  definition of the same name (with the prefix of its class where names would clash).  Exceptions are values: a
  result is \<open>Inl\<close> of an error or \<open>Inr\<close> of a value, and undefined behaviour of C++ is an error of its own
  (\<open>UndefinedBehavior\<close>, \<open>InvalidAccess\<close>, \<open>NullAccess\<close>) or no result, so that its absence can be proved.  Integers that matter
  are words of their width.

  \<^bold>\<open>What is shown.\<close>

  \<^item> The scanner and the parsers terminate on every text, never index outside of it, and fail only with their
    documented errors; tokens and trees are well formed.
  \<^item> The compiler and the machine implement the reference semantics of conditions: code, jumps, constants and
    variables included, without an undefined access, for conditions whose tests with IN are not right
    operands; for those that are, the result is shown to be wrong.  Arithmetic is exact or reports, or is
    identified as undefined.
  \<^item> Types made by the factories have the lookups and the hashes they promise, and the registry orders them
    by dependency.
  \<^item> A provider's present objects are exactly the ones that match, although it evaluates only what changed; in every
    run of the filter, the callbacks of a listener are consistent and add up to what is present, and no
    listener is called after its end.  The invariants are proved once, in the locale of provider
    invariants, and interpreted for each of them.
  \<^item> The mux refines a bag of pairs of an object and an interest, and keeps both kinds of listener informed;
    fed by the providers of a filter it unites them.
  \<^item> Draining the work queue returns and gets the work done; a push keeps the limit.
  \<^item> What is written is read back, for every type; arbitrary bytes are read safely.
  \<^item> The containers of the bus refine binary relations.  On them, a remote participant is linked to the updates
    its interests select and to no other; each interested process is sent an update once; no update
    is used after it was freed while the objects live, and two histories show how it is when they do not.
  \<^item> Events packed into messages are read back in order, and confirmed ones reach the participants of a
    process that are linked to the same updates; the pool of messages never hands out a block in use.

  \<^item> The type built from the specification of a type is a copy of it, with the same hash.  The grading of a conversion
    between numbers is exact; a walk that reports no loss converts nothing with a loss, except behind aliases and
    between quantities and plain numbers, where examples show that values are lost.  For the types of a sender
    that differ in hash and name, a class is copied to another process in two requests, if types the other process knows
    by hash are the same.

  \<^bold>\<open>Parameters.\<close>  The concurrent set of listeners (a library) enters with the laws of a set
  (\<open>listenerSetLaws\<close>), the concurrent queue with those of a queue (the locale \<open>fifo_queue\<close>), the generated accessors of objects as
  part of the object, and the conversion of a value to another alternative of Var (core/src/meta/var.cpp) as a
  function that values of the right type do not reach.  What a unit of work does is arbitrary.  The table of the units is an
  argument of building a type, and what other participants know of a type one of the exchange.  Whether an object
  still lives, and the order in which a hash map is visited, are arguments of the operations of the bus.

  \<^bold>\<open>Bounds and fuel.\<close>  Only the loops of the parser and the nesting of parentheses run on fuel, one more unit
  than there are tokens left, since every turn and every level consumes a token; that it never runs out is part of
  the theorems on the parsers.  The scanner and the machine terminate by the distance to the end of the text and of
  the code, the reader of events by the length of its message.  Comparing types walks two trees of types and ends by their size; each turn of the loop that resolves waiting classes
  takes one off the list.  The drain of the work queue may run forever: it is a partial function, and its termination is a
  theorem.

  \<^bold>\<open>Not modelled.\<close>  Threads: each operation is one step, and callbacks do not call back into the component that
  calls them, except in the work queue.  The resolver of declarations and the FOM reader (files and XML), the
  kernel, its runners and transports, recordings, the code generator, the terminal, the shell and the other
  components: they are input and output, generated code or glue around libraries.  Of io/util.cpp,
  the adaption of a value to another type (VariantAdapter).  Of the type specifications, the translation of
  the two older versions of the format, and the list of differences that is only logged; of the exchange of types, the
  objects of a class that was resolved.  Of the bus, the contents of
  an update (a property buffer is a value of the transport) and the proxies of remote objects.
\<close>

section \<open>From the text of a query to the objects it selects\<close>

text \<open>
  What a variable of a condition reads on an object: the built-in ones, or the property and nested field
  its dotted name stands for in the class.  As soon as one variable of the condition does not resolve
  against the class, none of the others does.
\<close>

definition variableMeaning :: "'w Object \<Rightarrow> string list \<Rightarrow> 'w \<Rightarrow> string \<Rightarrow> getter" where
  "variableMeaning obj vars w var =
     (if var = ''name'' then Returns (Str (objectName obj))
      else if var = ''id'' then Returns (U32 (objectId obj))
      else case resolveVariables (objectClass obj) vars of
        Inl _ \<Rightarrow> missing w
      | Inr _ \<Rightarrow>
          (case findFieldIndexes (objectClass obj) var of
             Inl _ \<Rightarrow> missing w
           | Inr info \<Rightarrow>
               (case varProperty info of
                  None \<Rightarrow> missing w
                | Some prop \<Rightarrow>
                    (case fieldValueGetter obj (propertyId prop) (fieldIndexes info) of
                       None \<Rightarrow> missing w
                     | Some reader \<Rightarrow> fst reader w))))"

lemma resolveVariables_nth:
  "resolveVariables cls vs = Inr l \<Longrightarrow> k < length vs \<Longrightarrow> \<not> builtinVariable (vs ! k) \<Longrightarrow>
   findFieldIndexes cls (vs ! k) = Inr (l ! k)"
proof (induction vs arbitrary: l k)
  case (Cons v vs)
  then show ?case
    by (cases k) (auto simp: rbind_Inr_conv split: if_splits)
qed simp

lemma variableReader_meaning:
  assumes "case infos of Inr l \<Rightarrow> resolveVariables (objectClass obj) vars = Inr l
      | Inl _ \<Rightarrow> \<exists>e. resolveVariables (objectClass obj) vars = Inl e" "k < length vars"
  shows "fst (variableReader obj infos (vars ! k) k) w = variableMeaning obj vars w (vars ! k)"
proof (cases "builtinVariable (vars ! k)")
  case True
  then show ?thesis
    by (auto simp: builtinVariable_def variableReader_def variableMeaning_def)
next
  case False
  then have other: "vars ! k \<noteq> ''name''" "vars ! k \<noteq> ''id''"
    by (auto simp: builtinVariable_def)
  show ?thesis
  proof (cases infos)
    case (Inl x)
    then show ?thesis
      using assms(1) other by (auto simp: variableReader_def variableMeaning_def)
  next
    case (Inr l)
    then have "findFieldIndexes (objectClass obj) (vars ! k) = Inr (l ! k)"
      using resolveVariables_nth [of "objectClass obj" vars l k] assms False by simp
    then show ?thesis
      using Inr assms(1) other by (simp add: variableReader_def variableMeaning_def split: option.splits)
  qed
qed

lemma readings_meaning:
  assumes "isValid (queryCode i)" "cacheCoherent {objectClass obj} i"
  shows "readings w (fst (createTrackedObject obj i)) =
    environmentFor (variableMeaning obj (variablesDef (queryCode i)) w) (queryCode i)"
proof -
  define vars where "vars = variablesDef (queryCode i)"
  define infos where "infos = fst (getOrComputeVarInfoList (objectClass obj) i)"
  have "case infos of Inr l \<Rightarrow> resolveVariables (objectClass obj) vars = Inr l
      | Inl _ \<Rightarrow> \<exists>e. resolveVariables (objectClass obj) vars = Inl e"
    using cache_step(1) [OF assms(2), of "objectClass obj"] assms(1)
    by (auto simp: infos_def vars_def computeVarInfoList_def split: sum.splits)
  note reader = variableReader_meaning [OF this]
  have "environment (fst (createTrackedObject obj i)) = map (\<lambda>k. fst (variableReader obj infos (vars ! k) k)) [0..<length vars]"
    using assms(1) by (simp add: createTrackedObject_def vars_def infos_def Let_def split: prod.splits)
  then have "readings w (fst (createTrackedObject obj i)) =
      map (\<lambda>k. variableMeaning obj vars w (vars ! k)) [0..<length vars]"
    by (simp add: readings_def reader)
  also have "\<dots> = map (variableMeaning obj vars w) vars"
    by (subst (3) map_nth [symmetric]) simp
  finally show ?thesis
    by (simp add: environmentFor_def vars_def)
qed

lemma interestMake_code:
  "interestMake ns reg query = Inr i \<Longrightarrow> parse_query query = Inr q \<Longrightarrow> compileQuery q = Inr (queryCode i)"
  by (cases "compileQuery q") (auto simp: interestMake_def rbind_Inr_conv)


text \<open>The parser on a query of the shape \<^verbatim>\<open>SELECT * FROM session.bus WHERE variable < number\<close>.\<close>

lemma isAtEnd_at: "pos s < length (toks s) \<Longrightarrow> isAtEnd s = Inr (tokenType (toks s ! pos s) = T_endOfFile, s)"
  by (simp add: isAtEnd_def pbind_def peek_def tokenAt_def pret_def)

lemma check_at:
  "pos s < length (toks s) \<Longrightarrow>
   check ty s = Inr (tokenType (toks s ! pos s) \<noteq> T_endOfFile \<and> tokenType (toks s ! pos s) = ty, s)"
  by (simp add: check_def pbind_def isAtEnd_at peek_def tokenAt_def pret_def)

lemma advance_at:
  "pos s < length (toks s) \<Longrightarrow> tokenType (toks s ! pos s) \<noteq> T_endOfFile \<Longrightarrow>
   advance s = Inr (toks s ! pos s, s\<lparr>pos := Suc (pos s)\<rparr>)"
  by (simp add: advance_def pbind_def isAtEnd_at previous_def tokenAt_def)

lemma unaryFuel_numeral:
  "unaryFuel (numeral n) ex = pbind (matchAny [T_bang, T_minus, T_keywordNot]) (\<lambda>b.
     if b then pbind previous (\<lambda>t.
       pbind (unaryFuel (pred_numeral n) ex) (\<lambda>rhs.
       pret (EUnary (if tokenType t = T_minus then UnNegate else UnLogicalNot) rhs)))
     else primary ex)"
  by (simp add: numeral_eq_Suc)

lemma ploop_numeral:
  "ploop (numeral n) body x s =
     rbind (body x s) (\<lambda>((again, x'), s'). if again then ploop (pred_numeral n) body x' s' else Inr (x', s'))"
  by (simp add: numeral_eq_Suc)

lemma parseQuery_shape:
  assumes "map tokenType ts = [T_keywordSelect, T_star, T_keywordFrom, T_identifier, T_dot, T_identifier, T_keywordWhere,
    T_identifier, T_less, T_integral, T_endOfFile]"
  shows "parseQuery ts = Inr \<lparr>query_type = None, query_bus = \<lparr>busName_session = ts ! 3, busName_bus = ts ! 5\<rparr>,
    query_condition = Some (EBinary (EVariable [ts ! 7] (lexeme (ts ! 7))) BinLt (ELiteral (ts ! 9)))\<rparr>"
proof -
  have "length ts = 11"
    using arg_cong [OF assms, of length] by simp
  moreover have "tokenType (ts ! 0) = T_keywordSelect" "tokenType (ts ! 1) = T_star" "tokenType (ts ! 2) = T_keywordFrom"
     "tokenType (ts ! 3) = T_identifier" "tokenType (ts ! 4) = T_dot" "tokenType (ts ! 5) = T_identifier"
     "tokenType (ts ! 6) = T_keywordWhere" "tokenType (ts ! 7) = T_identifier" "tokenType (ts ! 8) = T_less"
     "tokenType (ts ! 9) = T_integral" "tokenType (ts ! 10) = T_endOfFile"
    using assms calculation by (simp_all flip: nth_map)
  moreover note facts = calculation this
  show ?thesis
    by (simp add: facts facts [simplified] matchAny.simps expression.simps unaryFuel.simps ploop.simps
      ploop_numeral unaryFuel_numeral numeral_2_eq_2 [symmetric] parseQuery_def queryStatement_def queryType_def busNameStatement_def queryCondition_def queryEnd_def initParser_def
     pbind_def pret_def consume_def check_at advance_at isAtEnd_at loop_def remaining_def logicOr_def logicAnd_def
     equality_def comparison_def termExpr_def factor_def unary_def primary_def variable_def variableBody_def
     factorBody_def termBody_def comparisonBody_def equalityBody_def logicAndBody_def logicOrBody_def
     notInBetween_def comparisonOperator_def peek_def peekNext_def previous_def tokenAt_def)
qed
definition exampleText :: string where
  "exampleText = ''SELECT*FROM a.b WHERE id<5''"

lemma exampleText_scans:
  "case scanTokens exampleText of Inl _ \<Rightarrow> False | Inr ts \<Rightarrow>
     map tokenType ts = [T_keywordSelect, T_star, T_keywordFrom, T_identifier, T_dot, T_identifier, T_keywordWhere,
       T_identifier, T_less, T_integral, T_endOfFile]
     \<and> lexeme (ts ! 7) = ''id'' \<and> tokenValue (ts ! 9) = VInt64 5"
  by code_simp

lemma exampleCondition_compiles:
  assumes "query_condition q = Some (EBinary (EVariable [t] ''id'') BinLt (ELiteral u))" "tokenValue u = VInt64 5"
  shows "compileQuery q = Inr \<lparr>code = [17, 0, 1, 0, 11, 0], constants = [I64 5], variablesDef = [''id'']\<rparr>"
  using assms by (simp add: compile_defs getOrRegisterVariable_def emptyChunk_def stackMax_def)


end
